(* ===== verification/Prelude.thy ===== *)
theory Prelude
  imports Main "HOL-Library.Word"
begin

section \<open>Shared vocabulary of the development\<close>

text \<open>
  What every component shares: Rust's \<open>Result\<close> as a sum, its fixed-width integers as words, and
  the parts of the standard library the sources use on \<open>str\<close> and \<open>[u8]\<close> values: splitting,
  trimming, ASCII case folding, decimal parsing and printing, big-endian bytes. A Rust \<open>str\<close> or
  byte slice that is handled as text is a \<open>string\<close>, one \<open>char\<close> per byte; a slice that is handled
  as binary data is a list of \<open>8 word\<close>.

  The collection \<open>result_simps\<close> holds the equations of the \<open>Result\<close> combinators, \<open>str_simps\<close>
  those of the text functions.
\<close>

named_theorems result_simps
named_theorems str_simps

unbundle bit_operations_syntax

type_synonym u8 = "8 word"
type_synonym u16 = "16 word"
type_synonym u32 = "32 word"
type_synonym u64 = "64 word"

text \<open>\<open>usize\<close> values are \<open>nat\<close>; the 64-bit bound is written out where the code saturates on it.\<close>

definition USIZE_MAX :: nat where
  "USIZE_MAX = 2 ^ 64 - 1"

definition U64_MAX :: nat where
  "U64_MAX = 2 ^ 64 - 1"

definition I64_MAX :: int where
  "I64_MAX = 2 ^ 63 - 1"

definition I64_MIN :: int where
  "I64_MIN = - (2 ^ 63)"

lemmas int_bounds = USIZE_MAX_def U64_MAX_def I64_MAX_def I64_MIN_def

subsection \<open>Result\<close>

type_synonym ('a, 'e) result = "'e + 'a"

abbreviation Ok :: "'a \<Rightarrow> ('a, 'e) result" where
  "Ok \<equiv> Inr"

abbreviation Err :: "'e \<Rightarrow> ('a, 'e) result" where
  "Err \<equiv> Inl"

text \<open>The \<open>?\<close> operator: go on with the value, or return the error.\<close>

definition and_then :: "('a, 'e) result \<Rightarrow> ('a \<Rightarrow> ('b, 'e) result) \<Rightarrow> ('b, 'e) result" where
  "and_then r f = (case r of Inl e \<Rightarrow> Inl e | Inr v \<Rightarrow> f v)"

definition map_err :: "('e \<Rightarrow> 'f) \<Rightarrow> ('a, 'e) result \<Rightarrow> ('a, 'f) result" where
  "map_err g r = (case r of Inl e \<Rightarrow> Inl (g e) | Inr v \<Rightarrow> Inr v)"

definition map_ok :: "('a \<Rightarrow> 'b) \<Rightarrow> ('a, 'e) result \<Rightarrow> ('b, 'e) result" where
  "map_ok g r = (case r of Inl e \<Rightarrow> Inl e | Inr v \<Rightarrow> Inr (g v))"

definition ok_or :: "'e \<Rightarrow> 'a option \<Rightarrow> ('a, 'e) result" where
  "ok_or e v = (case v of None \<Rightarrow> Inl e | Some x \<Rightarrow> Inr x)"

definition res_ok :: "('a, 'e) result \<Rightarrow> 'a option" where
  "res_ok r = (case r of Inl _ \<Rightarrow> None | Inr v \<Rightarrow> Some v)"

lemma and_then_simps [simp, result_simps]:
  "and_then (Inl e) f = Inl e" "and_then (Inr v) f = f v"
  by (simp_all add: and_then_def)

lemma map_err_simps [simp, result_simps]:
  "map_err g (Inl e) = Inl (g e)" "map_err g (Inr v) = Inr v"
  by (simp_all add: map_err_def)

lemma map_ok_simps [simp, result_simps]:
  "map_ok g (Inl e) = Inl e" "map_ok g (Inr v) = Inr (g v)"
  by (simp_all add: map_ok_def)

lemma ok_or_simps [simp, result_simps]:
  "ok_or e None = Inl e" "ok_or e (Some v) = Inr v"
  by (simp_all add: ok_or_def)

lemma res_ok_simps [simp, result_simps]:
  "res_ok (Inl e) = None" "res_ok (Inr v) = Some v"
  by (simp_all add: res_ok_def)

lemma and_then_eq_Inr:
  "and_then r f = Inr v \<longleftrightarrow> (\<exists>x. r = Inr x \<and> f x = Inr v)"
  by (cases r) auto

lemma and_then_eq_Inl:
  "and_then r f = Inl e \<longleftrightarrow> r = Inl e \<or> (\<exists>x. r = Inr x \<and> f x = Inl e)"
  by (cases r) auto

lemma map_err_eq_Inr: "map_err g r = Inr v \<longleftrightarrow> r = Inr v"
  by (cases r) auto

lemma map_err_eq_Inl: "map_err g r = Inl e \<longleftrightarrow> (\<exists>x. r = Inl x \<and> e = g x)"
  by (cases r) auto

lemma map_ok_eq_Inr: "map_ok g r = Inr v \<longleftrightarrow> (\<exists>x. r = Inr x \<and> v = g x)"
  by (cases r) auto

lemma map_ok_eq_Inl: "map_ok g r = Inl e \<longleftrightarrow> r = Inl e"
  by (cases r) auto

lemma ok_or_eq_Inr: "ok_or e v = Inr x \<longleftrightarrow> v = Some x"
  by (cases v) auto

lemma ok_or_eq_Inl: "ok_or e v = Inl x \<longleftrightarrow> v = None \<and> x = e"
  by (cases v) auto

lemma res_ok_eq_Some: "res_ok r = Some v \<longleftrightarrow> r = Inr v"
  by (cases r) auto

lemmas result_iffs =
  and_then_eq_Inr and_then_eq_Inl map_err_eq_Inr map_err_eq_Inl map_ok_eq_Inr map_ok_eq_Inl
  ok_or_eq_Inr ok_or_eq_Inl res_ok_eq_Some

lemma and_then_ErrE:
  assumes "and_then r f = Inl e"
  obtains "r = Inl e" | x where "r = Inr x" and "f x = Inl e"
  using assms by (cases r) auto

lemma and_then_OkE:
  assumes "and_then r f = Inr v"
  obtains x where "r = Inr x" and "f x = Inr v"
  using assms by (cases r) auto

text \<open>The three shapes of an optional result.\<close>

lemma option_result_cases [case_names None Err Ok]:
  fixes x :: "('a, 'e) result option"
  obtains "x = None" | e where "x = Some (Inl e)" | v where "x = Some (Inr v)"
  by (cases x; cases "the x") auto

text \<open>A \<open>Result\<close>-valued pass over a list, stopping at the first error (\<open>collect::<Result<_>>\<close>).\<close>

fun try_map :: "('a \<Rightarrow> ('b, 'e) result) \<Rightarrow> 'a list \<Rightarrow> ('b list, 'e) result" where
  "try_map f [] = Inr []"
| "try_map f (x # xs) = and_then (f x) (\<lambda>y. map_ok ((#) y) (try_map f xs))"

lemma try_map_Inr_length: "try_map f xs = Inr ys \<Longrightarrow> length ys = length xs"
  by (induction xs arbitrary: ys) (auto simp: result_iffs)

lemma try_map_all_Inr: "(\<And>x. x \<in> set xs \<Longrightarrow> f x = Inr (g x)) \<Longrightarrow> try_map f xs = Inr (map g xs)"
  by (induction xs) auto

text \<open>\<open>Iterator::try_fold\<close>.\<close>

fun try_fold :: "('s \<Rightarrow> 'a \<Rightarrow> ('s, 'e) result) \<Rightarrow> 's \<Rightarrow> 'a list \<Rightarrow> ('s, 'e) result" where
  "try_fold f s [] = Inr s"
| "try_fold f s (x # xs) = and_then (f s x) (\<lambda>s'. try_fold f s' xs)"

text \<open>What a sum over a list becomes when one element is replaced.\<close>

lemma list_all_update: "list_all P xs \<Longrightarrow> P y \<Longrightarrow> list_all P (xs[k := y])"
  by (auto simp: list_all_iff dest: set_update_subset_insert [THEN subsetD])

lemma sum_list_update_nat:
  fixes f :: "'a \<Rightarrow> nat"
  shows "i < length xs \<Longrightarrow> sum_list (map f (xs[i := x])) + f (xs ! i) = sum_list (map f xs) + f x"
  by (induction xs arbitrary: i) (auto split: nat.split)

subsection \<open>Text and byte slices\<close>

text \<open>\<open>split(sep)\<close>: the pieces between separators, at least one.\<close>

fun split_on :: "('a \<Rightarrow> bool) \<Rightarrow> 'a list \<Rightarrow> 'a list list" where
  "split_on p [] = [[]]"
| "split_on p (x # xs) =
     (if p x then [] # split_on p xs
      else (case split_on p xs of [] \<Rightarrow> [[x]] | w # ws \<Rightarrow> (x # w) # ws))"

lemma split_on_not_Nil [simp]: "split_on p xs \<noteq> []"
  by (induction xs) (auto split: list.splits)

lemma split_on_piece: "w \<in> set (split_on p xs) \<Longrightarrow> x \<in> set w \<Longrightarrow> x \<in> set xs \<and> \<not> p x"
  by (induction xs arbitrary: w) (fastforce split: if_splits list.splits)+

lemma split_on_no_sep: "(\<And>x. x \<in> set xs \<Longrightarrow> \<not> p x) \<Longrightarrow> split_on p xs = [xs]"
  by (induction xs) auto

lemma split_on_sep:
  "(\<And>x. x \<in> set xs \<Longrightarrow> \<not> p x) \<Longrightarrow> p s \<Longrightarrow> split_on p (xs @ s # ys) = xs # split_on p ys"
  by (induction xs) auto

lemma split_on_append:
  "p s \<Longrightarrow> split_on p (xs @ s # ys) = split_on p xs @ split_on p ys"
  by (induction xs) (auto split: list.splits)

text \<open>\<open>split_once(c)\<close>: around the first separator, if there is one.\<close>

fun split_once :: "'a \<Rightarrow> 'a list \<Rightarrow> ('a list \<times> 'a list) option" where
  "split_once c [] = None"
| "split_once c (x # xs) =
     (if x = c then Some ([], xs)
      else map_option (\<lambda>(a, b). (x # a, b)) (split_once c xs))"

lemma split_once_None: "split_once c xs = None \<longleftrightarrow> c \<notin> set xs"
  by (induction xs) auto

lemma split_once_append: "c \<notin> set xs \<Longrightarrow> split_once c (xs @ c # ys) = Some (xs, ys)"
  by (induction xs) auto

lemma split_once_Some: "split_once c xs = Some (a, b) \<longleftrightarrow> c \<notin> set a \<and> xs = a @ c # b"
proof (induction xs arbitrary: a)
  case Nil
  then show ?case by simp
next
  case (Cons x xs)
  then show ?case by (cases a) auto
qed

text \<open>\<open>strip_prefix\<close>.\<close>

fun strip_prefix :: "'a list \<Rightarrow> 'a list \<Rightarrow> 'a list option" where
  "strip_prefix [] s = Some s"
| "strip_prefix (p # ps) [] = None"
| "strip_prefix (p # ps) (x # xs) = (if p = x then strip_prefix ps xs else None)"

lemma strip_prefix_Some: "strip_prefix p s = Some r \<longleftrightarrow> s = p @ r"
  by (induction p s rule: strip_prefix.induct) auto

lemma strip_prefix_append [simp]: "strip_prefix p (p @ r) = Some r"
  by (simp add: strip_prefix_Some)

text \<open>ASCII case folding, and the comparisons that ignore it.\<close>

definition is_ascii_upper :: "char \<Rightarrow> bool" where
  "is_ascii_upper c \<longleftrightarrow> (65::nat) \<le> of_char c \<and> (of_char c :: nat) \<le> 90"

definition is_ascii_lower :: "char \<Rightarrow> bool" where
  "is_ascii_lower c \<longleftrightarrow> (97::nat) \<le> of_char c \<and> (of_char c :: nat) \<le> 122"

definition is_ascii_digit :: "char \<Rightarrow> bool" where
  "is_ascii_digit c \<longleftrightarrow> (48::nat) \<le> of_char c \<and> (of_char c :: nat) \<le> 57"

definition is_ascii_alphabetic :: "char \<Rightarrow> bool" where
  "is_ascii_alphabetic c \<longleftrightarrow> is_ascii_upper c \<or> is_ascii_lower c"

definition ascii_lower :: "char \<Rightarrow> char" where
  "ascii_lower c = (if is_ascii_upper c then char_of ((of_char c :: nat) + 32) else c)"

definition ascii_upper :: "char \<Rightarrow> char" where
  "ascii_upper c = (if is_ascii_lower c then char_of ((of_char c :: nat) - 32) else c)"

definition to_ascii_lowercase :: "string \<Rightarrow> string" where
  "to_ascii_lowercase s = map ascii_lower s"

definition to_ascii_uppercase :: "string \<Rightarrow> string" where
  "to_ascii_uppercase s = map ascii_upper s"

definition eq_ignore_ascii_case :: "string \<Rightarrow> string \<Rightarrow> bool" where
  "eq_ignore_ascii_case a b \<longleftrightarrow> to_ascii_lowercase a = to_ascii_lowercase b"

lemmas ascii_defs =
  is_ascii_upper_def is_ascii_lower_def is_ascii_digit_def is_ascii_alphabetic_def
  ascii_lower_def ascii_upper_def to_ascii_lowercase_def to_ascii_uppercase_def
  eq_ignore_ascii_case_def

lemma eq_ignore_ascii_case_refl [simp]: "eq_ignore_ascii_case s s"
  by (simp add: eq_ignore_ascii_case_def)

lemma ascii_upper_no_lower: "\<not> is_ascii_lower (ascii_upper c)"
  by (auto simp: ascii_upper_def is_ascii_lower_def)

lemma ascii_upper_id: "\<not> is_ascii_lower c \<Longrightarrow> ascii_upper c = c"
  by (simp add: ascii_upper_def)

lemma ascii_upper_idem [simp]: "ascii_upper (ascii_upper c) = ascii_upper c"
  by (simp add: ascii_upper_id ascii_upper_no_lower)

lemma to_ascii_uppercase_id:
  "\<not> list_ex is_ascii_lower s \<Longrightarrow> to_ascii_uppercase s = s"
  by (auto simp: to_ascii_uppercase_def list_ex_iff ascii_upper_id intro: map_idI)

lemma to_ascii_uppercase_idem [simp]:
  "to_ascii_uppercase (to_ascii_uppercase s) = to_ascii_uppercase s"
  by (simp add: to_ascii_uppercase_def)

lemma ascii_upper_lower [simp]: "ascii_upper (ascii_lower c) = ascii_upper c"
  by (auto simp: ascii_upper_def ascii_lower_def is_ascii_lower_def is_ascii_upper_def)

lemma to_ascii_uppercase_no_lower [simp]: "\<not> list_ex is_ascii_lower (to_ascii_uppercase s)"
  by (auto simp: to_ascii_uppercase_def list_ex_iff ascii_upper_no_lower)

lemma eq_ignore_ascii_case_upper:
  "eq_ignore_ascii_case a b \<Longrightarrow> to_ascii_uppercase a = to_ascii_uppercase b"
proof -
  have *: "to_ascii_uppercase s = to_ascii_uppercase (to_ascii_lowercase s)" for s
    by (simp add: to_ascii_uppercase_def to_ascii_lowercase_def)
  assume "eq_ignore_ascii_case a b"
  then show ?thesis using * [of a] * [of b] by (simp add: eq_ignore_ascii_case_def)
qed

text \<open>
  \<open>str::trim\<close> and \<open>[u8]::trim_ascii\<close>. The text the sources trim is ASCII (it comes from
  \<open>HeaderValue::to_str\<close>), where \<open>str\<close>'s white space is the tab to carriage return block and the
  space; \<open>trim_ascii\<close> leaves the vertical tab alone.
\<close>

definition is_space :: "char \<Rightarrow> bool" where
  "is_space c \<longleftrightarrow> (of_char c :: nat) = 32 \<or> (9::nat) \<le> of_char c \<and> (of_char c :: nat) \<le> 13"

definition is_ascii_whitespace :: "char \<Rightarrow> bool" where
  "is_ascii_whitespace c \<longleftrightarrow> (of_char c :: nat) \<in> {9, 10, 12, 13, 32}"

definition trim_end :: "string \<Rightarrow> string" where
  "trim_end s = rev (dropWhile is_space (rev s))"

definition trim :: "string \<Rightarrow> string" where
  "trim s = trim_end (dropWhile is_space s)"

definition trim_ascii :: "string \<Rightarrow> string" where
  "trim_ascii s = rev (dropWhile is_ascii_whitespace (rev (dropWhile is_ascii_whitespace s)))"

subsection \<open>Decimal numbers\<close>

definition digit_char :: "nat \<Rightarrow> char" where
  "digit_char d = char_of (48 + d)"

definition digit_val :: "char \<Rightarrow> nat" where
  "digit_val c = of_char c - 48"

lemma of_char_digit_char [simp]: "d < 10 \<Longrightarrow> (of_char (digit_char d) :: nat) = 48 + d"
  by (simp add: digit_char_def)

lemma digit_val_digit_char [simp]: "d < 10 \<Longrightarrow> digit_val (digit_char d) = d"
  by (simp add: digit_val_def)

lemma is_ascii_digit_digit_char [simp]: "d < 10 \<Longrightarrow> is_ascii_digit (digit_char d)"
  by (simp add: is_ascii_digit_def)

lemma digit_val_less [simp]: "is_ascii_digit c \<Longrightarrow> digit_val c < 10"
  unfolding is_ascii_digit_def digit_val_def by linarith

lemma digit_char_digit_val [simp]: "is_ascii_digit c \<Longrightarrow> digit_char (digit_val c) = c"
  by (simp add: is_ascii_digit_def digit_char_def digit_val_def)

text \<open>The value of a run of digits, most significant first.\<close>

definition digits_val :: "string \<Rightarrow> nat" where
  "digits_val s = foldl (\<lambda>acc c. acc * 10 + digit_val c) 0 s"

lemma foldl_digits:
  "foldl (\<lambda>acc c. acc * 10 + digit_val c) a s = a * 10 ^ length s + digits_val s"
proof (induction s arbitrary: a)
  case Nil
  then show ?case by (simp add: digits_val_def)
next
  case (Cons c s)
  have "digits_val (c # s) = digit_val c * 10 ^ length s + digits_val s"
    using Cons.IH [of "digit_val c"] by (simp add: digits_val_def)
  with Cons.IH [of "a * 10 + digit_val c"] show ?case by (simp add: algebra_simps)
qed

lemma digits_val_Nil [simp]: "digits_val [] = 0"
  by (simp add: digits_val_def)

lemma digits_val_Cons: "digits_val (c # s) = digit_val c * 10 ^ length s + digits_val s"
  using foldl_digits [of "digit_val c" s] by (simp add: digits_val_def)

lemma digits_val_append:
  "digits_val (s @ t) = digits_val s * 10 ^ length t + digits_val t"
  using foldl_digits [of "digits_val s" t] by (simp add: digits_val_def)

lemma digits_val_less: "list_all is_ascii_digit s \<Longrightarrow> digits_val s < 10 ^ length s"
proof (induction s)
  case Nil
  then show ?case by simp
next
  case (Cons c s)
  then have "digit_val c < 10" and "digits_val s < 10 ^ length s"
    by auto
  then have "digit_val c \<le> 9" and "digits_val s < 10 ^ length s"
    by linarith+
  then have "digit_val c * 10 ^ length s + digits_val s < 9 * 10 ^ length s + 10 ^ length s"
    by (intro add_le_less_mono mult_le_mono1)
  then show ?case by (simp add: digits_val_Cons)
qed

text \<open>The decimal text of a number, as \<open>to_string\<close> writes it.\<close>

fun show_nat :: "nat \<Rightarrow> string" where
  "show_nat n = (if n < 10 then [digit_char n] else show_nat (n div 10) @ [digit_char (n mod 10)])"

declare show_nat.simps [simp del]

definition show_int :: "int \<Rightarrow> string" where
  "show_int i = (if i < 0 then CHR ''-'' # show_nat (nat (- i)) else show_nat (nat i))"

lemma show_nat_digits: "list_all is_ascii_digit (show_nat n)"
  by (induction n rule: show_nat.induct) (subst show_nat.simps, simp)

lemma show_nat_not_Nil [simp]: "show_nat n \<noteq> []"
  by (subst show_nat.simps) simp

lemma digits_val_show_nat [simp]: "digits_val (show_nat n) = n"
proof (induction n rule: show_nat.induct)
  case (1 n)
  show ?case
  proof (cases "n < 10")
    case True
    then show ?thesis by (subst show_nat.simps) (simp add: digits_val_Cons)
  next
    case False
    with 1 have "digits_val (show_nat (n div 10)) = n div 10" by simp
    with False show ?thesis
      by (subst show_nat.simps) (simp add: digits_val_append digits_val_Cons)
  qed
qed

text \<open>
  \<open>str::parse\<close> for the integer types: an optional sign (\<open>-\<close> only for a signed type), at least one
  digit, digits only, and a value in the type's range.
\<close>

definition parse_digits :: "string \<Rightarrow> nat option" where
  "parse_digits s = (if s \<noteq> [] \<and> list_all is_ascii_digit s then Some (digits_val s) else None)"

definition parse_uint :: "nat \<Rightarrow> string \<Rightarrow> nat option" where
  "parse_uint mx s =
     (let body = (case s of c # cs \<Rightarrow> if c = CHR ''+'' then cs else s | [] \<Rightarrow> s)
      in case parse_digits body of Some n \<Rightarrow> if n \<le> mx then Some n else None | None \<Rightarrow> None)"

definition parse_nonzero :: "nat \<Rightarrow> string \<Rightarrow> nat option" where
  "parse_nonzero mx s =
     (case parse_uint mx s of Some n \<Rightarrow> if n = 0 then None else Some n | None \<Rightarrow> None)"

definition parse_i64 :: "string \<Rightarrow> int option" where
  "parse_i64 s =
     (let (neg, body) =
        (case s of
           [] \<Rightarrow> (False, s)
         | c # cs \<Rightarrow> if c = CHR ''-'' then (True, cs) else if c = CHR ''+'' then (False, cs) else (False, s))
      in case parse_digits body of
           None \<Rightarrow> None
         | Some n \<Rightarrow>
             (let v = (if neg then - int n else int n)
              in if I64_MIN \<le> v \<and> v \<le> I64_MAX then Some v else None))"

lemma parse_digits_show_nat [simp]: "parse_digits (show_nat n) = Some n"
  by (simp add: parse_digits_def show_nat_digits)

lemma show_nat_first: "show_nat n = c # cs \<Longrightarrow> is_ascii_digit c"
  using show_nat_digits [of n] by simp

lemma parse_i64_show_int:
  assumes "I64_MIN \<le> i" and "i \<le> I64_MAX"
  shows "parse_i64 (show_int i) = Some i"
proof (cases "i < 0")
  case True
  with assms show ?thesis by (simp add: parse_i64_def show_int_def)
next
  case False
  obtain c cs where s: "show_nat (nat i) = c # cs"
    by (cases "show_nat (nat i)") auto
  then have "is_ascii_digit c" by (rule show_nat_first)
  then have "c \<noteq> CHR ''-''" and "c \<noteq> CHR ''+''"
    by (auto simp: is_ascii_digit_def)
  moreover have "parse_digits (c # cs) = Some (nat i)"
    using parse_digits_show_nat [of "nat i"] by (simp add: s)
  ultimately show ?thesis
    using False assms by (simp add: parse_i64_def show_int_def s)
qed

lemma parse_i64_bounds: "parse_i64 s = Some i \<Longrightarrow> I64_MIN \<le> i \<and> i \<le> I64_MAX"
  by (auto simp: parse_i64_def Let_def split: option.splits if_splits list.splits)

lemma parse_uint_bound: "parse_uint mx s = Some n \<Longrightarrow> n \<le> mx"
  by (auto simp: parse_uint_def Let_def split: option.splits if_splits)

lemma parse_nonzero_pos: "parse_nonzero mx s = Some n \<Longrightarrow> 0 < n \<and> n \<le> mx"
  by (auto simp: parse_nonzero_def dest: parse_uint_bound split: option.splits if_splits)

text \<open>\<open>NonZeroUsize::saturating_mul\<close>.\<close>

definition saturating_mul :: "nat \<Rightarrow> nat \<Rightarrow> nat" where
  "saturating_mul a b = min (a * b) USIZE_MAX"

definition saturating_add :: "nat \<Rightarrow> nat \<Rightarrow> nat" where
  "saturating_add a b = min (a + b) USIZE_MAX"

lemma saturating_mul_pos: "0 < a \<Longrightarrow> 0 < b \<Longrightarrow> 0 < saturating_mul a b"
  by (simp add: saturating_mul_def USIZE_MAX_def)

lemma saturating_add_le: "a + b \<le> USIZE_MAX \<Longrightarrow> saturating_add a b = a + b"
  by (simp add: saturating_add_def)

end
