(* ===== verification/Numeric.thy ===== *)
theory Numeric
  imports Prelude
begin

section \<open>Postgres \<open>NUMERIC\<close> (\<open>src/db/numeric.rs\<close>)\<close>

text \<open>
  The binary form of a decimal number and its text: \<open>decode\<close> and \<open>encode\<close>. On the wire a number is four
  words (how many groups, the power of 10000 of the first, the sign, the decimal places shown) and its
  base-10000 groups, without zero groups at either end; as text it has an optional sign, digits and
  possibly a point.

  The result: every text that is accepted is read back as its normal form, whatever its length, scale and
  zeros, and in particular a canonical text as itself.
\<close>

subsection \<open>The wire format\<close>

definition DIGITS_PER_GROUP :: nat where "DIGITS_PER_GROUP = 4"
definition HEADER_WORDS :: nat where "HEADER_WORDS = 4"
definition NBASE :: u16 where "NBASE = 10000"
definition MAX_DSCALE :: nat where "MAX_DSCALE = 0x3FFF"

definition SIGN_POSITIVE :: u16 where "SIGN_POSITIVE = 0x0000"
definition SIGN_NEGATIVE :: u16 where "SIGN_NEGATIVE = 0x4000"
definition SIGN_NAN :: u16 where "SIGN_NAN = 0xC000"
definition SIGN_POS_INFINITY :: u16 where "SIGN_POS_INFINITY = 0xD000"
definition SIGN_NEG_INFINITY :: u16 where "SIGN_NEG_INFINITY = 0xF000"

lemmas sign_defs = SIGN_POSITIVE_def SIGN_NEGATIVE_def SIGN_NAN_def SIGN_POS_INFINITY_def SIGN_NEG_INFINITY_def

datatype NumericError =
    Truncated nat
  | Sign u16
  | Syntax string
  | TooLargeNumber string
  | Scale string
  | Digit u16

definition from_be_bytes :: "u8 \<Rightarrow> u8 \<Rightarrow> u16" where
  "from_be_bytes hi lo = of_nat (unat hi * 256 + unat lo)"

definition to_be_bytes :: "u16 \<Rightarrow> u8 list" where
  "to_be_bytes w = [of_nat (unat w div 256), of_nat (unat w)]"

definition word_at :: "u8 list \<Rightarrow> nat \<Rightarrow> (u16, NumericError) result" where
  "word_at buf i =
     (if 2 * i + 2 \<le> length buf then Ok (from_be_bytes (buf ! (2 * i)) (buf ! (2 * i + 1)))
      else Err (Truncated (length buf)))"

definition write_words :: "u8 list \<Rightarrow> u16 list \<Rightarrow> u8 list" where
  "write_words out words = out @ concat (map to_be_bytes words)"

text \<open>\<open>{:04}\<close>.\<close>

definition format_04 :: "nat \<Rightarrow> string" where
  "format_04 n = replicate (4 - length (show_nat n)) CHR ''0'' @ show_nat n"

subsection \<open>Reading\<close>

definition digit_group :: "u16 list \<Rightarrow> int \<Rightarrow> nat" where
  "digit_group digits g = (if 0 \<le> g \<and> nat g < length digits then unat (digits ! nat g) else 0)"

definition div_ceil :: "nat \<Rightarrow> nat \<Rightarrow> nat" where
  "div_ceil a b = (a + b - 1) div b"

text \<open>The text of a finite number.\<close>

definition decode_number :: "string \<Rightarrow> int \<Rightarrow> nat \<Rightarrow> u16 list \<Rightarrow> string" where
  "decode_number prefix weight dscale digits =
     (let group = digit_group digits;
          integer = (if weight < 0 then ''0''
                     else show_nat (group 0) @ concat (map (\<lambda>g. format_04 (group g)) [1..weight]));
          fraction_groups = int (div_ceil dscale DIGITS_PER_GROUP);
          fraction = take dscale (concat (map (\<lambda>g. format_04 (group g)) [weight + 1..weight + fraction_groups]))
      in if fraction = [] then prefix @ integer else prefix @ integer @ ''.'' @ fraction)"

definition numeric_decode :: "u8 list \<Rightarrow> (string, NumericError) result" where
  "numeric_decode buf =
     and_then (word_at buf 0) (\<lambda>ndigits.
     and_then (word_at buf 1) (\<lambda>weight.
     and_then (word_at buf 2) (\<lambda>sign.
     and_then (word_at buf 3) (\<lambda>dscale.
     and_then (try_map (\<lambda>i. word_at buf (HEADER_WORDS + i)) [0..<unat ndigits]) (\<lambda>digits.
       case find (\<lambda>d. NBASE \<le> d) digits of
         Some d \<Rightarrow> Err (Digit d)
       | None \<Rightarrow>
           if sign = SIGN_POSITIVE then Ok (decode_number [] (sint weight) (unat dscale) digits)
           else if sign = SIGN_NEGATIVE then Ok (decode_number ''-'' (sint weight) (unat dscale) digits)
           else if sign = SIGN_NAN then Ok ''NaN''
           else if sign = SIGN_POS_INFINITY then Ok ''Infinity''
           else if sign = SIGN_NEG_INFINITY then Ok ''-Infinity''
           else Err (Sign sign))))))"

subsection \<open>Writing\<close>

definition special_sign :: "string \<Rightarrow> u16 option" where
  "special_sign s =
     (if s = ''NaN'' then Some SIGN_NAN
      else if s = ''Infinity'' \<or> s = ''inf'' then Some SIGN_POS_INFINITY
      else if s = ''-Infinity'' \<or> s = ''-inf'' then Some SIGN_NEG_INFINITY
      else None)"

definition split_number :: "string \<Rightarrow> bool \<times> string \<times> string" where
  "split_number s =
     (let (negative, unsigned) = (case s of c # rest \<Rightarrow> if c = CHR ''-'' then (True, rest) else (False, s) | [] \<Rightarrow> (False, s));
          (integer, fraction) = (case split_once CHR ''.'' unsigned of Some p \<Rightarrow> p | None \<Rightarrow> (unsigned, []))
      in (negative, integer, fraction))"

definition pad_len :: "nat \<Rightarrow> nat" where
  "pad_len n = (DIGITS_PER_GROUP - n mod DIGITS_PER_GROUP) mod DIGITS_PER_GROUP"

function chunks :: "string \<Rightarrow> string list" where
  "chunks xs = (if xs = [] then [] else take 4 xs # chunks (drop 4 xs))"
  by pat_completeness auto
termination by (relation "measure length") auto

declare chunks.simps [simp del]

definition group_of :: "string \<Rightarrow> u16" where
  "group_of c = foldl (\<lambda>acc d. acc * 10 + of_nat (digit_val d)) 0 c"

definition rposition :: "('a \<Rightarrow> bool) \<Rightarrow> 'a list \<Rightarrow> nat option" where
  "rposition P xs = (if list_ex P xs then Some (length xs - 1 - length (takeWhile (\<lambda>x. \<not> P x) (rev xs))) else None)"

definition significant_groups :: "u16 list \<Rightarrow> u16 list" where
  "significant_groups groups =
     (let rest = dropWhile (\<lambda>g. g = 0) groups
      in case rposition (\<lambda>g. g \<noteq> 0) rest of None \<Rightarrow> [] | Some k \<Rightarrow> take (k + 1) rest)"

definition numeric_encode :: "string \<Rightarrow> u8 list \<Rightarrow> (u8 list, NumericError) result" where
  "numeric_encode s out =
     (case special_sign s of
        Some sign \<Rightarrow> Ok (write_words out [0, 0, sign, 0])
      | None \<Rightarrow>
          (let (negative, integer, fraction) = split_number s
           in if integer = [] \<and> fraction = [] \<or> \<not> list_all is_ascii_digit integer \<or> \<not> list_all is_ascii_digit fraction
              then Err (Syntax s)
              else
                (let integer = dropWhile (\<lambda>c. c = CHR ''0'') integer;
                     lead_pad = pad_len (length integer);
                     tail_pad = pad_len (length fraction);
                     padded = replicate lead_pad CHR ''0'' @ integer @ fraction @ replicate tail_pad CHR ''0'';
                     groups = map group_of (chunks padded);
                     integer_groups = (lead_pad + length integer) div DIGITS_PER_GROUP;
                     leading_zeros = length (takeWhile (\<lambda>g. g = 0) groups);
                     significant = significant_groups groups;
                     weight = (if significant = [] then 0 else int integer_groups - 1 - int leading_zeros);
                     sign = (if negative \<and> significant \<noteq> [] then SIGN_NEGATIVE else SIGN_POSITIVE)
                 in if weight < - (2 ^ 15) \<or> 2 ^ 15 \<le> weight then Err (TooLargeNumber s)
                    else if 2 ^ 16 \<le> length significant then Err (TooLargeNumber s)
                    else if MAX_DSCALE < length fraction then Err (Scale s)
                    else Ok (write_words
                               (write_words out [of_nat (length significant), of_int weight, sign, of_nat (length fraction)])
                               significant))))"

text \<open>The text a number is read back as: no superfluous zero in front, no sign on a zero.\<close>

definition normal_form :: "string \<Rightarrow> string" where
  "normal_form s =
     (if s = ''inf'' then ''Infinity'' else if s = ''-inf'' then ''-Infinity''
      else if special_sign s \<noteq> None then s
      else
        let (negative, integer, fraction) = split_number s;
            trimmed = dropWhile (\<lambda>c. c = CHR ''0'') integer;
            is_zero = trimmed = [] \<and> list_all (\<lambda>c. c = CHR ''0'') fraction
        in (if negative \<and> \<not> is_zero then ''-'' else []) @ (if trimmed = [] then ''0'' else trimmed) @
           (if fraction = [] then [] else ''.'' @ fraction))"

subsection \<open>Words and bytes\<close>

lemma from_to_be: "\<exists>a b. to_be_bytes w = [a, b] \<and> from_be_bytes a b = w"
proof -
  have "unat w < 65536" using unsigned_less [of w] by simp
  then have "unat (of_nat (unat w div 256) :: u8) = unat w div 256" by (simp add: unsigned_of_nat take_bit_eq_mod)
  moreover have "unat (of_nat (unat w) :: u8) = unat w mod 256" unfolding unsigned_of_nat take_bit_eq_mod by simp
  ultimately have "from_be_bytes (of_nat (unat w div 256)) (of_nat (unat w)) = of_nat (unat w div 256 * 256 + unat w mod 256)"
    unfolding from_be_bytes_def by simp
  then show ?thesis by (simp add: to_be_bytes_def)
qed

lemma length_to_be [simp]: "length (to_be_bytes w) = 2" by (simp add: to_be_bytes_def)

lemma write_words_append: "write_words (write_words out ws) vs = write_words out (ws @ vs)"
  by (simp add: write_words_def)

lemma length_words [simp]: "length (concat (map to_be_bytes ws)) = 2 * length ws"
  by (induction ws) simp_all

lemma word_at_words:
  "i < length ws \<Longrightarrow> word_at (concat (map to_be_bytes ws)) i = Ok (ws ! i)"
proof (induction ws arbitrary: i)
  case (Cons w ws)
  obtain a b where w: "to_be_bytes w = [a, b]" "from_be_bytes a b = w" using from_to_be by blast
  show ?case
  proof (cases i)
    case 0
    with w show ?thesis by (simp add: word_at_def)
  next
    case (Suc k)
    with Cons have "word_at (concat (map to_be_bytes ws)) k = Ok (ws ! k)" by simp
    with Suc Cons.prems w show ?thesis by (simp add: word_at_def)
  qed
qed simp

subsection \<open>Groups of digits\<close>

lemma zero_digit [simp]: "digit_val CHR ''0'' = 0" "is_ascii_digit CHR ''0''"
  by (simp_all add: digit_val_def is_ascii_digit_def)

lemma digit_val_zero: "is_ascii_digit c \<Longrightarrow> digit_val c = 0 \<longleftrightarrow> c = CHR ''0''"
  by (metis digit_char_digit_val zero_digit(1,2))

lemma digit_char_0 [simp]: "digit_char 0 = CHR ''0''"
  by (metis digit_char_digit_val zero_digit)

lemma digits_val_trim: "digits_val (dropWhile (\<lambda>c. c = CHR ''0'') s) = digits_val s"
  by (induction s) (simp_all add: digits_val_Cons)

lemma digits_val_pos: "list_all is_ascii_digit (c # s) \<Longrightarrow> c \<noteq> CHR ''0'' \<Longrightarrow> 0 < digits_val (c # s)"
  using digit_val_zero [of c] by (simp add: digits_val_Cons)

lemma show_nat_digits_val:
  "list_all is_ascii_digit s \<Longrightarrow> s \<noteq> [] \<Longrightarrow> hd s \<noteq> CHR ''0'' \<Longrightarrow> show_nat (digits_val s) = s"
proof (induction s rule: rev_induct)
  case (snoc d s)
  then have d: "digit_val d < 10" "digit_char (digit_val d) = d" by simp_all
  show ?case
  proof (cases s)
    case Nil
    with d show ?thesis by (subst show_nat.simps) (simp add: digits_val_Cons)
  next
    case (Cons c cs)
    with snoc have "0 < digits_val s" using digits_val_pos [of c cs] by simp
    moreover have "digits_val (s @ [d]) = digits_val s * 10 + digit_val d"
      by (simp add: digits_val_append digits_val_Cons)
    ultimately show ?thesis using snoc Cons d by (subst show_nat.simps) simp
  qed
qed simp

lemma show_nat_trim:
  assumes "list_all is_ascii_digit s"
  shows "show_nat (digits_val s) = (let t = dropWhile (\<lambda>c. c = CHR ''0'') s in if t = [] then ''0'' else t)"
proof (cases "dropWhile (\<lambda>c. c = CHR ''0'') s = []")
  case True
  then have "digits_val s = 0" by (metis digits_val_Nil digits_val_trim)
  then show ?thesis using True by (subst show_nat.simps) simp
next
  case False
  have "list_all is_ascii_digit (dropWhile (\<lambda>c. c = CHR ''0'') s)" using assms
    by (auto simp: list_all_iff dest: set_dropWhileD)
  then show ?thesis
    using False hd_dropWhile [OF False] show_nat_digits_val [of "dropWhile (\<lambda>c. c = CHR ''0'') s"]
    by (auto simp: digits_val_trim)
qed

lemma trim_split:
  "s = replicate (length s - length (dropWhile (\<lambda>c. c = z) s)) z @ dropWhile (\<lambda>c. c = z) s"
proof -
  have t: "takeWhile (\<lambda>c. c = z) s = replicate (length (takeWhile (\<lambda>c. c = z) s)) z"
    by (rule replicate_eqI) (auto dest: set_takeWhileD)
  have "length s - length (dropWhile (\<lambda>c. c = z) s) = length (takeWhile (\<lambda>c. c = z) s)"
    by (metis add_diff_cancel_right' length_append takeWhile_dropWhile_id)
  with t show ?thesis by (metis takeWhile_dropWhile_id)
qed

lemma format_04_digits:
  assumes "list_all is_ascii_digit c" "length c = 4"
  shows "format_04 (digits_val c) = c"
proof (cases "dropWhile (\<lambda>c. c = CHR ''0'') c = []")
  case True
  then have "c = replicate 4 CHR ''0''" using trim_split [of c "CHR ''0''"] assms(2) by (metis append_Nil2 diff_zero list.size(3))
  then show ?thesis using show_nat_trim [OF assms(1)] True by (simp add: format_04_def eval_nat_numeral)
next
  case False
  then have "show_nat (digits_val c) = dropWhile (\<lambda>c. c = CHR ''0'') c"
    using show_nat_trim [OF assms(1)] by (simp only: Let_def if_False)
  then show ?thesis using trim_split [of c "CHR ''0''"] assms(2) by (simp only: format_04_def)
qed

lemma group_of_digits:
  assumes "list_all is_ascii_digit c" "length c = 4"
  shows "unat (group_of c) = digits_val c"
proof -
  have "foldl (\<lambda>acc d. acc * 10 + of_nat (digit_val d)) (of_nat a) c = (of_nat (foldl (\<lambda>acc d. acc * 10 + digit_val d) a c) :: u16)" for a
  proof (induction c arbitrary: a)
    case (Cons d c)
    from Cons [of "a * 10 + digit_val d"] show ?case by simp
  qed simp
  from this [of 0] have "group_of c = of_nat (digits_val c)" by (simp add: group_of_def digits_val_def)
  with digits_val_less [OF assms(1)] assms(2) show ?thesis by (simp add: unat_of_nat)
qed

lemma chunks_append: "length xs = 4 * n \<Longrightarrow> chunks (xs @ ys) = chunks xs @ chunks ys"
proof (induction n arbitrary: xs)
  case 0
  then show ?case by (simp add: chunks.simps [of "[]"])
next
  case (Suc n)
  then have "chunks (drop 4 xs @ ys) = chunks (drop 4 xs) @ chunks ys" by simp
  with Suc.prems show ?case by (subst (1 2) chunks.simps) auto
qed

lemma chunks_groups:
  assumes "list_all is_ascii_digit xs" and "length xs = 4 * n"
  shows "concat (map (\<lambda>g. format_04 (unat g)) (map group_of (chunks xs))) = xs \<and> length (chunks xs) = n \<and>
     list_all (\<lambda>g. g < NBASE) (map group_of (chunks xs))"
  using assms
proof (induction n arbitrary: xs)
  case 0
  then show ?case by (simp add: chunks.simps [of "[]"])
next
  case (Suc n)
  then have c: "list_all is_ascii_digit (take 4 xs)" "length (take 4 xs) = 4" "xs \<noteq> []"
    by (auto simp: list_all_iff dest: in_set_takeD)
  have ih: "list_all is_ascii_digit (drop 4 xs)" "length (drop 4 xs) = 4 * n"
    using Suc.prems by (auto simp: list_all_iff dest: in_set_dropD)
  have "group_of (take 4 xs) < NBASE"
    using digits_val_less [OF c(1)] c(2) group_of_digits [OF c(1,2)] by (simp add: word_less_nat_alt NBASE_def)
  with Suc.IH [OF ih] c show ?case
    by (subst (1 2 3) chunks.simps) (simp add: group_of_digits format_04_digits)
qed

subsection \<open>Zero groups\<close>

text \<open>The groups sent are those of the number without the zero groups at its ends.\<close>

lemma strip_end: "xs = rev (dropWhile P (rev xs)) @ rev (takeWhile P (rev xs))"
  by (metis rev_append rev_rev_ident takeWhile_dropWhile_id)

lemma takeWhile_replicate: "takeWhile (\<lambda>g. g = z) xs = replicate (length (takeWhile (\<lambda>g. g = z) xs)) z"
  by (induction xs) simp_all

lemma take_rposition:
  assumes "list_ex Q xs"
  shows "\<exists>k. rposition Q xs = Some k \<and> take (k + 1) xs = rev (dropWhile (\<lambda>x. \<not> Q x) (rev xs))"
proof -
  let ?keep = "rev (dropWhile (\<lambda>x. \<not> Q x) (rev xs))" and ?cut = "takeWhile (\<lambda>x. \<not> Q x) (rev xs)"
  have split: "xs = ?keep @ rev ?cut" by (rule strip_end)
  have "?keep \<noteq> []" using assms by (auto simp: list_ex_iff)
  then have "0 < length ?keep" by blast
  moreover have "length xs = length ?keep + length ?cut" using arg_cong [OF split, of length] by simp
  ultimately have "length xs - 1 - length ?cut + 1 = length ?keep" by linarith
  moreover have "take (length ?keep) xs = ?keep" using split by (metis append_eq_conv_conj)
  ultimately show ?thesis using assms unfolding rposition_def by (metis (no_types))
qed

lemma significant_split:
  "\<exists>tz. groups = replicate (length (takeWhile (\<lambda>g. g = 0) groups)) 0 @ significant_groups groups @ replicate tz 0"
proof -
  let ?rest = "dropWhile (\<lambda>g. g = 0) groups"
  have "\<exists>tz. ?rest = significant_groups groups @ replicate tz 0"
  proof (cases ?rest)
    case Nil
    then show ?thesis unfolding significant_groups_def Let_def Nil by (simp add: rposition_def)
  next
    case (Cons g gs)
    then have "g \<noteq> 0" by (simp add: dropWhile_eq_Cons_conv)
    with Cons have ex: "list_ex (\<lambda>g. g \<noteq> 0) ?rest" by simp
    have "significant_groups groups = rev (dropWhile (\<lambda>g. g = 0) (rev ?rest))"
      using take_rposition [OF ex] by (auto simp: significant_groups_def)
    moreover have "?rest = rev (dropWhile (\<lambda>g. g = 0) (rev ?rest)) @ rev (takeWhile (\<lambda>g. g = 0) (rev ?rest))"
      by (rule strip_end)
    ultimately have "?rest = significant_groups groups @ replicate (length (takeWhile (\<lambda>g. g = 0) (rev ?rest))) 0"
      by (metis takeWhile_replicate rev_replicate)
    then show ?thesis ..
  qed
  then show ?thesis using takeWhile_dropWhile_id [of "\<lambda>g. g = 0" groups] takeWhile_replicate [of 0 groups] by metis
qed

lemma significant_Nil: "significant_groups groups = [] \<longleftrightarrow> list_all (\<lambda>g. g = 0) groups"
proof
  assume "significant_groups groups = []"
  then obtain a b where "groups = replicate a 0 @ replicate b 0"
    using significant_split [of groups] by auto
  then show "list_all (\<lambda>g. g = 0) groups" by (auto simp: list_all_iff)
next
  assume "list_all (\<lambda>g. g = 0) groups"
  then have "dropWhile (\<lambda>g. g = 0) groups = []" by (simp add: list_all_iff)
  then show "significant_groups groups = []" by (simp only: significant_groups_def rposition_def Let_def) simp
qed

lemma digit_group_strip:
  assumes "groups = replicate lz 0 @ sig @ replicate tz 0" and "0 \<le> g + int lz"
  shows "digit_group sig g = digit_group groups (g + int lz)"
proof (cases "0 \<le> g")
  case True
  then show ?thesis unfolding assms(1) digit_group_def by (auto simp: nth_append nat_add_distrib)
next
  case False
  then have "nat (g + int lz) < lz" using assms(2) by linarith
  with False show ?thesis unfolding assms(1) digit_group_def by (simp add: nth_append)
qed

lemma digit_group_out: "list_all (\<lambda>g. g = 0) groups \<Longrightarrow> digit_group groups k = 0"
  by (auto simp: digit_group_def list_all_length)

lemma map_digit_groups:
  assumes "i + n \<le> length groups"
  shows "map (\<lambda>k. h (digit_group groups k)) [int i..int i + int n - 1] = map (\<lambda>g. h (unat g)) (take n (drop i groups))"
  using assms by (intro nth_equalityI) (auto simp: nth_upto digit_group_def nat_add_distrib)

text \<open>Reading the groups from their place before the zero groups were dropped gives the same digits.\<close>

lemma map_significant:
  assumes "groups = replicate lz 0 @ sig @ replicate tz 0" and "i + n \<le> length groups"
  shows "map (\<lambda>k. h (digit_group sig k)) [int i - int lz..int i - int lz + int n - 1] =
         map (\<lambda>g. h (unat g)) (take n (drop i groups))"
proof -
  have "map (\<lambda>k. h (digit_group sig k)) [int i - int lz..int i - int lz + int n - 1] =
        map (\<lambda>k. h (digit_group groups k)) [int i..int i + int n - 1]"
    by (intro nth_equalityI) (auto simp: nth_upto digit_group_strip [OF assms(1)] algebra_simps)
  with map_digit_groups [OF assms(2)] show ?thesis by simp
qed

lemma show_nat_hd: "n \<noteq> 0 \<Longrightarrow> show_nat n \<noteq> [] \<and> hd (show_nat n) \<noteq> CHR ''0''"
proof (induction n rule: show_nat.induct)
  case (1 n)
  have dig: "k < 10 \<Longrightarrow> k \<noteq> 0 \<Longrightarrow> digit_char k \<noteq> CHR ''0''" for k
    by (metis digit_val_digit_char zero_digit(1))
  show ?case
  proof (cases "n < 10")
    case True
    with 1 dig [of n] show ?thesis by (subst (1 2) show_nat.simps) simp
  next
    case False
    with 1 have "show_nat (n div 10) \<noteq> [] \<and> hd (show_nat (n div 10)) \<noteq> CHR ''0''" by auto
    with False show ?thesis by (subst (1 2) show_nat.simps) simp
  qed
qed

lemma format_04_zeros: "list_all (\<lambda>c. c = CHR ''0'') (format_04 n) \<longleftrightarrow> n = 0"
proof (cases "n = 0")
  case True
  then show ?thesis by (simp add: format_04_def show_nat.simps [of 0] list_all_iff)
next
  case False
  then show ?thesis using show_nat_hd [OF False] by (cases "show_nat n") (auto simp: format_04_def)
qed

lemma groups_zeros:
  "list_all (\<lambda>c. c = CHR ''0'') (concat (map (\<lambda>g. format_04 (unat g)) groups)) \<longleftrightarrow> list_all (\<lambda>g. g = 0) groups"
  by (induction groups) (simp_all add: format_04_zeros unsigned_eq_0_iff)


subsection \<open>The round trip\<close>

lemma pad_len_multiple: "\<exists>n. pad_len k + k = 4 * n" "pad_len k < 4" "\<exists>n. k + pad_len k = 4 * n \<and> div_ceil k 4 = n"
proof -
  have "k = 4 * (k div 4) + k mod 4" by simp
  then consider "k = 4 * (k div 4)" "k mod 4 = 0" | j where "k = 4 * (k div 4) + j" "k mod 4 = j" "0 < j" "j < 4"
    by (cases "k mod 4 = 0") auto
  then have "pad_len k + k = 4 * div_ceil k 4 \<and> pad_len k < 4"
  proof cases
    case 1
    then obtain q where "k = 4 * q" by blast
    then show ?thesis by (simp add: pad_len_def DIGITS_PER_GROUP_def div_ceil_def)
  next
    case (2 j)
    then have "pad_len k = 4 - j" by (simp add: pad_len_def DIGITS_PER_GROUP_def)
    moreover have "div_ceil k 4 = k div 4 + 1" using 2 by (simp add: div_ceil_def)
    ultimately show ?thesis using 2 by linarith
  qed
  then show "\<exists>n. pad_len k + k = 4 * n" "pad_len k < 4" "\<exists>n. k + pad_len k = 4 * n \<and> div_ceil k 4 = n"
    by (auto simp: add.commute)
qed

lemma dropWhile_replicate: "t \<noteq> [] \<Longrightarrow> hd t \<noteq> z \<Longrightarrow> dropWhile (\<lambda>c. c = z) (replicate n z @ t) = t"
  by (induction n) (cases t, simp_all)

text \<open>A nonzero first group, printed without padding, loses exactly the zeros the digits were padded with.\<close>

lemma integer_digits:
  assumes digits: "concat (map (\<lambda>g. format_04 (unat g)) (g # gs)) = replicate k CHR ''0'' @ t"
    and "k < 4" and t: "t \<noteq> []" "hd t \<noteq> CHR ''0''"
  shows "unat g \<noteq> 0 \<and> show_nat (unat g) @ concat (map (\<lambda>g. format_04 (unat g)) gs) = t"
proof -
  let ?n = "4 - length (show_nat (unat g))" and ?rest = "concat (map (\<lambda>g. format_04 (unat g)) gs)"
  have eq: "replicate ?n CHR ''0'' @ show_nat (unat g) @ ?rest = replicate k CHR ''0'' @ t"
    using digits by (simp add: format_04_def)
  have "unat g \<noteq> 0"
  proof
    assume "unat g = 0"
    then have "replicate 4 CHR ''0'' @ ?rest = replicate k CHR ''0'' @ t"
      using eq by (simp add: show_nat.simps [of 0] eval_nat_numeral)
    then have "(replicate 4 CHR ''0'' @ ?rest) ! k = (replicate k CHR ''0'' @ t) ! k" by simp
    with t \<open>k < 4\<close> show False by (simp add: nth_append hd_conv_nth)
  qed
  moreover from show_nat_hd [OF this]
  have "dropWhile (\<lambda>c. c = CHR ''0'') (replicate ?n CHR ''0'' @ show_nat (unat g) @ ?rest) = show_nat (unat g) @ ?rest"
    by (intro dropWhile_replicate) simp_all
  moreover have "dropWhile (\<lambda>c. c = CHR ''0'') (replicate k CHR ''0'' @ t) = t"
    using t by (rule dropWhile_replicate)
  ultimately show ?thesis using eq by metis
qed


text \<open>The groups of a padded number: those of its integer part, then those of its fraction.\<close>

lemma padded_groups:
  assumes "list_all is_ascii_digit t" "list_all is_ascii_digit f"
    and "lead = pad_len (length t)" "tail = pad_len (length f)"
  obtains gi gf where
    "map group_of (chunks (replicate lead CHR ''0'' @ t @ f @ replicate tail CHR ''0'')) = gi @ gf"
    "concat (map (\<lambda>g. format_04 (unat g)) gi) = replicate lead CHR ''0'' @ t"
    "concat (map (\<lambda>g. format_04 (unat g)) gf) = f @ replicate tail CHR ''0''"
    "length gi = (lead + length t) div DIGITS_PER_GROUP"
    "length gf = div_ceil (length f) DIGITS_PER_GROUP"
    "list_all (\<lambda>g. g < NBASE) (gi @ gf)"
proof -
  let ?i = "replicate lead CHR ''0'' @ t" and ?f = "f @ replicate tail CHR ''0''"
  obtain n where n: "lead + length t = 4 * n" using pad_len_multiple(1) assms(3) by metis
  obtain m where m: "length f + tail = 4 * m" "div_ceil (length f) 4 = m" using pad_len_multiple(3) assms(4) by metis
  have i: "list_all is_ascii_digit ?i" "length ?i = 4 * n" using assms(1) n by (auto simp: list_all_iff)
  have f: "list_all is_ascii_digit ?f" "length ?f = 4 * m" using assms(2) m by (auto simp: list_all_iff)
  have split: "map group_of (chunks (?i @ ?f)) = map group_of (chunks ?i) @ map group_of (chunks ?f)"
    using chunks_append [OF i(2)] by simp
  show thesis
    by (rule that [of "map group_of (chunks ?i)" "map group_of (chunks ?f)"])
       (use chunks_groups [OF i] chunks_groups [OF f] split n m in \<open>simp_all add: DIGITS_PER_GROUP_def\<close>)
qed

lemma decode_number_groups:
  assumes groups: "groups = gi @ gf"
    and int_part: "concat (map (\<lambda>g. format_04 (unat g)) gi) = replicate lead CHR ''0'' @ t" "lead < 4"
    and t: "t = [] \<Longrightarrow> gi = []" "t \<noteq> [] \<Longrightarrow> hd t \<noteq> CHR ''0''"
    and frac: "concat (map (\<lambda>g. format_04 (unat g)) gf) = f @ replicate tail CHR ''0''"
      "length gf = div_ceil (length f) DIGITS_PER_GROUP"
    and sig: "sig = significant_groups groups" "lz = length (takeWhile (\<lambda>g. g = 0) groups)"
    and weight: "weight = (if sig = [] then 0 else int (length gi) - 1 - int lz)"
  shows "decode_number prefix weight (length f) sig =
           prefix @ (if t = [] then ''0'' else t) @ (if f = [] then [] else ''.'' @ f)"
proof -
  let ?fmt = "\<lambda>k. format_04 (digit_group sig k)"
  obtain tz where tz: "groups = replicate lz 0 @ sig @ replicate tz 0" using significant_split [of groups] sig by auto
  have frac_map: "map ?fmt [weight + 1..weight + int (length gf)] = map (\<lambda>g. format_04 (unat g)) gf"
  proof (cases "sig = []")
    case True
    then have "list_all (\<lambda>g. g = 0) gf" using groups sig significant_Nil by simp
    then have "map (\<lambda>g. format_04 (unat g)) gf = replicate (length gf) (format_04 0)"
      by (intro replicate_eqI) (auto simp: list_all_iff)
    moreover have "map ?fmt [weight + 1..weight + int (length gf)] = replicate (length gf) (format_04 0)"
      using True by (intro replicate_eqI) (auto simp: digit_group_def)
    ultimately show ?thesis by simp
  next
    case False
    with map_significant [OF tz, of "length gi" "length gf" format_04] show ?thesis
      by (simp add: groups weight algebra_simps)
  qed
  then have fraction: "take (length f) (concat (map ?fmt [weight + 1..weight + int (div_ceil (length f) DIGITS_PER_GROUP)])) = f"
    using frac by simp
  have integer: "(if weight < 0 then ''0'' else show_nat (digit_group sig 0) @ concat (map ?fmt [1..weight])) = (if t = [] then ''0'' else t)"
  proof (cases "t = []")
    case True
    then have "sig = [] \<and> weight = 0 \<or> weight < 0" using t weight by auto
    then show ?thesis using True by (auto simp: digit_group_def show_nat.simps [of 0])
  next
    case False
    then obtain g gs where gi: "gi = g # gs" using int_part by (cases gi) auto
    from integer_digits [OF int_part(1) [unfolded gi] int_part(2) False t(2) [OF False]]
    have g: "unat g \<noteq> 0" "show_nat (unat g) @ concat (map (\<lambda>g. format_04 (unat g)) gs) = t" by auto
    then have "g \<noteq> 0" by auto
    then have "lz = 0" "sig \<noteq> []" using sig significant_Nil by (auto simp: groups gi)
    then have w: "weight = int (length gs)" and nz: "groups = sig @ replicate tz 0" using weight gi tz by simp_all
    have "digit_group sig 0 = unat g" using nz \<open>sig \<noteq> []\<close> groups gi by (cases sig) (auto simp: digit_group_def)
    moreover have "1 + length gs \<le> length groups" "take (length gs) (drop 1 groups) = gs" by (simp_all add: groups gi)
    then have "map ?fmt [1..weight] = map (\<lambda>g. format_04 (unat g)) gs"
      using map_significant [OF tz, of 1 "length gs" format_04] w \<open>lz = 0\<close> by simp
    ultimately show ?thesis using g w False by simp
  qed
  show ?thesis unfolding decode_number_def Let_def fraction integer by simp
qed


lemma word_at_header: "i < length hs \<Longrightarrow> word_at (concat (map to_be_bytes (hs @ ws))) i = Ok (hs ! i)"
  using word_at_words [of i "hs @ ws"] by (simp add: nth_append)

lemma try_map_words:
  "try_map (\<lambda>i. word_at (concat (map to_be_bytes (hs @ ws))) (length hs + i)) [0..<length ws] = Ok ws"
proof -
  have "try_map (\<lambda>i. word_at (concat (map to_be_bytes (hs @ ws))) (length hs + i)) [0..<length ws] =
        Ok (map (\<lambda>i. (hs @ ws) ! (length hs + i)) [0..<length ws])"
    by (rule try_map_all_Inr, subst word_at_words) simp_all
  also have "map (\<lambda>i. (hs @ ws) ! (length hs + i)) [0..<length ws] = ws"
    by (rule nth_equalityI) simp_all
  finally show ?thesis .
qed

lemma sint_of_int_u16: "- (2 ^ 15) \<le> w \<Longrightarrow> w < 2 ^ 15 \<Longrightarrow> sint (of_int w :: u16) = w"
  by (simp add: signed_of_int signed_take_bit_int_eq_self)

lemma numeric_decode_words:
  assumes "length ws < 2 ^ 16" "- (2 ^ 15) \<le> w" "w < 2 ^ 15" "n < 2 ^ 16" "list_all (\<lambda>g. g < NBASE) ws"
  shows "numeric_decode (write_words (write_words [] [of_nat (length ws), of_int w, if neg then SIGN_NEGATIVE else SIGN_POSITIVE, of_nat n]) ws) =
           Ok (decode_number (if neg then ''-'' else []) w n ws)"
proof -
  let ?hs = "[of_nat (length ws), of_int w, if neg then SIGN_NEGATIVE else SIGN_POSITIVE, of_nat n] :: u16 list"
  let ?buf = "concat (map to_be_bytes (?hs @ ws))"
  have buf: "write_words (write_words [] ?hs) ws = ?buf" by (simp add: write_words_def)
  have hdr: "i < 4 \<Longrightarrow> word_at ?buf i = Ok (?hs ! i)" for i
    by (rule word_at_header) simp
  have ws: "try_map (\<lambda>i. word_at ?buf (HEADER_WORDS + i)) [0..<length ws] = Ok ws"
  proof -
    have "HEADER_WORDS = length ?hs" by (simp add: HEADER_WORDS_def)
    then show ?thesis using try_map_words [of ?hs ws] by metis
  qed
  have "find (\<lambda>d. NBASE \<le> d) ws = None" using assms(5) by (auto simp: find_None_iff list_all_iff)
  moreover have "unat (of_nat (length ws) :: u16) = length ws" "unat (of_nat n :: u16) = n"
    using assms by (simp_all add: unat_of_nat)
  ultimately show ?thesis
    unfolding numeric_decode_def buf using hdr [of 0] hdr [of 1] hdr [of 2] hdr [of 3] ws assms(2,3)
    by (simp add: sint_of_int_u16 sign_defs del: concat.simps list.map map_append concat_append)
qed

lemma special_roundtrip:
  "special_sign s = Some sign \<Longrightarrow> numeric_decode (write_words [] [0, 0, sign, 0]) = Ok (normal_form s)"
  by (auto simp: special_sign_def normal_form_def write_words_def to_be_bytes_def numeric_decode_def word_at_def
      from_be_bytes_def sign_defs split: if_splits)


lemma decode_encoded:
  assumes "numeric_encode s [] = Ok wire"
  shows "numeric_decode wire = Ok (normal_form s)"
proof (cases "special_sign s")
  case (Some sign)
  then show ?thesis using assms special_roundtrip [OF Some] by (auto simp: numeric_encode_def)
next
  case None
  obtain neg i f where split: "split_number s = (neg, i, f)" by (metis prod_cases3)
  define t where "t = dropWhile (\<lambda>c. c = CHR ''0'') i"
  define lead where "lead = pad_len (length t)"
  define tail where "tail = pad_len (length f)"
  define groups where "groups = map group_of (chunks (replicate lead CHR ''0'' @ t @ f @ replicate tail CHR ''0''))"
  define sig where "sig = significant_groups groups"
  define lz where "lz = length (takeWhile (\<lambda>g. g = 0) groups)"
  define weight where "weight = (if sig = [] then 0 else int ((lead + length t) div DIGITS_PER_GROUP) - 1 - int lz)"
  note defs = t_def lead_def tail_def groups_def sig_def lz_def weight_def
  from assms None split have digits: "list_all is_ascii_digit i" "list_all is_ascii_digit f"
    and w: "- (2 ^ 15) \<le> weight" "weight < 2 ^ 15" "length sig < 2 ^ 16" "length f \<le> MAX_DSCALE"
    and wire: "wire = write_words (write_words [] [of_nat (length sig), of_int weight,
                 if neg \<and> sig \<noteq> [] then SIGN_NEGATIVE else SIGN_POSITIVE, of_nat (length f)]) sig"
    unfolding numeric_encode_def Let_def defs by (auto split: if_splits)
  have t: "list_all is_ascii_digit t" "t \<noteq> [] \<Longrightarrow> hd t \<noteq> CHR ''0''"
    using digits(1) hd_dropWhile [of "\<lambda>c. c = CHR ''0''" i] by (auto simp: t_def list_all_iff dest: set_dropWhileD)
  obtain gi gf where g: "groups = gi @ gf"
    "concat (map (\<lambda>g. format_04 (unat g)) gi) = replicate lead CHR ''0'' @ t"
    "concat (map (\<lambda>g. format_04 (unat g)) gf) = f @ replicate tail CHR ''0''"
    "length gi = (lead + length t) div DIGITS_PER_GROUP" "length gf = div_ceil (length f) DIGITS_PER_GROUP"
    "list_all (\<lambda>g. g < NBASE) (gi @ gf)"
    using padded_groups [OF t(1) digits(2) lead_def tail_def] unfolding groups_def by metis
  have gi: "t = [] \<Longrightarrow> gi = []" using g(4) by (simp add: lead_def pad_len_def DIGITS_PER_GROUP_def)
  have lead: "lead < 4" using pad_len_multiple(2) by (simp add: lead_def)
  have number: "decode_number p weight (length f) sig = p @ (if t = [] then ''0'' else t) @ (if f = [] then [] else ''.'' @ f)" for p
    by (rule decode_number_groups [OF g(1,2) lead gi t(2) g(3,5) sig_def lz_def]) (simp_all add: weight_def g(4))
  have "sig = [] \<longleftrightarrow> list_all (\<lambda>c. c = CHR ''0'') (replicate lead CHR ''0'' @ t @ f @ replicate tail CHR ''0'')"
    using groups_zeros [of groups] unfolding sig_def significant_Nil by (simp add: g(1,2,3) del: list_all_append)
  moreover have "list_all (\<lambda>c. c = CHR ''0'') t \<longleftrightarrow> t = []" using t(2) by (cases t) simp_all
  moreover have "list_all (\<lambda>c. c = CHR ''0'') (replicate n CHR ''0'')" for n by (simp add: list_all_iff)
  ultimately have zero: "sig = [] \<longleftrightarrow> t = [] \<and> list_all (\<lambda>c. c = CHR ''0'') f" by simp
  have "list_all (\<lambda>g. g < NBASE) sig" using g(1,6) significant_split [of groups] unfolding sig_def
    by (metis list_all_append)
  moreover have "length f < 2 ^ 16" using w(4) by (simp add: MAX_DSCALE_def)
  ultimately have "numeric_decode wire = Ok (decode_number (if neg \<and> sig \<noteq> [] then ''-'' else []) weight (length f) sig)"
    unfolding wire using numeric_decode_words w by blast
  also have "decode_number (if neg \<and> sig \<noteq> [] then ''-'' else []) weight (length f) sig = normal_form s"
  proof -
    have "s \<noteq> ''inf''" "s \<noteq> ''-inf''" using None by (auto simp: special_sign_def)
    then show ?thesis unfolding number normal_form_def Let_def by (simp add: None split zero del: dropWhile_eq_Nil_conv flip: t_def)
  qed
  finally show ?thesis .
qed

text \<open>
  C36. \<open>encode\<close> then \<open>decode\<close> (\<open>src/db/numeric.rs\<close>): every text that \<open>encode\<close> accepts, of whatever length and
  scale, comes back from \<open>decode\<close> as its normal form: the same sign, integer digits and all the decimal
  places that were written, without the superfluous zeros in front and without a sign on zero; \<open>inf\<close> comes back as
  \<open>Infinity\<close>. No digit is lost to the zero groups that are not sent, to the padding of the groups or to
  the width of the four header words.
\<close>

theorem numeric_roundtrip:
  assumes "numeric_encode s [] = Ok wire"
  shows "numeric_decode wire = Ok (normal_form s)"
  using assms by (rule decode_encoded)

theorem numeric_roundtrip_witness:
  "\<exists>wire. numeric_encode ''-0012345.670'' [] = Ok wire \<and> wire \<noteq> [] \<and> numeric_decode wire = Ok ''-12345.670''"
proof -
  let ?wire = "[0, 3, 0, 1, 64, 0, 0, 3, 0, 1, 9, 41, 26, 44]"
  have "split_number ''-0012345.670'' = (True, ''0012345'', ''670'')" by (simp add: split_number_def)
  moreover have "map group_of (chunks ''000123456700'') = [1, 2345, 6700]"
    by (simp add: chunks.simps group_of_def digit_val_def)
  moreover have "significant_groups [1, 2345, 6700] = [1, 2345, 6700]" by (simp add: significant_groups_def rposition_def)
  moreover have "replicate 3 CHR ''0'' = ''000''" by (simp add: numeral_eq_Suc)
  ultimately have w: "numeric_encode ''-0012345.670'' [] = Ok ?wire"
    by (simp add: numeric_encode_def Let_def special_sign_def pad_len_def DIGITS_PER_GROUP_def is_ascii_digit_def
        MAX_DSCALE_def write_words_def to_be_bytes_def sign_defs)
  have "normal_form ''-0012345.670'' = ''-12345.670''"
    by (simp add: normal_form_def special_sign_def split_number_def)
  with numeric_roundtrip [OF w] w show ?thesis by auto
qed

end
