(* ===== verification/Crates.thy ===== *)
theory Crates
  imports Prelude
begin

section \<open>Interfaces to the crates the engine builds on\<close>

text \<open>
  The engine's logic calls into crates whose source is not part of the repository: \<open>http\<close>/\<open>hyper\<close>
  (header maps, header values, status codes, response bodies), \<open>serde_json\<close>, \<open>matchit\<close> (the
  per-method router), \<open>dashmap\<close> (the concurrent map) and \<open>tokio\<close>'s \<open>Semaphore\<close>. Each is a
  record of the operations the sources call, passed as an argument to the definitions that use it,
  and a locale that states what the crate documents about them. The components' lemmas are proved
  from those laws alone. At the end each locale is interpreted on a concrete implementation, which
  shows the laws can hold together and lets the operations be run on examples.
\<close>

subsection \<open>Header maps, header values, statuses, bodies, JSON\<close>

text \<open>A response body: buffered bytes, nothing, or a stream of frames (data and trailers).\<close>

datatype resp_frame = Data string | Trailers "(string \<times> string) list"

datatype resp_body = Full string | EmptyBody | StreamBody "resp_frame list"

record 'h http_api =
  hm_new :: 'h
  hm_get :: "'h \<Rightarrow> string \<Rightarrow> string option"
  hm_get_all :: "'h \<Rightarrow> string \<Rightarrow> string list"
  hm_contains_key :: "'h \<Rightarrow> string \<Rightarrow> bool"
  hm_insert :: "'h \<Rightarrow> string \<Rightarrow> string \<Rightarrow> 'h"
  hm_append :: "'h \<Rightarrow> string \<Rightarrow> string \<Rightarrow> 'h"
  hm_remove :: "'h \<Rightarrow> string \<Rightarrow> 'h"
  hm_or_insert :: "'h \<Rightarrow> string \<Rightarrow> string \<Rightarrow> 'h" \<comment> \<open>\<open>entry(name).or_insert(value)\<close>\<close>
  hm_keys :: "'h \<Rightarrow> string list"
  hn_from_bytes :: "string \<Rightarrow> string option" \<comment> \<open>\<open>HeaderName::from_bytes\<close>\<close>
  hv_from_str :: "string \<Rightarrow> string option" \<comment> \<open>\<open>HeaderValue::from_str\<close>\<close>
  hv_to_str :: "string \<Rightarrow> string option" \<comment> \<open>\<open>HeaderValue::to_str\<close>\<close>
  hv_from_len :: "nat \<Rightarrow> string" \<comment> \<open>\<open>HeaderValue::from\<close> of a length\<close>
  status_from_u16 :: "nat \<Rightarrow> nat option" \<comment> \<open>\<open>StatusCode::from_u16\<close>\<close>
  size_hint_exact :: "resp_body \<Rightarrow> nat option" \<comment> \<open>\<open>Body::size_hint().exact()\<close>\<close>
  json_to_vec :: "(string \<times> string) list \<Rightarrow> string option" \<comment> \<open>\<open>serde_json::to_vec\<close> of an object\<close>

text \<open>The bytes a header value may hold and still be read as text: visible ASCII and the tab.\<close>

definition visible_ascii :: "char \<Rightarrow> bool" where
  "visible_ascii c \<longleftrightarrow> (of_char c :: nat) = 9 \<or> (32::nat) \<le> of_char c \<and> (of_char c :: nat) \<le> 126"

locale http_crate =
  fixes H :: "'h http_api"
  assumes get_all_new [simp]: "hm_get_all H (hm_new H) n = []"
    and get_all_insert [simp]:
      "hm_get_all H (hm_insert H h n v) n' = (if n' = n then [v] else hm_get_all H h n')"
    and get_all_append [simp]:
      "hm_get_all H (hm_append H h n v) n' = (if n' = n then hm_get_all H h n @ [v] else hm_get_all H h n')"
    and get_all_remove [simp]:
      "hm_get_all H (hm_remove H h n) n' = (if n' = n then [] else hm_get_all H h n')"
    and get_all_or_insert [simp]:
      "hm_get_all H (hm_or_insert H h n v) n' =
         (if n' = n \<and> hm_get_all H h n = [] then [v] else hm_get_all H h n')"
    and get_first [simp]:
      "hm_get H h n = (case hm_get_all H h n of [] \<Rightarrow> None | v # _ \<Rightarrow> Some v)"
    and contains_key [simp]: "hm_contains_key H h n \<longleftrightarrow> hm_get_all H h n \<noteq> []"
    and keys_distinct: "distinct (hm_keys H h)"
    and keys_iff: "n \<in> set (hm_keys H h) \<longleftrightarrow> hm_get_all H h n \<noteq> []"
    and from_str_same: "hv_from_str H s = Some v \<Longrightarrow> v = s"
    and from_str_visible: "list_all visible_ascii s \<Longrightarrow> hv_from_str H s = Some s"
    and to_str_iff: "hv_to_str H v = (if list_all visible_ascii v then Some v else None)"
    and from_len [simp]: "hv_from_len H len = show_nat len"
    and status_range [simp]:
      "status_from_u16 H code = (if 100 \<le> code \<and> code \<le> 999 then Some code else None)"
    and exact_full [simp]: "size_hint_exact H (Full b) = Some (length b)"
    and exact_empty [simp]: "size_hint_exact H EmptyBody = Some 0"
begin

lemma to_str_Some: "hv_to_str H v = Some s \<longleftrightarrow> s = v \<and> list_all visible_ascii v"
  by (auto simp: to_str_iff)

lemmas header_laws =
  get_all_new get_all_insert get_all_append get_all_remove get_all_or_insert get_first contains_key

end

subsection \<open>The route matcher\<close>

record ('r, 'v, 'e) router_api =
  mr_new :: 'r
  mr_insert :: "'r \<Rightarrow> string \<Rightarrow> 'v \<Rightarrow> ('r, 'e \<times> 'r) result"
    \<comment> \<open>the router after the insert; on an error, the error and the router it leaves\<close>
  mr_at :: "'r \<Rightarrow> string \<Rightarrow> ('v \<times> (string \<times> string) list) option"

text \<open>
  What the table relies on: an empty router matches nothing; a lookup returns a value that was
  inserted, whose values are those of successful inserts (\<open>vals\<close> is the set of them; a rejected
  insert adds none, and which lookups it leaves is not assumed); and a path without parameters, once inserted, is what matches itself (a
  static route has priority over one with parameters).
\<close>

locale route_matcher =
  fixes R :: "('r, 'v, 'e) router_api"
    and vals :: "'r \<Rightarrow> 'v set"
  assumes at_new [simp]: "mr_at R (mr_new R) p = None"
    and at_values: "mr_at R r p = Some (v, ps) \<Longrightarrow> v \<in> vals r"
    and values_new [simp]: "vals (mr_new R) = {}"
    and values_insert: "mr_insert R r p v = Inr r' \<Longrightarrow> vals r' = insert v (vals r)"
    and values_rejected: "mr_insert R r p v = Inl (e, r') \<Longrightarrow> vals r' = vals r"
    and at_static: "mr_insert R r p v = Inr r' \<Longrightarrow> CHR ''{'' \<notin> set p \<Longrightarrow> CHR ''}'' \<notin> set p \<Longrightarrow>
      mr_at R r' p = Some (v, [])"

subsection \<open>The concurrent map\<close>

record ('m, 'k, 'v) dash_api =
  dm_new :: 'm
  dm_get :: "'m \<Rightarrow> 'k \<Rightarrow> 'v option"
  dm_insert :: "'m \<Rightarrow> 'k \<Rightarrow> 'v \<Rightarrow> 'v option \<times> 'm" \<comment> \<open>the replaced value\<close>
  dm_remove :: "'m \<Rightarrow> 'k \<Rightarrow> 'v option \<times> 'm" \<comment> \<open>the removed value\<close>
  dm_iter :: "'m \<Rightarrow> ('k \<times> 'v) list"

locale dash_map =
  fixes D :: "('m, 'k, 'v) dash_api"
  assumes get_new [simp]: "dm_get D (dm_new D) k = None"
    and get_insert [simp]:
      "dm_get D (snd (dm_insert D m k v)) k' = (if k' = k then Some v else dm_get D m k')"
    and insert_prev [simp]: "fst (dm_insert D m k v) = dm_get D m k"
    and get_remove [simp]:
      "dm_get D (snd (dm_remove D m k)) k' = (if k' = k then None else dm_get D m k')"
    and remove_prev [simp]: "fst (dm_remove D m k) = dm_get D m k"
    and iter_distinct: "distinct (map fst (dm_iter D m))"
    and iter_get: "map_of (dm_iter D m) k = dm_get D m k"
begin

lemma iter_mem: "(k, v) \<in> set (dm_iter D m) \<longleftrightarrow> dm_get D m k = Some v"
  using iter_distinct [of m] by (simp add: iter_get [symmetric])

lemma iter_keys: "fst ` set (dm_iter D m) = {k. dm_get D m k \<noteq> None}"
proof -
  have "dom (map_of (dm_iter D m)) = dom (dm_get D m)"
    by (auto simp: iter_get dom_def)
  then show ?thesis by (simp add: dom_map_of_conv_image_fst) (simp add: dom_def)
qed

text \<open>What a sum over the entries becomes when one is inserted or removed.\<close>

lemma iter_sum_eq:
  fixes f :: "'k \<Rightarrow> 'v \<Rightarrow> nat"
  shows "(\<Sum>(k, v) \<leftarrow> dm_iter D m. f k v) = (\<Sum>k | dm_get D m k \<noteq> None. f k (the (dm_get D m k)))"
proof -
  let ?xs = "dm_iter D m"
  have d: "distinct ?xs" using iter_distinct [of m] by (simp add: distinct_map)
  have "(\<Sum>(k, v) \<leftarrow> ?xs. f k v) = (\<Sum>p \<in> set ?xs. case p of (k, v) \<Rightarrow> f k v)"
    using d by (simp add: sum_list_distinct_conv_sum_set)
  also have "\<dots> = (\<Sum>p \<in> set ?xs. f (fst p) (the (dm_get D m (fst p))))"
    by (rule sum.cong) (auto simp: iter_mem)
  also have "\<dots> = (\<Sum>k \<in> fst ` set ?xs. f k (the (dm_get D m k)))"
    using iter_distinct [of m] by (subst sum.reindex) (auto simp: distinct_map)
  finally show ?thesis by (simp add: iter_keys)
qed

lemma finite_keys: "finite {k. dm_get D m k \<noteq> None}"
  using iter_keys [of m] by (metis finite_imageI List.finite_set)

lemma sum_keys_split:
  fixes f :: "'k \<Rightarrow> 'v \<Rightarrow> nat"
  shows "(\<Sum>k' | dm_get D m k' \<noteq> None. f k' (the (dm_get D m k'))) =
      (case dm_get D m k of None \<Rightarrow> 0 | Some w \<Rightarrow> f k w)
      + (\<Sum>k' \<in> {k. dm_get D m k \<noteq> None} - {k}. f k' (the (dm_get D m k')))"
proof (cases "dm_get D m k")
  case None
  then have "{k. dm_get D m k \<noteq> None} - {k} = {k. dm_get D m k \<noteq> None}" by auto
  with None show ?thesis by simp
next
  case (Some w)
  then show ?thesis
    using sum.remove [OF finite_keys [of m], of k "\<lambda>k'. f k' (the (dm_get D m k'))"] by simp
qed

lemma iter_sum_insert:
  fixes f :: "'k \<Rightarrow> 'v \<Rightarrow> nat"
  shows "(\<Sum>(k, v) \<leftarrow> dm_iter D (snd (dm_insert D m k v)). f k v)
           + (case dm_get D m k of None \<Rightarrow> 0 | Some w \<Rightarrow> f k w)
       = (\<Sum>(k, v) \<leftarrow> dm_iter D m. f k v) + f k v"
proof -
  let ?K = "{k. dm_get D m k \<noteq> None}" and ?m = "snd (dm_insert D m k v)"
  have K': "{k'. dm_get D ?m k' \<noteq> None} = insert k ?K" by auto
  have same: "(\<Sum>k' \<in> ?K - {k}. f k' (the (dm_get D ?m k'))) = (\<Sum>k' \<in> ?K - {k}. f k' (the (dm_get D m k')))"
    by (rule sum.cong) auto
  have new: "(\<Sum>k' \<in> insert k ?K. f k' (the (dm_get D ?m k'))) =
      f k v + (\<Sum>k' \<in> ?K - {k}. f k' (the (dm_get D m k')))"
    using finite_keys [of m] same by (simp add: sum.insert_remove)
  show ?thesis unfolding iter_sum_eq K' new sum_keys_split [of f m k] by simp
qed

lemma iter_sum_remove:
  fixes f :: "'k \<Rightarrow> 'v \<Rightarrow> nat"
  shows "(\<Sum>(k, v) \<leftarrow> dm_iter D (snd (dm_remove D m k)). f k v)
           + (case dm_get D m k of None \<Rightarrow> 0 | Some w \<Rightarrow> f k w)
       = (\<Sum>(k, v) \<leftarrow> dm_iter D m. f k v)"
proof -
  let ?K = "{k. dm_get D m k \<noteq> None}" and ?m = "snd (dm_remove D m k)"
  have K': "{k'. dm_get D ?m k' \<noteq> None} = ?K - {k}" by auto
  have new: "(\<Sum>k' \<in> ?K - {k}. f k' (the (dm_get D ?m k'))) = (\<Sum>k' \<in> ?K - {k}. f k' (the (dm_get D m k')))"
    by (rule sum.cong) auto
  show ?thesis unfolding iter_sum_eq K' new sum_keys_split [of f m k] by simp
qed

end

subsection \<open>The counting semaphore\<close>

record 's sem_api =
  sem_new :: "nat \<Rightarrow> 's"
  sem_available :: "'s \<Rightarrow> nat"
  sem_try_acquire :: "'s \<Rightarrow> nat \<Rightarrow> 's option" \<comment> \<open>\<open>try_acquire_many_owned\<close>\<close>
  sem_release :: "'s \<Rightarrow> nat \<Rightarrow> 's" \<comment> \<open>a permit of that many dropped\<close>

locale semaphore =
  fixes S :: "'s sem_api"
  assumes available_new [simp]: "sem_available S (sem_new S n) = n"
    and try_acquire_None: "sem_try_acquire S s n = None \<longleftrightarrow> sem_available S s < n"
    and available_acquire:
      "sem_try_acquire S s n = Some s' \<Longrightarrow> sem_available S s' = sem_available S s - n"
    and available_release [simp]: "sem_available S (sem_release S s n) = sem_available S s + n"
begin

lemma try_acquire_Some:
  "sem_try_acquire S s n = Some s' \<Longrightarrow> sem_available S s' + n = sem_available S s"
  using try_acquire_None [of s n] available_acquire [of s n s'] by auto

end

subsection \<open>Concrete implementations\<close>

text \<open>Header lines in the order they were added.\<close>

definition lines_all :: "(string \<times> string) list \<Rightarrow> string \<Rightarrow> string list" where
  "lines_all h n = map snd (filter (\<lambda>(m, v). m = n) h)"

definition line_headers :: "(string \<times> string) list http_api" where
  "line_headers =
     \<lparr>hm_new = [],
      hm_get = (\<lambda>h n. case lines_all h n of [] \<Rightarrow> None | v # _ \<Rightarrow> Some v),
      hm_get_all = lines_all,
      hm_contains_key = (\<lambda>h n. lines_all h n \<noteq> []),
      hm_insert = (\<lambda>h n v. filter (\<lambda>(m, w). m \<noteq> n) h @ [(n, v)]),
      hm_append = (\<lambda>h n v. h @ [(n, v)]),
      hm_remove = (\<lambda>h n. filter (\<lambda>(m, w). m \<noteq> n) h),
      hm_or_insert = (\<lambda>h n v. if lines_all h n = [] then h @ [(n, v)] else h),
      hm_keys = (\<lambda>h. remdups (map fst h)),
      hn_from_bytes = (\<lambda>s. if s \<noteq> [] \<and> list_all visible_ascii s then Some (to_ascii_lowercase s) else None),
      hv_from_str = (\<lambda>s. if list_all visible_ascii s then Some s else None),
      hv_to_str = (\<lambda>v. if list_all visible_ascii v then Some v else None),
      hv_from_len = show_nat,
      status_from_u16 = (\<lambda>n. if 100 \<le> n \<and> n \<le> 999 then Some n else None),
      size_hint_exact = (\<lambda>b. case b of Full s \<Rightarrow> Some (length s) | EmptyBody \<Rightarrow> Some 0 | StreamBody _ \<Rightarrow> None),
      json_to_vec = (\<lambda>ms. Some (concat (map (\<lambda>(k, v). k @ ''='' @ v @ '';'') ms)))\<rparr>"

lemma lines_all_simps [simp]:
  "lines_all [] n = []"
  "lines_all (h @ h') n = lines_all h n @ lines_all h' n"
  "lines_all (filter (\<lambda>(m, w). m \<noteq> n') h) n = (if n = n' then [] else lines_all h n)"
  by (induction h) (auto simp: lines_all_def)

lemma lines_all_one [simp]: "lines_all [(n', v)] n = (if n = n' then [v] else [])"
  by (simp add: lines_all_def)

lemma lines_all_keys: "n \<in> fst ` set h \<longleftrightarrow> lines_all h n \<noteq> []"
  by (induction h) (auto simp: lines_all_def)

interpretation line: http_crate line_headers
  by unfold_locales
     (use lines_all_keys in \<open>auto simp: line_headers_def image_iff split: if_splits\<close>)

text \<open>A router whose routes are literal paths.\<close>

definition literal_router :: "((string \<times> nat) list, nat, string) router_api" where
  "literal_router =
     \<lparr>mr_new = [],
      mr_insert = (\<lambda>r p v. if map_of r p = None then Inr ((p, v) # r) else Inl (''conflict'', r)),
      mr_at = (\<lambda>r p. map_option (\<lambda>v. (v, [])) (map_of r p))\<rparr>"

interpretation literal: route_matcher literal_router "\<lambda>r. snd ` set r"
  by unfold_locales
     (auto simp: literal_router_def image_iff dest!: map_of_SomeD split: if_splits intro: rev_bexI)

text \<open>
  A finite map from keys to values; the type \<open>fmap\<close>-like invariant (distinct keys) is kept by
  building the iteration from the keys.
\<close>

definition alist_iter :: "('k \<times> 'v) list \<Rightarrow> ('k \<times> 'v) list" where
  "alist_iter m = map (\<lambda>k. (k, the (map_of m k))) (remdups (map fst m))"

definition alist_dash :: "(('k \<times> 'v) list, 'k, 'v) dash_api" where
  "alist_dash =
     \<lparr>dm_new = [],
      dm_get = map_of,
      dm_insert = (\<lambda>m k v. (map_of m k, (k, v) # m)),
      dm_remove = (\<lambda>m k. (map_of m k, filter (\<lambda>(k', _). k' \<noteq> k) m)),
      dm_iter = alist_iter\<rparr>"

lemma map_of_filter_key: "map_of (filter (\<lambda>(k', _). k' \<noteq> k) m) k' = (if k' = k then None else map_of m k')"
  by (induction m) auto

lemma map_of_alist_iter: "map_of (alist_iter m) k = map_of m k"
proof (cases "k \<in> fst ` set m")
  case True
  then obtain v where "map_of m k = Some v"
    by (metis domIff dom_map_of_conv_image_fst not_None_eq)
  with True show ?thesis by (simp add: alist_iter_def map_of_map_restrict)
next
  case False
  then have "map_of m k = None" by (simp add: map_of_eq_None_iff)
  moreover from False have "map_of (alist_iter m) k = None"
    by (simp add: alist_iter_def map_of_eq_None_iff image_image)
  ultimately show ?thesis by simp
qed

interpretation alist: dash_map alist_dash
  by unfold_locales
     (auto simp: alist_dash_def map_of_filter_key map_of_alist_iter, simp add: alist_iter_def comp_def)

text \<open>A number of free permits.\<close>

definition nat_sem :: "nat sem_api" where
  "nat_sem =
     \<lparr>sem_new = (\<lambda>n. n), sem_available = (\<lambda>s. s),
      sem_try_acquire = (\<lambda>s n. if n \<le> s then Some (s - n) else None),
      sem_release = (\<lambda>s n. s + n)\<rparr>"

interpretation free: semaphore nat_sem
  by unfold_locales (auto simp: nat_sem_def split: if_splits)

end
