(* ===== verification/Request_Id.thy ===== *)
theory Request_Id
  imports Crates
begin

section \<open>Request ids (\<open>src/request_id.rs\<close>)\<close>

text \<open>
  A request's correlation id: the client's, when the app named a header for it and the value is
  usable, else one minted by the process. Each OS thread mints from a range of its own: the state
  holds the next thread's range number (\<open>NEXT_THREAD\<close>) and each thread's next id (\<open>NEXT_ID\<close>, a
  thread local, \<open>None\<close> until the thread first mints). Ids are 64-bit words and the counters wrap,
  as in the source. The main result is that no two ids minted by one process are equal, whatever
  the interleaving of its threads, while the threads and the ids per thread stay within the ranges
  the layout reserves.
\<close>

definition MAX_CLIENT_ID_LEN :: nat where "MAX_CLIENT_ID_LEN = 128"

definition THREAD_SHIFT :: nat where "THREAD_SHIFT = 40"

datatype RequestId = Minted u64 | Client string

record id_state =
  NEXT_THREAD :: u64
  NEXT_ID :: "nat \<Rightarrow> u64 option"

definition id_init :: id_state where
  "id_init = \<lparr>NEXT_THREAD = 0, NEXT_ID = (\<lambda>_. None)\<rparr>"

text \<open>The first access of a thread's \<open>NEXT_ID\<close> takes the next range.\<close>

definition next_id_cell :: "id_state \<Rightarrow> nat \<Rightarrow> u64 \<times> id_state" where
  "next_id_cell st tid =
     (case NEXT_ID st tid of
        Some n \<Rightarrow> (n, st)
      | None \<Rightarrow>
          (let n = push_bit THREAD_SHIFT (NEXT_THREAD st)
           in (n, st\<lparr>NEXT_THREAD := NEXT_THREAD st + 1, NEXT_ID := (NEXT_ID st)(tid \<mapsto> n)\<rparr>)))"

definition mint :: "id_state \<Rightarrow> nat \<Rightarrow> RequestId \<times> id_state" where
  "mint st tid =
     (let (n, st') = next_id_cell st tid
      in (Minted n, st'\<lparr>NEXT_ID := (NEXT_ID st')(tid \<mapsto> n + 1)\<rparr>))"

definition is_usable :: "'h http_api \<Rightarrow> string \<Rightarrow> bool" where
  "is_usable H value \<longleftrightarrow>
     1 \<le> length value \<and> length value \<le> MAX_CLIENT_ID_LEN \<and> hv_to_str H value \<noteq> None"

definition request_id_of ::
    "'h http_api \<Rightarrow> 'h \<Rightarrow> string option \<Rightarrow> id_state \<Rightarrow> nat \<Rightarrow> RequestId \<times> id_state" where
  "request_id_of H headers header st tid =
     (case Option.bind header (hm_get H headers) of
        Some value \<Rightarrow> if is_usable H value then (Client value, st) else mint st tid
      | None \<Rightarrow> mint st tid)"

text \<open>\<open>{:016x}\<close>.\<close>

definition hex_char :: "nat \<Rightarrow> char" where
  "hex_char d = (if d < 10 then char_of (48 + d) else char_of (87 + d))"

fun hex_digits :: "nat \<Rightarrow> nat \<Rightarrow> string" where
  "hex_digits 0 n = []"
| "hex_digits (Suc k) n = hex_digits k (n div 16) @ [hex_char (n mod 16)]"

fun request_id_display :: "'h http_api \<Rightarrow> u64 \<Rightarrow> RequestId \<Rightarrow> string" where
  "request_id_display H seed (Minted n) = hex_digits 16 (unat seed) @ hex_digits 16 (unat n)"
| "request_id_display H seed (Client value) =
     (case hv_to_str H value of Some s \<Rightarrow> s | None \<Rightarrow> [])"

text \<open>Any interleaving of the process's threads: the ids minted by a sequence of thread ids.\<close>

fun mint_run :: "id_state \<Rightarrow> nat list \<Rightarrow> RequestId list" where
  "mint_run st [] = []"
| "mint_run st (tid # tids) = (let (r, st') = mint st tid in r # mint_run st' tids)"

subsection \<open>The abstract allocator\<close>

text \<open>The k-th id of a thread, counting from what it minted before.\<close>

fun tagged :: "(nat \<Rightarrow> nat) \<Rightarrow> nat list \<Rightarrow> (nat \<times> nat) list" where
  "tagged cnt [] = []"
| "tagged cnt (t # ts) = (t, cnt t) # tagged (cnt(t := Suc (cnt t))) ts"

text \<open>
  The allocator's invariant: the threads seen so far have been given distinct ranges, numbered
  below their count, and each one's next id is in its own range.
\<close>

definition id_inv :: "id_state \<Rightarrow> (nat \<Rightarrow> nat) \<Rightarrow> (nat \<Rightarrow> nat) \<Rightarrow> bool" where
  "id_inv st idx cnt \<longleftrightarrow>
     finite (dom (NEXT_ID st)) \<and>
     NEXT_THREAD st = of_nat (card (dom (NEXT_ID st))) \<and>
     inj_on idx (dom (NEXT_ID st)) \<and>
     (\<forall>t \<in> dom (NEXT_ID st). idx t < card (dom (NEXT_ID st)) \<and>
        NEXT_ID st t = Some (of_nat (idx t * 2 ^ THREAD_SHIFT + cnt t))) \<and>
     (\<forall>t. t \<notin> dom (NEXT_ID st) \<longrightarrow> cnt t = 0)"

lemma tagged_bounds:
  "(t, k) \<in> set (tagged cnt ts) \<Longrightarrow> t \<in> set ts \<and> cnt t \<le> k \<and> k < cnt t + count_list ts t"
  by (induction ts arbitrary: cnt) (fastforce split: if_splits)+

lemma tagged_distinct: "distinct (tagged cnt ts)"
proof (induction ts arbitrary: cnt)
  case Nil
  then show ?case by simp
next
  case (Cons t ts)
  have "(t, cnt t) \<notin> set (tagged (cnt(t := Suc (cnt t))) ts)"
    using tagged_bounds [of t "cnt t" "cnt(t := Suc (cnt t))" ts] by auto
  with Cons show ?case by simp
qed

lemma push_bit_range:
  "push_bit THREAD_SHIFT (of_nat n :: u64) = of_nat (n * 2 ^ THREAD_SHIFT)"
  by (simp add: push_bit_eq_mult mult.commute)

lemma mint_known:
  assumes "id_inv st idx cnt" and "t \<in> dom (NEXT_ID st)"
  shows "\<exists>st'. mint st t = (Minted (of_nat (idx t * 2 ^ THREAD_SHIFT + cnt t)), st') \<and>
           id_inv st' idx (cnt(t := Suc (cnt t))) \<and> dom (NEXT_ID st') = dom (NEXT_ID st)"
proof -
  from assms have n: "NEXT_ID st t = Some (of_nat (idx t * 2 ^ THREAD_SHIFT + cnt t))"
    by (auto simp: id_inv_def)
  have d: "insert t (dom (NEXT_ID st)) = dom (NEXT_ID st)" using assms(2) by auto
  show ?thesis
    using assms n d by (auto simp: mint_def next_id_cell_def id_inv_def add.commute add.left_commute)
qed

lemma mint_fresh:
  assumes inv: "id_inv st idx cnt" and new: "t \<notin> dom (NEXT_ID st)"
  defines "idx' \<equiv> idx(t := card (dom (NEXT_ID st)))"
  shows "\<exists>st'. mint st t = (Minted (of_nat (idx' t * 2 ^ THREAD_SHIFT + cnt t)), st') \<and>
           id_inv st' idx' (cnt(t := Suc (cnt t))) \<and> dom (NEXT_ID st') = insert t (dom (NEXT_ID st))"
proof -
  let ?D = "dom (NEXT_ID st)" and ?c = "card (dom (NEXT_ID st))"
  let ?st' = "\<lparr>NEXT_THREAD = NEXT_THREAD st + 1,
               NEXT_ID = (NEXT_ID st)(t \<mapsto> of_nat (?c * 2 ^ THREAD_SHIFT) + 1)\<rparr>"
  have c0: "cnt t = 0" and fin: "finite ?D" and nt: "NEXT_THREAD st = of_nat ?c"
    and inj: "inj_on idx ?D" and lt: "\<And>u. u \<in> ?D \<Longrightarrow> idx u < ?c"
    using inv new by (auto simp: id_inv_def)
  have none: "NEXT_ID st t = None" using new by auto
  have m: "mint st t = (Minted (of_nat (?c * 2 ^ THREAD_SHIFT)), ?st')"
    using none nt by (simp add: mint_def next_id_cell_def push_bit_range Let_def)
  have inj': "inj_on idx' (insert t ?D)"
  proof (rule inj_onI)
    fix u w assume "u \<in> insert t ?D" "w \<in> insert t ?D" "idx' u = idx' w"
    then show "u = w"
      using lt [of u] lt [of w] new inj by (auto simp: idx'_def inj_on_def split: if_splits)
  qed
  have "id_inv ?st' idx' (cnt(t := Suc (cnt t)))"
    unfolding id_inv_def
    using inv new fin nt c0 inj' lt by (auto simp: id_inv_def idx'_def less_SucI)
  with m c0 show ?thesis by (auto simp: idx'_def)
qed

text \<open>A run of the allocator hands out the tagged ids of its threads' ranges.\<close>

lemma mint_run_tagged:
  assumes "id_inv st idx cnt"
  shows "\<exists>idx'. (\<forall>t \<in> dom (NEXT_ID st). idx' t = idx t) \<and>
           inj_on idx' (dom (NEXT_ID st) \<union> set ts) \<and>
           (\<forall>t \<in> dom (NEXT_ID st) \<union> set ts. idx' t < card (dom (NEXT_ID st) \<union> set ts)) \<and>
           mint_run st ts = map (\<lambda>(t, k). Minted (of_nat (idx' t * 2 ^ THREAD_SHIFT + k))) (tagged cnt ts)"
  using assms
proof (induction ts arbitrary: st idx cnt)
  case Nil
  then show ?case by (auto simp: id_inv_def)
next
  case (Cons t ts)
  let ?i = "if t \<in> dom (NEXT_ID st) then idx else idx(t := card (dom (NEXT_ID st)))"
  obtain st' where m: "mint st t = (Minted (of_nat (?i t * 2 ^ THREAD_SHIFT + cnt t)), st')"
    and inv: "id_inv st' ?i (cnt(t := Suc (cnt t)))"
    and d: "dom (NEXT_ID st') = insert t (dom (NEXT_ID st))"
  proof (cases "t \<in> dom (NEXT_ID st)")
    case True
    with mint_known [OF Cons.prems True] that show ?thesis by (auto simp: insert_absorb)
  next
    case False
    with mint_fresh [OF Cons.prems False] that show ?thesis by auto
  qed
  from Cons.IH [OF inv] obtain idx' where idx': "\<forall>u \<in> dom (NEXT_ID st'). idx' u = ?i u"
    and rest: "inj_on idx' (dom (NEXT_ID st') \<union> set ts)"
      "\<forall>u \<in> dom (NEXT_ID st') \<union> set ts. idx' u < card (dom (NEXT_ID st') \<union> set ts)"
    and run: "mint_run st' ts =
      map (\<lambda>(t, k). Minted (of_nat (idx' t * 2 ^ THREAD_SHIFT + k))) (tagged (cnt(t := Suc (cnt t))) ts)"
    by blast
  have t: "idx' t = ?i t" using idx' d by simp
  have old: "\<forall>u \<in> dom (NEXT_ID st). idx' u = idx u" using idx' d by auto
  have dom_eq: "dom (NEXT_ID st') \<union> set ts = dom (NEXT_ID st) \<union> set (t # ts)" using d by auto
  have "mint_run st (t # ts) =
      map (\<lambda>(t, k). Minted (of_nat (idx' t * 2 ^ THREAD_SHIFT + k))) (tagged cnt (t # ts))"
    using m run t by simp
  with old rest show ?case unfolding dom_eq by blast
qed

lemma id_inv_init: "id_inv id_init (\<lambda>_. 0) (\<lambda>_. 0)"
  by (simp add: id_inv_def id_init_def)

lemma hex_digits_inj:
  "m < 16 ^ k \<Longrightarrow> n < 16 ^ k \<Longrightarrow> hex_digits k m = hex_digits k n \<Longrightarrow> m = n"
proof (induction k arbitrary: m n)
  case 0
  then show ?case by simp
next
  case (Suc k)
  have hex: "hex_char a = hex_char b \<Longrightarrow> a < 16 \<Longrightarrow> b < 16 \<Longrightarrow> a = b" for a b
  proof -
    assume eq: "hex_char a = hex_char b" and "a < 16" and "b < 16"
    have "(of_char (hex_char a) :: nat) = of_char (hex_char b)" by (simp add: eq)
    with \<open>a < 16\<close> \<open>b < 16\<close> show "a = b"
      by (auto simp: hex_char_def split: if_splits)
  qed
  from Suc.prems have eq: "hex_digits k (m div 16) = hex_digits k (n div 16)"
    and "hex_char (m mod 16) = hex_char (n mod 16)"
    by auto
  then have "m mod 16 = n mod 16" using hex [of "m mod 16" "n mod 16"] by simp
  moreover have "m div 16 = n div 16"
    using Suc.prems eq by (intro Suc.IH) (auto simp: less_mult_imp_div_less mult.commute)
  ultimately show ?case by (metis div_mult_mod_eq)
qed

subsection \<open>Properties\<close>

text \<open>
  C13. Request ids minted by one process are pairwise different, and so are the texts they are
  reported as, for every interleaving of its threads, as long as at most 2^24 threads mint and none
  mints more than 2^40 ids (the ranges the id layout reserves).
\<close>

theorem mint_run_distinct:
  assumes threads: "card (set tids) \<le> 2 ^ 24"
    and per_thread: "\<And>t. count_list tids t \<le> 2 ^ 40"
  shows "distinct (mint_run id_init tids) \<and>
         distinct (map (request_id_display H seed) (mint_run id_init tids))"
proof -
  from mint_run_tagged [OF id_inv_init, of tids] obtain idx where
    inj: "inj_on idx (set tids)" and lt: "\<And>t. t \<in> set tids \<Longrightarrow> idx t < card (set tids)"
    and run: "mint_run id_init tids =
      map (\<lambda>(t, k). Minted (of_nat (idx t * 2 ^ 40 + k))) (tagged (\<lambda>_. 0) tids)"
    by (auto simp: id_init_def THREAD_SHIFT_def)
  have bound: "idx t * 2 ^ 40 + k < 2 ^ 64" if "(t, k) \<in> set (tagged (\<lambda>_. 0) tids)" for t k
  proof -
    from tagged_bounds [OF that] per_thread [of t] have "t \<in> set tids" and "k < 2 ^ 40" by auto
    with lt [of t] threads have "idx t < 2 ^ 24" by simp
    with \<open>k < 2 ^ 40\<close> show ?thesis by simp
  qed
  have apart: "t = u \<and> k = j"
    if "(t, k) \<in> set (tagged (\<lambda>_. 0) tids)" "(u, j) \<in> set (tagged (\<lambda>_. 0) tids)"
      "idx t * 2 ^ 40 + k = idx u * 2 ^ 40 + j" for t k u j
  proof -
    from tagged_bounds [OF that(1)] tagged_bounds [OF that(2)] per_thread [of t] per_thread [of u]
    have tk: "t \<in> set tids" "u \<in> set tids" "k < 2 ^ 40" "j < 2 ^ 40" by auto
    with that(3) have "idx t = idx u"
      by (metis add.commute div_mult_self3 div_less add_0 power_not_zero zero_neq_numeral)
    with that(3) inj tk show ?thesis by (auto simp: inj_on_def)
  qed
  let ?f = "\<lambda>(t, k). Minted (of_nat (idx t * 2 ^ 40 + k))"
  have unat_id: "unat (of_nat (idx t * 2 ^ 40 + k) :: u64) = idx t * 2 ^ 40 + k"
    if "(t, k) \<in> set (tagged (\<lambda>_. 0) tids)" for t k
    using bound [OF that] by (simp only: unat_of_nat take_bit_nat_eq_self_iff) (simp add: take_bit_nat_def)
  have "inj_on ?f (set (tagged (\<lambda>_. 0) tids))"
  proof (rule inj_onI)
    fix p q assume p: "p \<in> set (tagged (\<lambda>_. 0) tids)" and q: "q \<in> set (tagged (\<lambda>_. 0) tids)"
      and eq: "?f p = ?f q"
    obtain t k u j where pq: "p = (t, k)" "q = (u, j)" by (cases p; cases q) auto
    with eq have "unat (of_nat (idx t * 2 ^ 40 + k) :: u64) = unat (of_nat (idx u * 2 ^ 40 + j) :: u64)"
      by (simp only: prod.case RequestId.inject)
    then have "idx t * 2 ^ 40 + k = idx u * 2 ^ 40 + j"
      using p q pq by (simp only: unat_id)
    then show "p = q" using apart p q pq by blast
  qed
  moreover have "inj_on (request_id_display H seed) (set (mint_run id_init tids))"
  proof (rule inj_onI)
    fix a b assume "a \<in> set (mint_run id_init tids)" "b \<in> set (mint_run id_init tids)"
      and eq: "request_id_display H seed a = request_id_display H seed b"
    then obtain m n where mn: "a = Minted m" "b = Minted n" by (auto simp: run)
    with eq have "hex_digits 16 (unat m) = hex_digits 16 (unat n)" by simp
    moreover have "unat x < 16 ^ 16" for x :: u64 using unsigned_less [of x] by simp
    ultimately have "unat m = unat n" by (metis hex_digits_inj)
    then have "m = n" by (rule unsigned_word_eqI)
    with mn show "a = b" by simp
  qed
  ultimately show ?thesis
    unfolding distinct_map [of "request_id_display H seed"]
    by (simp add: run distinct_map tagged_distinct)
qed

theorem mint_run_distinct_witness:
  "card (set [7, 3, 7 :: nat]) \<le> 2 ^ 24 \<and>
   distinct (mint_run id_init [7, 3, 7]) \<and>
   distinct (map (request_id_display line_headers 42) (mint_run id_init [7, 3, 7]))"
proof -
  have c: "card (set [7, 3, 7 :: nat]) \<le> 2 ^ 24" by (simp add: card_insert_if)
  have t: "count_list [7, 3, 7 :: nat] t \<le> 2 ^ 40" for t by simp
  show ?thesis using c mint_run_distinct [OF c t, of line_headers 42] by blast
qed

text \<open>
  The client's value becomes the request id exactly when the app named a header, the request
  carries it, and the value is visible ASCII of 1 to 128 bytes; it is then reported unchanged and
  no id is minted. Otherwise the id is minted.
\<close>

theorem request_id_of_client:
  assumes "http_crate H"
  shows "case fst (request_id_of H headers header st tid) of
           Client v \<Rightarrow>
             (\<exists>n. header = Some n \<and> hm_get H headers n = Some v) \<and>
             1 \<le> length v \<and> length v \<le> 128 \<and> list_all visible_ascii v \<and>
             request_id_display H seed (Client v) = v \<and>
             snd (request_id_of H headers header st tid) = st
         | Minted i \<Rightarrow>
             \<not> (\<exists>n v. header = Some n \<and> hm_get H headers n = Some v \<and>
                  1 \<le> length v \<and> length v \<le> 128 \<and> list_all visible_ascii v) \<and>
             request_id_of H headers header st tid = mint st tid"
proof -
  note to_str = http_crate.to_str_iff [OF assms]
  have minted: "\<exists>i. fst (mint st tid) = Minted i"
    by (simp add: mint_def split: prod.split)
  show ?thesis
    using minted
    by (cases "Option.bind header (hm_get H headers)")
       (auto simp: request_id_of_def is_usable_def MAX_CLIENT_ID_LEN_def to_str bind_eq_Some_conv
             split: option.splits)
qed

theorem request_id_of_client_witness:
  "fst (request_id_of line_headers [(''x-request-id'', ''abc'')] (Some ''x-request-id'') id_init 0) =
     Client ''abc'' \<and> request_id_display line_headers 42 (Client ''abc'') = ''abc''"
proof -
  have h: "http_crate line_headers" by (rule line.http_crate_axioms)
  have r: "fst (request_id_of line_headers [(''x-request-id'', ''abc'')] (Some ''x-request-id'') id_init 0) =
     Client ''abc''"
    by (simp add: request_id_of_def is_usable_def line_headers_def lines_all_def MAX_CLIENT_ID_LEN_def
          visible_ascii_def)
  show ?thesis
    using r request_id_of_client [OF h, where headers = "[(''x-request-id'', ''abc'')]"
        and header = "Some ''x-request-id''" and st = id_init and tid = 0 and seed = 42]
    by simp
qed

end
