(* ===== verification/Errors.thy ===== *)
theory Errors
  imports Request_Id
begin

section \<open>Request failures (\<open>src/error.rs\<close>, \<open>BodyReject\<close> of \<open>src/body.rs\<close>)\<close>

text \<open>
  Why a request failed, as one typed error. Python exceptions are the captured record of their
  type, text and traceback; the text of an I/O or hyper error is a string. Giving up on a request
  counts it: the counter \<open>DROPPED_REQUESTS\<close> is a 64-bit word that is passed in and returned. Logging
  consumes an error into a \<open>Logged\<close> value and yields the log line, so that a caller that has a
  \<open>Logged\<close> value has written exactly one line for it.
\<close>

record PyException =
  pe_type_name :: string
  pe_message :: string
  pe_traceback :: string

datatype ResponseError =
    Json PyException
  | Text PyException
  | StrRaised string PyException \<comment> \<open>\<open>ResponseError::Str\<close>\<close>
  | Status nat
  | StreamInWorker
  | StreamConsumed
  | ToPy PyException

fun response_exception :: "ResponseError \<Rightarrow> PyException option" where
  "response_exception (Json e) = Some e"
| "response_exception (Text e) = Some e"
| "response_exception (ToPy e) = Some e"
| "response_exception (StrRaised _ e) = Some e"
| "response_exception (Status _) = None"
| "response_exception StreamInWorker = None"
| "response_exception StreamConsumed = None"

datatype Stage = Setup | BeforeHook | Handler | AfterHook | AsyncTask

datatype BodyReject = TooLarge | TimedOut | Read string

datatype HandlerError =
    Python Stage PyException
  | Panic string
  | ResponseErr ResponseError \<comment> \<open>\<open>HandlerError::Response\<close>\<close>
  | Refused Refusal
  | BodyRejected BodyReject
  | ThreadSpawn string
  | ForeignEventLoop int int
and Refusal =
    Overloaded string
  | PoolClosed string
  | WorkerLost string
  | Timeout
  | Overran string nat "HandlerError option" \<comment> \<open>handler, time taken, what it raised\<close>

text \<open>The only way to make a \<open>Refused\<close>: the request is counted where the server decides it.\<close>

definition refuse :: "u64 \<Rightarrow> Refusal \<Rightarrow> HandlerError \<times> u64" where
  "refuse dropped r = (Refused r, dropped + 1)"

text \<open>
  A Python error as \<open>HandlerError::python\<close> receives it: the captured exception, and the rejection
  a \<open>BodyRejected\<close> raised by the server carries (\<open>rejection_of\<close>).
\<close>

record PyErr =
  py_exception :: PyException
  py_rejection :: "BodyReject option"

definition handler_error_python :: "Stage \<Rightarrow> PyErr \<Rightarrow> HandlerError" where
  "handler_error_python stage err =
     (case py_rejection err of
        Some reject \<Rightarrow> BodyRejected reject
      | None \<Rightarrow> Python stage (py_exception err))"

datatype panic_payload = PayloadStr string | PayloadString string | PayloadOther

fun panic_message :: "panic_payload \<Rightarrow> string" where
  "panic_message (PayloadStr s) = s"
| "panic_message (PayloadString s) = s"
| "panic_message PayloadOther = ''<panic payload is neither &str nor String>''"

definition handler_error_panic :: "panic_payload \<Rightarrow> HandlerError" where
  "handler_error_panic payload = Panic (panic_message payload)"

text \<open>\<open>catch_unwind\<close> around a computation: its result, or the payload it panicked with.\<close>

definition catch_panic :: "panic_payload + ('a, HandlerError) result \<Rightarrow> ('a, HandlerError) result" where
  "catch_panic run = (case run of Inl payload \<Rightarrow> Err (handler_error_panic payload) | Inr r \<Rightarrow> r)"

fun handler_error_traceback :: "HandlerError \<Rightarrow> string option" where
  "handler_error_traceback (Python _ e) = Some (pe_traceback e)"
| "handler_error_traceback (ResponseErr e) = map_option pe_traceback (response_exception e)"
| "handler_error_traceback (Refused (Overran _ _ (Some raised))) = handler_error_traceback raised"
| "handler_error_traceback _ = None"

subsection \<open>Logging\<close>

record RequestTag =
  tag_id :: RequestId
  tag_method :: string
  tag_path :: string

record RequestLabel =
  lab_id :: RequestId
  lab_method :: string
  lab_path :: string \<comment> \<open>the URI's path\<close>

definition label_tag :: "RequestLabel \<Rightarrow> RequestTag" where
  "label_tag l = \<lparr>tag_id = lab_id l, tag_method = lab_method l, tag_path = lab_path l\<rparr>"

datatype log_level = LDebug | LWarn | LError

record log_line =
  ll_level :: log_level
  ll_id :: RequestId
  ll_method :: string
  ll_path :: string
  ll_error :: HandlerError
  ll_traceback :: "string option" \<comment> \<open>the field, on the lines that have it\<close>
  ll_message :: string

record Logged =
  lg_error :: HandlerError
  lg_request_id :: RequestId

fun error_level :: "HandlerError \<Rightarrow> log_level" where
  "error_level (Refused (Overloaded _)) = LWarn"
| "error_level (Refused (PoolClosed _)) = LWarn"
| "error_level (BodyRejected (Read _)) = LWarn"
| "error_level (BodyRejected _) = LDebug"
| "error_level _ = LError"

fun error_log_message :: "HandlerError \<Rightarrow> string" where
  "error_log_message (Refused (Overloaded _)) = ''request refused''"
| "error_log_message (Refused (PoolClosed _)) = ''request refused''"
| "error_log_message (BodyRejected _) = ''request body rejected''"
| "error_log_message _ = ''request failed''"

definition error_log :: "HandlerError \<Rightarrow> RequestTag \<Rightarrow> Logged \<times> log_line" where
  "error_log e tag =
     (\<lparr>lg_error = e, lg_request_id = tag_id tag\<rparr>,
      \<lparr>ll_level = error_level e, ll_id = tag_id tag, ll_method = tag_method tag,
       ll_path = tag_path tag, ll_error = e,
       ll_traceback = (if error_level e = LError
                       then Some (case handler_error_traceback e of Some t \<Rightarrow> t | None \<Rightarrow> []) else None),
       ll_message = error_log_message e\<rparr>)"

end
