(* ===== verification/Response.thy ===== *)
theory Response
  imports Errors
begin

section \<open>Responses (\<open>src/response.rs\<close>, \<open>src/types/response.rs\<close>, \<open>src/handlers/error.rs\<close>)\<close>

text \<open>
  A handler's return value becomes a \<open>ResponseData\<close>, which becomes the HTTP response; an error that
  was logged becomes the response the client gets. Python values are the datatype \<open>pyobj\<close>, by the
  types the code tells apart; what the Python interpreter computes for them (JSON text, \<open>str()\<close>,
  UTF-8 text of a \<open>str\<close>) is the record \<open>interp\<close> of parameters.
\<close>

definition SERVER_HEADER :: string where "SERVER_HEADER = ''Pyronova/2.10.0''"

definition JSON :: string where "JSON = ''application/json''"
definition TEXT :: string where "TEXT = ''text/plain; charset=utf-8''"
definition OCTET_STREAM :: string where "OCTET_STREAM = ''application/octet-stream''"
definition OVERLOAD_RETRY_AFTER_SECS :: string where "OVERLOAD_RETRY_AFTER_SECS = ''1''"
definition GENERIC_500 :: string where "GENERIC_500 = ''Internal Server Error''"

text \<open>Header names, as \<open>hyper::header\<close> spells them.\<close>

definition CONTENT_TYPE :: string where "CONTENT_TYPE = ''content-type''"
definition SERVER :: string where "SERVER = ''server''"
definition RETRY_AFTER :: string where "RETRY_AFTER = ''retry-after''"
definition ALLOW :: string where "ALLOW = ''allow''"
definition CONTENT_LENGTH :: string where "CONTENT_LENGTH = ''content-length''"
definition CONTENT_ENCODING :: string where "CONTENT_ENCODING = ''content-encoding''"
definition VARY :: string where "VARY = ''vary''"
definition CACHE_CONTROL :: string where "CACHE_CONTROL = ''cache-control''"
definition CONNECTION :: string where "CONNECTION = ''connection''"
definition ACCEPT_ENCODING :: string where "ACCEPT_ENCODING = ''accept-encoding''"

lemmas header_name_defs =
  CONTENT_TYPE_def SERVER_def RETRY_AFTER_def ALLOW_def CONTENT_LENGTH_def CONTENT_ENCODING_def VARY_def
  CACHE_CONTROL_def CONNECTION_def ACCEPT_ENCODING_def

text \<open>The names are different constants: the lemma's equations decide a comparison of two of them.\<close>

lemma header_names_differ [simp]:
  "CONTENT_TYPE \<noteq> SERVER" "CONTENT_TYPE \<noteq> RETRY_AFTER" "CONTENT_TYPE \<noteq> ALLOW" "CONTENT_TYPE \<noteq> CONTENT_LENGTH" "CONTENT_TYPE \<noteq> CONTENT_ENCODING" "CONTENT_TYPE \<noteq> VARY" "CONTENT_TYPE \<noteq> CACHE_CONTROL" "CONTENT_TYPE \<noteq> CONNECTION" "CONTENT_TYPE \<noteq> ACCEPT_ENCODING"
  "SERVER \<noteq> CONTENT_TYPE" "SERVER \<noteq> RETRY_AFTER" "SERVER \<noteq> ALLOW" "SERVER \<noteq> CONTENT_LENGTH" "SERVER \<noteq> CONTENT_ENCODING" "SERVER \<noteq> VARY" "SERVER \<noteq> CACHE_CONTROL" "SERVER \<noteq> CONNECTION" "SERVER \<noteq> ACCEPT_ENCODING"
  "RETRY_AFTER \<noteq> CONTENT_TYPE" "RETRY_AFTER \<noteq> SERVER" "RETRY_AFTER \<noteq> ALLOW" "RETRY_AFTER \<noteq> CONTENT_LENGTH" "RETRY_AFTER \<noteq> CONTENT_ENCODING" "RETRY_AFTER \<noteq> VARY" "RETRY_AFTER \<noteq> CACHE_CONTROL" "RETRY_AFTER \<noteq> CONNECTION" "RETRY_AFTER \<noteq> ACCEPT_ENCODING"
  "ALLOW \<noteq> CONTENT_TYPE" "ALLOW \<noteq> SERVER" "ALLOW \<noteq> RETRY_AFTER" "ALLOW \<noteq> CONTENT_LENGTH" "ALLOW \<noteq> CONTENT_ENCODING" "ALLOW \<noteq> VARY" "ALLOW \<noteq> CACHE_CONTROL" "ALLOW \<noteq> CONNECTION" "ALLOW \<noteq> ACCEPT_ENCODING"
  "CONTENT_LENGTH \<noteq> CONTENT_TYPE" "CONTENT_LENGTH \<noteq> SERVER" "CONTENT_LENGTH \<noteq> RETRY_AFTER" "CONTENT_LENGTH \<noteq> ALLOW" "CONTENT_LENGTH \<noteq> CONTENT_ENCODING" "CONTENT_LENGTH \<noteq> VARY" "CONTENT_LENGTH \<noteq> CACHE_CONTROL" "CONTENT_LENGTH \<noteq> CONNECTION" "CONTENT_LENGTH \<noteq> ACCEPT_ENCODING"
  "CONTENT_ENCODING \<noteq> CONTENT_TYPE" "CONTENT_ENCODING \<noteq> SERVER" "CONTENT_ENCODING \<noteq> RETRY_AFTER" "CONTENT_ENCODING \<noteq> ALLOW" "CONTENT_ENCODING \<noteq> CONTENT_LENGTH" "CONTENT_ENCODING \<noteq> VARY" "CONTENT_ENCODING \<noteq> CACHE_CONTROL" "CONTENT_ENCODING \<noteq> CONNECTION" "CONTENT_ENCODING \<noteq> ACCEPT_ENCODING"
  "VARY \<noteq> CONTENT_TYPE" "VARY \<noteq> SERVER" "VARY \<noteq> RETRY_AFTER" "VARY \<noteq> ALLOW" "VARY \<noteq> CONTENT_LENGTH" "VARY \<noteq> CONTENT_ENCODING" "VARY \<noteq> CACHE_CONTROL" "VARY \<noteq> CONNECTION" "VARY \<noteq> ACCEPT_ENCODING"
  "CACHE_CONTROL \<noteq> CONTENT_TYPE" "CACHE_CONTROL \<noteq> SERVER" "CACHE_CONTROL \<noteq> RETRY_AFTER" "CACHE_CONTROL \<noteq> ALLOW" "CACHE_CONTROL \<noteq> CONTENT_LENGTH" "CACHE_CONTROL \<noteq> CONTENT_ENCODING" "CACHE_CONTROL \<noteq> VARY" "CACHE_CONTROL \<noteq> CONNECTION" "CACHE_CONTROL \<noteq> ACCEPT_ENCODING"
  "CONNECTION \<noteq> CONTENT_TYPE" "CONNECTION \<noteq> SERVER" "CONNECTION \<noteq> RETRY_AFTER" "CONNECTION \<noteq> ALLOW" "CONNECTION \<noteq> CONTENT_LENGTH" "CONNECTION \<noteq> CONTENT_ENCODING" "CONNECTION \<noteq> VARY" "CONNECTION \<noteq> CACHE_CONTROL" "CONNECTION \<noteq> ACCEPT_ENCODING"
  "ACCEPT_ENCODING \<noteq> CONTENT_TYPE" "ACCEPT_ENCODING \<noteq> SERVER" "ACCEPT_ENCODING \<noteq> RETRY_AFTER" "ACCEPT_ENCODING \<noteq> ALLOW" "ACCEPT_ENCODING \<noteq> CONTENT_LENGTH" "ACCEPT_ENCODING \<noteq> CONTENT_ENCODING" "ACCEPT_ENCODING \<noteq> VARY" "ACCEPT_ENCODING \<noteq> CACHE_CONTROL" "ACCEPT_ENCODING \<noteq> CONNECTION"
  by (simp_all add: header_name_defs)

subsection \<open>HTTP responses\<close>

record 'h http_response =
  rsp_status :: nat
  rsp_headers :: 'h
  rsp_body :: resp_body

text \<open>\<open>Response::new\<close>: a 200 with no headers.\<close>

definition response_new :: "'h http_api \<Rightarrow> resp_body \<Rightarrow> 'h http_response" where
  "response_new H body = \<lparr>rsp_status = 200, rsp_headers = hm_new H, rsp_body = body\<rparr>"

definition json_error :: "'h http_api \<Rightarrow> nat \<Rightarrow> string \<Rightarrow> 'h http_response" where
  "json_error H status body =
     (let resp = (response_new H (Full body))\<lparr>rsp_status := status\<rparr>
      in resp\<lparr>rsp_headers :=
           hm_insert H (hm_insert H (rsp_headers resp) CONTENT_TYPE JSON) SERVER SERVER_HEADER\<rparr>)"

definition serialization_failed :: string where
  "serialization_failed = ''{\"error\":\"serialization failed\"}''"

definition error_json_body :: "'h http_api \<Rightarrow> string \<Rightarrow> string" where
  "error_json_body H msg =
     (case json_to_vec H [(''error'', msg)] of Some b \<Rightarrow> b | None \<Rightarrow> serialization_failed)"

definition server_error_body :: "'h http_api \<Rightarrow> u64 \<Rightarrow> string \<Rightarrow> RequestId \<Rightarrow> string" where
  "server_error_body H seed msg rid =
     (case json_to_vec H [(''error'', msg), (''request_id'', request_id_display H seed rid)] of
        Some b \<Rightarrow> b | None \<Rightarrow> serialization_failed)"

definition error_response :: "'h http_api \<Rightarrow> u64 \<Rightarrow> string \<Rightarrow> RequestId \<Rightarrow> 'h http_response" where
  "error_response H seed msg rid = json_error H 500 (server_error_body H seed msg rid)"

definition overloaded_response :: "'h http_api \<Rightarrow> u64 \<Rightarrow> string \<Rightarrow> RequestId \<Rightarrow> 'h http_response" where
  "overloaded_response H seed msg rid =
     (let resp = json_error H 503 (server_error_body H seed msg rid)
      in resp\<lparr>rsp_headers := hm_insert H (rsp_headers resp) RETRY_AFTER OVERLOAD_RETRY_AFTER_SECS\<rparr>)"

definition unavailable_response :: "'h http_api \<Rightarrow> u64 \<Rightarrow> string \<Rightarrow> RequestId \<Rightarrow> 'h http_response" where
  "unavailable_response H seed msg rid = json_error H 503 (server_error_body H seed msg rid)"

definition bad_request_response :: "'h http_api \<Rightarrow> string \<Rightarrow> 'h http_response" where
  "bad_request_response H msg = json_error H 400 (error_json_body H msg)"

definition request_timeout_response :: "'h http_api \<Rightarrow> 'h http_response" where
  "request_timeout_response H = json_error H 408 (error_json_body H ''request body timeout'')"

definition payload_too_large_response :: "'h http_api \<Rightarrow> 'h http_response" where
  "payload_too_large_response H = json_error H 413 ''{\"error\":\"payload too large\"}''"

definition gateway_timeout_response :: "'h http_api \<Rightarrow> u64 \<Rightarrow> RequestId \<Rightarrow> 'h http_response" where
  "gateway_timeout_response H seed rid = json_error H 504 (server_error_body H seed ''request timeout'' rid)"

definition not_found_response :: "'h http_api \<Rightarrow> 'h http_response" where
  "not_found_response H = json_error H 404 ''{\"error\":\"not found\"}''"

definition method_not_allowed_response :: "'h http_api \<Rightarrow> string \<Rightarrow> 'h http_response" where
  "method_not_allowed_response H allow =
     (let resp = json_error H 405 ''{\"error\":\"method not allowed\"}''
      in resp\<lparr>rsp_headers := hm_insert H (rsp_headers resp) ALLOW allow\<rparr>)"

subsection \<open>A logged error as a response\<close>

text \<open>The text of a body rejection, as its \<open>Display\<close> writes it.\<close>

fun body_reject_text :: "BodyReject \<Rightarrow> string" where
  "body_reject_text TooLarge = ''request body is larger than max_body_size''"
| "body_reject_text TimedOut = ''request body did not arrive within 30s''"
| "body_reject_text (Read e) = ''request body read failed: '' @ e"

fun refusal_response :: "'h http_api \<Rightarrow> u64 \<Rightarrow> RequestId \<Rightarrow> Refusal \<Rightarrow> 'h http_response" where
  "refusal_response H seed rid (Overloaded _) = overloaded_response H seed ''server overloaded'' rid"
| "refusal_response H seed rid (PoolClosed _) = unavailable_response H seed ''server shutting down'' rid"
| "refusal_response H seed rid Timeout = gateway_timeout_response H seed rid"
| "refusal_response H seed rid (Overran _ _ _) = gateway_timeout_response H seed rid"
| "refusal_response H seed rid (WorkerLost _) = error_response H seed GENERIC_500 rid"

fun handler_error_response :: "'h http_api \<Rightarrow> u64 \<Rightarrow> RequestId \<Rightarrow> HandlerError \<Rightarrow> 'h http_response" where
  "handler_error_response H seed rid (Refused r) = refusal_response H seed rid r"
| "handler_error_response H seed rid (BodyRejected TooLarge) = payload_too_large_response H"
| "handler_error_response H seed rid (BodyRejected TimedOut) = request_timeout_response H"
| "handler_error_response H seed rid (BodyRejected (Read e)) =
     bad_request_response H (body_reject_text (Read e))"
| "handler_error_response H seed rid (Python _ _) = error_response H seed GENERIC_500 rid"
| "handler_error_response H seed rid (Panic _) = error_response H seed GENERIC_500 rid"
| "handler_error_response H seed rid (ResponseErr _) = error_response H seed GENERIC_500 rid"
| "handler_error_response H seed rid (ThreadSpawn _) = error_response H seed GENERIC_500 rid"
| "handler_error_response H seed rid (ForeignEventLoop _ _) = error_response H seed GENERIC_500 rid"

text \<open>\<open>Logged::into_response\<close>.\<close>

definition logged_into_response :: "'h http_api \<Rightarrow> u64 \<Rightarrow> Logged \<Rightarrow> 'h http_response" where
  "logged_into_response H seed l = handler_error_response H seed (lg_request_id l) (lg_error l)"

subsection \<open>A handler's return value\<close>

record 'h ResponseData =
  rd_body :: string
  rd_content_type :: string
  rd_status :: nat
  rd_headers :: 'h

datatype 'h pyobj =
    PyNone
  | PyDict nat
  | PyList nat
  | PyStr nat
  | PyBytes string
  | PyByteArray string
  | PyResponse "'h pyobj" nat "string option" 'h \<comment> \<open>body, status, content type, headers\<close>
  | PyStream nat \<comment> \<open>a \<open>Stream\<close> object, by its identity\<close>
  | PyOther nat

text \<open>
  What the interpreter computes: \<open>isojson.dumps\<close> (with the \<open>set\<close> fallback), \<open>str()\<close>, the UTF-8 of a
  \<open>str\<close> (an error for a lone surrogate), a type's name, and a new \<open>str\<close> or \<open>Response\<close> object.
\<close>

record 'h interp =
  in_dumps :: "'h pyobj \<Rightarrow> (string, PyException) result"
  in_to_str :: "'h pyobj \<Rightarrow> (string, PyException) result"
  in_str :: "'h pyobj \<Rightarrow> ('h pyobj, PyException) result"
  in_type_name :: "'h pyobj \<Rightarrow> string"

fun is_json_value :: "'h pyobj \<Rightarrow> bool" where
  "is_json_value (PyDict _) = True"
| "is_json_value (PyList _) = True"
| "is_json_value _ = False"

fun is_str :: "'h pyobj \<Rightarrow> bool" where
  "is_str (PyStr _) = True"
| "is_str _ = False"

definition json_dumps :: "'h interp \<Rightarrow> 'h pyobj \<Rightarrow> (string, ResponseError) result" where
  "json_dumps P obj = map_err Json (in_dumps P obj)"

definition text_bytes :: "'h interp \<Rightarrow> 'h pyobj \<Rightarrow> (string, ResponseError) result" where
  "text_bytes P s = map_err Text (in_to_str P s)"

definition body_of :: "'h interp \<Rightarrow> 'h pyobj \<Rightarrow> (string \<times> string, ResponseError) result" where
  "body_of P obj =
     (if is_json_value obj then map_ok (\<lambda>b. (b, JSON)) (json_dumps P obj)
      else if is_str obj then map_ok (\<lambda>b. (b, TEXT)) (text_bytes P obj)
      else (case obj of
              PyBytes b \<Rightarrow> Ok (b, OCTET_STREAM)
            | PyByteArray b \<Rightarrow> Ok (b, OCTET_STREAM)
            | PyNone \<Rightarrow> Ok ([], TEXT)
            | _ \<Rightarrow> and_then (map_err (StrRaised (in_type_name P obj)) (in_str P obj))
                     (\<lambda>text. map_ok (\<lambda>b. (b, TEXT)) (text_bytes P text))))"

definition http_status :: "'h http_api \<Rightarrow> nat \<Rightarrow> (nat, ResponseError) result" where
  "http_status H code = ok_or (Status code) (status_from_u16 H code)"

definition plain_response ::
    "'h http_api \<Rightarrow> 'h interp \<Rightarrow> 'h pyobj \<Rightarrow> ('h ResponseData, ResponseError) result" where
  "plain_response H P obj =
     map_ok (\<lambda>(body, ct). \<lparr>rd_body = body, rd_content_type = ct, rd_status = 200, rd_headers = hm_new H\<rparr>)
       (body_of P obj)"

definition from_response ::
    "'h http_api \<Rightarrow> 'h interp \<Rightarrow> 'h pyobj \<Rightarrow> nat \<Rightarrow> string option \<Rightarrow> 'h \<Rightarrow>
     ('h ResponseData, ResponseError) result" where
  "from_response H P body code ct headers =
     and_then (http_status H code) (\<lambda>status.
       map_ok (\<lambda>(b, derived).
           \<lparr>rd_body = b, rd_content_type = (case ct of Some t \<Rightarrow> t | None \<Rightarrow> derived),
            rd_status = status, rd_headers = headers\<rparr>)
         (body_of P body))"

definition extract_response_data ::
    "'h http_api \<Rightarrow> 'h interp \<Rightarrow> 'h pyobj \<Rightarrow> ('h ResponseData, ResponseError) result" where
  "extract_response_data H P obj =
     (if is_json_value obj \<or> is_str obj then plain_response H P obj
      else (case obj of
              PyResponse body code ct headers \<Rightarrow> from_response H P body code ct headers
            | _ \<Rightarrow> plain_response H P obj))"

definition build_response :: "'h http_api \<Rightarrow> 'h ResponseData \<Rightarrow> 'h http_response" where
  "build_response H data =
     (let headers = hm_or_insert H (hm_or_insert H (rd_headers data) CONTENT_TYPE (rd_content_type data))
                      SERVER SERVER_HEADER
      in (response_new H (Full (rd_body data)))\<lparr>rsp_status := rd_status data, rsp_headers := headers\<rparr>)"

subsection \<open>A response's headers from Python (\<open>ResponseHeaders::from_py\<close>)\<close>

text \<open>
  The \<open>headers=\<close> dict: names and values in the dict's order. A name or value that is not a \<open>str\<close>
  is a \<open>TypeError\<close>, an invalid one a \<open>ValueError\<close>. A \<open>str\<close> whose text cannot be read raises its own
  error.
\<close>

datatype py_scalar = ScStr "(string, PyException) result" | ScOther string

datatype py_header_value = HvScalar py_scalar | HvList "py_scalar list" | HvTuple "py_scalar list"

datatype header_error =
    NameType string
  | ValueType string string
  | BadName string
  | BadValue string string
  | TextError PyException

fun scalar_str :: "string \<Rightarrow> py_scalar \<Rightarrow> (string, header_error) result" where \<comment> \<open>\<open>str_item\<close>\<close>
  "scalar_str key (ScStr r) = map_err TextError r"
| "scalar_str key (ScOther ty) = Err (ValueType key ty)"

fun header_items :: "string \<Rightarrow> py_header_value \<Rightarrow> (py_scalar list, header_error) result" where
  "header_items key (HvList xs) = Ok xs"
| "header_items key (HvTuple xs) = Ok xs"
| "header_items key (HvScalar x) = and_then (scalar_str key x) (\<lambda>_. Ok [x])"

definition header_name_of :: "'h http_api \<Rightarrow> string \<Rightarrow> (string, header_error) result" where
  "header_name_of H name = ok_or (BadName name) (hn_from_bytes H name)"

definition header_value_of :: "'h http_api \<Rightarrow> string \<Rightarrow> string \<Rightarrow> (string, header_error) result" where
  "header_value_of H name value = ok_or (BadValue name value) (hv_from_str H value)"

definition append_item ::
    "'h http_api \<Rightarrow> string \<Rightarrow> string \<Rightarrow> 'h \<Rightarrow> py_scalar \<Rightarrow> ('h, header_error) result" where
  "append_item H key name hm item =
     and_then (scalar_str key item) (\<lambda>text.
       map_ok (hm_append H hm name) (header_value_of H key text))"

fun append_header ::
    "'h http_api \<Rightarrow> 'h \<Rightarrow> py_scalar \<times> py_header_value \<Rightarrow> ('h, header_error) result" where
  "append_header H hm (ScOther ty, value) = Err (NameType ty)"
| "append_header H hm (ScStr r, value) =
     and_then (map_err TextError r) (\<lambda>key.
     and_then (header_name_of H key) (\<lambda>name.
     and_then (header_items key value) (\<lambda>items.
       try_fold (append_item H key name) hm items)))"

definition headers_from_py ::
    "'h http_api \<Rightarrow> (py_scalar \<times> py_header_value) list \<Rightarrow> ('h, header_error) result" where
  "headers_from_py H dict = try_fold (append_header H) (hm_new H) dict"

subsection \<open>Specifications\<close>

text \<open>An error without anything internal in it: exceptions, panic texts, handler names, OS errors.\<close>

definition no_exception :: PyException where
  "no_exception = \<lparr>pe_type_name = [], pe_message = [], pe_traceback = []\<rparr>"

fun scrub_refusal :: "Refusal \<Rightarrow> Refusal" where
  "scrub_refusal (Overloaded _) = Overloaded []"
| "scrub_refusal (PoolClosed _) = PoolClosed []"
| "scrub_refusal (WorkerLost _) = WorkerLost []"
| "scrub_refusal Timeout = Timeout"
| "scrub_refusal (Overran _ _ _) = Overran [] 0 None"

fun scrub :: "HandlerError \<Rightarrow> HandlerError" where
  "scrub (Python _ _) = Python Handler no_exception"
| "scrub (Panic _) = Panic []"
| "scrub (ResponseErr _) = ResponseErr StreamConsumed"
| "scrub (Refused r) = Refused (scrub_refusal r)"
| "scrub (BodyRejected TooLarge) = BodyRejected TooLarge"
| "scrub (BodyRejected TimedOut) = BodyRejected TimedOut"
| "scrub (BodyRejected (Read _)) = BodyRejected (Read [])"
| "scrub (ThreadSpawn _) = ThreadSpawn []"
| "scrub (ForeignEventLoop _ _) = ForeignEventLoop 0 0"

text \<open>The texts a 5xx body may carry.\<close>

definition public_texts :: "string set" where
  "public_texts = {GENERIC_500, ''server overloaded'', ''server shutting down'', ''request timeout''}"

text \<open>The lines a \<open>headers=\<close> dict asks for under one header name, in order.\<close>

fun scalar_texts :: "py_scalar list \<Rightarrow> string list" where
  "scalar_texts [] = []"
| "scalar_texts (ScStr (Inr t) # xs) = t # scalar_texts xs"
| "scalar_texts (_ # xs) = scalar_texts xs"

fun value_texts :: "py_header_value \<Rightarrow> string list" where
  "value_texts (HvScalar x) = scalar_texts [x]"
| "value_texts (HvList xs) = scalar_texts xs"
| "value_texts (HvTuple xs) = scalar_texts xs"

fun entry_lines :: "'h http_api \<Rightarrow> string \<Rightarrow> py_scalar \<times> py_header_value \<Rightarrow> string list" where
  "entry_lines H n (ScStr (Inr key), value) = (if hn_from_bytes H key = Some n then value_texts value else [])"
| "entry_lines H n _ = []"

definition dict_lines :: "'h http_api \<Rightarrow> string \<Rightarrow> (py_scalar \<times> py_header_value) list \<Rightarrow> string list" where
  "dict_lines H n dict = concat (map (entry_lines H n) dict)"

subsection \<open>Lemmas\<close>

lemma json_error_simps [simp]:
  "rsp_status (json_error H st b) = st" "rsp_body (json_error H st b) = Full b"
  by (simp_all add: json_error_def response_new_def Let_def)

lemmas error_response_defs =
  error_response_def overloaded_response_def unavailable_response_def bad_request_response_def
  request_timeout_response_def payload_too_large_response_def gateway_timeout_response_def

context http_crate
begin

lemma json_error_lines:
  "hm_get_all H (rsp_headers (json_error H st b)) n =
     (if n = SERVER then [SERVER_HEADER] else if n = CONTENT_TYPE then [JSON] else [])"
  by (simp add: json_error_def response_new_def Let_def)

lemma build_response_lines:
  "hm_get_all H (rsp_headers (build_response H d)) n =
     (if hm_get_all H (rd_headers d) n \<noteq> [] then hm_get_all H (rd_headers d) n
      else if n = CONTENT_TYPE then [rd_content_type d]
      else if n = SERVER then [SERVER_HEADER] else [])"
  by (simp add: build_response_def response_new_def Let_def)

lemma append_items_lines:
  "try_fold (append_item H key name) h items = Inr h' \<Longrightarrow>
   hm_get_all H h' n = hm_get_all H h n @ (if n = name then scalar_texts items else [])"
proof (induction items arbitrary: h)
  case Nil
  then show ?case by simp
next
  case (Cons x xs)
  then show ?case
    by (cases "(key, x)" rule: scalar_str.cases)
       (auto simp: append_item_def header_value_of_def result_iffs dest: from_str_same)
qed

lemma header_items_texts:
  "header_items key v = Inr items \<Longrightarrow> scalar_texts items = value_texts v"
  by (cases v) (auto simp: result_iffs)

lemma append_header_lines:
  "append_header H h kv = Inr h' \<Longrightarrow> hm_get_all H h' n = hm_get_all H h n @ entry_lines H n kv"
  by (cases "(H, h, kv)" rule: append_header.cases)
     (auto simp: header_name_of_def result_iffs header_items_texts dest!: append_items_lines [where n = n])

lemma try_fold_header_lines:
  "try_fold (append_header H) h dict = Inr h' \<Longrightarrow>
   hm_get_all H h' n = hm_get_all H h n @ dict_lines H n dict"
  by (induction dict arbitrary: h)
     (auto simp: dict_lines_def result_iffs dest!: append_header_lines [where n = n])

end

lemma extract_status:
  assumes "http_crate H" and "extract_response_data H P obj = Ok d"
  shows "100 \<le> rd_status d \<and> rd_status d \<le> 999"
  using assms(2)
  by (auto simp: extract_response_data_def plain_response_def from_response_def http_status_def
        http_crate.status_range [OF assms(1)] result_iffs split: pyobj.splits if_splits prod.splits)

subsection \<open>Properties\<close>

text \<open>
  C2. A 5xx response carries nothing of the error it answers: it is the same response for any two
  errors that differ only in exception text, traceback, panic message, handler name or OS error.
\<close>

theorem server_error_hides_internals:
  assumes "500 \<le> rsp_status (handler_error_response H seed rid e)"
  shows "handler_error_response H seed rid e = handler_error_response H seed rid (scrub e)"
  using assms
proof (cases e)
  case (Refused r)
  then show ?thesis by (cases r) simp_all
next
  case (BodyRejected b)
  with assms show ?thesis by (cases b) (simp_all add: error_response_defs)
qed simp_all

theorem server_error_hides_internals_witness:
  "500 \<le> rsp_status (handler_error_response line_headers 7 (Minted 1) (Panic ''secret'')) \<and>
   handler_error_response line_headers 7 (Minted 1) (Panic ''secret'') =
     handler_error_response line_headers 7 (Minted 1) (Panic [])"
proof -
  have h: "500 \<le> rsp_status (handler_error_response line_headers 7 (Minted 1) (Panic ''secret''))"
    by (simp add: error_response_def)
  show ?thesis using h server_error_hides_internals [OF h] by simp
qed

text \<open>
  Every logged error is answered by a JSON response with the server header: a 4xx exactly for a
  rejected request body; otherwise a 5xx whose body is one of four public texts with the very id
  its log line carries. The log line is at error level exactly for the 500s and 504s, and only an
  overload asks the client to retry.
\<close>

theorem logged_error_answer:
  fixes H :: "'h http_api" and seed :: u64 and e :: HandlerError and tag :: RequestTag
  assumes H: "http_crate H"
  defines "line \<equiv> snd (error_log e tag)"
    and "r \<equiv> logged_into_response H seed (fst (error_log e tag))"
  shows "(rsp_status r < 500 \<longleftrightarrow> (\<exists>b. e = BodyRejected b)) \<and>
         rsp_status r \<in> {400, 408, 413, 500, 503, 504} \<and>
         (500 \<le> rsp_status r \<longrightarrow>
            (\<exists>msg \<in> public_texts. rsp_body r = Full (server_error_body H seed msg (ll_id line)))) \<and>
         (ll_level line = LError \<longleftrightarrow> rsp_status r \<in> {500, 504}) \<and>
         hm_get_all H (rsp_headers r) CONTENT_TYPE = [JSON] \<and>
         hm_get_all H (rsp_headers r) SERVER = [SERVER_HEADER] \<and>
         (hm_get_all H (rsp_headers r) RETRY_AFTER \<noteq> [] \<longleftrightarrow> (\<exists>what. e = Refused (Overloaded what)))"
proof -
  note [simp] = http_crate.json_error_lines [OF H] http_crate.get_all_insert [OF H]
  have r: "r = handler_error_response H seed (tag_id tag) e" and id: "ll_id line = tag_id tag"
    and level: "ll_level line = error_level e"
    by (simp_all add: r_def line_def error_log_def logged_into_response_def)
  show ?thesis
  proof (cases e)
    case (Refused x)
    then show ?thesis
      by (cases x) (auto simp: r id level error_response_defs public_texts_def Let_def)
  next
    case (BodyRejected b)
    then show ?thesis
      by (cases b) (simp_all add: r id level error_response_defs)
  qed (auto simp: r id level error_response_defs public_texts_def)
qed

theorem logged_error_answer_witness:
  "http_crate line_headers \<and>
   rsp_status (logged_into_response line_headers 7
     (fst (error_log (BodyRejected TooLarge) \<lparr>tag_id = Minted 1, tag_method = ''POST'', tag_path = ''/''\<rparr>))) = 413 \<and>
   rsp_status (logged_into_response line_headers 7
     (fst (error_log (Refused Timeout) \<lparr>tag_id = Minted 1, tag_method = ''POST'', tag_path = ''/''\<rparr>))) = 504"
proof -
  have h: "http_crate line_headers" by (rule line.http_crate_axioms)
  note a = logged_error_answer [OF h, of 7 "BodyRejected TooLarge"
      "\<lparr>tag_id = Minted 1, tag_method = ''POST'', tag_path = ''/''\<rparr>"]
  show ?thesis
    using h a by (simp add: logged_into_response_def error_log_def error_response_defs)
qed

text \<open>
  A handler's response goes out with every header line the handler set, in its order; the type
  derived from its value and the server name are added only where the handler set none, and nothing
  else is added.
\<close>

theorem build_response_headers:
  assumes "http_crate H"
  shows "rsp_body (build_response H d) = Full (rd_body d) \<and> rsp_status (build_response H d) = rd_status d \<and>
         hm_get_all H (rsp_headers (build_response H d)) n =
           (if hm_get_all H (rd_headers d) n \<noteq> [] then hm_get_all H (rd_headers d) n
            else if n = CONTENT_TYPE then [rd_content_type d]
            else if n = SERVER then [SERVER_HEADER] else [])"
  unfolding http_crate.build_response_lines [OF assms]
  by (simp add: build_response_def response_new_def Let_def)

theorem build_response_headers_witness:
  "hm_get_all line_headers (rsp_headers (build_response line_headers
     \<lparr>rd_body = ''ok'', rd_content_type = TEXT, rd_status = 200, rd_headers = [(''server'', ''mine'')]\<rparr>)) SERVER
     = [''mine'']"
proof -
  have h: "http_crate line_headers" by (rule line.http_crate_axioms)
  have "hm_get_all line_headers [(''server'', ''mine'')] SERVER = [''mine'']"
    by (simp add: line_headers_def lines_all_def SERVER_def)
  then show ?thesis
    using build_response_headers [OF h, of "\<lparr>rd_body = ''ok'', rd_content_type = TEXT, rd_status = 200,
      rd_headers = [(''server'', ''mine'')]\<rparr>" SERVER] by simp
qed

text \<open>
  When a \<open>headers=\<close> dict is accepted, the response's lines under each name are exactly the
  texts the dict gives for it, one line per list item, in the dict's order, across all the spellings
  of the name; nothing is dropped, merged or reordered.
\<close>

theorem headers_from_py_lines:
  assumes "http_crate H" and "headers_from_py H dict = Ok h"
  shows "hm_get_all H h n = dict_lines H n dict"
  using http_crate.try_fold_header_lines [OF assms(1) assms(2) [unfolded headers_from_py_def]]
  by (simp add: http_crate.get_all_new [OF assms(1)])

theorem headers_from_py_lines_witness:
  "\<exists>h. headers_from_py line_headers
         [(ScStr (Inr ''Set-Cookie''), HvList [ScStr (Inr ''a=1''), ScStr (Inr ''b=2'')])] = Ok h \<and>
       hm_get_all line_headers h ''set-cookie'' = [''a=1'', ''b=2'']"
proof -
  let ?d = "[(ScStr (Inr ''Set-Cookie''), HvList [ScStr (Inr ''a=1''), ScStr (Inr ''b=2'')])]"
  have h: "http_crate line_headers" by (rule line.http_crate_axioms)
  obtain x where x: "headers_from_py line_headers ?d = Ok x"
    by (simp add: headers_from_py_def append_item_def header_name_of_def header_value_of_def
          line_headers_def visible_ascii_def ascii_defs)
  have "dict_lines line_headers ''set-cookie'' ?d = [''a=1'', ''b=2'']"
    by (simp add: dict_lines_def line_headers_def visible_ascii_def ascii_defs char_of_def bit_0)
  then show ?thesis using x headers_from_py_lines [OF h x] by auto
qed

end
