(* ===== verification/Static_Files.thy ===== *)
theory Static_Files
  imports Response
begin

section \<open>Static files (\<open>src/static_fs.rs\<close>)\<close>

text \<open>
  Request paths under a mount served from its directory, on Unix. A \<open>PathBuf\<close> that is absolute is
  the list of its components, which is how \<open>Path\<close> compares; \<open>push\<close> of a plain file name adds one
  component and \<open>starts_with\<close> is the list prefix. The file system is the record \<open>fs_ops\<close> of the
  answers one request gets; nothing is assumed of it, so a file may change or turn into a symlink
  between any two calls. Percent decoding (crate \<open>percent_encoding\<close>) and the concurrent map (crate
  \<open>dashmap\<close>) are parameters. The byte counter is a 64-bit word that wraps.

  The results: a request path cannot climb out of its mount, what is served was read at a path that
  resolved under the mount's root and is the version the metadata describes, and the cache's counter
  equals the bytes it holds and never exceeds the cap, also when requests interleave between any two
  atomic operations.
\<close>

definition MAX_STATIC_FILE_BYTES :: nat where "MAX_STATIC_FILE_BYTES = 16 * 1024 * 1024"

definition STATIC_CACHE_MAX_BYTES :: nat where "STATIC_CACHE_MAX_BYTES = 128 * 1024 * 1024"

type_synonym path = "string list"

subsection \<open>The operating system's answers\<close>

datatype io_kind = NotFound | NotADirectoryKind | PermissionDeniedKind | OtherKind string

record io_error =
  io_kind :: io_kind
  io_raw_os_error :: "int option"

record metadata =
  md_is_file :: bool
  md_len :: nat
  md_modified :: "nat option" \<comment> \<open>\<open>None\<close>: the platform has no modification times\<close>

record open_file =
  of_metadata :: "(metadata, io_error) result"
  of_read :: "(string, io_error) result" \<comment> \<open>all there is to read, or the error of the read\<close>

record fs_ops =
  fs_resolve :: "string \<Rightarrow> (path, io_error) result" \<comment> \<open>\<open>std::fs::canonicalize\<close> of a text\<close>
  fs_is_dir :: "path \<Rightarrow> bool"
  fs_canonicalize :: "path \<Rightarrow> (path, io_error) result"
  fs_metadata :: "path \<Rightarrow> (metadata, io_error) result"
  fs_open_no_follow :: "path \<Rightarrow> (open_file, io_error) result"

text \<open>Linux's value.\<close>

definition ELOOP :: int where "ELOOP = 40"

subsection \<open>Mounts\<close>

datatype StaticMountError =
    Prefix string
  | Root string io_error
  | NotADirectory path

definition canonical_dir_resolve :: "fs_ops \<Rightarrow> string \<Rightarrow> (path, StaticMountError) result" where
  "canonical_dir_resolve fs dir =
     and_then (map_err (Root dir) (fs_resolve fs dir)) (\<lambda>p.
       if \<not> fs_is_dir fs p then Err (NotADirectory p) else Ok p)"

record StaticMount =
  sm_prefix :: string
  sm_root :: path

definition static_mount_new :: "fs_ops \<Rightarrow> string \<Rightarrow> string \<Rightarrow> (StaticMount, StaticMountError) result" where
  "static_mount_new fs prefix dir =
     (if strip_prefix ''/'' prefix = None then Err (Prefix prefix)
      else
        let prefix' = (if prefix \<noteq> [] \<and> last prefix = CHR ''/'' then prefix else prefix @ ''/'')
        in map_ok (\<lambda>root. \<lparr>sm_prefix = prefix', sm_root = root\<rparr>) (canonical_dir_resolve fs dir))"

definition mount_relative :: "StaticMount \<Rightarrow> string \<Rightarrow> string option" where
  "mount_relative m req_path =
     (case strip_prefix (sm_prefix m) req_path of
        Some rel \<Rightarrow> if rel = [] then None else Some rel
      | None \<Rightarrow> None)"

subsection \<open>Request errors\<close>

datatype StaticError =
    NulByte
  | Traversal
  | Escape path path
  | TooLargeFile path nat \<comment> \<open>\<open>StaticError::TooLarge\<close>\<close>
  | PermissionDenied path io_error
  | SymlinkSwapped path io_error
  | Io path io_error

fun static_error_status :: "StaticError \<Rightarrow> nat" where
  "static_error_status NulByte = 400"
| "static_error_status Traversal = 403"
| "static_error_status (Escape _ _) = 403"
| "static_error_status (PermissionDenied _ _) = 403"
| "static_error_status (SymlinkSwapped _ _) = 403"
| "static_error_status (TooLargeFile _ _) = 413"
| "static_error_status (Io _ _) = 500"

definition static_public_text :: "StaticError \<Rightarrow> string" where
  "static_public_text e =
     (let s = static_error_status e
      in if s = 400 then ''bad request''
         else if s = 403 then ''forbidden''
         else if s = 413 then ''payload too large''
         else ''internal server error'')"

fun static_error_log :: "StaticError \<Rightarrow> log_level \<times> string" where
  "static_error_log (Io _ _) = (LError, ''static file error'')"
| "static_error_log (PermissionDenied _ _) = (LWarn, ''static file refused'')"
| "static_error_log (SymlinkSwapped _ _) = (LWarn, ''static file refused'')"
| "static_error_log _ = (LDebug, ''static request refused'')"

definition found :: "path \<Rightarrow> ('a, io_error) result \<Rightarrow> ('a option, StaticError) result" where
  "found p r =
     (case r of
        Inr v \<Rightarrow> Ok (Some v)
      | Inl source \<Rightarrow>
          (case io_kind source of
             NotFound \<Rightarrow> Ok None
           | NotADirectoryKind \<Rightarrow> Ok None
           | PermissionDeniedKind \<Rightarrow> Err (PermissionDenied p source)
           | OtherKind _ \<Rightarrow> Err (Io p source)))"

subsection \<open>The cache\<close>

record Stamp =
  st_modified :: nat
  st_len :: nat

definition stamp_of :: "metadata \<Rightarrow> Stamp option" where
  "stamp_of m = map_option (\<lambda>t. \<lparr>st_modified = t, st_len = md_len m\<rparr>) (md_modified m)"

record CachedFile =
  cf_bytes :: string
  cf_content_type :: string
  cf_stamp :: Stamp

definition is_current :: "CachedFile \<Rightarrow> Stamp \<Rightarrow> bool" where
  "is_current entry current \<longleftrightarrow> cf_stamp entry = current"

record 'm file_cache =
  fc_map :: 'm
  fc_bytes :: u64

definition cache_init :: "('m, path, CachedFile) dash_api \<Rightarrow> 'm file_cache" where
  "cache_init D = \<lparr>fc_map = dm_new D, fc_bytes = 0\<rparr>"

definition over_cap :: "u64 \<Rightarrow> u64 \<Rightarrow> bool" where
  "over_cap before len \<longleftrightarrow> of_nat STATIC_CACHE_MAX_BYTES < before + len"

definition cache_insert ::
    "('m, path, CachedFile) dash_api \<Rightarrow> 'm file_cache \<Rightarrow> path \<Rightarrow> CachedFile \<Rightarrow> 'm file_cache" where
  "cache_insert D c p entry =
     (let len = of_nat (length (cf_bytes entry));
          before = fc_bytes c;
          c = c\<lparr>fc_bytes := fc_bytes c + len\<rparr>
      in if over_cap before len then c\<lparr>fc_bytes := fc_bytes c - len\<rparr>
         else
           let (prev, m) = dm_insert D (fc_map c) p entry;
               c = c\<lparr>fc_map := m\<rparr>
           in case prev of
                Some old \<Rightarrow> c\<lparr>fc_bytes := fc_bytes c - of_nat (length (cf_bytes old))\<rparr>
              | None \<Rightarrow> c)"

definition cache_remove ::
    "('m, path, CachedFile) dash_api \<Rightarrow> 'm file_cache \<Rightarrow> path \<Rightarrow> 'm file_cache" where
  "cache_remove D c p =
     (let (prev, m) = dm_remove D (fc_map c) p;
          c = c\<lparr>fc_map := m\<rparr>
      in case prev of
           Some old \<Rightarrow> c\<lparr>fc_bytes := fc_bytes c - of_nat (length (cf_bytes old))\<rparr>
         | None \<Rightarrow> c)"

definition cached ::
    "('m, path, CachedFile) dash_api \<Rightarrow> 'm file_cache \<Rightarrow> path \<Rightarrow> Stamp \<Rightarrow> CachedFile option" where
  "cached D c p current =
     (case dm_get D (fc_map c) p of
        Some entry \<Rightarrow> if is_current entry current then Some entry else None
      | None \<Rightarrow> None)"

subsection \<open>Content types\<close>

definition mime_from_ext :: "string \<Rightarrow> string" where
  "mime_from_ext ext =
     (if ext \<in> {''html'', ''htm''} then ''text/html; charset=utf-8''
      else if ext = ''css'' then ''text/css; charset=utf-8''
      else if ext \<in> {''js'', ''mjs''} then ''application/javascript; charset=utf-8''
      else if ext = ''json'' then ''application/json; charset=utf-8''
      else if ext = ''png'' then ''image/png''
      else if ext \<in> {''jpg'', ''jpeg''} then ''image/jpeg''
      else if ext = ''gif'' then ''image/gif''
      else if ext = ''svg'' then ''image/svg+xml''
      else if ext = ''ico'' then ''image/x-icon''
      else if ext = ''webp'' then ''image/webp''
      else if ext = ''woff'' then ''font/woff''
      else if ext = ''woff2'' then ''font/woff2''
      else if ext = ''ttf'' then ''font/ttf''
      else if ext = ''otf'' then ''font/otf''
      else if ext = ''pdf'' then ''application/pdf''
      else if ext = ''xml'' then ''application/xml; charset=utf-8''
      else if ext = ''txt'' then ''text/plain; charset=utf-8''
      else if ext = ''wasm'' then ''application/wasm''
      else if ext = ''map'' then ''application/json''
      else ''application/octet-stream'')"

text \<open>
  \<open>Path::extension\<close>: what follows the last dot of the file name, unless the only dot leads it. An
  extension that is not UTF-8 matches no entry of the table either way.
\<close>

definition path_extension :: "path \<Rightarrow> string option" where
  "path_extension p =
     (if p = [] then None
      else case split_once CHR ''.'' (rev (last p)) of
             None \<Rightarrow> None
           | Some (ext, stem) \<Rightarrow> if stem = [] then None else Some (rev ext))"

definition content_type :: "path \<Rightarrow> string" where
  "content_type p =
     mime_from_ext (to_ascii_lowercase (case path_extension p of Some e \<Rightarrow> e | None \<Rightarrow> []))"

subsection \<open>Serving\<close>

definition X_CONTENT_TYPE_OPTIONS :: string where
  "X_CONTENT_TYPE_OPTIONS = ''x-content-type-options''"

definition static_error_response :: "'h http_api \<Rightarrow> StaticError \<Rightarrow> 'h http_response" where
  "static_error_response H e =
     \<lparr>rsp_status = static_error_status e,
      rsp_headers = hm_append H (hm_append H (hm_new H) SERVER SERVER_HEADER) X_CONTENT_TYPE_OPTIONS ''nosniff'',
      rsp_body = Full (static_public_text e)\<rparr>"

definition ok_response_bytes :: "'h http_api \<Rightarrow> string \<Rightarrow> string \<Rightarrow> 'h http_response" where
  "ok_response_bytes H ct bytes =
     \<lparr>rsp_status = 200,
      rsp_headers = hm_append H (hm_append H (hm_append H (hm_new H) CONTENT_TYPE ct) SERVER SERVER_HEADER)
                      X_CONTENT_TYPE_OPTIONS ''nosniff'',
      rsp_body = Full bytes\<rparr>"

text \<open>The loop over the decoded segments; \<open>file_name\<close> cannot fail on Unix.\<close>

fun push_segments :: "path \<Rightarrow> string list \<Rightarrow> (path, StaticError) result" where
  "push_segments p [] = Ok p"
| "push_segments p (seg # segs) =
     (if seg = [] \<or> seg = ''.'' then push_segments p segs
      else if seg = ''..'' then Err Traversal
      else push_segments (p @ [seg]) segs)"

definition candidate_path :: "(string \<Rightarrow> string) \<Rightarrow> path \<Rightarrow> string \<Rightarrow> (path, StaticError) result" where
  "candidate_path percent_decode root rel =
     (let decoded = percent_decode rel
      in if CHR 0x00 \<in> set decoded then Err NulByte
         else push_segments root (split_on (\<lambda>b. b = CHR ''/'') decoded))"

definition path_starts_with :: "path \<Rightarrow> path \<Rightarrow> bool" where
  "path_starts_with p root \<longleftrightarrow> strip_prefix root p \<noteq> None"

definition canonical_within :: "fs_ops \<Rightarrow> path \<Rightarrow> path \<Rightarrow> (path option, StaticError) result" where
  "canonical_within fs root candidate =
     and_then (found candidate (fs_canonicalize fs candidate)) (\<lambda>res.
       case res of
         None \<Rightarrow> Ok None
       | Some p \<Rightarrow> if \<not> path_starts_with p root then Err (Escape p root) else Ok (Some p))"

definition is_symlink_refusal :: "io_error \<Rightarrow> bool" where
  "is_symlink_refusal e \<longleftrightarrow> io_raw_os_error e = Some ELOOP"

definition open_regular :: "fs_ops \<Rightarrow> path \<Rightarrow> (open_file option, StaticError) result" where
  "open_regular fs p =
     (case fs_open_no_follow fs p of
        Inl source \<Rightarrow> if is_symlink_refusal source then Err (SymlinkSwapped p source) else found p (Inl source)
      | Inr file \<Rightarrow> found p (Inr file))"

definition read_regular_file :: "fs_ops \<Rightarrow> path \<Rightarrow> ((string \<times> Stamp option) option, StaticError) result" where
  "read_regular_file fs p =
     and_then (open_regular fs p) (\<lambda>opened.
       case opened of
         None \<Rightarrow> Ok None
       | Some file \<Rightarrow>
           and_then (found p (of_metadata file)) (\<lambda>meta.
             case meta of
               None \<Rightarrow> Ok None
             | Some md \<Rightarrow>
                 if \<not> md_is_file md then Ok None
                 else if MAX_STATIC_FILE_BYTES < md_len md then Err (TooLargeFile p (md_len md))
                 else map_ok (map_option (\<lambda>contents. (contents, stamp_of md)))
                        (found p (map_ok (take MAX_STATIC_FILE_BYTES) (of_read file)))))"

definition serve ::
    "('m, path, CachedFile) dash_api \<Rightarrow> 'h http_api \<Rightarrow> (string \<Rightarrow> string) \<Rightarrow> fs_ops \<Rightarrow> 'm file_cache \<Rightarrow>
     path \<Rightarrow> string \<Rightarrow> ('h http_response option, StaticError) result \<times> 'm file_cache" where
  "serve D H percent_decode fs c root rel =
     (case candidate_path percent_decode root rel of
        Inl e \<Rightarrow> (Err e, c)
      | Inr candidate \<Rightarrow>
     (case canonical_within fs root candidate of
        Inl e \<Rightarrow> (Err e, c)
      | Inr None \<Rightarrow> (Ok None, cache_remove D c candidate)
      | Inr (Some p) \<Rightarrow>
     (case found p (fs_metadata fs p) of
        Inl e \<Rightarrow> (Err e, c)
      | Inr meta \<Rightarrow>
     (case meta of
        None \<Rightarrow> (Ok None, cache_remove D c p)
      | Some md \<Rightarrow>
          if \<not> md_is_file md then (Ok None, cache_remove D c p)
          else
     (case Option.bind (stamp_of md) (cached D c p) of
        Some entry \<Rightarrow> (Ok (Some (ok_response_bytes H (cf_content_type entry) (cf_bytes entry))), c)
      | None \<Rightarrow>
     (case read_regular_file fs p of
        Inl e \<Rightarrow> (Err e, c)
      | Inr None \<Rightarrow> (Ok None, c)
      | Inr (Some (bytes, stamp)) \<Rightarrow>
          (Ok (Some (ok_response_bytes H (content_type p) bytes)),
           case stamp of
             Some s \<Rightarrow> cache_insert D c p \<lparr>cf_bytes = bytes, cf_content_type = content_type p, cf_stamp = s\<rparr>
           | None \<Rightarrow> c)))))))"

text \<open>Each mount's attempt gets answers of its own: \<open>fs k\<close> are those while \<open>k\<close> mounts are left.\<close>

fun try_static_file ::
    "('m, path, CachedFile) dash_api \<Rightarrow> 'h http_api \<Rightarrow> (string \<Rightarrow> string) \<Rightarrow> (nat \<Rightarrow> fs_ops) \<Rightarrow> 'm file_cache \<Rightarrow>
     string \<Rightarrow> StaticMount list \<Rightarrow> 'h http_response option \<times> 'm file_cache" where
  "try_static_file D H dec fs c req_path [] = (None, c)"
| "try_static_file D H dec fs c req_path (mount # mounts) =
     (case mount_relative mount req_path of
        None \<Rightarrow> try_static_file D H dec fs c req_path mounts
      | Some rel \<Rightarrow>
          (case serve D H dec (fs (length mounts)) c (sm_root mount) rel of
             (Inr (Some response), c') \<Rightarrow> (Some response, c')
           | (Inr None, c') \<Rightarrow> try_static_file D H dec fs c' req_path mounts
           | (Inl e, c') \<Rightarrow> (Some (static_error_response H e), c')))"

subsection \<open>A request path stays under its mount\<close>

definition plain_name :: "string \<Rightarrow> bool" where
  "plain_name seg \<longleftrightarrow>
     seg \<noteq> [] \<and> seg \<noteq> ''.'' \<and> seg \<noteq> ''..'' \<and> CHR ''/'' \<notin> set seg \<and> CHR 0x00 \<notin> set seg"

lemma push_segments_Ok:
  "push_segments p segs = Ok q \<longleftrightarrow>
     ''..'' \<notin> set segs \<and> q = p @ filter (\<lambda>s. s \<noteq> [] \<and> s \<noteq> ''.'') segs"
  by (induction p segs rule: push_segments.induct) auto

lemma push_segments_Err: "push_segments p segs = Err e \<longleftrightarrow> ''..'' \<in> set segs \<and> e = Traversal"
  by (induction p segs rule: push_segments.induct) auto

text \<open>
  C3. A request path maps to a path below its mount's root, or is refused. It is refused exactly when
  its decoded text holds a NUL byte or a \<open>..\<close> segment, encoded or not; when it is accepted, what is
  added to the root is only plain file names.
\<close>

theorem candidate_path_contained:
  "case candidate_path dec root rel of
     Inr p \<Rightarrow> \<exists>names. p = root @ names \<and> list_all plain_name names
   | Inl e \<Rightarrow> e = NulByte \<and> CHR 0x00 \<in> set (dec rel)
         \<or> e = Traversal \<and> ''..'' \<in> set (split_on (\<lambda>b. b = CHR ''/'') (dec rel))"
proof (cases "candidate_path dec root rel")
  case (Inl e)
  then show ?thesis
    by (auto simp: candidate_path_def push_segments_Err Let_def split: if_splits)
next
  case (Inr p)
  let ?segs = "split_on (\<lambda>b. b = CHR ''/'') (dec rel)"
  from Inr have nul: "CHR 0x00 \<notin> set (dec rel)" and dots: "''..'' \<notin> set ?segs"
    and p: "p = root @ filter (\<lambda>s. s \<noteq> [] \<and> s \<noteq> ''.'') ?segs"
    by (auto simp: candidate_path_def push_segments_Ok Let_def split: if_splits)
  have "list_all plain_name (filter (\<lambda>s. s \<noteq> [] \<and> s \<noteq> ''.'') ?segs)"
    using nul dots split_on_piece [of _ "\<lambda>b. b = CHR ''/''" "dec rel"]
    by (fastforce simp: list_all_iff plain_name_def)
  with Inr p show ?thesis by auto
qed

subsection \<open>What is served\<close>

lemma path_starts_with_iff: "path_starts_with p root \<longleftrightarrow> (\<exists>rest. p = root @ rest)"
  by (auto simp: path_starts_with_def strip_prefix_Some)

lemma found_Ok_Some: "found p r = Ok (Some v) \<longleftrightarrow> r = Ok v"
  by (auto simp: found_def split: sum.splits io_kind.splits)

lemma canonical_within_Some:
  "canonical_within fs root cand = Ok (Some p) \<longleftrightarrow>
     fs_canonicalize fs cand = Ok p \<and> path_starts_with p root"
  by (auto simp: canonical_within_def found_Ok_Some result_iffs split: option.splits if_splits)

lemma open_regular_Some: "open_regular fs p = Ok (Some f) \<longleftrightarrow> fs_open_no_follow fs p = Ok f"
  by (auto simp: open_regular_def found_def split: sum.splits io_kind.splits)

text \<open>A file that was read: opened without following a link, regular, and no larger than the limit.\<close>

lemma read_regular_file_Some:
  assumes "read_regular_file fs p = Ok (Some (bytes, stamp))"
  obtains fl md contents where "fs_open_no_follow fs p = Ok fl" "of_metadata fl = Ok md"
    "md_is_file md" "md_len md \<le> MAX_STATIC_FILE_BYTES" "of_read fl = Ok contents"
    "bytes = take MAX_STATIC_FILE_BYTES contents" "stamp = stamp_of md"
proof -
  from assms obtain fl where f: "open_regular fs p = Ok (Some fl)"
    by (auto simp: read_regular_file_def elim!: and_then_OkE split: option.splits)
  with assms obtain md where m: "found p (of_metadata fl) = Ok (Some md)"
    by (auto simp: read_regular_file_def elim!: and_then_OkE split: option.splits)
  from f m assms have md: "md_is_file md" "md_len md \<le> MAX_STATIC_FILE_BYTES"
    and "map_ok (map_option (\<lambda>contents. (contents, stamp_of md)))
           (found p (map_ok (take MAX_STATIC_FILE_BYTES) (of_read fl))) = Ok (Some (bytes, stamp))"
    by (simp_all add: read_regular_file_def split: if_splits)
  then obtain contents where "of_read fl = Ok contents" "bytes = take MAX_STATIC_FILE_BYTES contents"
    "stamp = stamp_of md"
    by (auto simp: map_ok_eq_Inr found_Ok_Some eq_commute [of "Some _"])
  with f m md show thesis by (intro that) (simp_all add: open_regular_Some found_Ok_Some)
qed

text \<open>Which version of the file a served body is.\<close>

definition served_from ::
    "('m, path, CachedFile) dash_api \<Rightarrow> fs_ops \<Rightarrow> 'm file_cache \<Rightarrow> path \<Rightarrow> string \<Rightarrow> string \<Rightarrow> bool" where
  "served_from D fs c p ct bytes \<longleftrightarrow>
     (\<exists>md entry. fs_metadata fs p = Ok md \<and> md_is_file md \<and> stamp_of md = Some (cf_stamp entry) \<and>
        dm_get D (fc_map c) p = Some entry \<and> ct = cf_content_type entry \<and> bytes = cf_bytes entry) \<or>
     (\<exists>file md contents. fs_open_no_follow fs p = Ok file \<and> of_metadata file = Ok md \<and> md_is_file md \<and>
        md_len md \<le> MAX_STATIC_FILE_BYTES \<and> of_read file = Ok contents \<and>
        ct = content_type p \<and> bytes = take MAX_STATIC_FILE_BYTES contents)"

lemma serve_Some:
  assumes "serve D H dec fs c root rel = (Ok (Some r), c')"
  shows "\<exists>cand p ct bytes. candidate_path dec root rel = Ok cand \<and> fs_canonicalize fs cand = Ok p \<and>
           path_starts_with p root \<and> r = ok_response_bytes H ct bytes \<and> served_from D fs c p ct bytes"
proof -
  from assms obtain cand p md where cand: "candidate_path dec root rel = Ok cand"
    and p: "canonical_within fs root cand = Ok (Some p)"
    and md: "found p (fs_metadata fs p) = Ok (Some md)" "md_is_file md"
    by (auto simp: serve_def split: sum.splits option.splits if_splits)
  show ?thesis
  proof (cases "Option.bind (stamp_of md) (cached D c p)")
    case (Some entry)
    with assms cand p md have "r = ok_response_bytes H (cf_content_type entry) (cf_bytes entry)"
      by (simp add: serve_def)
    moreover from Some md have "served_from D fs c p (cf_content_type entry) (cf_bytes entry)"
      by (auto simp: served_from_def cached_def is_current_def found_Ok_Some bind_eq_Some_conv
          split: option.splits if_splits)
    ultimately show ?thesis using cand p by (auto simp: canonical_within_Some)
  next
    case None
    with assms cand p md obtain bytes stamp where rd: "read_regular_file fs p = Ok (Some (bytes, stamp))"
      and r: "r = ok_response_bytes H (content_type p) bytes"
      by (auto simp: serve_def split: sum.splits option.splits if_splits)
    from rd have "served_from D fs c p (content_type p) bytes"
      by (rule read_regular_file_Some) (simp add: served_from_def)
    with cand p r show ?thesis by (auto simp: canonical_within_Some)
  qed
qed

text \<open>A mount that does not have the file adds nothing to the cache.\<close>

lemma serve_None_entries:
  assumes "dash_map D" and "serve D H dec fs c root rel = (Ok None, c')"
    and "dm_get D (fc_map c') p = Some entry"
  shows "dm_get D (fc_map c) p = Some entry"
proof -
  have "dm_get D (fc_map (cache_remove D c q)) p = Some entry \<Longrightarrow> dm_get D (fc_map c) p = Some entry" for q
    by (cases "dm_get D (fc_map c) q")
       (auto simp: cache_remove_def Let_def case_prod_unfold dash_map.remove_prev [OF assms(1)]
          dash_map.get_remove [OF assms(1)] split: if_splits)
  then show ?thesis
    using assms(2,3) by (auto simp: serve_def split: sum.splits option.splits if_splits)
qed

lemma served_from_mono:
  assumes "served_from D fs c p ct bytes"
    and "\<And>entry. dm_get D (fc_map c) p = Some entry \<Longrightarrow> dm_get D (fc_map c') p = Some entry"
  shows "served_from D fs c' p ct bytes"
  using assms unfolding served_from_def by blast

definition mount_serves ::
    "('m, path, CachedFile) dash_api \<Rightarrow> 'h http_api \<Rightarrow> (string \<Rightarrow> string) \<Rightarrow> (nat \<Rightarrow> fs_ops) \<Rightarrow> 'm file_cache \<Rightarrow>
     string \<Rightarrow> 'h http_response \<Rightarrow> StaticMount \<Rightarrow> bool" where
  "mount_serves D H dec fs c req_path r m \<longleftrightarrow>
     (\<exists>rel cand p rest ct bytes k. req_path = sm_prefix m @ rel \<and> rel \<noteq> [] \<and>
        candidate_path dec (sm_root m) rel = Ok cand \<and> fs_canonicalize (fs k) cand = Ok p \<and>
        p = sm_root m @ rest \<and> r = ok_response_bytes H ct bytes \<and> served_from D (fs k) c p ct bytes)"

lemma mount_serves_mono:
  assumes "mount_serves D H dec fs c req_path r m"
    and "\<And>p entry. dm_get D (fc_map c) p = Some entry \<Longrightarrow> dm_get D (fc_map c') p = Some entry"
  shows "mount_serves D H dec fs c' req_path r m"
  using assms(1) served_from_mono [of D _ c, OF _ assms(2)] unfolding mount_serves_def by blast

subsection \<open>The cache's accounting\<close>

text \<open>The bytes the map holds, and the invariant: the counter says so, within the cap.\<close>

definition live :: "('m, path, CachedFile) dash_api \<Rightarrow> 'm \<Rightarrow> nat" where
  "live D m = (\<Sum>(p, entry) \<leftarrow> dm_iter D m. length (cf_bytes entry))"

definition entry_ok :: "path \<Rightarrow> CachedFile \<Rightarrow> bool" where
  "entry_ok p entry \<longleftrightarrow>
     length (cf_bytes entry) \<le> MAX_STATIC_FILE_BYTES \<and> cf_content_type entry = content_type p"

definition cache_inv :: "('m, path, CachedFile) dash_api \<Rightarrow> 'm file_cache \<Rightarrow> bool" where
  "cache_inv D c \<longleftrightarrow>
     unat (fc_bytes c) = live D (fc_map c) \<and> live D (fc_map c) \<le> STATIC_CACHE_MAX_BYTES \<and>
     (\<forall>p entry. dm_get D (fc_map c) p = Some entry \<longrightarrow> entry_ok p entry)"

text \<open>The counter as the word of the number it counts: what every atomic operation keeps.\<close>

lemma unat_counter:
  "unat b = n \<and> n \<le> STATIC_CACHE_MAX_BYTES \<longleftrightarrow> b = (of_nat n :: u64) \<and> n \<le> STATIC_CACHE_MAX_BYTES"
  by (auto simp: STATIC_CACHE_MAX_BYTES_def unat_of_nat)

lemma over_cap_iff:
  assumes "n + k < 2 ^ 64"
  shows "over_cap (of_nat n) (of_nat k) \<longleftrightarrow> STATIC_CACHE_MAX_BYTES < n + k"
proof -
  have "(of_nat STATIC_CACHE_MAX_BYTES < (of_nat (n + k) :: u64)) \<longleftrightarrow> STATIC_CACHE_MAX_BYTES < n + k"
    using assms by (simp add: word_less_nat_alt unat_of_nat STATIC_CACHE_MAX_BYTES_def del: of_nat_add)
  then show ?thesis by (simp add: over_cap_def)
qed

definition size_of :: "CachedFile option \<Rightarrow> nat" where
  "size_of e = (case e of None \<Rightarrow> 0 | Some entry \<Rightarrow> length (cf_bytes entry))"

lemma live_new: "dash_map D \<Longrightarrow> live D (dm_new D) = 0"
  by (simp add: live_def dash_map.iter_sum_eq dash_map.get_new)

lemma live_insert:
  "dash_map D \<Longrightarrow>
     live D (snd (dm_insert D m p entry)) + size_of (dm_get D m p) = live D m + length (cf_bytes entry)"
  using dash_map.iter_sum_insert [of D "\<lambda>_ e. length (cf_bytes e)" m p entry]
  by (simp add: live_def size_of_def)

lemma live_remove:
  "dash_map D \<Longrightarrow> live D (snd (dm_remove D m p)) + size_of (dm_get D m p) = live D m"
  using dash_map.iter_sum_remove [of D "\<lambda>_ e. length (cf_bytes e)" m p]
  by (simp add: live_def size_of_def)

lemma cache_insert_eq:
  assumes "dash_map D"
  shows "cache_insert D c p entry =
     (if over_cap (fc_bytes c) (of_nat (length (cf_bytes entry))) then c
      else c\<lparr>fc_map := snd (dm_insert D (fc_map c) p entry),
             fc_bytes := fc_bytes c + of_nat (length (cf_bytes entry)) - of_nat (size_of (dm_get D (fc_map c) p))\<rparr>)"
  by (cases "dm_get D (fc_map c) p")
     (simp_all add: cache_insert_def Let_def case_prod_unfold size_of_def dash_map.insert_prev [OF assms])

lemma cache_remove_eq:
  assumes "dash_map D"
  shows "cache_remove D c p =
     c\<lparr>fc_map := snd (dm_remove D (fc_map c) p),
       fc_bytes := fc_bytes c - of_nat (size_of (dm_get D (fc_map c) p))\<rparr>"
  by (cases "dm_get D (fc_map c) p")
     (simp_all add: cache_remove_def Let_def case_prod_unfold size_of_def dash_map.remove_prev [OF assms])

lemma of_nat_move:
  assumes "a + b = c + d"
  shows "(of_nat c :: u64) + of_nat d - of_nat b = of_nat a"
  using arg_cong [OF assms, of "of_nat :: nat \<Rightarrow> u64"] by (simp add: algebra_simps)

lemma cache_inv_init: "dash_map D \<Longrightarrow> cache_inv D (cache_init D)"
  by (simp add: cache_inv_def cache_init_def live_new dash_map.get_new)

lemma cache_inv_insert:
  assumes D: "dash_map D" and inv: "cache_inv D c" and ok: "entry_ok p entry"
  shows "cache_inv D (cache_insert D c p entry)"
proof (cases "over_cap (fc_bytes c) (of_nat (length (cf_bytes entry)))")
  case True
  with inv show ?thesis by (simp add: cache_insert_eq [OF D])
next
  case False
  let ?m = "fc_map c" and ?len = "length (cf_bytes entry)"
  from inv have b: "fc_bytes c = of_nat (live D ?m)" and cap: "live D ?m \<le> STATIC_CACHE_MAX_BYTES"
    using unat_counter unfolding cache_inv_def by blast+
  have moved: "live D (snd (dm_insert D ?m p entry)) + size_of (dm_get D ?m p) = live D ?m + ?len"
    by (rule live_insert [OF D])
  have "live D ?m + ?len < 2 ^ 64"
    using cap ok by (simp add: entry_ok_def STATIC_CACHE_MAX_BYTES_def MAX_STATIC_FILE_BYTES_def)
  from over_cap_iff [OF this] False b have "live D ?m + ?len \<le> STATIC_CACHE_MAX_BYTES" by simp
  with moved have "live D (snd (dm_insert D ?m p entry)) \<le> STATIC_CACHE_MAX_BYTES" by linarith
  moreover have "fc_bytes c + of_nat ?len - of_nat (size_of (dm_get D ?m p))
      = (of_nat (live D (snd (dm_insert D ?m p entry))) :: u64)"
    unfolding b by (rule of_nat_move [OF moved])
  ultimately show ?thesis
    using False inv ok unat_counter
    by (auto simp: cache_insert_eq [OF D] cache_inv_def dash_map.get_insert [OF D])
qed

lemma cache_inv_remove:
  assumes D: "dash_map D" and inv: "cache_inv D c"
  shows "cache_inv D (cache_remove D c p)"
proof -
  let ?m = "fc_map c"
  from inv have b: "fc_bytes c = of_nat (live D ?m)" and cap: "live D ?m \<le> STATIC_CACHE_MAX_BYTES"
    using unat_counter unfolding cache_inv_def by blast+
  have moved: "live D (snd (dm_remove D ?m p)) + size_of (dm_get D ?m p) = live D ?m + 0"
    using live_remove [OF D, of ?m p] by simp
  have "fc_bytes c - of_nat (size_of (dm_get D ?m p)) = (of_nat (live D (snd (dm_remove D ?m p))) :: u64)"
    using of_nat_move [OF moved] b by simp
  moreover from moved cap have "live D (snd (dm_remove D ?m p)) \<le> STATIC_CACHE_MAX_BYTES" by linarith
  ultimately show ?thesis
    using inv unat_counter
    by (auto simp: cache_remove_eq [OF D] cache_inv_def dash_map.get_remove [OF D] split: if_splits)
qed

lemma cache_inv_serve:
  assumes D: "dash_map D" and inv: "cache_inv D c"
  shows "cache_inv D (snd (serve D H dec fs c root rel))"
proof -
  have "entry_ok p \<lparr>cf_bytes = bytes, cf_content_type = content_type p, cf_stamp = s\<rparr>"
    if "read_regular_file fs p = Ok (Some (bytes, Some s))" for p bytes s
    using that by (rule read_regular_file_Some) (simp add: entry_ok_def)
  then show ?thesis
    using inv cache_inv_insert [OF D inv] cache_inv_remove [OF D inv]
    by (auto simp: serve_def split: sum.splits option.splits if_splits)
qed

text \<open>
  Serving any request, whatever the file system answers, keeps the cache's accounting exact: the
  counter is the number of bytes the cache holds, at most the cap, and every entry is a file within
  the size limit with the type its path gives. The counter never wraps.
\<close>

theorem try_static_file_cache_inv:
  assumes "dash_map D" and "cache_inv D c"
  shows "cache_inv D (snd (try_static_file D H dec fs c req_path mounts))"
  using assms(2)
proof (induction mounts arbitrary: c)
  case Nil
  then show ?case by simp
next
  case (Cons m ms)
  show ?case
  proof (cases "mount_relative m req_path")
    case None
    with Cons show ?thesis by simp
  next
    case (Some rel)
    obtain r c' where s: "serve D H dec (fs (length ms)) c (sm_root m) rel = (r, c')" by force
    have inv: "cache_inv D c'"
      using cache_inv_serve [OF assms(1) Cons.prems, of H dec "fs (length ms)" "sm_root m" rel] s by simp
    show ?thesis
      using Some s inv Cons.IH [OF inv] by (auto split: sum.splits option.splits)
  qed
qed

text \<open>
  C4. A 200 from the static files is a file of a mount: the request path is under the mount's
  prefix, the path it decodes to resolves, symlinks followed, to a path under the mount's root, and
  the body is either the bytes read from that path, regular, opened without following a link and cut
  at the size limit, or a cached version whose stamp is the one the file has now. Every other answer
  is an error with a fixed text.
\<close>

theorem try_static_file_serves_mount:
  assumes "dash_map D" and "try_static_file D H dec fs c req_path mounts = (Some r, c')"
  shows "(\<exists>m \<in> set mounts. mount_serves D H dec fs c req_path r m) \<or> (\<exists>e. r = static_error_response H e)"
  using assms(2)
proof (induction mounts arbitrary: c)
  case Nil
  then show ?case by simp
next
  case (Cons m ms)
  show ?case
  proof (cases "mount_relative m req_path")
    case None
    with Cons show ?thesis by auto
  next
    case (Some rel)
    then have rel: "req_path = sm_prefix m @ rel" "rel \<noteq> []"
      by (auto simp: mount_relative_def strip_prefix_Some split: option.splits if_splits)
    obtain x c1 where s: "serve D H dec (fs (length ms)) c (sm_root m) rel = (x, c1)" by force
    show ?thesis
    proof (cases "Some x" rule: option_result_cases)
      case (Err e)
      with Cons.prems Some s show ?thesis by auto
    next
      case (Ok v)
      show ?thesis
      proof (cases v)
        case None
        with Ok s have s': "serve D H dec (fs (length ms)) c (sm_root m) rel = (Ok None, c1)" by simp
        have keep: "mount_serves D H dec fs c1 req_path r m' \<Longrightarrow> mount_serves D H dec fs c req_path r m'" for m'
          by (erule mount_serves_mono) (rule serve_None_entries [OF assms(1) s'])
        from Cons.prems Some s' have "try_static_file D H dec fs c1 req_path ms = (Some r, c')" by simp
        from Cons.IH [OF this] show ?thesis by (auto dest: keep)
      next
        case (Some r')
        with Ok s Cons.prems \<open>mount_relative m req_path = Some rel\<close> have "r' = r" by simp
        with Some Ok s serve_Some [of D H dec "fs (length ms)" c "sm_root m" rel r c1] rel
        show ?thesis unfolding path_starts_with_iff mount_serves_def by auto
      qed
    qed simp
  qed
qed

text \<open>
  A small file system for the witnesses: the directory \<open>/srv/www\<close> with one file \<open>a.txt\<close>, and a
  path decoder that leaves its argument alone.
\<close>

definition demo_fs :: fs_ops where
  "demo_fs =
     \<lparr>fs_resolve = (\<lambda>_. Ok [''srv'', ''www'']), fs_is_dir = (\<lambda>_. True),
      fs_canonicalize = (\<lambda>p. if p = [''srv'', ''www'', ''a.txt''] then Ok p
                             else Err \<lparr>io_kind = NotFound, io_raw_os_error = Some 2\<rparr>),
      fs_metadata = (\<lambda>_. Ok \<lparr>md_is_file = True, md_len = 2, md_modified = Some 7\<rparr>),
      fs_open_no_follow = (\<lambda>_. Ok \<lparr>of_metadata = Ok \<lparr>md_is_file = True, md_len = 2, md_modified = Some 7\<rparr>,
                                   of_read = Ok ''hi''\<rparr>)\<rparr>"

definition demo_mount :: StaticMount where
  "demo_mount = \<lparr>sm_prefix = ''/s/'', sm_root = [''srv'', ''www'']\<rparr>"

lemma demo_request:
  "fst (try_static_file (alist_dash :: ((path \<times> CachedFile) list, path, CachedFile) dash_api) H (\<lambda>s. s)
     (\<lambda>_. demo_fs) (cache_init alist_dash) ''/s/./a.txt'' [demo_mount])
   = Some (ok_response_bytes H (content_type [''srv'', ''www'', ''a.txt'']) ''hi'')"
  by (simp add: demo_mount_def mount_relative_def serve_def candidate_path_def canonical_within_def
      demo_fs_def found_def path_starts_with_def stamp_of_def cached_def cache_init_def alist_dash_def
      read_regular_file_def open_regular_def MAX_STATIC_FILE_BYTES_def)

theorem try_static_file_cache_inv_witness:
  "dash_map (alist_dash :: ((path \<times> CachedFile) list, path, CachedFile) dash_api) \<and>
   cache_inv alist_dash (snd (try_static_file alist_dash line_headers (\<lambda>s. s) (\<lambda>_. demo_fs)
     (cache_init alist_dash) ''/s/./a.txt'' [demo_mount]))"
  using try_static_file_cache_inv [OF alist.dash_map_axioms cache_inv_init [OF alist.dash_map_axioms],
      of line_headers "\<lambda>s. s" "\<lambda>_. demo_fs" "''/s/./a.txt''" "[demo_mount]"] alist.dash_map_axioms
  by blast

theorem try_static_file_serves_mount_witness:
  "mount_serves alist_dash line_headers (\<lambda>s. s) (\<lambda>_. demo_fs) (cache_init alist_dash) ''/s/./a.txt''
     (ok_response_bytes line_headers (content_type [''srv'', ''www'', ''a.txt'']) ''hi'') demo_mount"
proof -
  let ?r = "ok_response_bytes line_headers (content_type [''srv'', ''www'', ''a.txt'']) ''hi''"
  obtain c' where "try_static_file alist_dash line_headers (\<lambda>s. s) (\<lambda>_. demo_fs) (cache_init alist_dash)
      ''/s/./a.txt'' [demo_mount] = (Some ?r, c')"
    using demo_request [of line_headers] by (metis prod.collapse)
  from try_static_file_serves_mount [OF alist.dash_map_axioms this]
  have "mount_serves alist_dash line_headers (\<lambda>s. s) (\<lambda>_. demo_fs) (cache_init alist_dash) ''/s/./a.txt'' ?r demo_mount
      \<or> (\<exists>e. ?r = static_error_response line_headers e)" by simp
  moreover have "?r \<noteq> static_error_response line_headers e" for e
    by (cases e) (simp_all add: ok_response_bytes_def static_error_response_def)
  ultimately show ?thesis by blast
qed

subsection \<open>Interleaved requests\<close>

text \<open>
  The atomic operations of \<open>cache_insert\<close> and \<open>cache_remove\<close>, by any number of tasks in any order.
  A task is idle, or it has reserved bytes it will insert, or it will give back bytes it reserved over
  the cap, or it will give back those of the entry it replaced or removed.
\<close>

datatype cache_task = Idle | Reserved path CachedFile | GiveBack nat | Settle nat

type_synonym 'm cache_conf = "'m file_cache \<times> cache_task list"

definition settle :: "CachedFile option \<Rightarrow> cache_task" where
  "settle prev = (case prev of None \<Rightarrow> Idle | Some old \<Rightarrow> Settle (length (cf_bytes old)))"

inductive cache_step ::
    "('m, path, CachedFile) dash_api \<Rightarrow> 'm cache_conf \<Rightarrow> 'm cache_conf \<Rightarrow> bool" for D where
  reserve: "\<lbrakk>i < length ts; ts ! i = Idle; entry_ok p entry; len = length (cf_bytes entry);
      \<not> over_cap (fc_bytes c) (of_nat len)\<rbrakk> \<Longrightarrow>
    cache_step D (c, ts) (c\<lparr>fc_bytes := fc_bytes c + of_nat len\<rparr>, ts[i := Reserved p entry])"
| reserve_over: "\<lbrakk>i < length ts; ts ! i = Idle; entry_ok p entry; len = length (cf_bytes entry);
      over_cap (fc_bytes c) (of_nat len)\<rbrakk> \<Longrightarrow>
    cache_step D (c, ts) (c\<lparr>fc_bytes := fc_bytes c + of_nat len\<rparr>, ts[i := GiveBack len])"
| give_back: "\<lbrakk>i < length ts; ts ! i = GiveBack len\<rbrakk> \<Longrightarrow>
    cache_step D (c, ts) (c\<lparr>fc_bytes := fc_bytes c - of_nat len\<rparr>, ts[i := Idle])"
| insert_entry: "\<lbrakk>i < length ts; ts ! i = Reserved p entry; dm_insert D (fc_map c) p entry = (prev, m)\<rbrakk> \<Longrightarrow>
    cache_step D (c, ts) (c\<lparr>fc_map := m\<rparr>, ts[i := settle prev])"
| remove_entry: "\<lbrakk>i < length ts; ts ! i = Idle; dm_remove D (fc_map c) p = (prev, m)\<rbrakk> \<Longrightarrow>
    cache_step D (c, ts) (c\<lparr>fc_map := m\<rparr>, ts[i := settle prev])"
| settle_bytes: "\<lbrakk>i < length ts; ts ! i = Settle len\<rbrakk> \<Longrightarrow>
    cache_step D (c, ts) (c\<lparr>fc_bytes := fc_bytes c - of_nat len\<rparr>, ts[i := Idle])"

fun pending :: "cache_task \<Rightarrow> nat" where \<comment> \<open>counted and not in the map\<close>
  "pending Idle = 0"
| "pending (Reserved p entry) = length (cf_bytes entry)"
| "pending (GiveBack n) = n"
| "pending (Settle n) = n"

fun firm :: "cache_task \<Rightarrow> nat" where \<comment> \<open>of these, what was within the cap when it was counted\<close>
  "firm (GiveBack n) = 0"
| "firm t = pending t"

fun task_ok :: "cache_task \<Rightarrow> bool" where
  "task_ok (Reserved p entry) = entry_ok p entry"
| "task_ok (GiveBack n) = (n \<le> MAX_STATIC_FILE_BYTES)"
| "task_ok _ = True"

definition conf_inv :: "('m, path, CachedFile) dash_api \<Rightarrow> 'm cache_conf \<Rightarrow> bool" where
  "conf_inv D \<sigma> \<longleftrightarrow>
     fc_bytes (fst \<sigma>) = of_nat (live D (fc_map (fst \<sigma>)) + sum_list (map pending (snd \<sigma>))) \<and>
     live D (fc_map (fst \<sigma>)) + sum_list (map firm (snd \<sigma>)) \<le> STATIC_CACHE_MAX_BYTES \<and>
     list_all task_ok (snd \<sigma>)"

lemma pending_settle [simp]: "pending (settle prev) = size_of prev" "firm (settle prev) = size_of prev"
  "task_ok (settle prev)"
  by (cases prev; simp add: settle_def size_of_def)+

text \<open>What a step that puts task \<open>t\<close> at \<open>i\<close> makes of the sums.\<close>

lemmas task_sums = sum_list_update_nat [of _ _ pending] sum_list_update_nat [of _ _ firm]

lemma pending_bound:
  "list_all task_ok ts \<Longrightarrow>
     sum_list (map pending ts) \<le> sum_list (map firm ts) + length ts * MAX_STATIC_FILE_BYTES"
proof (induction ts)
  case (Cons t ts)
  moreover from Cons.prems have "pending t \<le> firm t + MAX_STATIC_FILE_BYTES" by (cases t) auto
  ultimately show ?case by simp
qed simp

lemma of_nat_up: "a = c + d \<Longrightarrow> (of_nat c :: u64) + of_nat d = of_nat a"
  by simp

lemma conf_inv_map:
  assumes "conf_inv D (c, ts)" and "i < length ts" and "task_ok t" and "firm t = pending t"
    and "firm (ts ! i) = pending (ts ! i)"
    and "live D m + pending t = live D (fc_map c) + pending (ts ! i)"
  shows "conf_inv D (c\<lparr>fc_map := m\<rparr>, ts[i := t])"
proof -
  have "live D m + sum_list (map pending (ts[i := t])) = live D (fc_map c) + sum_list (map pending ts)"
    "live D m + sum_list (map firm (ts[i := t])) = live D (fc_map c) + sum_list (map firm ts)"
    using task_sums [OF assms(2), of t] assms(4-6) by linarith+
  with assms(1,3) show ?thesis by (simp add: conf_inv_def list_all_update del: of_nat_add)
qed

lemma conf_inv_step:
  assumes D: "dash_map D" and "cache_step D \<sigma> \<tau>" and "conf_inv D \<sigma>" and "length (snd \<sigma>) \<le> 2 ^ 32"
  shows "conf_inv D \<tau> \<and> length (snd \<tau>) = length (snd \<sigma>)"
  using assms(2-)
proof cases
  case (reserve i ts p entry len c)
  let ?n = "live D (fc_map c) + sum_list (map pending ts)"
  from reserve assms(3) have b: "fc_bytes c = of_nat ?n" and ok: "list_all task_ok ts"
    and cap: "live D (fc_map c) + sum_list (map firm ts) \<le> STATIC_CACHE_MAX_BYTES"
    by (simp_all add: conf_inv_def)
  have "?n + len < 2 ^ 64"
    using pending_bound [OF ok] cap reserve assms(4)
    by (simp add: entry_ok_def MAX_STATIC_FILE_BYTES_def STATIC_CACHE_MAX_BYTES_def)
  from over_cap_iff [OF this] reserve(7) b have "?n + len \<le> STATIC_CACHE_MAX_BYTES" by simp
  moreover have "sum_list (map firm ts) \<le> sum_list (map pending ts)"
  proof (rule sum_list_mono)
    show "firm t \<le> pending t" for t by (cases t) auto
  qed
  ultimately show ?thesis
    using reserve ok b task_sums [OF reserve(3), of "Reserved p entry"]
    by (auto simp: conf_inv_def intro!: list_all_update of_nat_up)
next
  case (reserve_over i ts p entry len c)
  then show ?thesis
    using assms(3) task_sums [OF reserve_over(3), of "GiveBack len"]
    by (auto simp: conf_inv_def entry_ok_def intro!: list_all_update of_nat_up)
next
  case (give_back i ts len c)
  then show ?thesis
    using assms(3) task_sums [OF give_back(3), of Idle]
      of_nat_move [of "live D (fc_map c) + sum_list (map pending (ts[i := Idle]))" len
        "live D (fc_map c) + sum_list (map pending ts)" 0]
    by (auto simp: conf_inv_def intro!: list_all_update)
next
  case (settle_bytes i ts len c)
  then show ?thesis
    using assms(3) task_sums [OF settle_bytes(3), of Idle]
      of_nat_move [of "live D (fc_map c) + sum_list (map pending (ts[i := Idle]))" len
        "live D (fc_map c) + sum_list (map pending ts)" 0]
    by (auto simp: conf_inv_def intro!: list_all_update)
next
  case (insert_entry i ts p entry c prev m)
  then have "prev = dm_get D (fc_map c) p" "m = snd (dm_insert D (fc_map c) p entry)"
    using dash_map.insert_prev [OF D, of "fc_map c" p entry] by auto
  then have "live D m + pending (settle prev) = live D (fc_map c) + pending (ts ! i)"
    "firm (ts ! i) = pending (ts ! i)"
    using live_insert [OF D, of "fc_map c" p entry] insert_entry by simp_all
  with insert_entry assms(3) show ?thesis by (auto intro: conf_inv_map)
next
  case (remove_entry i ts c p prev m)
  then have "prev = dm_get D (fc_map c) p" "m = snd (dm_remove D (fc_map c) p)"
    using dash_map.remove_prev [OF D, of "fc_map c" p] by auto
  then have "live D m + pending (settle prev) = live D (fc_map c) + pending (ts ! i)"
    "firm (ts ! i) = pending (ts ! i)"
    using live_remove [OF D, of "fc_map c" p] remove_entry by simp_all
  with remove_entry assms(3) show ?thesis by (auto intro: conf_inv_map)
qed

inductive cache_reachable :: "('m, path, CachedFile) dash_api \<Rightarrow> nat \<Rightarrow> 'm cache_conf \<Rightarrow> bool" for D n where
  init: "cache_reachable D n (cache_init D, replicate n Idle)"
| step: "cache_reachable D n \<sigma> \<Longrightarrow> cache_step D \<sigma> \<tau> \<Longrightarrow> cache_reachable D n \<tau>"

lemma cache_reachable_inv:
  assumes "dash_map D" and "n \<le> 2 ^ 32" and "cache_reachable D n \<sigma>"
  shows "conf_inv D \<sigma> \<and> length (snd \<sigma>) = n"
  using assms(3)
proof induction
  case init
  then show ?case
    by (simp add: conf_inv_def cache_init_def live_new [OF assms(1)] sum_list_replicate list_all_iff)
next
  case (step \<sigma> \<tau>)
  then show ?case using conf_inv_step [OF assms(1) step(2)] assms(2) by auto
qed

text \<open>
  C5. However up to \<open>2 ^ 32\<close> concurrent tasks interleave their reservations, insertions, removals and
  give-backs, the map never holds more than the cap; and whenever no task is in between two of its
  operations, the counter is exactly the number of bytes the map holds.
\<close>

theorem cache_interleaved_cap:
  assumes "dash_map D" and "n \<le> 2 ^ 32" and "cache_reachable D n (c, ts)"
  shows "live D (fc_map c) \<le> STATIC_CACHE_MAX_BYTES \<and>
         (list_all (\<lambda>t. t = Idle) ts \<longrightarrow> unat (fc_bytes c) = live D (fc_map c))"
proof -
  from cache_reachable_inv [OF assms] have inv: "conf_inv D (c, ts)" by simp
  then have cap: "live D (fc_map c) \<le> STATIC_CACHE_MAX_BYTES" by (simp add: conf_inv_def)
  moreover have "unat (fc_bytes c) = live D (fc_map c)" if idle: "list_all (\<lambda>t. t = Idle) ts"
  proof -
    from idle have "sum_list (map pending ts) = 0" by (induction ts) auto
    with inv have "fc_bytes c = of_nat (live D (fc_map c))" by (simp add: conf_inv_def)
    with cap show ?thesis using unat_counter by blast
  qed
  ultimately show ?thesis by blast
qed

theorem cache_interleaved_cap_witness:
  fixes D :: "((path \<times> CachedFile) list, path, CachedFile) dash_api"
  defines "D \<equiv> alist_dash"
  defines "e \<equiv> \<lparr>cf_bytes = ''hi'', cf_content_type = content_type [''a.txt''],
                cf_stamp = \<lparr>st_modified = 7, st_len = 2\<rparr>\<rparr>"
  shows "\<exists>c ts. cache_reachable D 2 (c, ts) \<and> ts = [Reserved [''a.txt''] e, Reserved [''a.txt''] e] \<and>
           unat (fc_bytes c) = 4 \<and> live D (fc_map c) \<le> STATIC_CACHE_MAX_BYTES"
proof -
  let ?R = "Reserved [''a.txt''] e"
  let ?c = "\<lambda>b. cache_init D\<lparr>fc_bytes := b\<rparr>"
  have D: "dash_map D" unfolding D_def by (rule alist.dash_map_axioms)
  have ok: "entry_ok [''a.txt''] e" by (simp add: e_def entry_ok_def MAX_STATIC_FILE_BYTES_def)
  have len: "2 = length (cf_bytes e)" by (simp add: e_def)
  have room: "\<not> over_cap 0 2" "\<not> over_cap 2 2" by (simp_all add: over_cap_def STATIC_CACHE_MAX_BYTES_def)
  have "replicate 2 Idle = [Idle, Idle]" by (simp add: numeral_2_eq_2)
  then have "cache_reachable D 2 (cache_init D, [Idle, Idle])" using init [of D 2] by simp
  moreover have "cache_step D (cache_init D, [Idle, Idle]) (?c 2, [?R, Idle])"
    using reserve [OF _ _ ok len, of 0 "[Idle, Idle]" "cache_init D" D] room by (simp add: cache_init_def)
  moreover have "cache_step D (?c 2, [?R, Idle]) (?c 4, [?R, ?R])"
    using reserve [OF _ _ ok len, of 1 "[?R, Idle]" "?c 2" D] room by (simp add: cache_init_def)
  ultimately have r: "cache_reachable D 2 (?c 4, [?R, ?R])" by (blast intro: step)
  with cache_interleaved_cap [OF D _ r] show ?thesis by auto
qed

text \<open>
  The comment on \<open>cache_insert\<close> says that a changed file replaces its entry. The reservation counts
  the old entry's bytes too, so close to the cap the new version is not stored and the old one stays:
  it is never served again, since its stamp is not current, and every request re-reads the file.
\<close>

lemma changed_file_not_recached:
  assumes "dash_map D" and "over_cap (fc_bytes c) (of_nat (length (cf_bytes new)))"
  shows "dm_get D (fc_map (cache_insert D c p new)) p = dm_get D (fc_map c) p"
  using assms by (simp add: cache_insert_eq)

end
