(* ===== verification/Router.thy ===== *)
theory Router
  imports Static_Files "HOL-Library.AList" "HOL-Library.List_Lexorder" "HOL-Library.Char_ord"
begin

section \<open>The route table (\<open>src/router.rs\<close>)\<close>

text \<open>
  Registered routes, hooks, static mounts and pre-built responses, and the lookup that resolves a
  request to the handler that runs it and where. A \<open>HashMap\<close> is an association list with distinct
  keys; its iteration order is unspecified in Rust, and the results do not depend on it. The
  per-method matcher (crate \<open>matchit\<close>) is the parameter \<open>R\<close>, with the locale \<open>route_matcher\<close> as
  what is relied on; path parameters are decoded by the parameter \<open>decode\<close> (crate
  \<open>percent_encoding\<close>, invalid UTF-8 replaced). A Python object is a value of the type \<open>'py\<close>.

  The results: the table's invariant, kept by every operation, from which a resolved id always names
  a route registered for the request's method (\<open>GET\<close> for a \<open>HEAD\<close>); \<open>Allow\<close> lists, in order and once each, exactly the methods that are
  served; and a template's parameter names are those it was written with.
\<close>

subsection \<open>Pre-built responses\<close>

record 'h FastResponse =
  fr_status :: nat
  fr_headers :: 'h
  fr_body :: string

datatype FastResponseError =
    FastStatus nat
  | HeaderName string
  | HeaderValue string

definition header_value :: "'h http_api \<Rightarrow> string \<Rightarrow> string \<Rightarrow> (string, FastResponseError) result" where
  "header_value H name v = ok_or (HeaderValue name) (hv_from_str H v)"

definition fast_append ::
    "'h http_api \<Rightarrow> 'h \<Rightarrow> string \<times> string \<Rightarrow> ('h, FastResponseError) result" where
  "fast_append H hm p =
     and_then (ok_or (HeaderName (fst p)) (hn_from_bytes H (fst p))) (\<lambda>header.
       map_ok (hm_append H hm header) (header_value H (fst p) (snd p)))"

definition fast_response_parse ::
    "'h http_api \<Rightarrow> string \<Rightarrow> string \<Rightarrow> nat \<Rightarrow> (string \<times> string) list \<Rightarrow>
     ('h FastResponse, FastResponseError) result" where
  "fast_response_parse H body ctype status headers =
     and_then (ok_or (FastStatus status) (status_from_u16 H status)) (\<lambda>st.
     and_then (header_value H ''content-type'' ctype) (\<lambda>ct.
     map_ok (\<lambda>hm. \<lparr>fr_status = st, fr_headers = hm, fr_body = body\<rparr>)
       (try_fold (fast_append H)
          (hm_insert H (hm_insert H (hm_new H) CONTENT_TYPE ct) SERVER SERVER_HEADER) headers)))"

definition fast_to_response :: "'h http_api \<Rightarrow> 'h FastResponse \<Rightarrow> 'h http_response" where
  "fast_to_response H fr =
     (response_new H (Full (fr_body fr)))\<lparr>rsp_status := fr_status fr, rsp_headers := fr_headers fr\<rparr>"

subsection \<open>Path templates\<close>

datatype TemplateError = ColonParam string

datatype 'e RouteRejection = Template TemplateError | Insert 'e

record 'e RouteError =
  re_method :: string
  re_path :: string
  re_source :: "'e RouteRejection"

definition colon_param :: "string \<Rightarrow> string option" where
  "colon_param segment =
     (case strip_prefix '':'' segment of
        Some (c # cs) \<Rightarrow> if is_ascii_alphabetic c \<or> c = CHR ''_'' then Some (c # cs) else None
      | _ \<Rightarrow> None)"

fun find_map :: "('a \<Rightarrow> 'b option) \<Rightarrow> 'a list \<Rightarrow> 'b option" where
  "find_map f [] = None"
| "find_map f (x # xs) = (case f x of Some y \<Rightarrow> Some y | None \<Rightarrow> find_map f xs)"

definition strip_star :: "string \<Rightarrow> string" where
  "strip_star name = (case strip_prefix ''*'' name of Some n \<Rightarrow> n | None \<Rightarrow> name)"

text \<open>The loop over the rest of the path.\<close>

function template_names :: "string \<Rightarrow> string list" where
  "template_names rest =
     (case split_once CHR ''{'' rest of
        None \<Rightarrow> []
      | Some (_, after) \<Rightarrow>
          (case strip_prefix ''{'' after of
             Some escaped \<Rightarrow> template_names escaped
           | None \<Rightarrow>
               (case split_once CHR ''}'' after of
                  None \<Rightarrow> []
                | Some (name, rest') \<Rightarrow> strip_star name # template_names rest')))"
  by pat_completeness auto
termination
  by (relation "measure length") (auto simp: split_once_Some strip_prefix_Some)

declare template_names.simps [simp del]

definition template_params :: "string \<Rightarrow> (string list, TemplateError) result" where
  "template_params path =
     (case find_map colon_param (split_on (\<lambda>c. c = CHR ''/'') path) of
        Some name \<Rightarrow> Err (ColonParam name)
      | None \<Rightarrow> Ok (template_names path))"

subsection \<open>The table\<close>

type_synonym RouteId = nat

datatype Target = Route RouteId | Fallback

datatype HandlerKind = Sync | Async

datatype RequestBody = Buffered | Streamed

datatype Dispatch = Worker HandlerKind | Main RequestBody

datatype Call = CallWorker RouteId HandlerKind | CallMain Target RequestBody

record RouteKey =
  rk_method :: string
  rk_path :: string

record 'py Route =
  r_handler :: 'py
  r_name :: string
  r_key :: RouteKey
  r_dispatch :: Dispatch

type_synonym Params = "(string \<times> string) list"

record Sealed =
  sealed_routes :: nat
  sealed_before_hooks :: nat
  sealed_after_hooks :: nat

record ('r, 'py, 'h) RouteTable =
  rt_routes :: "'py Route list"
  rt_routers :: "(string \<times> 'r) list"
  rt_fallback :: "'py option"
  rt_ws_handlers :: "(string \<times> 'py) list"
  rt_before_hooks :: "'py list"
  rt_after_hooks :: "'py list"
  rt_static_dirs :: "StaticMount list"
  rt_fast_responses :: "(string \<times> (string \<times> 'h FastResponse) list) list"
  rt_sealed :: "Sealed option"

record RouteSignature =
  sig_routes :: "(string \<times> string \<times> bool) list"
  sig_before_hooks :: nat
  sig_after_hooks :: nat

fun is_main :: "Dispatch \<Rightarrow> bool" where
  "is_main (Main _) = True"
| "is_main (Worker _) = False"

definition route_signature_of :: "('r, 'py, 'h) RouteTable \<Rightarrow> RouteSignature" where
  "route_signature_of t =
     (let sealed = (case rt_sealed t of
                      Some s \<Rightarrow> s
                    | None \<Rightarrow> \<lparr>sealed_routes = length (rt_routes t),
                               sealed_before_hooks = length (rt_before_hooks t),
                               sealed_after_hooks = length (rt_after_hooks t)\<rparr>)
      in \<lparr>sig_routes = map (\<lambda>r. (rk_method (r_key r), rk_path (r_key r), is_main (r_dispatch r)))
                         (take (sealed_routes sealed) (rt_routes t)),
          sig_before_hooks = sealed_before_hooks sealed,
          sig_after_hooks = sealed_after_hooks sealed\<rparr>)"

definition signature_is_empty :: "RouteSignature \<Rightarrow> bool" where
  "signature_is_empty s \<longleftrightarrow> sig_routes s = [] \<and> sig_before_hooks s = 0 \<and> sig_after_hooks s = 0"

text \<open>\<open>describe_mismatch\<close>: the index marked, and the two lists.\<close>

fun position_diff :: "'a list \<Rightarrow> 'a list \<Rightarrow> nat option" where
  "position_diff (x # xs) (y # ys) = (if x \<noteq> y then Some 0 else map_option Suc (position_diff xs ys))"
| "position_diff _ _ = None"

definition first_diff :: "RouteSignature \<Rightarrow> RouteSignature \<Rightarrow> nat" where
  "first_diff expected got =
     (case position_diff (sig_routes expected) (sig_routes got) of
        Some i \<Rightarrow> i
      | None \<Rightarrow> min (length (sig_routes expected)) (length (sig_routes got)))"

fun signature_line :: "nat \<Rightarrow> nat \<times> string \<times> string \<times> bool \<Rightarrow> string" where
  "signature_line marked (i, m, p, gil) =
     ''    ['' @ show_nat i @ ''] '' @ m @ '' '' @ p @ (if gil then '' gil=True'' else [])
       @ (if i = marked then ''  <-- first difference'' else []) @ [CHR 0x0A]"

definition signature_list :: "nat \<Rightarrow> RouteSignature \<Rightarrow> string" where
  "signature_list marked s =
     concat (map (signature_line marked) (List.enumerate 0 (sig_routes s)))
       @ ''    before_request hooks: '' @ show_nat (sig_before_hooks s) @ '', after_request hooks: ''
       @ show_nat (sig_after_hooks s) @ [CHR 0x0A]"

definition describe_mismatch :: "RouteSignature \<Rightarrow> RouteSignature \<Rightarrow> string" where
  "describe_mismatch expected got =
     ''the main interpreter registered:'' @ [CHR 0x0A] @ signature_list (first_diff expected got) expected
       @ ''this worker's script registered:'' @ [CHR 0x0A] @ signature_list (first_diff expected got) got"

definition route_table_new :: "('r, 'py, 'h) RouteTable" where
  "route_table_new =
     \<lparr>rt_routes = [], rt_routers = [], rt_fallback = None, rt_ws_handlers = [], rt_before_hooks = [],
      rt_after_hooks = [], rt_static_dirs = [], rt_fast_responses = [], rt_sealed = None\<rparr>"

text \<open>\<open>clone_ref\<close>, with the interpreter's \<open>clone\<close> of one reference.\<close>

definition clone_ref :: "('py \<Rightarrow> 'py) \<Rightarrow> ('r, 'py, 'h) RouteTable \<Rightarrow> ('r, 'py, 'h) RouteTable" where
  "clone_ref clone t =
     \<lparr>rt_routes = map (\<lambda>r. \<lparr>r_handler = clone (r_handler r), r_name = r_name r, r_key = r_key r,
                             r_dispatch = r_dispatch r\<rparr>) (rt_routes t),
      rt_routers = rt_routers t,
      rt_fallback = map_option clone (rt_fallback t),
      rt_ws_handlers = map (\<lambda>(k, v). (k, clone v)) (rt_ws_handlers t),
      rt_before_hooks = map clone (rt_before_hooks t),
      rt_after_hooks = map clone (rt_after_hooks t),
      rt_static_dirs = rt_static_dirs t,
      rt_fast_responses = rt_fast_responses t,
      rt_sealed = rt_sealed t\<rparr>"

text \<open>
  \<open>str::to_uppercase\<close>: ASCII letters, and for a name with other characters the Unicode tables, which
  are the parameter \<open>unicode\<close>.
\<close>

definition to_uppercase :: "(string \<Rightarrow> string) \<Rightarrow> string \<Rightarrow> string" where
  "to_uppercase unicode s =
     (if list_all (\<lambda>c. (of_char c :: nat) < 128) s then to_ascii_uppercase s else unicode s)"

definition route_insert ::
    "('r, RouteId, 'e) router_api \<Rightarrow> (string \<Rightarrow> string) \<Rightarrow> ('r, 'py, 'h) RouteTable \<Rightarrow>
     string \<Rightarrow> string \<Rightarrow> 'py \<Rightarrow> string \<Rightarrow> Dispatch \<Rightarrow>
     (unit, 'e RouteError) result \<times> ('r, 'py, 'h) RouteTable" where
  "route_insert R unicode t method path handler name dispatch =
     (let rid = length (rt_routes t);
          method = to_uppercase unicode method;
          rejected = (\<lambda>source. \<lparr>re_method = method, re_path = path, re_source = source\<rparr>)
      in case template_params path of
           Inl e \<Rightarrow> (Err (rejected (Template e)), t)
         | Inr _ \<Rightarrow>
             (let router = (case map_of (rt_routers t) method of Some r \<Rightarrow> r | None \<Rightarrow> mr_new R)
              in case mr_insert R router path rid of
                   Inl (e, r') \<Rightarrow> (Err (rejected (Insert e)),
                                   t\<lparr>rt_routers := AList.update method r' (rt_routers t)\<rparr>)
                 | Inr r' \<Rightarrow> (Ok (),
                     t\<lparr>rt_routers := AList.update method r' (rt_routers t),
                       rt_routes := rt_routes t @
                         [\<lparr>r_handler = handler, r_name = name,
                           r_key = \<lparr>rk_method = method, rk_path = path\<rparr>, r_dispatch = dispatch\<rparr>]\<rparr>)))"

definition set_fallback :: "('r, 'py, 'h) RouteTable \<Rightarrow> 'py \<Rightarrow> ('r, 'py, 'h) RouteTable" where
  "set_fallback t handler = t\<lparr>rt_fallback := Some handler\<rparr>"

definition uses_main :: "('r, 'py, 'h) RouteTable \<Rightarrow> bool" where
  "uses_main t \<longleftrightarrow> rt_fallback t \<noteq> None \<or> list_ex (\<lambda>r. is_main (r_dispatch r)) (rt_routes t)"

text \<open>Indexing and \<open>expect\<close> panic: \<open>None\<close>.\<close>

definition route :: "('r, 'py, 'h) RouteTable \<Rightarrow> RouteId \<Rightarrow> 'py Route option" where
  "route t rid = (if rid < length (rt_routes t) then Some (rt_routes t ! rid) else None)"

fun handler :: "('r, 'py, 'h) RouteTable \<Rightarrow> Target \<Rightarrow> 'py option" where
  "handler t (Route rid) = map_option r_handler (route t rid)"
| "handler t Fallback = rt_fallback t"

definition lookup ::
    "('r, RouteId, 'e) router_api \<Rightarrow> (string \<Rightarrow> string) \<Rightarrow> ('r, 'py, 'h) RouteTable \<Rightarrow> string \<Rightarrow> string \<Rightarrow>
     (RouteId \<times> Params) option" where
  "lookup R decode t method path =
     (case map_of (rt_routers t)
             (if list_ex is_ascii_lower method then to_ascii_uppercase method else method) of
        None \<Rightarrow> None
      | Some router \<Rightarrow>
          (case mr_at R router path of
             None \<Rightarrow> None
           | Some (rid, params) \<Rightarrow> Some (rid, map (\<lambda>(k, v). (k, decode v)) params)))"

text \<open>The outer \<open>None\<close> is the panic of an id out of range.\<close>

definition resolve ::
    "('r, RouteId, 'e) router_api \<Rightarrow> (string \<Rightarrow> string) \<Rightarrow> ('r, 'py, 'h) RouteTable \<Rightarrow> string \<Rightarrow> string \<Rightarrow>
     (Call \<times> Params) option option" where
  "resolve R decode t method path =
     (case (case lookup R decode t method path of
              Some m \<Rightarrow> Some m
            | None \<Rightarrow> if eq_ignore_ascii_case method ''HEAD'' then lookup R decode t ''GET'' path else None) of
        None \<Rightarrow> Some None
      | Some (rid, params) \<Rightarrow>
          (case route t rid of
             None \<Rightarrow> None
           | Some r \<Rightarrow> Some (Some (case r_dispatch r of
                 Worker kind \<Rightarrow> CallWorker rid kind
               | Main body \<Rightarrow> CallMain (Route rid) body, params))))"

fun join :: "string \<Rightarrow> string list \<Rightarrow> string" where
  "join sep [] = []"
| "join sep [x] = x"
| "join sep (x # y # ys) = x @ sep @ join sep (y # ys)"

definition allow_value :: "'h http_api \<Rightarrow> string list \<Rightarrow> string option" where
  "allow_value H methods =
     (let ms = (if ''GET'' \<in> set methods \<and> ''HEAD'' \<notin> set methods then methods @ [''HEAD''] else methods)
      in if ms = [] then None else hv_from_str H (join '', '' (remdups_adj (sort ms))))"

definition allowed_methods ::
    "('r, RouteId, 'e) router_api \<Rightarrow> 'h http_api \<Rightarrow> ('r, 'py, 'h) RouteTable \<Rightarrow> string \<Rightarrow> string option" where
  "allowed_methods R H t path =
     (let routed = map fst (filter (\<lambda>(_, router). mr_at R router path \<noteq> None) (rt_routers t));
          prebuilt = map fst (filter (\<lambda>(_, paths). map_of paths path \<noteq> None) (rt_fast_responses t))
      in allow_value H (routed @ prebuilt))"

definition fallback_call :: "('r, 'py, 'h) RouteTable \<Rightarrow> Call option" where
  "fallback_call t = map_option (\<lambda>_. CallMain Fallback Buffered) (rt_fallback t)"

definition fast_response :: "('r, 'py, 'h) RouteTable \<Rightarrow> string \<Rightarrow> string \<Rightarrow> 'h FastResponse option" where
  "fast_response t method path =
     (if rt_fast_responses t = [] then None
      else
        let registered = (\<lambda>m. Option.bind (map_of (rt_fast_responses t) m) (\<lambda>paths. map_of paths path))
        in case registered method of
             Some fr \<Rightarrow> Some fr
           | None \<Rightarrow> if method = ''HEAD'' then registered ''GET'' else None)"

record RouteShape =
  shape_gil :: "bool list"
  shape_is_async :: "bool list"
  shape_streamed :: nat

definition route_shape_of :: "('r, 'py, 'h) RouteTable \<Rightarrow> RouteShape" where
  "route_shape_of t =
     (let dispatches = map r_dispatch (rt_routes t)
      in \<lparr>shape_gil = map is_main dispatches,
          shape_is_async = map (\<lambda>d. d = Worker Async) dispatches,
          shape_streamed = length (filter (\<lambda>d. d = Main Streamed) dispatches)\<rparr>)"

definition gil_count :: "RouteShape \<Rightarrow> nat" where
  "gil_count s = length (filter (\<lambda>g. g) (shape_gil s))"

definition async_count :: "RouteShape \<Rightarrow> nat" where
  "async_count s = length (filter (\<lambda>a. a) (shape_is_async s))"

definition all_inline_sync :: "RouteShape \<Rightarrow> bool" where
  "all_inline_sync s \<longleftrightarrow> gil_count s = 0 \<and> async_count s = 0"

text \<open>
  \<open>PyronovaApp::add_fast_response\<close> (\<open>src/app.rs\<close>): a second registration of the same pair is refused.
\<close>

datatype AddFastError = FastInvalid FastResponseError | FastDuplicate string string

definition add_fast_response ::
    "'h http_api \<Rightarrow> ('r, 'py, 'h) RouteTable \<Rightarrow> string \<Rightarrow> string \<Rightarrow> string \<Rightarrow> string \<Rightarrow> nat \<Rightarrow>
     (string \<times> string) list \<Rightarrow> (unit, AddFastError) result \<times> ('r, 'py, 'h) RouteTable" where
  "add_fast_response H t method path body ctype status headers =
     (let method_key = to_ascii_uppercase method
      in case fast_response_parse H body ctype status headers of
           Inl e \<Rightarrow> (Err (FastInvalid e), t)
         | Inr resp \<Rightarrow>
             (let bucket = (case map_of (rt_fast_responses t) method_key of Some b \<Rightarrow> b | None \<Rightarrow> [])
              in if map_of bucket path \<noteq> None
                 then (Err (FastDuplicate method_key path),
                       t\<lparr>rt_fast_responses := AList.update method_key bucket (rt_fast_responses t)\<rparr>)
                 else (Ok (),
                       t\<lparr>rt_fast_responses :=
                           AList.update method_key (AList.update path resp bucket) (rt_fast_responses t)\<rparr>)))"

subsection \<open>Templates read back\<close>

text \<open>A template as it is meant: literal text, parameters, and a catch-all; and how it is written.\<close>

datatype piece = Lit string | Param string | CatchAll string

definition escape :: "string \<Rightarrow> string" where
  "escape s = concat (map (\<lambda>c. if c = CHR ''{'' \<or> c = CHR ''}'' then [c, c] else [c]) s)"

fun render :: "piece list \<Rightarrow> string" where
  "render [] = []"
| "render (Lit s # ps) = escape s @ render ps"
| "render (Param n # ps) = ''{'' @ n @ ''}'' @ render ps"
| "render (CatchAll n # ps) = ''{*'' @ n @ ''}'' @ render ps"

fun piece_names :: "piece list \<Rightarrow> string list" where
  "piece_names [] = []"
| "piece_names (Lit s # ps) = piece_names ps"
| "piece_names (Param n # ps) = n # piece_names ps"
| "piece_names (CatchAll n # ps) = n # piece_names ps"

fun piece_ok :: "piece \<Rightarrow> bool" where
  "piece_ok (Lit s) = True"
| "piece_ok (Param n) = (CHR ''}'' \<notin> set n \<and> n \<noteq> [] \<and> hd n \<noteq> CHR ''{'' \<and> hd n \<noteq> CHR ''*'')"
| "piece_ok (CatchAll n) = (CHR ''}'' \<notin> set n)"

lemma template_names_Nil [simp]: "template_names [] = []"
  by (simp add: template_names.simps)

lemma template_names_skip: "c \<noteq> CHR ''{'' \<Longrightarrow> template_names (c # s) = template_names s"
  by (subst (1 2) template_names.simps) (auto split: option.splits)

lemma template_names_escaped [simp]: "template_names (CHR ''{'' # CHR ''{'' # s) = template_names s"
  by (subst template_names.simps) simp

lemma template_names_param:
  assumes "CHR ''}'' \<notin> set n" and "n \<noteq> []" and "hd n \<noteq> CHR ''{''"
  shows "template_names (CHR ''{'' # n @ CHR ''}'' # s) = strip_star n # template_names s"
  using assms split_once_append [OF assms(1), of s]
  by (cases n) (auto simp: template_names.simps [of "CHR ''{'' # _"])

lemma template_names_escape: "template_names (escape s @ t) = template_names t"
proof (induction s)
  case (Cons c s)
  then show ?case by (auto simp: escape_def template_names_skip)
qed (simp add: escape_def)

lemma template_names_render: "list_all piece_ok ps \<Longrightarrow> template_names (render ps) = piece_names ps"
proof (induction ps)
  case (Cons p ps)
  then show ?case
  proof (cases p)
    case (Param n)
    then have "strip_star n = n" using Cons.prems by (cases n) (auto simp: strip_star_def)
    with Param Cons show ?thesis using template_names_param [of n "render ps"] by simp
  next
    case (CatchAll n)
    with Cons show ?thesis using template_names_param [of "CHR ''*'' # n" "render ps"]
      by (simp add: strip_star_def)
  qed (simp add: template_names_escape)
qed simp

text \<open>
  A route path reads back as what it was written from: the parameter names of a template, in
  order, with literal braces escaped and the catch-all's star dropped; and a path is rejected exactly
  when one of its segments is a colon and an identifier.
\<close>

theorem template_params_render:
  assumes "list_all piece_ok ps"
  shows "template_params (render ps) =
     (case find_map colon_param (split_on (\<lambda>c. c = CHR ''/'') (render ps)) of
        None \<Rightarrow> Ok (piece_names ps) | Some name \<Rightarrow> Err (ColonParam name))"
  using template_names_render [OF assms] by (simp add: template_params_def split: option.split)

theorem template_params_render_witness:
  "template_params (render [Lit ''/a{b/'', Param ''user'', Lit ''.json/'', CatchAll ''rest'']) = Ok [''user'', ''rest'']"
proof -
  let ?ps = "[Lit ''/a{b/'', Param ''user'', Lit ''.json/'', CatchAll ''rest'']"
  have "find_map colon_param (split_on (\<lambda>c. c = CHR ''/'') (render ?ps)) = None"
    by (simp add: escape_def colon_param_def)
  with template_params_render [of ?ps] show ?thesis by simp
qed

subsection \<open>The table's invariant\<close>

text \<open>
  Methods are stored once, without lowercase letters, and every id a method's matcher holds is the
  index of a route registered for that method.
\<close>

definition table_inv :: "('r \<Rightarrow> RouteId set) \<Rightarrow> ('r, 'py, 'h) RouteTable \<Rightarrow> bool" where
  "table_inv vals t \<longleftrightarrow>
     distinct (map fst (rt_routers t)) \<and> distinct (map fst (rt_fast_responses t)) \<and>
     (\<forall>m r. map_of (rt_routers t) m = Some r \<longrightarrow> \<not> list_ex is_ascii_lower m \<and>
        (\<forall>rid \<in> vals r. rid < length (rt_routes t) \<and> rk_method (r_key (rt_routes t ! rid)) = m)) \<and>
     (\<forall>m \<in> fst ` set (rt_fast_responses t). \<not> list_ex is_ascii_lower m)"

lemma table_inv_new: "table_inv vals route_table_new"
  by (simp add: table_inv_def route_table_new_def)

lemma to_uppercase_no_lower:
  "(\<And>s. \<not> list_ex is_ascii_lower (unicode s)) \<Longrightarrow> \<not> list_ex is_ascii_lower (to_uppercase unicode s)"
  by (simp add: to_uppercase_def)

text \<open>Storing a matcher whose new ids are indices of routes of its method.\<close>

lemma table_inv_store:
  assumes "table_inv vals t" and "\<not> list_ex is_ascii_lower m"
    and "\<And>rid. rid \<in> vals r \<Longrightarrow> rid < length (rt_routes t @ new) \<and> rk_method (r_key ((rt_routes t @ new) ! rid)) = m"
  shows "table_inv vals (t\<lparr>rt_routers := AList.update m r (rt_routers t), rt_routes := rt_routes t @ new\<rparr>)"
  using assms
  by (auto simp: table_inv_def distinct_update update_conv' nth_append less_Suc_eq
      trans_less_add1 split: if_splits)

lemma route_insert_inv:
  assumes R: "route_matcher R vals" and uni: "\<And>s. \<not> list_ex is_ascii_lower (unicode s)"
    and inv: "table_inv vals t"
  shows "table_inv vals (snd (route_insert R unicode t method path h name d))"
proof -
  let ?m = "to_uppercase unicode method"
  let ?r = "case map_of (rt_routers t) ?m of Some r \<Rightarrow> r | None \<Rightarrow> mr_new R"
  have lower: "\<not> list_ex is_ascii_lower ?m" by (rule to_uppercase_no_lower [OF uni])
  have old: "rid < length (rt_routes t) \<and> rk_method (r_key (rt_routes t ! rid)) = ?m" if "rid \<in> vals ?r" for rid
    using inv that route_matcher.values_new [OF R] by (auto simp: table_inv_def split: option.splits)
  show ?thesis
  proof (cases "template_params path")
    case (Inl e)
    with inv show ?thesis by (simp add: route_insert_def Let_def)
  next
    case (Inr names)
    show ?thesis
    proof (cases "mr_insert R ?r path (length (rt_routes t))")
      case (Inl er)
      then have "vals (snd er) = vals ?r" by (cases er) (simp add: route_matcher.values_rejected [OF R])
      then show ?thesis
        using Inl \<open>template_params path = Inr names\<close> table_inv_store [OF inv lower, of "snd er" "[]"] old
        by (cases er) (simp add: route_insert_def Let_def)
    next
      case (Inr r')
      then have "vals r' = insert (length (rt_routes t)) (vals ?r)"
        by (rule route_matcher.values_insert [OF R])
      then show ?thesis
        using Inr \<open>template_params path = Inr names\<close> old
        by (auto simp: route_insert_def Let_def nth_append less_Suc_eq intro!: table_inv_store [OF inv lower])
    qed
  qed
qed

lemma add_fast_response_inv:
  "table_inv vals t \<Longrightarrow> table_inv vals (snd (add_fast_response H t method path body ctype status headers))"
  by (auto simp: table_inv_def add_fast_response_def Let_def distinct_update update_conv'
      dom_update split: sum.splits if_splits option.splits simp flip: dom_map_of_conv_image_fst)

lemma clone_ref_inv: "table_inv vals t \<Longrightarrow> table_inv vals (clone_ref clone t)"
  by (auto simp: table_inv_def clone_ref_def)

text \<open>A script's registrations, in order, each accepted or rejected.\<close>

datatype 'py registration =
    RegRoute string string 'py string Dispatch
  | RegFast string string string string nat "(string \<times> string) list"
  | RegFallback 'py

fun register ::
    "('r, RouteId, 'e) router_api \<Rightarrow> 'h http_api \<Rightarrow> (string \<Rightarrow> string) \<Rightarrow> 'py registration \<Rightarrow>
     ('r, 'py, 'h) RouteTable \<Rightarrow> ('r, 'py, 'h) RouteTable" where
  "register R H uni (RegRoute m p h n d) t = snd (route_insert R uni t m p h n d)"
| "register R H uni (RegFast m p b ct s hs) t = snd (add_fast_response H t m p b ct s hs)"
| "register R H uni (RegFallback h) t = set_fallback t h"

lemma register_inv:
  assumes "route_matcher R vals" and "\<And>s. \<not> list_ex is_ascii_lower (uni s)"
  shows "table_inv vals t \<Longrightarrow> table_inv vals (fold (register R H uni) regs t)"
proof (induction regs arbitrary: t)
  case (Cons reg regs)
  have "table_inv vals (register R H uni reg t)"
    using Cons.prems assms
    by (cases reg) (simp_all add: route_insert_inv add_fast_response_inv, simp add: set_fallback_def table_inv_def)
  with Cons.IH show ?case by simp
qed simp

subsection \<open>Resolving a request\<close>

lemma lookup_method: "lookup R decode t method path = lookup R decode t (to_ascii_uppercase method) path"
  by (cases "list_ex is_ascii_lower method")
     (simp_all add: lookup_def to_ascii_uppercase_id)

lemma lookup_route:
  assumes "route_matcher R vals" and "table_inv vals t" and "lookup R decode t method path = Some (rid, ps)"
  shows "\<exists>r. route t rid = Some r \<and> rk_method (r_key r) = to_ascii_uppercase method"
proof -
  have "lookup R decode t (to_ascii_uppercase method) path = Some (rid, ps)"
    using assms(3) lookup_method by metis
  then obtain router ps' where r: "map_of (rt_routers t) (to_ascii_uppercase method) = Some router"
    and a: "mr_at R router path = Some (rid, ps')"
    by (auto simp: lookup_def split: option.splits)
  from route_matcher.at_values [OF assms(1) a] r assms(2) show ?thesis
    by (auto simp: table_inv_def route_def)
qed

text \<open>The call a route's registration asks for.\<close>

fun call_of :: "RouteId \<Rightarrow> Dispatch \<Rightarrow> Call" where
  "call_of rid (Worker kind) = CallWorker rid kind"
| "call_of rid (Main body) = CallMain (Route rid) body"

lemma HEAD_upper: "to_ascii_uppercase ''HEAD'' = ''HEAD''" "to_ascii_uppercase ''GET'' = ''GET''"
  by (simp_all add: ascii_defs)

lemma resolve_eq:
  assumes "route_matcher R vals" and "table_inv vals t"
  shows "resolve R decode t method path =
     (let hit = (case lookup R decode t method path of
                   Some m \<Rightarrow> Some m
                 | None \<Rightarrow> if eq_ignore_ascii_case method ''HEAD'' then lookup R decode t ''GET'' path else None)
      in Some (map_option (\<lambda>(rid, ps). (call_of rid (r_dispatch (rt_routes t ! rid)), ps)) hit))"
proof -
  have "\<exists>r. route t rid = Some r" if "lookup R decode t m path = Some (rid, ps)" for m rid ps
    using lookup_route [OF assms that] by blast
  then have known: "route t rid = Some (rt_routes t ! rid)" if "lookup R decode t m path = Some (rid, ps)" for m rid ps
    using that by (fastforce simp: route_def split: if_splits)
  have call: "(case d of Worker kind \<Rightarrow> CallWorker rid kind | Main body \<Rightarrow> CallMain (Route rid) body) = call_of rid d"
    for rid d by (cases d) auto
  show ?thesis
    using known by (auto simp: resolve_def call Let_def split: option.splits)
qed

text \<open>
  C1. After any sequence of registrations, accepted or rejected, resolving a request never indexes
  out of the table, and what it finds is right: the route is one registered for the request's method,
  whatever its case, or for \<open>GET\<close> when the request is a \<open>HEAD\<close> no \<open>HEAD\<close> route matches; and it runs
  where its registration says.
\<close>

theorem resolve_finds_route:
  assumes R: "route_matcher R vals" and uni: "\<And>s. \<not> list_ex is_ascii_lower (uni s)"
    and t: "t = fold (register R H uni) regs route_table_new"
  shows "\<exists>res. resolve R decode t verb path = Some res \<and>
     (\<forall>call ps. res = Some (call, ps) \<longrightarrow>
        (\<exists>rid r. route t rid = Some r \<and> call = call_of rid (r_dispatch r) \<and>
           (rk_method (r_key r) = to_ascii_uppercase verb \<or>
            rk_method (r_key r) = ''GET'' \<and> to_ascii_uppercase verb = ''HEAD'' \<and>
            lookup R decode t verb path = None)))"
proof -
  have inv: "table_inv vals t" unfolding t by (rule register_inv [OF R uni table_inv_new])
  have found: "\<exists>r. route t rid = Some r \<and> r = rt_routes t ! rid \<and> rk_method (r_key r) = to_ascii_uppercase m"
    if "lookup R decode t m path = Some (rid, ps)" for m rid ps
    using lookup_route [OF R inv that] by (auto simp: route_def split: if_splits)
  have head: "to_ascii_uppercase verb = ''HEAD''" if "eq_ignore_ascii_case verb ''HEAD''"
    using eq_ignore_ascii_case_upper [OF that] by (simp add: HEAD_upper)
  show ?thesis
    unfolding resolve_eq [OF R inv]
    using found head HEAD_upper(2)
    by (auto simp: Let_def split: option.splits if_splits; metis)
qed

subsection \<open>The \<open>Allow\<close> value\<close>

lemma dedup_sort: "remdups_adj (sort xs) = sorted_list_of_set (set xs)"
proof -
  have "distinct (remdups_adj ys)" if "sorted ys" for ys :: "'a list"
    using that by (induction ys rule: remdups_adj.induct) (auto simp: antisym)
  then have "sorted_wrt (<) (remdups_adj (sort xs))"
    by (simp add: strict_sorted_iff sorted_remdups_adj)
  then show ?thesis
    using sorted_list_of_set.idem_if_sorted_distinct [of "remdups_adj (sort xs)"] by (simp add: strict_sorted_iff)
qed

text \<open>The methods a request for the path is served under, as they are written.\<close>

definition served_methods ::
    "('r, RouteId, 'e) router_api \<Rightarrow> (string \<Rightarrow> string) \<Rightarrow> ('r, 'py, 'h) RouteTable \<Rightarrow> string \<Rightarrow> string set" where
  "served_methods R decode t path =
     {m. \<not> list_ex is_ascii_lower m \<and>
         (resolve R decode t m path \<noteq> Some None \<or> fast_response t m path \<noteq> None)}"

definition listed_methods ::
    "('r, RouteId, 'e) router_api \<Rightarrow> ('r, 'py, 'h) RouteTable \<Rightarrow> string \<Rightarrow> string set" where
  "listed_methods R t path =
     {m. (\<exists>r. map_of (rt_routers t) m = Some r \<and> mr_at R r path \<noteq> None) \<or>
         (\<exists>ps. map_of (rt_fast_responses t) m = Some ps \<and> map_of ps path \<noteq> None)}"

lemma lookup_None:
  "\<not> list_ex is_ascii_lower m \<Longrightarrow>
     lookup R decode t m path = None \<longleftrightarrow>
       (\<forall>r. map_of (rt_routers t) m = Some r \<longrightarrow> mr_at R r path = None)"
  by (auto simp: lookup_def split: option.splits)

lemma fast_response_None:
  fixes t :: "('r, 'py, 'h) RouteTable"
  shows "fast_response t m path = None \<longleftrightarrow>
     (\<forall>ps. map_of (rt_fast_responses t) m = Some ps \<longrightarrow> map_of ps path = None) \<and>
     (m = ''HEAD'' \<longrightarrow> (\<forall>ps. map_of (rt_fast_responses t) ''GET'' = Some ps \<longrightarrow> map_of ps path = None))"
proof -
  have registered: "Option.bind (map_of (rt_fast_responses t) m) (\<lambda>ps. map_of ps path) = None \<longleftrightarrow>
      (\<forall>ps. map_of (rt_fast_responses t) m = Some ps \<longrightarrow> map_of ps path = None)" for m
    by (cases "map_of (rt_fast_responses t) m") auto
  have or_else: "(case r of Some fr \<Rightarrow> Some fr | None \<Rightarrow> x) = None \<longleftrightarrow> r = None \<and> x = None"
    for r x :: "'h FastResponse option" by (cases r) auto
  show ?thesis by (simp add: fast_response_def Let_def or_else registered)
qed

lemma is_HEAD: "\<not> list_ex is_ascii_lower m \<Longrightarrow> eq_ignore_ascii_case m ''HEAD'' \<longleftrightarrow> m = ''HEAD''"
  using eq_ignore_ascii_case_upper [of m "''HEAD''"] by (auto simp: HEAD_upper to_ascii_uppercase_id)

lemma served_methods_eq:
  assumes R: "route_matcher R vals" and inv: "table_inv vals t"
  shows "served_methods R decode t path =
     (let listed = listed_methods R t path
      in if ''GET'' \<in> listed then insert ''HEAD'' listed else listed)"
proof -
  let ?listed = "listed_methods R t path"
  have upper: "\<not> list_ex is_ascii_lower m" if "m \<in> ?listed" for m
    using that inv by (auto simp: listed_methods_def table_inv_def dest!: map_of_SomeD)
  have plain: "\<not> list_ex is_ascii_lower ''GET''" "\<not> list_ex is_ascii_lower ''HEAD''"
    by (simp_all add: ascii_defs)
  have resolved: "resolve R decode t m path = Some None \<longleftrightarrow>
      lookup R decode t m path = None \<and> (m = ''HEAD'' \<longrightarrow> lookup R decode t ''GET'' path = None)"
    if m: "\<not> list_ex is_ascii_lower m" for m
    by (cases "lookup R decode t m path") (simp_all add: resolve_eq [OF R inv] Let_def is_HEAD [OF m])
  have "m \<in> served_methods R decode t path \<longleftrightarrow> m \<in> ?listed \<or> m = ''HEAD'' \<and> ''GET'' \<in> ?listed"
    if m: "\<not> list_ex is_ascii_lower m" for m
    unfolding served_methods_def mem_Collect_eq resolved [OF m] fast_response_None lookup_None [OF m]
      lookup_None [OF plain(1)] listed_methods_def
    using m by (cases "m = ''HEAD''") (simp_all, blast+)
  moreover have "\<not> list_ex is_ascii_lower m" if "m \<in> served_methods R decode t path" for m
    using that by (simp add: served_methods_def)
  ultimately have "m \<in> served_methods R decode t path \<longleftrightarrow> m \<in> ?listed \<or> m = ''HEAD'' \<and> ''GET'' \<in> ?listed" for m
    using upper plain by blast
  then show ?thesis by (auto simp: Let_def)
qed

lemma allowed_methods_set:
  assumes "table_inv vals t"
  shows "set (map fst (filter (\<lambda>(_, router). mr_at R router path \<noteq> None) (rt_routers t)) @
              map fst (filter (\<lambda>(_, paths). map_of paths path \<noteq> None) (rt_fast_responses t))) = listed_methods R t path"
  using assms by (auto simp: listed_methods_def table_inv_def image_iff split: prod.splits; force)

lemma join_visible:
  "(\<And>x. x \<in> set xs \<Longrightarrow> list_all visible_ascii x) \<Longrightarrow> list_all visible_ascii (join '', '' xs)"
  by (induction xs rule: induct_list012) (simp_all add: visible_ascii_def)


text \<open>
  C12. A route registered for a path without parameters is the one its requests run: the next request
  for that path and method, however the method is spelled, resolves to the new route's id, which names
  the handler just registered, where the registration said it runs, with no parameters.
\<close>

theorem registered_route_resolves:
  assumes R: "route_matcher R vals" and uni: "\<And>s. \<not> list_ex is_ascii_lower (uni s)" and inv: "table_inv vals t"
    and ins: "route_insert R uni t m p h n d = (Ok (), t')" and static: "CHR ''{'' \<notin> set p" "CHR ''}'' \<notin> set p"
    and same: "to_ascii_uppercase method = to_uppercase uni m"
  shows "resolve R decode t' method p = Some (Some (call_of (length (rt_routes t)) d, [])) \<and>
         handler t' (Route (length (rt_routes t))) = Some h"
proof -
  let ?m = "to_uppercase uni m"
  let ?r = "case map_of (rt_routers t) ?m of Some r \<Rightarrow> r | None \<Rightarrow> mr_new R"
  let ?new = "\<lparr>r_handler = h, r_name = n, r_key = \<lparr>rk_method = ?m, rk_path = p\<rparr>, r_dispatch = d\<rparr>"
  from ins obtain r' where r': "mr_insert R ?r p (length (rt_routes t)) = Inr r'"
    and t': "t' = t\<lparr>rt_routers := AList.update ?m r' (rt_routers t), rt_routes := rt_routes t @ [?new]\<rparr>"
    by (auto simp: route_insert_def Let_def split: sum.splits)
  have inv': "table_inv vals t'" using route_insert_inv [of R vals uni t m p h n d, OF R uni inv] ins by simp
  have "mr_at R r' p = Some (length (rt_routes t), [])" by (rule route_matcher.at_static [OF R r' static])
  then have "lookup R decode t' ?m p = Some (length (rt_routes t), [])"
    using to_uppercase_no_lower [where unicode = uni and s = m] uni by (simp add: lookup_def t' update_conv')
  then have "lookup R decode t' method p = Some (length (rt_routes t), [])"
    using same by (subst lookup_method) simp
  then show ?thesis unfolding resolve_eq [OF R inv'] by (simp add: t' route_def)
qed

subsection \<open>Witnesses\<close>

text \<open>A table with a worker route and a pre-built response, over the literal matcher.\<close>

definition demo_regs :: "nat registration list" where
  "demo_regs = [RegRoute ''get'' ''/u'' 7 ''u'' (Worker Sync), RegRoute ''GET'' ''/u'' 8 ''dup'' (Main Buffered),
     RegRoute ''POST'' ''/:id'' 9 ''colon'' (Worker Async)]"

abbreviation demo_table :: "((string \<times> nat) list, nat, (string \<times> string) list) RouteTable" where
  "demo_table \<equiv> fold (register literal_router line_headers (\<lambda>_. [])) demo_regs route_table_new"

lemma get_upper: "to_uppercase (\<lambda>_. []) ''get'' = ''GET''" "to_uppercase (\<lambda>_. []) ''GET'' = ''GET''"
  "to_uppercase (\<lambda>_. []) ''POST'' = ''POST''"
  by (simp_all add: to_uppercase_def ascii_defs char_of_def bit_0)

lemma demo_templates: "template_params ''/u'' = Ok []" "template_params ''/:id'' = Err (ColonParam ''id'')"
  by (simp_all add: template_params_def colon_param_def ascii_defs template_names.simps)

lemma demo_table_eq:
  "demo_table = route_table_new\<lparr>rt_routers := [(''GET'', [(''/u'', 0)])],
     rt_routes := [\<lparr>r_handler = 7, r_name = ''u'', r_key = \<lparr>rk_method = ''GET'', rk_path = ''/u''\<rparr>,
                    r_dispatch = Worker Sync\<rparr>]\<rparr>"
  by (simp add: demo_regs_def route_insert_def get_upper demo_templates literal_router_def route_table_new_def Let_def)

lemma demo_uni: "\<not> list_ex is_ascii_lower ((\<lambda>_. []) s)"
  by simp

lemma demo_inv: "table_inv (\<lambda>r. snd ` set r) demo_table"
  by (rule register_inv [OF literal.route_matcher_axioms demo_uni table_inv_new])

lemma demo_resolve:
  "resolve literal_router (\<lambda>s. s) demo_table ''HEAD'' ''/u'' = Some (Some (CallWorker 0 Sync, []))"
  unfolding demo_table_eq
  by (simp add: resolve_def lookup_def literal_router_def route_def HEAD_upper is_ascii_lower_def)

theorem resolve_finds_route_witness:
  "\<exists>rid r. route demo_table rid = Some r \<and> CallWorker 0 Sync = call_of rid (r_dispatch r) \<and>
     (rk_method (r_key r) = to_ascii_uppercase ''HEAD'' \<or>
      rk_method (r_key r) = ''GET'' \<and> to_ascii_uppercase ''HEAD'' = ''HEAD'' \<and>
      lookup literal_router (\<lambda>s. s) demo_table ''HEAD'' ''/u'' = None)"
  using resolve_finds_route [OF literal.route_matcher_axioms demo_uni refl,
      where H = line_headers and regs = demo_regs and decode = "\<lambda>s. s" and verb = "''HEAD''" and path = "''/u''"]
    demo_resolve by simp

theorem registered_route_resolves_witness:
  "\<exists>t'. route_insert literal_router (\<lambda>_. []) demo_table ''POST'' ''/u'' 5 ''new'' (Main Streamed) = (Ok (), t') \<and>
     resolve literal_router (\<lambda>s. s) t' ''post'' ''/u'' = Some (Some (CallMain (Route 1) Streamed, [])) \<and>
     handler t' (Route 1) = Some 5"
proof -
  have "\<exists>t'. route_insert literal_router (\<lambda>_. []) demo_table ''POST'' ''/u'' 5 ''new'' (Main Streamed) = (Ok (), t')"
    unfolding demo_table_eq
    by (simp add: route_insert_def get_upper demo_templates literal_router_def Let_def)
  then obtain t' where
    ins: "route_insert literal_router (\<lambda>_. []) demo_table ''POST'' ''/u'' 5 ''new'' (Main Streamed) = (Ok (), t')"
    by blast
  have post: "to_ascii_uppercase ''post'' = to_uppercase (\<lambda>_. []) ''POST''"
    by (simp add: get_upper ascii_defs char_of_def bit_0)
  have len: "length (rt_routes demo_table) = 1" unfolding demo_table_eq by simp
  from registered_route_resolves [OF literal.route_matcher_axioms demo_uni demo_inv ins _ _ post, of "\<lambda>s. s"]
  show ?thesis using ins unfolding len by auto
qed


end
