(* ===== verification/Body.thy ===== *)
theory Body
  imports Errors
begin

section \<open>Request bodies (\<open>src/body.rs\<close>, \<open>src/python/body_stream.rs\<close>, admission of \<open>src/handlers/pipeline.rs\<close>)\<close>

text \<open>
  A request body as it is read: buffered whole, or fed to the handler chunk by chunk, within one
  deadline. What hyper's \<open>Incoming\<close> yields is the list of what each wait for a frame ends with: a data
  or trailer frame, a read error, or the deadline passing first; the end of the list is the end of the
  body. A bounded channel is the list of the messages that were sent and not yet received; the function
  \<open>takes\<close> says whether the handler takes the \<open>k\<close>-th message before the deadline.

  A body that is buffered passes a gate after each frame (the trait \<open>BodyGate\<close>). The locale
  \<open>body_gate\<close> states what a gate promises, the collector's guarantee is proved once in it, and both
  implementations, no gate and the pool's admission permit, interpret it.

  The results: which bodies are accepted and with what error the others end; that a body over the
  threshold holds an admission permit whatever length it declared; and that a streamed body read to
  its end is the body a buffered read gives, with the same rejection, never a truncated one.
\<close>

definition REQUEST_BUDGET :: nat where "REQUEST_BUDGET = 30" \<comment> \<open>seconds\<close>

datatype frame = Data string | Trailers

datatype arrival = Frame frame | ReadError string | Elapsed

subsection \<open>Buffered bodies\<close>

datatype BodyBuf = EmptyBuf | One string | Many string

fun buf_len :: "BodyBuf \<Rightarrow> nat" where
  "buf_len EmptyBuf = 0"
| "buf_len (One b) = length b"
| "buf_len (Many b) = length b"

fun buf_push :: "BodyBuf \<Rightarrow> string \<Rightarrow> BodyBuf" where
  "buf_push EmptyBuf data = One data"
| "buf_push (One first) data = Many (first @ data)"
| "buf_push (Many joined) data = Many (joined @ data)"

fun buf_freeze :: "BodyBuf \<Rightarrow> string" where
  "buf_freeze EmptyBuf = []"
| "buf_freeze (One b) = b"
| "buf_freeze (Many b) = b"

text \<open>
  The loop of \<open>collect\<close>. The deadline bounds the whole read, so the wait it passes in is where the read
  ends.
\<close>

type_synonym ('g, 'e) gate = "'g \<Rightarrow> nat \<Rightarrow> (unit, 'e) result \<times> 'g"

fun collect_frames ::
    "('g, 'e) gate \<Rightarrow> (BodyReject \<Rightarrow> 'e) \<Rightarrow> nat \<Rightarrow> 'g \<Rightarrow> BodyBuf \<Rightarrow> arrival list \<Rightarrow>
     (string, 'e) result \<times> 'g" where
  "collect_frames admit from_reject mx g buf [] = (Ok (buf_freeze buf), g)"
| "collect_frames admit from_reject mx g buf (Elapsed # as) = (Err (from_reject TimedOut), g)"
| "collect_frames admit from_reject mx g buf (ReadError e # as) = (Err (from_reject (Read e)), g)"
| "collect_frames admit from_reject mx g buf (Frame Trailers # as) =
     collect_frames admit from_reject mx g buf as"
| "collect_frames admit from_reject mx g buf (Frame (Data d) # as) =
     (if mx < saturating_add (buf_len buf) (length d) then (Err (from_reject TooLarge), g)
      else
        let buf' = buf_push buf d
        in case admit g (buf_len buf') of
             (Inl e, g') \<Rightarrow> (Err e, g')
           | (Inr _, g') \<Rightarrow> collect_frames admit from_reject mx g' buf' as)"

definition collect ::
    "('g, 'e) gate \<Rightarrow> (BodyReject \<Rightarrow> 'e) \<Rightarrow> arrival list \<Rightarrow> nat \<Rightarrow> 'g \<Rightarrow> (string, 'e) result \<times> 'g" where
  "collect admit from_reject body mx g = collect_frames admit from_reject mx g EmptyBuf body"

definition ungated_admit :: "(unit, BodyReject) gate" where
  "ungated_admit g buffered = (Ok (), g)"

definition read_body :: "arrival list \<Rightarrow> nat \<Rightarrow> (string, BodyReject) result" where
  "read_body body mx = fst (collect ungated_admit (\<lambda>r. r) body mx ())"

definition collect_body :: "arrival list \<Rightarrow> nat \<Rightarrow> (string, HandlerError) result" where
  "collect_body body mx = map_err BodyRejected (read_body body mx)"

subsection \<open>The pool's admission\<close>

record 's Admission =
  adm_semaphore :: 's
  adm_skip_bytes :: nat
  adm_permit :: bool \<comment> \<open>whether a permit is held\<close>
  adm_dropped :: u64 \<comment> \<open>the process's \<open>DROPPED_REQUESTS\<close>\<close>

definition overloaded_error :: "u64 \<Rightarrow> HandlerError \<times> u64" where
  "overloaded_error dropped = refuse dropped (Overloaded ''admission permits'')"

definition admission_admit :: "'s sem_api \<Rightarrow> ('s Admission, HandlerError) gate" where
  "admission_admit S a buffered =
     (if \<not> adm_permit a \<and> adm_skip_bytes a < buffered then
        (case sem_try_acquire S (adm_semaphore a) 1 of
           None \<Rightarrow> (let (e, dropped) = overloaded_error (adm_dropped a) in (Err e, a\<lparr>adm_dropped := dropped\<rparr>))
         | Some sem \<Rightarrow> (Ok (), a\<lparr>adm_semaphore := sem, adm_permit := True\<rparr>))
      else (Ok (), a))"

record Admitted =
  ad_body :: string
  ad_permit :: bool

definition collect_body_with_admission ::
    "'s sem_api \<Rightarrow> arrival list \<Rightarrow> nat \<Rightarrow> 's Admission \<Rightarrow> (Admitted, HandlerError) result \<times> 's Admission" where
  "collect_body_with_admission S body mx admission =
     (let (r, a) = collect (admission_admit S) BodyRejected body mx admission
      in (map_ok (\<lambda>b. \<lparr>ad_body = b, ad_permit = adm_permit a\<rparr>) r, a))"

subsection \<open>Streamed bodies\<close>

definition CHANNEL_CAPACITY :: nat where "CHANNEL_CAPACITY = 8"

datatype ChunkMsg = ChunkData string | ChunkErr BodyReject | Eof

type_synonym BodyReceiver = "ChunkMsg list"

datatype StreamSlot = SlotBuffered | SlotStreamed "BodyReceiver option"

datatype StreamTaken = StreamTaken

definition slot_streamed :: "BodyReceiver \<Rightarrow> StreamSlot" where
  "slot_streamed rx = SlotStreamed (Some rx)"

fun slot_take :: "StreamSlot \<Rightarrow> (BodyReceiver option, StreamTaken) result \<times> StreamSlot" where
  "slot_take SlotBuffered = (Ok None, SlotBuffered)"
| "slot_take (SlotStreamed slot) = (map_ok Some (ok_or StreamTaken slot), SlotStreamed None)"

datatype Fed = Complete | Rejected BodyReject

datatype HandlerGone = HandlerGone

text \<open>\<open>hand\<close>, for the \<open>k\<close>-th message: what was sent so far is extended, or the handler is gone.\<close>

definition hand :: "(nat \<Rightarrow> bool) \<Rightarrow> ChunkMsg list \<Rightarrow> ChunkMsg \<Rightarrow> (ChunkMsg list, HandlerGone) result" where
  "hand takes sent msg = (if takes (length sent) then Ok (sent @ [msg]) else Err HandlerGone)"

text \<open>The loop of \<open>feed\<close>: how it ended, and what was sent.\<close>

fun feed ::
    "(nat \<Rightarrow> bool) \<Rightarrow> nat \<Rightarrow> nat \<Rightarrow> ChunkMsg list \<Rightarrow> arrival list \<Rightarrow> (Fed, HandlerGone) result \<times> ChunkMsg list" where
  "feed takes max_size count sent [] = (Ok Complete, sent)"
| "feed takes max_size count sent (ReadError e # as) = (Ok (Rejected (Read e)), sent)"
| "feed takes max_size count sent (Elapsed # as) = (Ok (Rejected TimedOut), sent)"
| "feed takes max_size count sent (Frame Trailers # as) = feed takes max_size count sent as"
| "feed takes max_size count sent (Frame (Data chunk) # as) =
     (let count' = saturating_add count (length chunk)
      in if max_size < count' then (Ok (Rejected TooLarge), sent)
         else case hand takes sent (ChunkData chunk) of
                Inl gone \<Rightarrow> (Err gone, sent)
              | Inr sent' \<Rightarrow> feed takes max_size count' sent' as)"

text \<open>What the handler's receiver gets before the channel closes.\<close>

definition stream_body_feeder :: "(nat \<Rightarrow> bool) \<Rightarrow> arrival list \<Rightarrow> nat \<Rightarrow> BodyReceiver" where
  "stream_body_feeder takes body max_size =
     (case feed takes max_size 0 [] body of
        (Inl HandlerGone, sent) \<Rightarrow> sent
      | (Inr fed, sent) \<Rightarrow>
          (let last = (case fed of Complete \<Rightarrow> Eof | Rejected reject \<Rightarrow> ChunkErr reject)
           in case hand takes sent last of Inr sent' \<Rightarrow> sent' | Inl _ \<Rightarrow> sent))"

subsection \<open>Reading a streamed body\<close>

datatype StreamFailure = FailRejected BodyReject | CutOff

datatype StreamState = Open BodyReceiver | Finished | Failed StreamFailure

datatype Received = Chunk string | End | RecvFailed StreamFailure

fun received_of :: "ChunkMsg option \<Rightarrow> Received" where
  "received_of (Some (ChunkData chunk)) = Chunk chunk"
| "received_of (Some Eof) = End"
| "received_of (Some (ChunkErr reject)) = RecvFailed (FailRejected reject)"
| "received_of None = RecvFailed CutOff"

fun recv :: "BodyReceiver \<Rightarrow> ChunkMsg option \<times> BodyReceiver" where
  "recv [] = (None, [])"
| "recv (m # ms) = (Some m, ms)"

text \<open>What \<open>__next__\<close> returns or raises.\<close>

datatype next_outcome = NextChunk string | StopIteration | NextRaises StreamFailure

fun stream_next :: "StreamState \<Rightarrow> next_outcome \<times> StreamState" where
  "stream_next Finished = (StopIteration, Finished)"
| "stream_next (Failed failure) = (NextRaises failure, Failed failure)"
| "stream_next (Open rx) =
     (let (msg, rx') = recv rx
      in case received_of msg of
           Chunk chunk \<Rightarrow> (NextChunk chunk, Open rx')
         | End \<Rightarrow> (StopIteration, Finished)
         | RecvFailed failure \<Rightarrow> (NextRaises failure, Failed failure))"

fun state_left :: "StreamState \<Rightarrow> nat" where
  "state_left (Open rx) = length rx"
| "state_left _ = 0"

lemma stream_next_left: "stream_next s = (NextChunk c, s') \<Longrightarrow> state_left s' < state_left s"
proof (cases s)
  case (Open rx)
  assume "stream_next s = (NextChunk c, s')"
  with Open show ?thesis by (cases rx; cases "hd rx") auto
qed auto

text \<open>The loop of \<open>read\<close>; each round takes a message.\<close>

function stream_read ::
    "nat option \<Rightarrow> string \<Rightarrow> StreamState \<Rightarrow> (string, StreamFailure) result \<times> StreamState" where
  "stream_read n buf s =
     (if (case n of Some limit \<Rightarrow> limit \<le> length buf | None \<Rightarrow> False) then (Ok buf, s)
      else case stream_next s of
             (NextChunk chunk, s') \<Rightarrow> stream_read n (buf @ chunk) s'
           | (StopIteration, s') \<Rightarrow> (Ok buf, s')
           | (NextRaises failure, s') \<Rightarrow> (Err failure, s'))"
  by pat_completeness auto
termination
proof (relation "measure (\<lambda>(_, _, s). state_left s)", goal_cases)
  case (2 n buf s x s' chunk)
  then show ?case using stream_next_left [of s chunk s'] by simp
qed simp

declare stream_read.simps [simp del]

datatype drain_error = DrainFailed StreamFailure | DrainFinished

fun drain :: "u64 \<Rightarrow> BodyReceiver \<Rightarrow> (u64, StreamFailure) result" where
  "drain count [] = Err CutOff"
| "drain count (ChunkData chunk # ms) = drain (count + of_nat (length chunk)) ms"
| "drain count (Eof # ms) = Ok count"
| "drain count (ChunkErr reject # ms) = Err (FailRejected reject)"

fun drain_count :: "StreamState \<Rightarrow> (u64, drain_error) result \<times> StreamState" where
  "drain_count Finished = (Err DrainFinished, Finished)"
| "drain_count (Failed failure) = (Err (DrainFailed failure), Failed failure)"
| "drain_count (Open rx) =
     (case drain 0 rx of
        Inr count \<Rightarrow> (Ok count, Finished)
      | Inl failure \<Rightarrow> (Err (DrainFailed failure), Failed failure))"

text \<open>
  The exception a failed read raises, as the dispatcher sees it: \<open>BodyRejected\<close> carries its rejection,
  the cut-off is a plain \<open>OSError\<close>. The captured exception itself is the interpreter's.
\<close>

fun stream_failure_err :: "PyException \<Rightarrow> StreamFailure \<Rightarrow> PyErr" where
  "stream_failure_err x (FailRejected reject) = \<lparr>py_exception = x, py_rejection = Some reject\<rparr>"
| "stream_failure_err x CutOff = \<lparr>py_exception = x, py_rejection = None\<rparr>"

subsection \<open>What is read\<close>

text \<open>The bytes of a run of frames.\<close>

fun body_data :: "arrival list \<Rightarrow> string" where
  "body_data [] = []"
| "body_data (Frame (Data d) # as) = d @ body_data as"
| "body_data (_ # as) = body_data as"

fun is_frame :: "arrival \<Rightarrow> bool" where
  "is_frame (Frame _) = True"
| "is_frame _ = False"

text \<open>
  How a read ends: the first wait that ends it, if any, after frames that fit; \<open>None\<close> is the end of
  the body.
\<close>

definition ends_with :: "nat \<Rightarrow> arrival list \<Rightarrow> BodyReject \<Rightarrow> bool" where
  "ends_with mx body r \<longleftrightarrow>
     (\<exists>pre a post. body = pre @ a # post \<and> list_all is_frame pre \<and> length (body_data pre) \<le> mx \<and>
        (case a of
           Elapsed \<Rightarrow> r = TimedOut
         | ReadError e \<Rightarrow> r = Read e
         | Frame Trailers \<Rightarrow> False
         | Frame (Data d) \<Rightarrow> r = TooLarge \<and> mx < length (body_data pre) + length d))"

definition completes :: "nat \<Rightarrow> arrival list \<Rightarrow> string \<Rightarrow> bool" where
  "completes mx body b \<longleftrightarrow> list_all is_frame body \<and> b = body_data body \<and> length b \<le> mx"

lemma body_data_append: "body_data (xs @ ys) = body_data xs @ body_data ys"
  by (induction xs rule: body_data.induct) auto

lemma buf_push_freeze [simp]: "buf_freeze (buf_push buf d) = buf_freeze buf @ d"
  by (cases buf) auto

lemma buf_len_freeze [simp]: "buf_len buf = length (buf_freeze buf)"
  by (cases buf) auto

lemma saturating_over: "mx < USIZE_MAX \<Longrightarrow> mx < saturating_add a b \<longleftrightarrow> mx < a + b"
  by (auto simp: saturating_add_def)

text \<open>Reading on from a prefix that fits.\<close>

lemma ends_with_Cons:
  assumes "list_all is_frame pre" and "length (body_data pre) \<le> mx"
  shows "ends_with mx (pre @ Elapsed # as) TimedOut" "ends_with mx (pre @ ReadError e # as) (Read e)"
    "mx < length (body_data pre) + length d \<Longrightarrow> ends_with mx (pre @ Frame (Data d) # as) TooLarge"
proof -
  have I: "ends_with mx (pre @ a # as) r"
    if "case a of Elapsed \<Rightarrow> r = TimedOut | ReadError e \<Rightarrow> r = Read e | Frame Trailers \<Rightarrow> False
        | Frame (Data d) \<Rightarrow> r = TooLarge \<and> mx < length (body_data pre) + length d" for a r
    using that assms unfolding ends_with_def by blast
  show "ends_with mx (pre @ Elapsed # as) TimedOut" "ends_with mx (pre @ ReadError e # as) (Read e)"
    "mx < length (body_data pre) + length d \<Longrightarrow> ends_with mx (pre @ Frame (Data d) # as) TooLarge"
    by (rule I; simp)+
qed

text \<open>What collecting a body through a gate must give: the body, covered, or the error that is due.\<close>

definition gate_outcome ::
    "('g, 'e) gate \<Rightarrow> (BodyReject \<Rightarrow> 'e) \<Rightarrow> ('g \<Rightarrow> nat \<Rightarrow> bool) \<Rightarrow> nat \<Rightarrow> arrival list \<Rightarrow>
     (string, 'e) result \<times> 'g \<Rightarrow> bool" where
  "gate_outcome admit from_reject covered mx body out \<longleftrightarrow>
     (case fst out of
        Inr b \<Rightarrow> completes mx body b \<and> covered (snd out) (length b)
      | Inl e \<Rightarrow> (\<exists>r. e = from_reject r \<and> ends_with mx body r) \<or>
                 (\<exists>h n. admit h n = (Err e, snd out) \<and> n \<le> mx))"

lemma gate_outcome_simps [simp]:
  "gate_outcome admit from_reject covered mx body (Inr b, g) \<longleftrightarrow> completes mx body b \<and> covered g (length b)"
  "gate_outcome admit from_reject covered mx body (Inl e, g) \<longleftrightarrow>
     (\<exists>r. e = from_reject r \<and> ends_with mx body r) \<or> (\<exists>h n. admit h n = (Err e, g) \<and> n \<le> mx)"
  by (simp_all add: gate_outcome_def)

text \<open>
  A gate: \<open>covered g n\<close> is what it grants a body of \<open>n\<close> bytes. It grants an empty body from the start,
  and an admission covers the bytes it was asked about. Its refusals are not body rejections.
\<close>

locale body_gate =
  fixes admit :: "('g, 'e) gate"
    and from_reject :: "BodyReject \<Rightarrow> 'e"
    and covered :: "'g \<Rightarrow> nat \<Rightarrow> bool"
  assumes covered_empty: "covered g 0"
    and admit_covers: "admit g n = (Ok u, g') \<Longrightarrow> covered g' n"
    and refusal_is_own: "admit g n = (Err e, g') \<Longrightarrow> e \<noteq> from_reject r"
begin

lemma collect_frames_outcome:
  assumes "mx < USIZE_MAX" and "list_all is_frame pre" and "buf_freeze buf = body_data pre"
    and "length (body_data pre) \<le> mx" and "covered g (length (body_data pre))"
  shows "gate_outcome admit from_reject covered mx (pre @ as) (collect_frames admit from_reject mx g buf as)"
  using assms(2-)
proof (induction as arbitrary: pre g buf)
  case Nil
  then show ?case by (simp add: completes_def)
next
  case (Cons a as)
  show ?case
  proof (cases a)
    case (Frame f)
    show ?thesis
    proof (cases f)
      case Trailers
      with Frame Cons.IH [of "pre @ [a]"] Cons.prems show ?thesis by (simp add: body_data_append)
    next
      case (Data d)
      note over = saturating_over [OF assms(1), of "length (body_data pre)" "length d"]
      show ?thesis
      proof (cases "mx < length (body_data pre) + length d")
        case True
        then show ?thesis
          using Frame Data Cons.prems over ends_with_Cons(3) [of pre mx d as] by auto
      next
        case False
        let ?n = "length (body_data pre) + length d"
        obtain r g' where adm: "admit g ?n = (r, g')" by force
        show ?thesis
        proof (cases "Some r" rule: option_result_cases)
          case (Err e)
          with False Frame Data Cons.prems over adm show ?thesis by fastforce
        next
          case (Ok u)
          with admit_covers adm have "covered g' ?n" by blast
          with Cons.IH [of "pre @ [a]" "buf_push buf d" g'] False Ok Frame Data Cons.prems over adm
          show ?thesis by (simp add: body_data_append)
        qed simp
      qed
    qed
  qed (use Cons.prems ends_with_Cons(1,2) [of pre mx] in auto)
qed

text \<open>What every admission keeps, the whole read keeps, up to a refusal that ends it.\<close>

lemma collect_frames_keeps:
  assumes "\<And>g n u g'. P g \<Longrightarrow> admit g n = (Ok u, g') \<Longrightarrow> P g'" and "P g"
    and "collect_frames admit from_reject mx g buf as = (r, g')"
  shows "P g' \<and> ((\<exists>b. r = Ok b) \<or> (\<exists>x. r = Err (from_reject x))) \<or>
         (\<exists>h n e. P h \<and> r = Err e \<and> admit h n = (Err e, g'))"
  using assms(2,3)
proof (induction as arbitrary: g buf)
  case (Cons a as)
  show ?case
  proof (cases a)
    case (Frame f)
    show ?thesis
    proof (cases f)
      case (Data d)
      obtain x h where x: "admit g (length (buf_freeze buf) + length d) = (x, h)" by force
      show ?thesis
      proof (cases "Some x" rule: option_result_cases)
        case (Err e)
        with Frame Data Cons.prems x show ?thesis by (auto split: if_splits)
      next
        case (Ok u)
        with x have "P h" using assms(1) Cons.prems(1) by blast
        with Frame Data Cons x Ok show ?thesis by (auto split: if_splits)
      qed simp
    qed (use Frame Cons in simp)
  qed (use Cons.prems in auto)
qed auto

lemma collect_outcome:
  assumes "mx < USIZE_MAX"
  shows "gate_outcome admit from_reject covered mx body (collect admit from_reject body mx g)"
  using collect_frames_outcome [OF assms, of "[]" EmptyBuf g body] covered_empty
  by (simp add: collect_def)

end

interpretation ungated: body_gate ungated_admit "\<lambda>r. r" "\<lambda>_ _. True"
  by unfold_locales (auto simp: ungated_admit_def)

definition admission_covers :: "'s Admission \<Rightarrow> nat \<Rightarrow> bool" where
  "admission_covers a n \<longleftrightarrow> n \<le> adm_skip_bytes a \<or> adm_permit a"

interpretation admission: body_gate "admission_admit S" BodyRejected admission_covers for S
  by unfold_locales
     (auto simp: admission_admit_def admission_covers_def overloaded_error_def refuse_def Let_def
       split: if_splits option.splits)

lemma ends_not_completes: "completes mx body b \<Longrightarrow> \<not> ends_with mx body r"
  by (auto simp: completes_def ends_with_def body_data_append split: arrival.splits frame.splits)

lemma ends_with_earlier:
  assumes "pre @ a # post = pre' @ a' # post'" and "length pre < length pre'"
    and "list_all is_frame pre'" and "length (body_data pre') \<le> mx"
    and "case a of Elapsed \<Rightarrow> r = TimedOut | ReadError e \<Rightarrow> r = Read e | Frame Trailers \<Rightarrow> False
         | Frame (Data d) \<Rightarrow> r = TooLarge \<and> mx < length (body_data pre) + length d"
  shows False
proof -
  from assms(1,2) obtain mid where "pre' = pre @ a # mid"
    by (auto simp: append_eq_append_conv2 Cons_eq_append_conv)
  with assms(3-5) show False
    by (auto simp: body_data_append split: arrival.splits frame.splits)
qed

lemma ends_with_unique:
  assumes "ends_with mx body r" and "ends_with mx body r'"
  shows "r = r'"
proof -
  from assms obtain pre a post pre' a' post' where
    e: "body = pre @ a # post" "list_all is_frame pre" "length (body_data pre) \<le> mx"
      "case a of Elapsed \<Rightarrow> r = TimedOut | ReadError e \<Rightarrow> r = Read e | Frame Trailers \<Rightarrow> False
       | Frame (Data d) \<Rightarrow> r = TooLarge \<and> mx < length (body_data pre) + length d" and
    e': "body = pre' @ a' # post'" "list_all is_frame pre'" "length (body_data pre') \<le> mx"
      "case a' of Elapsed \<Rightarrow> r' = TimedOut | ReadError e \<Rightarrow> r' = Read e | Frame Trailers \<Rightarrow> False
       | Frame (Data d) \<Rightarrow> r' = TooLarge \<and> mx < length (body_data pre') + length d"
    unfolding ends_with_def by blast
  then have "length pre = length pre'"
    using ends_with_earlier [OF _ _ e'(2,3) e(4)] ends_with_earlier [OF _ _ e(2,3) e'(4)]
    by (metis linorder_neqE_nat)
  with e e' have "a = a'" by simp
  with e(4) e'(4) show ?thesis by (auto split: arrival.splits frame.splits)
qed

lemma read_body_iff:
  assumes "mx < USIZE_MAX"
  shows "read_body body mx = Ok b \<longleftrightarrow> completes mx body b" "read_body body mx = Err r \<longleftrightarrow> ends_with mx body r"
proof -
  have "gate_outcome ungated_admit (\<lambda>r. r) (\<lambda>_ _. True) mx body (collect ungated_admit (\<lambda>r. r) body mx ())"
    by (rule ungated.collect_outcome [OF assms])
  then have out: "case read_body body mx of Inr b \<Rightarrow> completes mx body b | Inl r \<Rightarrow> ends_with mx body r"
    by (auto simp: gate_outcome_def read_body_def ungated_admit_def split: sum.splits)
  then show "read_body body mx = Ok b \<longleftrightarrow> completes mx body b"
    using ends_not_completes by (auto simp: completes_def split: sum.splits)
  from out show "read_body body mx = Err r \<longleftrightarrow> ends_with mx body r"
    using ends_not_completes ends_with_unique by (fastforce split: sum.splits)
qed

text \<open>
  A buffered body is accepted exactly when every wait ends with a frame and the bytes of the data
  frames, in order, fit the limit; they are then the body. It is rejected exactly as the first thing
  that goes wrong says: too large at the frame that does not fit, timed out, or a failed read.
\<close>

theorem read_body_outcome:
  assumes "mx < USIZE_MAX"
  shows "(read_body body mx = Ok b \<longleftrightarrow>
            list_all is_frame body \<and> b = body_data body \<and> length (body_data body) \<le> mx) \<and>
         (read_body body mx = Err r \<longleftrightarrow> ends_with mx body r)"
  using read_body_iff [OF assms] by (auto simp: completes_def)

theorem read_body_outcome_witness:
  "read_body [Frame (Data ''ab''), Frame Trailers, Frame (Data ''c'')] 3 = Ok ''abc'' \<and>
   ends_with 3 [Frame (Data ''ab''), Frame (Data ''cd''), Elapsed] TooLarge"
  using read_body_outcome [of 3 "[Frame (Data ''ab''), Frame Trailers, Frame (Data ''c'')]" "''abc''" TimedOut]
    read_body_outcome [of 3 "[Frame (Data ''ab''), Frame (Data ''cd''), Elapsed]" "[]" TooLarge]
  by (simp add: USIZE_MAX_def read_body_def collect_def saturating_add_def ungated_admit_def)

subsection \<open>Admission\<close>

definition held_permits :: "'s sem_api \<Rightarrow> 's Admission \<Rightarrow> nat" where
  "held_permits S a = sem_available S (adm_semaphore a) + (if adm_permit a then 1 else 0)"

lemma admission_admit_keeps:
  assumes "semaphore S" and "admission_admit S a n = (r, a')"
  shows "adm_skip_bytes a' = adm_skip_bytes a \<and> held_permits S a' = held_permits S a \<and>
     (case r of Inr _ \<Rightarrow> adm_dropped a' = adm_dropped a
      | Inl e \<Rightarrow> e = Refused (Overloaded ''admission permits'') \<and> adm_dropped a' = adm_dropped a + 1 \<and>
          \<not> adm_permit a' \<and> sem_available S (adm_semaphore a') = 0)"
  using assms semaphore.try_acquire_None [OF assms(1), of "adm_semaphore a" 1]
    semaphore.try_acquire_Some [OF assms(1), of "adm_semaphore a" 1]
  by (auto simp: admission_admit_def held_permits_def overloaded_error_def refuse_def Let_def
      split: if_splits option.splits)

lemma admission_outcome:
  assumes S: "semaphore S" and mx: "mx < USIZE_MAX"
    and c: "collect_body_with_admission S body mx a = (out, a')"
  shows "held_permits S a' = held_permits S a \<and>
     (case out of
        Inr ad \<Rightarrow> read_body body mx = Ok (ad_body ad) \<and> ad_permit ad = adm_permit a' \<and>
          (adm_skip_bytes a < length (ad_body ad) \<longrightarrow> ad_permit ad) \<and> adm_dropped a' = adm_dropped a
      | Inl e \<Rightarrow> (\<exists>r. e = BodyRejected r \<and> read_body body mx = Err r \<and> adm_dropped a' = adm_dropped a) \<or>
          e = Refused (Overloaded ''admission permits'') \<and> adm_dropped a' = adm_dropped a + 1 \<and>
          sem_available S (adm_semaphore a') = 0)"
proof -
  obtain r where r: "collect (admission_admit S) BodyRejected body mx a = (r, a')"
    and out: "out = map_ok (\<lambda>b. \<lparr>ad_body = b, ad_permit = adm_permit a'\<rparr>) r"
    using c by (auto simp: collect_body_with_admission_def Let_def split: prod.splits)
  let ?P = "\<lambda>h. adm_skip_bytes h = adm_skip_bytes a \<and> held_permits S h = held_permits S a \<and> adm_dropped h = adm_dropped a"
  note keeps = admission_admit_keeps [OF S]
  have kept: "?P a' \<and> ((\<exists>b. r = Ok b) \<or> (\<exists>x. r = Err (BodyRejected x))) \<or>
      (\<exists>h n e. ?P h \<and> r = Err e \<and> admission_admit S h n = (Err e, a'))"
    by (rule admission.collect_frames_keeps [OF _ _ r [unfolded collect_def]])
       (use keeps in \<open>fastforce split: sum.splits\<close>)+
  have o: "gate_outcome (admission_admit S) BodyRejected admission_covers mx body (r, a')"
    using admission.collect_outcome [OF mx, of S body a] r by simp
  from kept show ?thesis
  proof (elim disjE conjE exE)
    fix h n e
    assume "adm_skip_bytes h = adm_skip_bytes a" "held_permits S h = held_permits S a" "adm_dropped h = adm_dropped a"
      "r = Err e" and adm: "admission_admit S h n = (Err e, a')"
    with keeps [OF adm] out show ?thesis by auto
  next
    fix b
    assume "adm_skip_bytes a' = adm_skip_bytes a" "held_permits S a' = held_permits S a" "adm_dropped a' = adm_dropped a"
      "r = Ok b"
    with o out show ?thesis by (auto simp: admission_covers_def read_body_iff [OF mx])
  next
    fix x
    assume P: "adm_skip_bytes a' = adm_skip_bytes a" "held_permits S a' = held_permits S a" "adm_dropped a' = adm_dropped a"
      and x: "r = Err (BodyRejected x)"
    have "admission_admit S h n \<noteq> (Err (BodyRejected x), a')" for h n using keeps by fastforce
    with o x have "ends_with mx body x" by simp
    with P x out show ?thesis by (simp add: read_body_iff [OF mx])
  qed
qed

text \<open>
  C7. Collecting a body through the pool's admission gate conserves the permits. An accepted body is
  the one a plain read gives, and past the threshold it holds a permit, whatever length its headers
  declared. A rejected one is rejected as a plain read would be, or refused as overloaded, counted
  once, and then no permit was free.
\<close>

theorem admission_holds_permit:
  assumes S: "semaphore S" and mx: "mx < USIZE_MAX"
    and c: "collect_body_with_admission S body mx a = (out, a')"
  shows "held_permits S a' = held_permits S a \<and>
     (case out of
        Inr ad \<Rightarrow> read_body body mx = Ok (ad_body ad) \<and> ad_permit ad = adm_permit a' \<and>
          (adm_skip_bytes a < length (ad_body ad) \<longrightarrow> ad_permit ad) \<and> adm_dropped a' = adm_dropped a
      | Inl e \<Rightarrow> (\<exists>r. e = BodyRejected r \<and> read_body body mx = Err r \<and> adm_dropped a' = adm_dropped a) \<or>
          e = Refused (Overloaded ''admission permits'') \<and> adm_dropped a' = adm_dropped a + 1 \<and>
          sem_available S (adm_semaphore a') = 0)"
  using admission_outcome [OF S mx c] .

theorem admission_holds_permit_witness:
  "\<exists>out a'. collect_body_with_admission nat_sem [Frame (Data ''abc'')] 10
       \<lparr>adm_semaphore = 1, adm_skip_bytes = 2, adm_permit = False, adm_dropped = 0\<rparr> = (Ok out, a') \<and>
     ad_body out = ''abc'' \<and> ad_permit out \<and> held_permits nat_sem a' = 1"
proof -
  let ?a = "\<lparr>adm_semaphore = 1, adm_skip_bytes = 2, adm_permit = False, adm_dropped = 0\<rparr>"
  let ?out = "\<lparr>ad_body = ''abc'', ad_permit = True\<rparr>"
  let ?a' = "?a\<lparr>adm_semaphore := 0, adm_permit := True\<rparr>"
  have c: "collect_body_with_admission nat_sem [Frame (Data ''abc'')] 10 ?a = (Ok ?out, ?a')"
    by (simp add: collect_body_with_admission_def collect_def saturating_add_def USIZE_MAX_def
        admission_admit_def nat_sem_def)
  have "held_permits nat_sem ?a' = held_permits nat_sem ?a"
    using admission_holds_permit [OF free.semaphore_axioms _ c] by (simp add: USIZE_MAX_def)
  with c show ?thesis by (simp add: held_permits_def nat_sem_def)
qed

subsection \<open>A streamed body is the buffered one\<close>

fun fed_agrees :: "(nat \<Rightarrow> bool) \<Rightarrow> (Fed, HandlerGone) result \<Rightarrow> (string, BodyReject) result \<Rightarrow> string \<Rightarrow> bool" where
  "fed_agrees takes (Inl _) read b = (\<exists>k. \<not> takes k)"
| "fed_agrees takes (Inr Complete) read b = (read = Ok b)"
| "fed_agrees takes (Inr (Rejected r)) read b = (read = Err r)"

text \<open>What the feeder sends, against what a buffered read of the rest gives.\<close>

lemma feed_outcome:
  assumes "feed takes mx (length (buf_freeze buf)) sent as = (fed, sent')" and "mx < USIZE_MAX"
    and "length (buf_freeze buf) \<le> mx"
  shows "\<exists>chunks. sent' = sent @ map ChunkData chunks \<and>
     fed_agrees takes fed (fst (collect_frames ungated_admit (\<lambda>r. r) mx () buf as)) (buf_freeze buf @ concat chunks)"
  using assms(1,3)
proof (induction as arbitrary: buf sent)
  case (Cons a as)
  show ?case
  proof (cases a)
    case (Frame f)
    show ?thesis
    proof (cases f)
      case (Data d)
      let ?n = "length (buf_freeze buf) + length d"
      note over = saturating_over [OF assms(2), of "length (buf_freeze buf)" "length d"]
      show ?thesis
      proof (cases "mx < ?n")
        case True
        with Frame Data Cons.prems over show ?thesis by auto
      next
        case False
        then have sat: "saturating_add (length (buf_freeze buf)) (length d) = length (buf_freeze (buf_push buf d))"
          using assms(2) by (simp add: saturating_add_def)
        show ?thesis
        proof (cases "takes (length sent)")
          case taken: True
          with Cons.prems Frame Data False over sat
          have "feed takes mx (length (buf_freeze (buf_push buf d))) (sent @ [ChunkData d]) as = (fed, sent')"
            by (simp add: hand_def Let_def)
          from Cons.IH [OF this] False obtain chunks where
            c: "sent' = (sent @ [ChunkData d]) @ map ChunkData chunks"
            and r: "fed_agrees takes fed (fst (collect_frames ungated_admit (\<lambda>r. r) mx () (buf_push buf d) as))
                (buf_freeze (buf_push buf d) @ concat chunks)" by auto
          have step: "collect_frames ungated_admit (\<lambda>r. r) mx () buf (a # as)
              = collect_frames ungated_admit (\<lambda>r. r) mx () (buf_push buf d) as"
            using Frame Data False over by (simp add: ungated_admit_def Let_def)
          show ?thesis
            unfolding step using c r by (intro exI [of _ "d # chunks"]) simp
        next
          case gone: False
          with Cons.prems Frame Data False over show ?thesis
            by (intro exI [of _ "[]"]) (auto simp: hand_def Let_def)
        qed
      qed
    next
      case Trailers
      with Frame Cons show ?thesis by simp
    qed
  qed (use Cons.prems in auto)
qed auto

lemma stream_read_chunks:
  "stream_read None buf (Open (map ChunkData chunks @ ms)) = stream_read None (buf @ concat chunks) (Open ms)"
  by (induction chunks arbitrary: buf) (simp_all add: stream_read.simps [of None _ "Open (_ # _)"])

lemma stream_read_last [simp]:
  "stream_read None buf (Open [Eof]) = (Ok buf, Finished)"
  "stream_read None buf (Open [ChunkErr r]) = (Err (FailRejected r), Failed (FailRejected r))"
  "stream_read None buf (Open []) = (Err CutOff, Failed CutOff)"
  by (simp_all add: stream_read.simps)

text \<open>
  C6. A handler that reads a streamed body to its end gets what a buffered handler would: the same
  bytes, or an error that, left uncaught, is the same rejection and so the same answer. The only other
  outcome is the cut-off error, and only when the handler did not take a message in time: a truncated
  body is never returned as a whole one.
\<close>

theorem streamed_reads_as_buffered:
  assumes "mx < USIZE_MAX"
  defines "whole \<equiv> \<lambda>takes body. fst (stream_read None [] (Open (stream_body_feeder takes body mx)))"
  shows "map_err (\<lambda>f. handler_error_python stage (stream_failure_err x f)) (whole takes body)
           = collect_body body mx \<or>
         whole takes body = Err CutOff \<and> (\<exists>k. \<not> takes k)"
proof -
  obtain fed sent where f: "feed takes mx 0 [] body = (fed, sent)" by force
  with feed_outcome [of takes mx EmptyBuf "[]" body fed sent] assms(1) obtain chunks where
    sent: "sent = map ChunkData chunks" and fed: "fed_agrees takes fed (read_body body mx) (concat chunks)"
    by (auto simp: read_body_def collect_def)
  note read_all = stream_read_chunks [of "[]" chunks, simplified]
  have cut: "fst (stream_read None [] (Open (map ChunkData chunks))) = Err CutOff"
    using read_all [of "[]"] by simp
  show ?thesis
  proof (cases "Some fed" rule: option_result_cases)
    case (Err gone)
    with f fed cut sent show ?thesis by (cases gone) (simp add: whole_def stream_body_feeder_def)
  next
    case (Ok v)
    with f fed cut sent show ?thesis
      by (cases v; cases "takes (length chunks)")
         (auto simp: whole_def stream_body_feeder_def hand_def read_all collect_body_def handler_error_python_def)
  qed simp
qed

theorem streamed_reads_as_buffered_witness:
  "map_err (\<lambda>f. handler_error_python Handler (stream_failure_err \<lparr>pe_type_name = ''OSError'', pe_message = [], pe_traceback = []\<rparr> f))
     (fst (stream_read None [] (Open (stream_body_feeder (\<lambda>_. True) [Frame (Data ''ab''), Frame (Data ''cd'')] 3))))
   = Err (BodyRejected TooLarge)"
proof -
  have "collect_body [Frame (Data ''ab''), Frame (Data ''cd'')] 3 = Err (BodyRejected TooLarge)"
    by (simp add: collect_body_def read_body_def collect_def saturating_add_def USIZE_MAX_def ungated_admit_def)
  then show ?thesis
    using streamed_reads_as_buffered [of 3 Handler "\<lparr>pe_type_name = ''OSError'', pe_message = [], pe_traceback = []\<rparr>" "\<lambda>_. True" "[Frame (Data ''ab''), Frame (Data ''cd'')]"]
    by (simp add: USIZE_MAX_def)
qed

text \<open>A stream that ended stays ended, and one that failed raises the same error on every later read.\<close>

lemma stream_next_final:
  assumes "stream_next s = (out, s')" and "\<nexists>c. out = NextChunk c"
  shows "stream_next s' = (out, s') \<and> snd (drain_count s') = s' \<and>
         stream_read None buf s' = (case out of NextRaises f \<Rightarrow> Err f | _ \<Rightarrow> Ok buf, s')"
proof (cases s)
  case (Open rx)
  with assms show ?thesis by (cases rx; cases "hd rx") (auto simp: stream_read.simps)
qed (use assms in \<open>auto simp: stream_read.simps\<close>)

end
