(* ===== verification/Request.thy ===== *)
theory Request
  imports Router Body
begin

section \<open>Requests (\<open>src/request_head.rs\<close>, \<open>src/types/request.rs\<close>)\<close>

text \<open>
  What a handler receives. The head moves out of hyper's request; the query string is parsed on first
  access and cached, once as a map of first values and once as a map of all values. The parser (crate
  \<open>form_urlencoded\<close>) is the parameter \<open>form_parse\<close>, from a query to its decoded pairs in order. A
  \<open>HashMap\<close> is an association list that is only looked up.

  Text is UTF-8, one \<open>char\<close> per byte: \<open>is_utf8\<close> is \<open>str::from_utf8\<close>'s test.

  The results: every way of reading a query parameter agrees, first value first, in whatever order the
  handler reads and whatever is cached; and \<open>req.headers\<close> joins the lines of a name.
\<close>

subsection \<open>UTF-8\<close>

definition byte_in :: "nat \<Rightarrow> nat \<Rightarrow> char \<Rightarrow> bool" where
  "byte_in lo hi c \<longleftrightarrow> lo \<le> of_char c \<and> (of_char c :: nat) \<le> hi"

definition cont_byte :: "char \<Rightarrow> bool" where
  "cont_byte = byte_in 128 191"

text \<open>The first two bytes of a character of three bytes, and of four.\<close>

definition lead3 :: "char \<Rightarrow> char \<Rightarrow> bool" where
  "lead3 a b \<longleftrightarrow>
     byte_in 224 224 a \<and> byte_in 160 191 b \<or> byte_in 225 236 a \<and> cont_byte b \<or>
     byte_in 237 237 a \<and> byte_in 128 159 b \<or> byte_in 238 239 a \<and> cont_byte b"

definition lead4 :: "char \<Rightarrow> char \<Rightarrow> bool" where
  "lead4 a b \<longleftrightarrow>
     byte_in 240 240 a \<and> byte_in 144 191 b \<or> byte_in 241 243 a \<and> cont_byte b \<or>
     byte_in 244 244 a \<and> byte_in 128 143 b"

text \<open>How many bytes the first character takes, if they are one character.\<close>

fun utf8_step :: "string \<Rightarrow> nat" where
  "utf8_step (a # s) =
     (if byte_in 0 127 a then 1
      else case s of
        [] \<Rightarrow> 0
      | b # s' \<Rightarrow>
          if byte_in 194 223 a then (if cont_byte b then 2 else 0)
          else (case s' of
            [] \<Rightarrow> 0
          | c # s'' \<Rightarrow>
              if lead3 a b then (if cont_byte c then 3 else 0)
              else (case s'' of
                [] \<Rightarrow> 0
              | d # _ \<Rightarrow>
                  if lead4 a b \<and> cont_byte c \<and> cont_byte d then 4 else 0)))"
| "utf8_step [] = 0"

function is_utf8 :: "string \<Rightarrow> bool" where
  "is_utf8 s =
     (if s = [] then True
      else if utf8_step s = 0 then False
      else is_utf8 (drop (utf8_step s) s))"
  by pat_completeness auto
termination
  by (relation "measure length") auto

declare is_utf8.simps [simp del]

text \<open>\<open>char::from(b)\<close>: the character of code \<open>b\<close>, as UTF-8.\<close>

definition char_from :: "char \<Rightarrow> string" where
  "char_from b =
     (let n = (of_char b :: nat)
      in if n < 128 then [b] else [char_of (192 + n div 64), char_of (128 + n mod 64)])"

subsection \<open>The request\<close>

text \<open>The request's head as hyper parsed it; the version is its text.\<close>

record 'h Parts =
  pt_method :: string
  pt_path :: string
  pt_query :: "string option"
  pt_version :: string
  pt_headers :: 'h

record 'h RequestHead =
  hd_parts :: "'h Parts"
  hd_params :: Params
  hd_client_ip :: string
  hd_request_id :: RequestId

definition head_label :: "'h RequestHead \<Rightarrow> RequestLabel" where
  "head_label head =
     \<lparr>lab_id = hd_request_id head, lab_method = pt_method (hd_parts head), lab_path = pt_path (hd_parts head)\<rparr>"

datatype request_body = BodyBuffered string | BodyStreamed BodyReceiver \<comment> \<open>\<open>Body\<close> of \<open>request_head.rs\<close>\<close>

record 'h PyronovaRequest =
  rq_method :: string
  rq_path :: string
  rq_query :: "string option"
  rq_params :: Params
  rq_headers :: 'h
  rq_client_ip :: string
  rq_request_id :: RequestId
  rq_body_bytes :: string
  rq_body_stream :: StreamSlot
  rq_query_cache :: "(string \<times> string) list option"
  rq_query_all_cache :: "(string \<times> string list) list option"

definition request_new :: "'h RequestHead \<Rightarrow> request_body \<Rightarrow> 'h PyronovaRequest" where
  "request_new head body =
     (let (body_bytes, body_stream) =
            (case body of
               BodyBuffered bytes \<Rightarrow> (bytes, SlotBuffered)
             | BodyStreamed rx \<Rightarrow> ([], slot_streamed rx));
          parts = hd_parts head
      in \<lparr>rq_method = pt_method parts, rq_path = pt_path parts, rq_query = pt_query parts,
          rq_params = hd_params head, rq_headers = pt_headers parts, rq_client_ip = hd_client_ip head,
          rq_request_id = hd_request_id head, rq_body_bytes = body_bytes, rq_body_stream = body_stream,
          rq_query_cache = None, rq_query_all_cache = None\<rparr>)"

definition request_label :: "'h PyronovaRequest \<Rightarrow> RequestLabel" where
  "request_label req =
     \<lparr>lab_id = rq_request_id req, lab_method = rq_method req, lab_path = rq_path req\<rparr>"

definition query_str :: "'h PyronovaRequest \<Rightarrow> string" where
  "query_str req = (case rq_query req of Some q \<Rightarrow> q | None \<Rightarrow> [])"

text \<open>\<open>req.stream\<close>: the receiver the first time, an error after that.\<close>

definition request_stream ::
    "'h PyronovaRequest \<Rightarrow> (StreamState option, StreamTaken) result \<times> 'h PyronovaRequest" where
  "request_stream req =
     (let (taken, slot) = slot_take (rq_body_stream req)
      in (map_ok (map_option Open) taken, req\<lparr>rq_body_stream := slot\<rparr>))"

definition request_text :: "'h PyronovaRequest \<Rightarrow> (string, unit) result" where
  "request_text req = (if is_utf8 (rq_body_bytes req) then Ok (rq_body_bytes req) else Err ())"

subsection \<open>Query parameters\<close>

text \<open>\<open>entry(k).or_insert(v)\<close> and \<open>entry(k).or_default().push(v)\<close> over the pairs in order.\<close>

definition or_insert :: "(string \<times> string) list \<Rightarrow> string \<times> string \<Rightarrow> (string \<times> string) list" where
  "or_insert m p = (case map_of m (fst p) of Some _ \<Rightarrow> m | None \<Rightarrow> p # m)"

definition push_value :: "(string \<times> string list) list \<Rightarrow> string \<times> string \<Rightarrow> (string \<times> string list) list" where
  "push_value m p =
     AList.update (fst p) ((case map_of m (fst p) of Some vs \<Rightarrow> vs | None \<Rightarrow> []) @ [snd p]) m"

definition query_params ::
    "(string \<Rightarrow> (string \<times> string) list) \<Rightarrow> 'h PyronovaRequest \<Rightarrow> (string \<times> string) list \<times> 'h PyronovaRequest" where
  "query_params form_parse req =
     (case rq_query_cache req of
        Some m \<Rightarrow> (m, req)
      | None \<Rightarrow> (let m = foldl or_insert [] (form_parse (query_str req))
                 in (m, req\<lparr>rq_query_cache := Some m\<rparr>)))"

definition query_params_all_map ::
    "(string \<Rightarrow> (string \<times> string) list) \<Rightarrow> 'h PyronovaRequest \<Rightarrow> (string \<times> string list) list \<times> 'h PyronovaRequest" where
  "query_params_all_map form_parse req =
     (case rq_query_all_cache req of
        Some m \<Rightarrow> (m, req)
      | None \<Rightarrow> (let m = foldl push_value [] (form_parse (query_str req))
                 in (m, req\<lparr>rq_query_all_cache := Some m\<rparr>)))"

definition query_param :: "(string \<Rightarrow> (string \<times> string) list) \<Rightarrow> 'h PyronovaRequest \<Rightarrow> string \<Rightarrow> string option" where
  "query_param form_parse req key =
     (case rq_query_cache req of
        Some cache \<Rightarrow> map_of cache key
      | None \<Rightarrow> map_option snd (find (\<lambda>(k, _). k = key) (form_parse (query_str req))))"

subsection \<open>Headers\<close>

text \<open>A lookup by a \<open>str\<close>: the name is normalised first, and one that is no name has no lines.\<close>

definition field_lines :: "'h http_api \<Rightarrow> 'h \<Rightarrow> string \<Rightarrow> string list" where
  "field_lines H h name = (case hn_from_bytes H name of Some n \<Rightarrow> hm_get_all H h n | None \<Rightarrow> [])"

definition field_text :: "string \<Rightarrow> string" where
  "field_text v = (if is_utf8 v then v else concat (map char_from v))"

definition field_separator :: "string \<Rightarrow> string" where
  "field_separator name = (if eq_ignore_ascii_case name ''cookie'' then ''; '' else '', '')"

definition joined_value :: "'h http_api \<Rightarrow> 'h \<Rightarrow> string \<Rightarrow> string option" where
  "joined_value H h name =
     (case map field_text (field_lines H h name) of
        [] \<Rightarrow> None
      | first # lines \<Rightarrow> Some (foldl (\<lambda>joined line. joined @ field_separator name @ line) first lines))"

definition joined_fields :: "'h http_api \<Rightarrow> 'h \<Rightarrow> (string \<times> string) list" where
  "joined_fields H h =
     concat (map (\<lambda>name. case joined_value H h name of Some v \<Rightarrow> [(name, v)] | None \<Rightarrow> []) (hm_keys H h))"

subsection \<open>Every read of the query agrees\<close>

lemma map_of_foldl_or_insert:
  "map_of (foldl or_insert m ps) k = (case map_of m k of Some v \<Rightarrow> Some v | None \<Rightarrow> map_of ps k)"
  by (induction ps arbitrary: m) (auto simp: or_insert_def split: option.splits)

text \<open>All the values of a key, in order.\<close>

definition values_of :: "(string \<times> string) list \<Rightarrow> string \<Rightarrow> string list" where
  "values_of ps k = map snd (filter (\<lambda>(k', _). k' = k) ps)"

lemma map_of_foldl_push_value:
  "map_of (foldl push_value m ps) k =
     (case map_of m k of
        Some ws \<Rightarrow> Some (ws @ values_of ps k)
      | None \<Rightarrow> if values_of ps k = [] then None else Some (values_of ps k))"
  by (induction ps arbitrary: m) (auto simp: push_value_def values_of_def update_conv split: option.splits)

lemma find_key: "map_option snd (find (\<lambda>(k', _). k' = k) ps) = map_of ps k"
  by (induction ps) auto

text \<open>What a handler may read of the query, and what the caches may hold.\<close>

datatype query_read = ReadParam string | ReadParams | ReadAll

fun query_step :: "(string \<Rightarrow> (string \<times> string) list) \<Rightarrow> 'h PyronovaRequest \<Rightarrow> query_read \<Rightarrow> 'h PyronovaRequest" where
  "query_step form_parse req (ReadParam key) = req"
| "query_step form_parse req ReadParams = snd (query_params form_parse req)"
| "query_step form_parse req ReadAll = snd (query_params_all_map form_parse req)"

definition query_inv :: "(string \<Rightarrow> (string \<times> string) list) \<Rightarrow> string option \<Rightarrow> 'h PyronovaRequest \<Rightarrow> bool" where
  "query_inv form_parse q req \<longleftrightarrow>
     rq_query req = q \<and>
     rq_query_cache req \<in> {None, Some (foldl or_insert [] (form_parse (query_str req)))} \<and>
     rq_query_all_cache req \<in> {None, Some (foldl push_value [] (form_parse (query_str req)))}"

lemma query_inv_new: "query_inv form_parse (pt_query (hd_parts head)) (request_new head body)"
  by (simp add: query_inv_def request_new_def Let_def split: request_body.split)

lemma query_inv_step: "query_inv form_parse q req \<Longrightarrow> query_inv form_parse q (query_step form_parse req op)"
  by (cases op)
     (auto simp: query_inv_def query_params_def query_params_all_map_def Let_def query_str_def split: option.splits)

lemma query_inv_run: "query_inv form_parse q req \<Longrightarrow> query_inv form_parse q (foldl (query_step form_parse) req ops)"
  by (induction ops arbitrary: req) (auto intro: query_inv_step)

text \<open>
  However a handler has read the query before, one parameter, the map of first values and the map
  of all values agree with the query string: a repeated parameter reads as its first value, and all its
  values in order.
\<close>

theorem query_reads_agree:
  "let pairs = form_parse (case pt_query (hd_parts head) of Some q \<Rightarrow> q | None \<Rightarrow> []);
       req = foldl (query_step form_parse) (request_new head body) ops
   in query_param form_parse req key = map_of pairs key \<and>
      map_of (fst (query_params form_parse req)) key = map_of pairs key \<and>
      map_of (fst (query_params_all_map form_parse req)) key =
        (if values_of pairs key = [] then None else Some (values_of pairs key))"
proof -
  define req where "req = foldl (query_step form_parse) (request_new head body) ops"
  have "query_inv form_parse (pt_query (hd_parts head)) req"
    unfolding req_def by (rule query_inv_run [OF query_inv_new])
  then have "rq_query req = pt_query (hd_parts head)"
    and c: "rq_query_cache req \<in> {None, Some (foldl or_insert [] (form_parse (query_str req)))}"
    and a: "rq_query_all_cache req \<in> {None, Some (foldl push_value [] (form_parse (query_str req)))}"
    by (simp_all add: query_inv_def)
  then have "query_str req = (case pt_query (hd_parts head) of Some q \<Rightarrow> q | None \<Rightarrow> [])"
    by (simp add: query_str_def)
  with c a show ?thesis
    unfolding req_def [symmetric] Let_def
    by (auto simp: query_param_def query_params_def query_params_all_map_def Let_def find_key
        map_of_foldl_or_insert map_of_foldl_push_value)
qed

subsection \<open>Header values are text\<close>

lemma utf8_step_append: "utf8_step s \<noteq> 0 \<Longrightarrow> utf8_step (s @ t) = utf8_step s"
  by (cases s) (auto split: list.splits if_splits)

lemma utf8_step_le: "utf8_step s \<le> length s"
  by (cases s) (auto split: list.splits if_splits)

lemma is_utf8_append: "is_utf8 s \<Longrightarrow> is_utf8 t \<Longrightarrow> is_utf8 (s @ t)"
proof (induction s rule: is_utf8.induct)
  case (1 s)
  show ?case
  proof (cases "s = []")
    case False
    with 1(2) have "utf8_step s \<noteq> 0" "is_utf8 (drop (utf8_step s) s)"
      by (simp_all add: is_utf8.simps [of s] split: if_splits)
    with 1(1) [OF False] 1(3) False show ?thesis
      using utf8_step_le [of s] by (subst is_utf8.simps) (simp add: utf8_step_append)
  qed (simp add: 1)
qed

lemma is_utf8_Nil [simp]: "is_utf8 []"
  by (subst is_utf8.simps) simp

lemma is_utf8_concat: "list_all is_utf8 ss \<Longrightarrow> is_utf8 (concat ss)"
  by (induction ss) (auto simp: is_utf8_append)

lemma is_utf8_one_char: "s \<noteq> [] \<Longrightarrow> utf8_step s = length s \<Longrightarrow> is_utf8 s"
  by (subst is_utf8.simps) simp

lemma is_utf8_two_bytes: "byte_in 194 223 a \<Longrightarrow> cont_byte c \<Longrightarrow> is_utf8 [a, c]"
  by (rule is_utf8_one_char) (simp_all add: byte_in_def)

lemma is_utf8_ascii: "byte_in 0 127 c \<Longrightarrow> is_utf8 [c]"
  by (rule is_utf8_one_char) simp_all

lemma is_utf8_char_from: "is_utf8 (char_from b)"
proof (cases "(of_char b :: nat) < 128")
  case True
  then show ?thesis by (simp add: char_from_def Let_def is_utf8_ascii byte_in_def)
next
  case False
  obtain n where n: "n = (of_char b :: nat)" "128 \<le> n" "n < 256" using False by simp
  have byte: "(of_char (char_of x :: char) :: nat) = x" if "x < 256" for x using that by simp
  from n(2,3) have "2 \<le> n div 64" "n div 64 \<le> 3" by linarith+
  with byte [of "192 + n div 64"] byte [of "128 + n mod 64"]
  have "byte_in 194 223 (char_of (192 + n div 64))" "cont_byte (char_of (128 + n mod 64))"
    unfolding byte_in_def cont_byte_def by linarith+
  then have "is_utf8 [char_of (192 + n div 64), char_of (128 + n mod 64)]" by (rule is_utf8_two_bytes)
  with False n(1) show ?thesis unfolding char_from_def Let_def by metis
qed

lemma is_utf8_field_text: "is_utf8 (field_text v)"
  by (auto simp: field_text_def list_all_iff is_utf8_char_from intro: is_utf8_concat)

lemma is_utf8_separator: "is_utf8 (field_separator name)"
proof -
  have "is_utf8 ([a] @ [b])" if "byte_in 0 127 a" "byte_in 0 127 b" for a b
    using that by (intro is_utf8_append is_utf8_ascii)
  then show ?thesis by (simp add: field_separator_def byte_in_def)
qed

lemma foldl_join:
  "foldl (\<lambda>joined line. joined @ sep @ line) first rest = join sep (first # rest)"
proof (induction rest arbitrary: first)
  case (Cons x xs)
  from Cons [of "first @ sep @ x"] show ?case by (cases xs) simp_all
qed simp

lemma is_utf8_join: "is_utf8 sep \<Longrightarrow> list_all is_utf8 ss \<Longrightarrow> is_utf8 (join sep ss)"
  by (induction sep ss rule: join.induct) (auto simp: is_utf8_append)

text \<open>\<open>req.headers[name]\<close>: the lines of the name as text, joined, and always valid UTF-8.\<close>

lemma joined_value_text:
  "joined_value H h name =
     (if field_lines H h name = [] then None
      else Some (join (field_separator name) (map field_text (field_lines H h name))))"
  by (simp add: joined_value_def foldl_join split: list.split)

lemma joined_value_utf8: "joined_value H h name = Some v \<Longrightarrow> is_utf8 v"
  by (auto simp: joined_value_text list_all_iff is_utf8_field_text is_utf8_separator
      intro!: is_utf8_join split: if_splits)

end
