(* ===== verification/Json.thy ===== *)
theory Json
  imports Errors
begin

section \<open>Reading JSON (\<open>src/json.rs\<close>)\<close>

text \<open>
  JSON text is decoded by the package \<open>isojson\<close>, or, when it may hold an integer that one does not keep exact, by the Python
  standard library. The two decoders are parameters, with what getting them raises; a Python value is of the type \<open>'o\<close>.

  The result: a document that spells an integer outside \<open>i64::MIN..=u64::MAX\<close> is always read by the exact decoder.
\<close>

definition WIDE_DIGITS :: nat where "WIDE_DIGITS = 19"

record 'o Decoders =
  dc_fast :: "u8 list \<Rightarrow> ('o, PyErr) result" \<comment> \<open>\<open>isojson.loads\<close>\<close>
  dc_exact :: "u8 list \<Rightarrow> ('o, PyErr) result" \<comment> \<open>the standard library's, without its constants\<close>

definition digit_byte :: "u8 \<Rightarrow> bool" where
  "digit_byte b \<longleftrightarrow> 48 \<le> b \<and> b \<le> 57"

definition may_hold_wide_integer :: "u8 list \<Rightarrow> bool" where
  "may_hold_wide_integer t = list_ex (\<lambda>w. WIDE_DIGITS \<le> length w) (split_on (\<lambda>b. \<not> digit_byte b) t)"

text \<open>\<open>decoders\<close> is what \<open>decoders(py)\<close> gives.\<close>

definition loads :: "('o Decoders, PyErr) result \<Rightarrow> u8 list \<Rightarrow> ('o, PyErr) result" where
  "loads decoders t = and_then decoders (\<lambda>d. if may_hold_wide_integer t then dc_exact d t else dc_fast d t)"

lemma split_on_run:
  assumes "\<forall>x \<in> set ds. \<not> p x"
  shows "\<exists>w \<in> set (split_on p (pre @ ds @ post)). length ds \<le> length w"
proof (induction pre)
  case Nil
  have "length ds \<le> length (hd (split_on p (ds @ post)))" using assms
  proof (induction ds)
    case (Cons d ds)
    then show ?case by (cases "split_on p (ds @ post)") auto
  qed simp
  then show ?case by (metis append_Nil list.set_sel(1) split_on_not_Nil)
next
  case (Cons x pre)
  then show ?case by (cases "split_on p (pre @ ds @ post)") (auto intro: le_SucI)
qed

lemma show_nat_length: "n < 10 ^ length (show_nat n)"
proof (induction n rule: show_nat.induct)
  case (1 n)
  show ?case
  proof (cases "n < 10")
    case True
    then show ?thesis by (subst show_nat.simps) simp
  next
    case False
    with 1 have "n div 10 < 10 ^ length (show_nat (n div 10))" by simp
    then have "n < 10 * 10 ^ length (show_nat (n div 10))" by linarith
    with False show ?thesis by (subst show_nat.simps) simp
  qed
qed

text \<open>The text of an integer, as bytes.\<close>

definition digits_of :: "nat \<Rightarrow> u8 list" where
  "digits_of n = map (\<lambda>c. of_nat (of_char c)) (show_nat n)"

lemma digits_of_digits: "\<forall>b \<in> set (digits_of n). digit_byte b"
proof -
  have "digit_byte (of_nat (of_char c))" if "is_ascii_digit c" for c
  proof -
    have "48 \<le> (of_char c :: nat)" "(of_char c :: nat) \<le> 57" using that by (auto simp: is_ascii_digit_def)
    then show ?thesis by (simp add: digit_byte_def word_le_nat_alt unat_of_nat)
  qed
  with show_nat_digits [of n] show ?thesis by (auto simp: digits_of_def list_all_iff)
qed

lemma wide_integer_exact:
  assumes "i < - (2 ^ 63) \<or> 2 ^ 64 \<le> i"
  shows "loads (Ok d) (pre @ digits_of (nat \<bar>i\<bar>) @ post) = dc_exact d (pre @ digits_of (nat \<bar>i\<bar>) @ post)"
proof -
  let ?n = "nat \<bar>i\<bar>"
  have "10 ^ 18 \<le> ?n" using assms by auto
  then have "(10 :: nat) ^ 18 < 10 ^ length (show_nat ?n)" using show_nat_length [of ?n] by linarith
  then have "18 < length (show_nat ?n)" by (rule power_less_imp_less_exp [rotated]) simp
  then have "WIDE_DIGITS \<le> length (digits_of ?n)" by (simp add: WIDE_DIGITS_def digits_of_def)
  moreover obtain w where "w \<in> set (split_on (\<lambda>b. \<not> digit_byte b) (pre @ digits_of ?n @ post))" "length (digits_of ?n) \<le> length w"
    using split_on_run [of "digits_of ?n" "\<lambda>b. \<not> digit_byte b" pre post] digits_of_digits [of ?n] by auto
  ultimately have "may_hold_wide_integer (pre @ digits_of ?n @ post)"
    unfolding may_hold_wide_integer_def list_ex_iff using le_trans by blast
  then show ?thesis by (simp add: loads_def)
qed

end
