(* ===== verification/Pg_Values.thy ===== *)
theory Pg_Values
  imports Numeric Errors Request Json
begin

section \<open>Postgres parameters and result cells (\<open>src/db/kind.rs\<close>, \<open>param.rs\<close>, \<open>cell.rs\<close>, \<open>error.rs\<close>)\<close>

text \<open>
  A Python argument is copied out of the interpreter (\<open>PyParam::extract\<close>), written as the type the statement declares
  for it (\<open>to_wire\<close>), and a result cell is read as the Python value of its type (\<open>cell_to_py\<close>). The types are
  dispatched on the closed set \<open>PgKind\<close>.

  Parameters: \<open>sqlx\<close>'s decoders of the fixed-size types and of text, the crates that copy a \<open>dict\<close> or \<open>list\<close> into a JSON value and
  print it, the JSON decoders, and the floating point conversions (a float is its bits). Python values are those the code distinguishes; a \<open>dict\<close> or
  \<open>list\<close> is of the type \<open>'o\<close>, a \<open>serde_json::Value\<close> of the type \<open>'j\<close>. Reading a value out of the interpreter may raise, which is part of the
  value.

  The result: whatever is accepted for a parameter, a \<open>dict\<close> or \<open>list\<close> apart, is read back from a column of that type as the value that
  type stores for it, exactly for every type but a float4, which keeps the narrowed float; the exception is an aware time that is
  outside the years 1 to 9999 in UTC, which is accepted and can't be read back.
\<close>

subsection \<open>The types (\<open>kind.rs\<close>)\<close>

definition JSONB_VERSION :: u8 where "JSONB_VERSION = 1"

datatype PgKind =
    Bool | Int2 | Int4 | Int8 | Float4 | Float8 | NumericKind | TextKind | Bytea | JsonKind | Jsonb | Uuid | Date | Timestamp
  | Timestamptz | OtherKind

definition from_oid :: "u32 \<Rightarrow> PgKind" where
  "from_oid oid =
     (if oid = 16 then Bool
      else if oid = 21 then Int2
      else if oid = 23 then Int4
      else if oid = 20 then Int8
      else if oid = 700 then Float4
      else if oid = 701 then Float8
      else if oid = 1700 then NumericKind
      else if oid = 25 \<or> oid = 1043 \<or> oid = 1042 \<or> oid = 19 \<or> oid = 705 then TextKind
      else if oid = 17 then Bytea
      else if oid = 114 then JsonKind
      else if oid = 3802 then Jsonb
      else if oid = 2950 then Uuid
      else if oid = 1082 then Date
      else if oid = 1114 then Timestamp
      else if oid = 1184 then Timestamptz
      else OtherKind)"

text \<open>\<open>sqlx\<close>'s description of a type: its OID and name, and what a user-defined one is made from.\<close>

datatype PgTypeInfo =
    PgSimple "u32 option" string
  | PgEnum "u32 option" string
  | PgDomain "u32 option" string PgTypeInfo

fun type_oid :: "PgTypeInfo \<Rightarrow> u32 option" where
  "type_oid (PgSimple oid _) = oid"
| "type_oid (PgEnum oid _) = oid"
| "type_oid (PgDomain oid _ _) = oid"

fun type_name :: "PgTypeInfo \<Rightarrow> string" where
  "type_name (PgSimple _ n) = n"
| "type_name (PgEnum _ n) = n"
| "type_name (PgDomain _ n _) = n"

fun kind_of :: "PgTypeInfo \<Rightarrow> PgKind" where
  "kind_of (PgSimple oid n) = (case oid of None \<Rightarrow> OtherKind | Some o' \<Rightarrow> from_oid o')"
| "kind_of (PgEnum oid n) =
     (let builtin = (case oid of None \<Rightarrow> OtherKind | Some o' \<Rightarrow> from_oid o') in if builtin \<noteq> OtherKind then builtin else TextKind)"
| "kind_of (PgDomain oid n base) =
     (let builtin = (case oid of None \<Rightarrow> OtherKind | Some o' \<Rightarrow> from_oid o') in if builtin \<noteq> OtherKind then builtin else kind_of base)"

subsection \<open>Failures (\<open>error.rs\<close>)\<close>

datatype ValueProblem = OutOfRange string string | NumericProblem NumericError

datatype ParamError =
    ParamCount nat nat
  | ParamType nat string string
  | ParamValue nat ValueProblem
  | ParamEncode nat string
  | ParamUnsupported nat string
  | ParamUnreadable nat PyErr

text \<open>A failure of \<open>sqlx\<close>: the SQLSTATE the server reported, if it did, and the text.\<close>

record sqlx_error =
  sx_code :: "string option"
  sx_text :: string

datatype TaskError = Panicked string | Cancelled | RuntimeGone

datatype Reconfigured = Dsn | MaxConnections u32 u32 | AcquireTimeout nat nat

datatype DbError =
    NotConnected
  | ReconfiguredErr Reconfigured
  | Connect sqlx_error
  | Query string sqlx_error
  | ParamErr ParamError
  | Task TaskError

fun sqlstate :: "DbError \<Rightarrow> string option" where
  "sqlstate (Connect e) = sx_code e"
| "sqlstate (Query _ e) = sx_code e"
| "sqlstate _ = None"

definition INTEGRITY_CLASS :: string where "INTEGRITY_CLASS = ''23''"
definition UNIQUE_VIOLATION :: string where "UNIQUE_VIOLATION = ''23505''"

text \<open>The exception raised in Python: its class, with the SQLSTATE where the class has one.\<close>

datatype db_exception =
    RuntimeExc
  | ValueExc
  | TypeExc
  | ParamExc
  | ConnectionExc "string option"
  | DatabaseExc "string option"
  | IntegrityExc "string option"
  | UniqueExc "string option"

definition database_error :: "string option \<Rightarrow> db_exception" where
  "database_error state =
     (case state of
        Some code \<Rightarrow>
          if code = UNIQUE_VIOLATION then UniqueExc state
          else if strip_prefix INTEGRITY_CLASS code \<noteq> None then IntegrityExc state
          else DatabaseExc state
      | None \<Rightarrow> DatabaseExc state)"

fun db_into_pyerr :: "DbError \<Rightarrow> db_exception" where
  "db_into_pyerr NotConnected = RuntimeExc"
| "db_into_pyerr (Task _) = RuntimeExc"
| "db_into_pyerr (ReconfiguredErr _) = ValueExc"
| "db_into_pyerr (Connect e) = ConnectionExc (sqlstate (Connect e))"
| "db_into_pyerr (ParamErr (ParamCount _ _)) = TypeExc"
| "db_into_pyerr (ParamErr _) = ParamExc"
| "db_into_pyerr (Query op e) = database_error (sqlstate (Query op e))"

subsection \<open>Python values\<close>

datatype 'o pyvalue =
    PNone
  | PBool bool
  | PInt int
  | PFloat u64 \<comment> \<open>its bits\<close>
  | PStr string
  | PBytes "u8 list"
  | PJson 'o \<comment> \<open>a dict or list\<close>
  | PUuid "u8 list"
  | PDecimal string \<comment> \<open>its text in the format \<open>f\<close>\<close>
  | PDate int \<comment> \<open>its ordinal\<close>
  | PDatetime bool int \<comment> \<open>naive, and the microseconds since the epoch 2000-01-01 of its kind\<close>
  | PUnreadable PyErr \<comment> \<open>a \<open>str\<close> with a lone surrogate: reading it raises\<close>
  | PUnsupported string \<comment> \<open>the name of any other type\<close>

definition PG_EPOCH_ORDINAL :: int where "PG_EPOCH_ORDINAL = 730120"

datatype 'j PyParam =
    Null
  | BoolParam bool
  | IntParam int \<comment> \<open>an \<open>i64\<close>\<close>
  | BigInt string
  | FloatParam u64
  | TextParam string
  | BytesParam "u8 list"
  | JsonParam 'j
  | UuidParam "u8 list"
  | DecimalParam string
  | DateParam int \<comment> \<open>an \<open>i32\<close>\<close>
  | TimestampParam int \<comment> \<open>an \<open>i64\<close>\<close>
  | TimestampTzParam int

text \<open>The libraries the conversions call.\<close>

record ('o, 'j) pg_codec =
  f64_as_f32 :: "u64 \<Rightarrow> u32"
  f32_infinite :: "u32 \<Rightarrow> bool"
  f64_finite :: "u64 \<Rightarrow> bool"
  i64_as_f32 :: "int \<Rightarrow> u32"
  i64_as_f64 :: "int \<Rightarrow> u64"
  f64_parse :: "string \<Rightarrow> u64 option"
  f64_show :: "u64 \<Rightarrow> string"
  depythonize :: "'o \<Rightarrow> ('j, PyErr) result" \<comment> \<open>\<open>pythonize::depythonize\<close>\<close>
  json_show :: "'j \<Rightarrow> u8 list" \<comment> \<open>\<open>serde_json::Value::to_string\<close>\<close>
  json_decoders :: "('o pyvalue Decoders, PyErr) result" \<comment> \<open>of \<open>crate::json\<close>\<close>
  dec_bool :: "u8 list \<Rightarrow> (bool, string) result" \<comment> \<open>\<open>sqlx\<close>'s \<open>Decode\<close>\<close>
  dec_int :: "nat \<Rightarrow> u8 list \<Rightarrow> (int, string) result" \<comment> \<open>of so many bytes\<close>
  dec_f32 :: "u8 list \<Rightarrow> (u32, string) result"
  dec_f64 :: "u8 list \<Rightarrow> (u64, string) result"
  dec_str :: "u8 list \<Rightarrow> (string, string) result"
  f32_as_f64 :: "u32 \<Rightarrow> u64" \<comment> \<open>a Python float of an \<open>f32\<close>\<close>

fun param_extract :: "('o, 'j) pg_codec \<Rightarrow> 'o pyvalue \<Rightarrow> nat \<Rightarrow> ('j PyParam, ParamError) result" where
  "param_extract F PNone index = Ok Null"
| "param_extract F (PBool b) index = Ok (BoolParam b)"
| "param_extract F (PInt i) index = Ok (if I64_MIN \<le> i \<and> i \<le> I64_MAX then IntParam i else BigInt (show_int i))"
| "param_extract F (PFloat f) index = Ok (FloatParam f)"
| "param_extract F (PStr s) index = Ok (TextParam s)"
| "param_extract F (PBytes b) index = Ok (BytesParam b)"
| "param_extract F (PJson v) index = map_ok JsonParam (map_err (ParamUnreadable index) (depythonize F v))"
| "param_extract F (PDatetime naive micros) index = Ok (if naive then TimestampParam micros else TimestampTzParam micros)"
| "param_extract F (PDate ordinal) index = Ok (DateParam (ordinal - PG_EPOCH_ORDINAL))"
| "param_extract F (PUuid b) index = Ok (UuidParam b)"
| "param_extract F (PDecimal t) index = Ok (DecimalParam t)"
| "param_extract F (PUnreadable e) index = Err (ParamUnreadable index e)"
| "param_extract F (PUnsupported name) index = Err (ParamUnsupported index name)"

fun python_type :: "'j PyParam \<Rightarrow> string" where
  "python_type Null = ''None''"
| "python_type (BoolParam _) = ''bool''"
| "python_type (IntParam _) = ''int''"
| "python_type (BigInt _) = ''int''"
| "python_type (FloatParam _) = ''float''"
| "python_type (TextParam _) = ''str''"
| "python_type (BytesParam _) = ''bytes''"
| "python_type (JsonParam _) = ''dict/list''"
| "python_type (UuidParam _) = ''uuid.UUID''"
| "python_type (DecimalParam _) = ''decimal.Decimal''"
| "python_type (DateParam _) = ''datetime.date''"
| "python_type (TimestampParam _) = ''naive datetime.datetime''"
| "python_type (TimestampTzParam _) = ''aware datetime.datetime''"

subsection \<open>Writing (\<open>param.rs\<close>)\<close>

text \<open>\<open>to_be_bytes\<close> of a signed integer of \<open>n\<close> bytes.\<close>

fun be_bytes :: "nat \<Rightarrow> int \<Rightarrow> u8 list" where
  "be_bytes 0 i = []"
| "be_bytes (Suc n) i = be_bytes n (i div 256) @ [of_int i]"

definition in_bits :: "nat \<Rightarrow> int \<Rightarrow> bool" where
  "in_bits n i \<longleftrightarrow> - (2 ^ (n - 1)) \<le> i \<and> i < 2 ^ (n - 1)"

definition out_of_range :: "nat \<Rightarrow> string \<Rightarrow> string \<Rightarrow> ParamError" where
  "out_of_range index v pg_type = ParamValue index (OutOfRange v pg_type)"

definition wire_float4 :: "('o, 'j) pg_codec \<Rightarrow> nat \<Rightarrow> u64 \<Rightarrow> (u8 list, ParamError) result" where
  "wire_float4 F index f =
     (let narrowed = f64_as_f32 F f
      in if f32_infinite F narrowed \<and> f64_finite F f then Err (out_of_range index (f64_show F f) ''float4'')
         else Ok (be_bytes 4 (uint narrowed)))"

definition big_float :: "('o, 'j) pg_codec \<Rightarrow> nat \<Rightarrow> string \<Rightarrow> (u64, ParamError) result" where
  "big_float F index t = (case f64_parse F t of Some f \<Rightarrow> Ok f | None \<Rightarrow> Err (out_of_range index t ''float8''))"

definition wire_numeric :: "nat \<Rightarrow> string \<Rightarrow> (u8 list, ParamError) result" where
  "wire_numeric index t = map_err (\<lambda>e. ParamValue index (NumericProblem e)) (numeric_encode t [])"

definition wire_int :: "nat \<Rightarrow> nat \<Rightarrow> int \<Rightarrow> string \<Rightarrow> (u8 list, ParamError) result" where
  "wire_int index n i pg_type =
     (if in_bits (8 * n) i then Ok (be_bytes n i) else Err (out_of_range index (show_int i) pg_type))"

definition text_bytes :: "string \<Rightarrow> u8 list" where
  "text_bytes s = map (\<lambda>c. of_nat (of_char c)) s"

definition wire_value :: "('o, 'j) pg_codec \<Rightarrow> PgKind \<Rightarrow> 'j PyParam \<Rightarrow> nat \<Rightarrow> string \<Rightarrow> (u8 list, ParamError) result" where
  "wire_value F kind param index name =
     (case (kind, param) of
        (Bool, BoolParam b) \<Rightarrow> Ok [if b then 1 else 0]
      | (Int2, IntParam i) \<Rightarrow> wire_int index 2 i ''int2''
      | (Int4, IntParam i) \<Rightarrow> wire_int index 4 i ''int4''
      | (Int8, IntParam i) \<Rightarrow> Ok (be_bytes 8 i)
      | (Int2, BigInt t) \<Rightarrow> Err (out_of_range index t ''int2'')
      | (Int4, BigInt t) \<Rightarrow> Err (out_of_range index t ''int4'')
      | (Int8, BigInt t) \<Rightarrow> Err (out_of_range index t ''int8'')
      | (Float4, FloatParam f) \<Rightarrow> wire_float4 F index f
      | (Float4, IntParam i) \<Rightarrow> Ok (be_bytes 4 (uint (i64_as_f32 F i)))
      | (Float4, BigInt t) \<Rightarrow> and_then (big_float F index t) (wire_float4 F index)
      | (Float8, FloatParam f) \<Rightarrow> Ok (be_bytes 8 (uint f))
      | (Float8, IntParam i) \<Rightarrow> Ok (be_bytes 8 (uint (i64_as_f64 F i)))
      | (Float8, BigInt t) \<Rightarrow> map_ok (\<lambda>f. be_bytes 8 (uint f)) (big_float F index t)
      | (NumericKind, IntParam i) \<Rightarrow> wire_numeric index (show_int i)
      | (NumericKind, BigInt t) \<Rightarrow> wire_numeric index t
      | (NumericKind, FloatParam f) \<Rightarrow> wire_numeric index (f64_show F f)
      | (NumericKind, DecimalParam t) \<Rightarrow> wire_numeric index t
      | (TextKind, TextParam s) \<Rightarrow> Ok (text_bytes s)
      | (Bytea, BytesParam b) \<Rightarrow> Ok b
      | (JsonKind, JsonParam v) \<Rightarrow> Ok (json_show F v)
      | (Jsonb, JsonParam v) \<Rightarrow> Ok (JSONB_VERSION # json_show F v)
      | (Uuid, UuidParam u) \<Rightarrow> Ok u
      | (Date, DateParam days) \<Rightarrow> Ok (be_bytes 4 days)
      | (Timestamp, TimestampParam us) \<Rightarrow> Ok (be_bytes 8 us)
      | (Timestamptz, TimestampTzParam us) \<Rightarrow> Ok (be_bytes 8 us)
      | (OtherKind, BytesParam b) \<Rightarrow> Ok b
      | _ \<Rightarrow> Err (ParamType index name (python_type param)))"

definition to_wire :: "('o, 'j) pg_codec \<Rightarrow> PgTypeInfo \<Rightarrow> 'j PyParam \<Rightarrow> nat \<Rightarrow> (u8 list option, ParamError) result" where
  "to_wire F ty param index =
     (if (case param of Null \<Rightarrow> True | _ \<Rightarrow> False) then Ok None
      else map_ok Some (wire_value F (kind_of ty) param index (map ascii_lower (type_name ty))))"

text \<open>\<open>encode_args\<close>: each value with its declared type; adding it to the arguments cannot fail, since \<open>PgParam\<close> copies the bytes.\<close>

fun encode_from :: "('o, 'j) pg_codec \<Rightarrow> nat \<Rightarrow> (PgTypeInfo \<times> 'j PyParam) list \<Rightarrow> ((PgTypeInfo \<times> u8 list option) list, ParamError) result" where
  "encode_from F index [] = Ok []"
| "encode_from F index ((ty, param) # rest) =
     and_then (to_wire F ty param index) (\<lambda>wire. map_ok ((#) (ty, wire)) (encode_from F (index + 1) rest))"

definition encode_args :: "('o, 'j) pg_codec \<Rightarrow> PgTypeInfo list \<Rightarrow> 'j PyParam list \<Rightarrow> ((PgTypeInfo \<times> u8 list option) list, ParamError) result" where
  "encode_args F declared params =
     (if length declared \<noteq> length params then Err (ParamCount (length declared) (length params))
      else encode_from F 1 (zip declared params))"

subsection \<open>Reading (\<open>cell.rs\<close>)\<close>

datatype CellError =
    Undecodable string
  | JsonbHeader
  | CellNumeric NumericError
  | Infinite string
  | UuidLength nat \<comment> \<open>\<open>uuid.UUID\<close> takes 16 bytes\<close>
  | DatetimeRange \<comment> \<open>what \<open>date.fromordinal\<close> and the addition to a \<open>datetime\<close> raise outside the years 1 to 9999\<close>

text \<open>The ordinals of a \<open>date\<close>, and the microseconds from 2000-01-01 of a \<open>datetime\<close>.\<close>

definition date_ordinal :: "int \<Rightarrow> bool" where
  "date_ordinal n \<longleftrightarrow> 1 \<le> n \<and> n \<le> 3652059"

definition datetime_micros :: "int \<Rightarrow> bool" where
  "datetime_micros us \<longleftrightarrow> (1 - PG_EPOCH_ORDINAL) * 86400000000 \<le> us \<and> us < (3652060 - PG_EPOCH_ORDINAL) * 86400000000"

definition cell_date :: "int \<Rightarrow> ('o pyvalue, CellError) result" where
  "cell_date days =
     (if days = 2 ^ 31 - 1 \<or> days = - (2 ^ 31) then Err (Infinite ''date'')
      else if date_ordinal (days + PG_EPOCH_ORDINAL) then Ok (PDate (days + PG_EPOCH_ORDINAL)) else Err DatetimeRange)"

definition cell_timestamp :: "int \<Rightarrow> bool \<Rightarrow> ('o pyvalue, CellError) result" where
  "cell_timestamp micros utc =
     (if micros = I64_MAX \<or> micros = I64_MIN then Err (Infinite (if utc then ''timestamptz'' else ''timestamp''))
      else if datetime_micros micros then Ok (PDatetime (\<not> utc) micros) else Err DatetimeRange)"

definition cell_json :: "('o, 'j) pg_codec \<Rightarrow> u8 list \<Rightarrow> ('o pyvalue, CellError) result" where
  "cell_json F t = map_err (\<lambda>e. Undecodable (pe_type_name (py_exception e) @ '': '' @ pe_message (py_exception e))) (loads (json_decoders F) t)"

definition cell_value :: "('o, 'j) pg_codec \<Rightarrow> PgKind \<Rightarrow> u8 list \<Rightarrow> ('o pyvalue, CellError) result" where
  "cell_value F kind bytes =
     (case kind of
        Bool \<Rightarrow> map_ok PBool (map_err Undecodable (dec_bool F bytes))
      | Int2 \<Rightarrow> map_ok PInt (map_err Undecodable (dec_int F 2 bytes))
      | Int4 \<Rightarrow> map_ok PInt (map_err Undecodable (dec_int F 4 bytes))
      | Int8 \<Rightarrow> map_ok PInt (map_err Undecodable (dec_int F 8 bytes))
      | Float4 \<Rightarrow> map_ok (\<lambda>f. PFloat (f32_as_f64 F f)) (map_err Undecodable (dec_f32 F bytes))
      | Float8 \<Rightarrow> map_ok PFloat (map_err Undecodable (dec_f64 F bytes))
      | TextKind \<Rightarrow> map_ok PStr (map_err Undecodable (dec_str F bytes))
      | Bytea \<Rightarrow> Ok (PBytes bytes)
      | OtherKind \<Rightarrow> Ok (PBytes bytes)
      | JsonKind \<Rightarrow> cell_json F bytes
      | Jsonb \<Rightarrow> (case bytes of b # t \<Rightarrow> if b = JSONB_VERSION then cell_json F t else Err JsonbHeader | [] \<Rightarrow> Err JsonbHeader)
      | NumericKind \<Rightarrow> map_ok PDecimal (map_err CellNumeric (numeric_decode bytes))
      | Uuid \<Rightarrow> if length bytes = 16 then Ok (PUuid bytes) else Err (UuidLength (length bytes))
      | Date \<Rightarrow> and_then (map_err Undecodable (dec_int F 4 bytes)) cell_date
      | Timestamp \<Rightarrow> and_then (map_err Undecodable (dec_int F 8 bytes)) (\<lambda>us. cell_timestamp us False)
      | Timestamptz \<Rightarrow> and_then (map_err Undecodable (dec_int F 8 bytes)) (\<lambda>us. cell_timestamp us True))"

definition cell_to_py :: "('o, 'j) pg_codec \<Rightarrow> PgTypeInfo \<Rightarrow> u8 list option \<Rightarrow> ('o pyvalue, CellError) result" where
  "cell_to_py F ty v = (case v of None \<Rightarrow> Ok PNone | Some bytes \<Rightarrow> cell_value F (kind_of ty) bytes)"

text \<open>A row as a dict: the value of each column, a later column of the same name replacing an earlier one.\<close>

fun row_to_dict :: "('o, 'j) pg_codec \<Rightarrow> (string \<times> PgTypeInfo \<times> u8 list option) list \<Rightarrow> (string \<rightharpoonup> 'o pyvalue) \<Rightarrow> (string \<rightharpoonup> 'o pyvalue, CellError) result" where
  "row_to_dict F [] dict = Ok dict"
| "row_to_dict F ((name, ty, v) # cols) dict =
     and_then (cell_to_py F ty v) (\<lambda>x. row_to_dict F cols (dict(name \<mapsto> x)))"


subsection \<open>What a column stores\<close>

text \<open>The value a column of a kind holds for a Python value it accepts.\<close>

definition stored :: "('o, 'j) pg_codec \<Rightarrow> PgKind \<Rightarrow> 'o pyvalue \<Rightarrow> 'o pyvalue" where
  "stored F kind v =
     (case (kind, v) of
        (Float4, PFloat f) \<Rightarrow> PFloat (f32_as_f64 F (f64_as_f32 F f))
      | (Float4, PInt i) \<Rightarrow>
          PFloat (f32_as_f64 F (if I64_MIN \<le> i \<and> i \<le> I64_MAX then i64_as_f32 F i
                                else f64_as_f32 F (the (f64_parse F (show_int i)))))
      | (Float8, PInt i) \<Rightarrow>
          PFloat (if I64_MIN \<le> i \<and> i \<le> I64_MAX then i64_as_f64 F i else the (f64_parse F (show_int i)))
      | (NumericKind, PInt i) \<Rightarrow> PDecimal (show_int i)
      | (NumericKind, PFloat f) \<Rightarrow> PDecimal (normal_form (f64_show F f))
      | (NumericKind, PDecimal t) \<Rightarrow> PDecimal (normal_form t)
      | _ \<Rightarrow> v)"

text \<open>
  A value as Python makes it: text is Unicode; a date or a naive time is within the years 1 to 9999, an aware one in its own zone,
  which is less than a day from UTC.
\<close>

fun python_made :: "'o pyvalue \<Rightarrow> bool" where
  "python_made (PStr s) = is_utf8 s"
| "python_made (PUuid b) \<longleftrightarrow> length b = 16"
| "python_made (PDate ordinal) = date_ordinal ordinal"
| "python_made (PDatetime naive micros) \<longleftrightarrow>
     (if naive then datetime_micros micros
      else (- PG_EPOCH_ORDINAL) * 86400000000 < micros \<and> micros < (3652061 - PG_EPOCH_ORDINAL) * 86400000000)"
| "python_made _ = True"

text \<open>Times that can't be read back: aware ones outside those years in UTC.\<close>

fun outside_utc_years :: "'o pyvalue \<Rightarrow> bool" where
  "outside_utc_years (PDatetime naive micros) \<longleftrightarrow> \<not> naive \<and> \<not> datetime_micros micros"
| "outside_utc_years _ = False"

fun is_json :: "'o pyvalue \<Rightarrow> bool" where
  "is_json (PJson _) = True"
| "is_json _ = False"

lemma split_number_show_int: "split_number (show_int i) = (i < 0, show_nat (nat \<bar>i\<bar>), [])"
proof -
  have once: "split_once CHR ''.'' (show_nat n) = None" for n
    using show_nat_digits [of n] by (auto simp: split_once_None list_all_iff is_ascii_digit_def)
  obtain c cs where c: "show_nat (nat \<bar>i\<bar>) = c # cs" by (cases "show_nat (nat \<bar>i\<bar>)") auto
  then have "c \<noteq> CHR ''-''" using show_nat_first [OF c] by (auto simp: is_ascii_digit_def)
  with c once [of "nat \<bar>i\<bar>"] show ?thesis by (cases "i < 0") (simp_all add: split_number_def show_int_def)
qed

lemma special_sign_show_int: "special_sign (show_int i) = None"
proof -
  obtain c cs where c: "show_nat (nat \<bar>i\<bar>) = c # cs" by (cases "show_nat (nat \<bar>i\<bar>)") auto
  then have "is_ascii_digit c" by (rule show_nat_first)
  then have "c \<noteq> CHR ''N''" "c \<noteq> CHR ''I''" "c \<noteq> CHR ''i''" "c \<noteq> CHR ''-''" by (auto simp: is_ascii_digit_def)
  moreover have "show_int i = (if i < 0 then CHR ''-'' # c # cs else c # cs)" using c by (auto simp: show_int_def)
  ultimately show ?thesis by (simp add: special_sign_def)
qed

lemma trimmed_show_nat:
  "dropWhile (\<lambda>c. c = CHR ''0'') (show_nat n) = (if n = 0 then [] else show_nat n)"
proof (cases "n = 0")
  case False
  with show_nat_hd [OF False] show ?thesis by (cases "show_nat n") auto
qed (simp add: show_nat.simps [of 0])

lemma normal_form_show_int: "normal_form (show_int i) = show_int i"
proof -
  have "show_int i \<noteq> ''inf''" "show_int i \<noteq> ''-inf''" using special_sign_show_int [of i] by (auto simp: special_sign_def)
  then show ?thesis
    unfolding normal_form_def Let_def split_number_show_int prod.case
    by (simp add: special_sign_show_int trimmed_show_nat del: dropWhile_eq_Nil_conv)
       (auto simp: show_int_def show_nat.simps [of 0])
qed

subsection \<open>Reading back\<close>

text \<open>What \<open>sqlx\<close> promises: its decoders read the big-endian bytes of a value.\<close>

locale pg_wire =
  fixes F :: "('o, 'j) pg_codec"
  assumes bool [simp]: "dec_bool F [if b then 1 else 0] = Ok b"
    and int [simp]: "in_bits (8 * n) i \<Longrightarrow> n \<in> {2, 4, 8} \<Longrightarrow> dec_int F n (be_bytes n i) = Ok i"
    and f32 [simp]: "dec_f32 F (be_bytes 4 (uint x)) = Ok x"
    and f64 [simp]: "dec_f64 F (be_bytes 8 (uint y)) = Ok y"
    and str [simp]: "is_utf8 t \<Longrightarrow> dec_str F (text_bytes t) = Ok t"
begin

lemma float4_reads_back:
  "wire_float4 F index f = Ok w \<Longrightarrow> cell_value F Float4 w = Ok (PFloat (f32_as_f64 F (f64_as_f32 F f)))"
  by (auto simp: wire_float4_def cell_value_def Let_def split: if_splits)

lemma numeric_reads_back:
  "wire_numeric index t = Ok w \<Longrightarrow> cell_value F NumericKind w = Ok (PDecimal (normal_form t))"
  unfolding wire_numeric_def by (cases "numeric_encode t []") (simp_all add: decode_encoded cell_value_def)

lemma int_reads_back:
  assumes "wire_int index n i name = Ok w" and "n \<in> {2, 4, 8}"
  shows "dec_int F n w = Ok i"
  using assms by (auto simp: wire_int_def split: if_splits)

lemma value_reads_back:
  assumes v: "python_made v" and p: "param_extract F v index = Ok p" and w: "wire_value F kind p index name = Ok w"
    and "v \<noteq> PNone" and "\<not> is_json v"
  shows "cell_value F kind w = (if outside_utc_years v then Err DatetimeRange else Ok (stored F kind v))"
proof (cases v)
  case (PInt i)
  have bits: "I64_MIN \<le> i \<Longrightarrow> i \<le> I64_MAX \<Longrightarrow> in_bits 64 i" by (simp add: in_bits_def int_bounds)
  show ?thesis
  proof (cases "I64_MIN \<le> i \<and> i \<le> I64_MAX")
    case True
    with p PInt have p': "p = IntParam i" by auto
    show ?thesis
      using w True bits int_reads_back [of index _ i _ w] numeric_reads_back [of index "show_int i" w]
      unfolding p' PInt by (cases kind) (auto simp: wire_value_def cell_value_def stored_def normal_form_show_int int [where n = 8, simplified])
  next
    case False
    with p PInt have p': "p = BigInt (show_int i)" by auto
    show ?thesis
    proof (cases kind)
      case Float4
      with w p' obtain f where "f64_parse F (show_int i) = Some f" "wire_float4 F index f = Ok w"
        by (auto simp: wire_value_def big_float_def split: option.splits)
      with float4_reads_back [of index f w] Float4 False PInt show ?thesis by (auto simp: stored_def)
    next
      case Float8
      with w p' obtain f where "f64_parse F (show_int i) = Some f" "w = be_bytes 8 (uint f)"
        by (auto simp: wire_value_def big_float_def split: option.splits)
      with Float8 False PInt show ?thesis by (auto simp: stored_def cell_value_def)
    qed (use w p' PInt numeric_reads_back [of index "show_int i" w] in
      \<open>simp_all add: wire_value_def stored_def normal_form_show_int\<close>)
  qed
next
  case (PFloat f)
  with p have "p = FloatParam f" by simp
  with w PFloat float4_reads_back [of index f w] numeric_reads_back [of index "f64_show F f" w] show ?thesis
    by (cases kind) (auto simp: wire_value_def stored_def cell_value_def)
next
  case (PDecimal t)
  with p have "p = DecimalParam t" by simp
  with w PDecimal numeric_reads_back [of index t w] show ?thesis by (cases kind) (simp_all add: wire_value_def stored_def)
next
  case (PDate d)
  with p have "p = DateParam (d - PG_EPOCH_ORDINAL)" by simp
  with w PDate v int [of 4 "d - PG_EPOCH_ORDINAL"] show ?thesis
    by (cases kind) (auto simp: wire_value_def stored_def cell_value_def cell_date_def date_ordinal_def in_bits_def PG_EPOCH_ORDINAL_def)
next
  case (PDatetime naive us)
  with p have "p = (if naive then TimestampParam us else TimestampTzParam us)" by simp
  moreover have "in_bits 64 us" "us \<noteq> I64_MAX" "us \<noteq> I64_MIN"
    using v PDatetime by (auto simp: datetime_micros_def PG_EPOCH_ORDINAL_def in_bits_def int_bounds split: if_splits)
  ultimately show ?thesis using w PDatetime v int [of 8 us]
    by (cases kind; cases naive) (auto simp: wire_value_def stored_def cell_value_def cell_timestamp_def)
next
  case (PStr t)
  with p v w show ?thesis by (cases kind) (auto simp: wire_value_def stored_def cell_value_def)
next
  case (PJson j)
  with assms(5) show ?thesis by simp
next
  case (PBool b)
  with p w bool [of b] show ?thesis by (cases kind) (auto simp: wire_value_def stored_def cell_value_def)
qed (use v p w assms(4,5) in \<open>cases kind; auto simp: wire_value_def stored_def cell_value_def\<close>)+

end


subsection \<open>A codec\<close>

text \<open>
  The decoders as big-endian readers, JSON values as their own text, and floats that are only copied.
\<close>

definition be_value :: "u8 list \<Rightarrow> int" where
  "be_value bs = foldl (\<lambda>a b. a * 256 + uint b) 0 bs"

lemma be_value_bytes: "be_value (be_bytes n i) = i mod 256 ^ n"
proof (induction n arbitrary: i)
  case (Suc n)
  have "uint (of_int i :: u8) = i mod 256" unfolding unsigned_of_int take_bit_eq_mod by simp
  then have "be_value (be_bytes (Suc n) i) = i div 256 mod 256 ^ n * 256 + i mod 256"
    using Suc [of "i div 256"] by (simp add: be_value_def)
  also have "\<dots> = i mod 256 ^ Suc n" by (simp add: mod_mult2_eq' zmod_zmult2_eq)
  finally show ?case .
qed (simp add: be_value_def)

definition signed_value :: "nat \<Rightarrow> int \<Rightarrow> int" where
  "signed_value n x = (if x < 2 ^ (8 * n - 1) then x else x - 2 ^ (8 * n))"

definition plain_codec :: "(u8 list, u8 list) pg_codec" where
  "plain_codec =
     \<lparr>f64_as_f32 = (\<lambda>f. ucast f), f32_infinite = (\<lambda>_. False), f64_finite = (\<lambda>_. True), i64_as_f32 = of_int, i64_as_f64 = of_int,
      f64_parse = (\<lambda>_. None), f64_show = (\<lambda>_. ''0''), depythonize = Ok, json_show = id,
      json_decoders = Ok \<lparr>dc_fast = (\<lambda>t. Ok (PJson t)), dc_exact = (\<lambda>t. Ok (PJson t))\<rparr>,
      dec_bool = (\<lambda>bs. Ok (bs = [1])), dec_int = (\<lambda>n bs. Ok (signed_value n (be_value bs))),
      dec_f32 = (\<lambda>bs. Ok (of_int (be_value bs))), dec_f64 = (\<lambda>bs. Ok (of_int (be_value bs))),
      dec_str = (\<lambda>bs. Ok (map (\<lambda>b. char_of (unat b)) bs)), f32_as_f64 = ucast\<rparr>"

lemma signed_value_bytes:
  assumes "in_bits (8 * n) i" and "n \<in> {2, 4, 8}"
  shows "signed_value n (i mod 256 ^ n) = i"
proof -
  have pow: "(256 :: int) ^ n = 2 ^ (8 * n)" by (simp add: power_mult)
  have half: "(2 :: int) ^ (8 * n) = 2 * 2 ^ (8 * n - 1)" using assms(2) by auto
  show ?thesis
  proof (cases "0 \<le> i")
    case True
    with assms(1) half have "i mod 2 ^ (8 * n) = i" by (intro mod_pos_pos_trivial) (simp_all add: in_bits_def)
    with True assms(1) show ?thesis by (simp add: pow signed_value_def in_bits_def)
  next
    case False
    with assms(1) half have "(i + 2 ^ (8 * n)) mod 2 ^ (8 * n) = i + 2 ^ (8 * n)"
      by (intro mod_pos_pos_trivial) (simp_all add: in_bits_def)
    then have "i mod 2 ^ (8 * n) = i + 2 ^ (8 * n)" by simp
    with False assms(1) half show ?thesis by (simp add: pow signed_value_def in_bits_def)
  qed
qed

lemma text_bytes_back: "map (\<lambda>b. char_of (unat b)) (text_bytes t) = t"
proof -
  have "char_of (unat (of_nat (of_char c :: nat) :: u8)) = c" for c
    by (simp add: unat_of_nat)
  then show ?thesis by (simp add: text_bytes_def comp_def)
qed

interpretation plain: pg_wire plain_codec
proof
  show "dec_f32 plain_codec (be_bytes 4 (uint x)) = Ok x" for x :: u32
  proof -
    have "uint x mod 4294967296 = uint x" using uint_range_size [of x] by (simp add: word_size)
    then show ?thesis by (simp add: plain_codec_def be_value_bytes)
  qed
  show "dec_f64 plain_codec (be_bytes 8 (uint y)) = Ok y" for y :: u64
  proof -
    have "uint y mod 18446744073709551616 = uint y" using uint_range_size [of y] by (simp add: word_size)
    then show ?thesis by (simp add: plain_codec_def be_value_bytes)
  qed
qed (simp_all add: plain_codec_def be_value_bytes signed_value_bytes text_bytes_back)

subsection \<open>The theorem\<close>

text \<open>
  C37. A Postgres parameter and its column (\<open>PyParam::extract\<close>, \<open>to_wire\<close>, \<open>cell_to_py\<close>): a Python value other than a \<open>dict\<close> or \<open>list\<close> that is
  accepted for a parameter is read back from a column of that type as the value the type stores for
  it: the same bool, int, str, bytes, date, time or UUID, an int of any size or a Decimal as the
  same number in a \<open>numeric\<close>, a float in a \<open>float8\<close> bit for bit and narrowed in a \<open>float4\<close>; \<open>None\<close> as
  \<open>NULL\<close> and back, also through domains and enums. No value wraps around: an int that does not fit
  its type is refused. The one value that is accepted and can't be read back is an aware datetime which in UTC is outside the years 1 to 9999:
  reading it raises.
\<close>

theorem parameter_reads_back:
  assumes "pg_wire F" and "python_made v" and "\<not> is_json v" and "param_extract F v index = Ok p" and "to_wire F ty p index = Ok w"
  shows "cell_to_py F ty w = (if outside_utc_years v then Err DatetimeRange else Ok (stored F (kind_of ty) v))"
proof (cases "v = PNone")
  case True
  with assms(4,5) have "w = None" by (auto simp: to_wire_def)
  with True show ?thesis by (simp add: cell_to_py_def stored_def split: PgKind.split)
next
  case False
  with assms(3,4) have "p \<noteq> Null" by (cases v) (auto split: if_splits)
  with assms(5) obtain bs where "w = Some bs"
    "wire_value F (kind_of ty) p index (map ascii_lower (type_name ty)) = Ok bs"
    by (cases p) (auto simp: to_wire_def map_ok_eq_Inr)
  with pg_wire.value_reads_back [OF assms(1,2,4)] assms(3) False show ?thesis by (simp add: cell_to_py_def)
qed

theorem parameter_reads_back_witness:
  "\<exists>w. to_wire plain_codec (PgDomain None ''Age'' (PgSimple (Some 21) ''INT2'')) (IntParam (- 5)) 1 = Ok w \<and>
     cell_to_py plain_codec (PgDomain None ''Age'' (PgSimple (Some 21) ''INT2'')) w = Ok (PInt (- 5))"
proof -
  let ?ty = "PgDomain None ''Age'' (PgSimple (Some 21) ''INT2'')"
  have kind: "kind_of ?ty = Int2" by (simp add: from_oid_def)
  have w: "to_wire plain_codec ?ty (IntParam (- 5)) 1 = Ok (Some (be_bytes 2 (- 5)))"
    by (simp add: to_wire_def kind wire_value_def wire_int_def in_bits_def del: kind_of.simps)
  have "param_extract plain_codec (PInt (- 5)) 1 = Ok (IntParam (- 5))" by (simp add: int_bounds)
  from parameter_reads_back [OF plain.pg_wire_axioms _ _ this w] w show ?thesis
    by (auto simp: kind stored_def simp del: kind_of.simps)
qed

end
