(* ===== verification/Compression.thy ===== *)
theory Compression
  imports Response
begin

section \<open>Response compression (\<open>src/compression.rs\<close>)\<close>

text \<open>
  The settings an app may have, the negotiation with \<open>Accept-Encoding\<close>, which bodies are compressed, the
  headers of a compressed response and the pool of output buffers. The codecs (crates \<open>flate2\<close> and
  \<open>brotli\<close>) are parameters, and so is the join of a blocking task.

  The negotiation uses 32-bit floats only through \<open>max\<close> and comparisons with zero, so a float is its
  sign or \<open>NaN\<close>: the sign of the maximum is the maximum of the signs, and \<open>max\<close> ignores \<open>NaN\<close>. Reading
  one is Rust's grammar; a number rounds to zero when its magnitude is at most half the smallest
  subnormal, \<open>2 ^ - 150\<close>.
\<close>

subsection \<open>The buffer pool\<close>

definition POOL_MAX_BUF_BYTES :: nat where "POOL_MAX_BUF_BYTES = 4 * 2 ^ 20"

definition POOL_SLOTS :: nat where "POOL_SLOTS = 32"

record vec = \<comment> \<open>\<open>Vec<u8>\<close>: its bytes and its capacity\<close>
  vec_bytes :: string
  vec_capacity :: nat

type_synonym compress_pool = "vec list"

definition vec_clear :: "vec \<Rightarrow> vec" where
  "vec_clear v = v\<lparr>vec_bytes := []\<rparr>"

text \<open>\<open>Drop\<close> of a pooled buffer; \<open>push\<close> and \<open>pop\<close> work at the end.\<close>

definition pooled_drop :: "compress_pool \<Rightarrow> vec \<Rightarrow> compress_pool" where
  "pooled_drop pool v =
     (if vec_capacity v \<le> POOL_MAX_BUF_BYTES then
        (if length pool < POOL_SLOTS then pool @ [vec_clear v] else pool)
      else pool)"

definition pool_pop :: "compress_pool \<Rightarrow> nat \<Rightarrow> vec \<times> compress_pool" where
  "pool_pop pool body_len =
     (if pool = [] then (\<lparr>vec_bytes = [], vec_capacity = body_len div 2 + 64\<rparr>, [])
      else (last pool, butlast pool))"

subsection \<open>Settings\<close>

definition DEFAULT_MIN_SIZE :: nat where "DEFAULT_MIN_SIZE = 512"
definition DEFAULT_GZIP_LEVEL :: int where "DEFAULT_GZIP_LEVEL = 6"
definition DEFAULT_BROTLI_QUALITY :: int where "DEFAULT_BROTLI_QUALITY = 4"

datatype Algos = OnlyGzip | OnlyBrotli | Both

datatype SettingsError = MinSize int | GzipLevel int | BrotliQuality int | NoAlgorithm

fun algos_of :: "bool \<Rightarrow> bool \<Rightarrow> (Algos, SettingsError) result" where
  "algos_of True True = Ok Both"
| "algos_of True False = Ok OnlyGzip"
| "algos_of False True = Ok OnlyBrotli"
| "algos_of False False = Err NoAlgorithm"

definition algos_gzip :: "Algos \<Rightarrow> bool" where
  "algos_gzip a \<longleftrightarrow> a = OnlyGzip \<or> a = Both"

definition algos_brotli :: "Algos \<Rightarrow> bool" where
  "algos_brotli a \<longleftrightarrow> a = OnlyBrotli \<or> a = Both"

definition gzip_level_new :: "int \<Rightarrow> (nat, SettingsError) result" where
  "gzip_level_new level =
     (if 0 \<le> level \<and> level \<le> 255 \<and> 1 \<le> nat level \<and> nat level \<le> 9 then Ok (nat level)
      else Err (GzipLevel level))"

definition BROTLI_SLOW :: nat where "BROTLI_SLOW = 10"

definition brotli_quality_new :: "int \<Rightarrow> (nat, SettingsError) result" where
  "brotli_quality_new quality =
     (if 0 \<le> quality \<and> quality \<le> 255 \<and> nat quality \<le> 11 then Ok (nat quality)
      else Err (BrotliQuality quality))"

record Settings =
  set_min_size :: nat
  set_algos :: Algos
  set_gzip_level :: nat
  set_brotli_quality :: nat

definition settings_parse ::
    "int \<Rightarrow> bool \<Rightarrow> bool \<Rightarrow> int \<Rightarrow> int \<Rightarrow> (Settings, SettingsError) result" where
  "settings_parse min_size gzip brotli gzip_level brotli_quality =
     and_then (if 0 \<le> min_size \<and> min_size < 2 ^ 32 then Ok (nat min_size) else Err (MinSize min_size)) (\<lambda>m.
     and_then (algos_of gzip brotli) (\<lambda>a.
     and_then (gzip_level_new gzip_level) (\<lambda>g.
     map_ok (\<lambda>b. \<lparr>set_min_size = m, set_algos = a, set_gzip_level = g, set_brotli_quality = b\<rparr>)
       (brotli_quality_new brotli_quality))))"

definition py_bool :: "bool \<Rightarrow> string" where
  "py_bool b = (if b then ''True'' else ''False'')"

definition settings_repr :: "Settings \<Rightarrow> string" where
  "settings_repr s =
     ''Compression(min_size='' @ show_nat (set_min_size s) @ '', gzip='' @ py_bool (algos_gzip (set_algos s))
       @ '', brotli='' @ py_bool (algos_brotli (set_algos s)) @ '', gzip_level='' @ show_nat (set_gzip_level s)
       @ '', brotli_quality='' @ show_nat (set_brotli_quality s) @ '')''"

datatype Algo = AlgoGzip nat | AlgoBrotli nat

fun algo_header_value :: "Algo \<Rightarrow> string" where
  "algo_header_value (AlgoGzip _) = ''gzip''"
| "algo_header_value (AlgoBrotli _) = ''br''"

datatype Coding = Gzip | Brotli

fun coding_at :: "Coding \<Rightarrow> Settings \<Rightarrow> Algo" where
  "coding_at Gzip s = AlgoGzip (set_gzip_level s)"
| "coding_at Brotli s = AlgoBrotli (set_brotli_quality s)"

subsection \<open>Quality values\<close>

datatype fsign = FNaN | FNeg | FZero | FPos

fun fmax :: "fsign \<Rightarrow> fsign \<Rightarrow> fsign" where
  "fmax FNaN b = b"
| "fmax a FNaN = a"
| "fmax FPos b = FPos"
| "fmax a FPos = FPos"
| "fmax FZero b = FZero"
| "fmax a FZero = FZero"
| "fmax FNeg FNeg = FNeg"

text \<open>\<open>str::parse::<f32>\<close>: sign, then \<open>inf\<close>, \<open>infinity\<close>, \<open>nan\<close> or digits with a point and an exponent.\<close>

definition strip_sign :: "string \<Rightarrow> bool \<times> string" where
  "strip_sign s = (case s of c # cs \<Rightarrow>
     if c = CHR ''-'' then (True, cs) else if c = CHR ''+'' then (False, cs) else (False, s) | [] \<Rightarrow> (False, []))"

definition parse_exponent :: "string \<Rightarrow> int option" where
  "parse_exponent s =
     (let (neg, ds) = strip_sign s
      in if ds \<noteq> [] \<and> list_all is_ascii_digit ds
         then Some (if neg then - int (digits_val ds) else int (digits_val ds)) else None)"

definition scaled_sign :: "nat \<Rightarrow> int \<Rightarrow> fsign" where
  "scaled_sign d k =
     (if d = 0 then FZero
      else if 0 \<le> k then FPos
      else if 10 ^ nat (- k) < d * 2 ^ 150 then FPos else FZero)"

definition parse_decimal :: "string \<Rightarrow> fsign option" where
  "parse_decimal s =
     (let whole = takeWhile is_ascii_digit s;
          rest = dropWhile is_ascii_digit s;
          (frac, rest) = (case rest of c # cs \<Rightarrow>
              if c = CHR ''.'' then (takeWhile is_ascii_digit cs, dropWhile is_ascii_digit cs) else ([], rest)
            | [] \<Rightarrow> ([], []));
          ex = (case rest of
              [] \<Rightarrow> Some 0
            | c # cs \<Rightarrow> if c = CHR ''e'' \<or> c = CHR ''E'' then parse_exponent cs else None)
      in if whole = [] \<and> frac = [] then None
         else map_option (\<lambda>e. scaled_sign (digits_val (whole @ frac)) (e - int (length frac))) ex)"

fun fneg :: "fsign \<Rightarrow> fsign" where
  "fneg FPos = FNeg"
| "fneg FNeg = FPos"
| "fneg x = x"

definition parse_f32 :: "string \<Rightarrow> fsign option" where
  "parse_f32 s =
     (let (neg, body) = strip_sign s;
          v = (if eq_ignore_ascii_case body ''inf'' \<or> eq_ignore_ascii_case body ''infinity'' then Some FPos
               else if eq_ignore_ascii_case body ''nan'' then Some FNaN
               else parse_decimal body)
      in map_option (if neg then fneg else (\<lambda>x. x)) v)"

subsection \<open>Negotiation\<close>

definition strip_prefix_ignore_ascii_case :: "string \<Rightarrow> string \<Rightarrow> string option" where
  "strip_prefix_ignore_ascii_case s prefix =
     (if length s < length prefix then None
      else if eq_ignore_ascii_case (take (length prefix) s) prefix then Some (drop (length prefix) s) else None)"

text \<open>The first \<open>q=\<close> of the parameters.\<close>

fun param_q :: "string list \<Rightarrow> fsign" where
  "param_q [] = FPos"
| "param_q (param # ps) =
     (case strip_prefix_ignore_ascii_case (trim param) ''q='' of
        Some v \<Rightarrow> (case parse_f32 (trim v) of Some q \<Rightarrow> q | None \<Rightarrow> FZero)
      | None \<Rightarrow> param_q ps)"

definition offer :: "string \<Rightarrow> (string \<times> fsign) option" where
  "offer raw =
     (let part = trim raw
      in if part = [] then None
         else Some (case split_once CHR '';'' part of
                Some (n, rest) \<Rightarrow> (trim n, param_q (split_on (\<lambda>c. c = CHR '';'') rest))
              | None \<Rightarrow> (part, FPos)))"

record q_state =
  br_q :: fsign
  gz_q :: fsign
  star_q :: fsign

definition is_br :: "string \<Rightarrow> bool" where
  "is_br name \<longleftrightarrow> eq_ignore_ascii_case name ''br''"

definition is_gzip :: "string \<Rightarrow> bool" where
  "is_gzip name \<longleftrightarrow> eq_ignore_ascii_case name ''gzip'' \<or> eq_ignore_ascii_case name ''x-gzip''"

definition take_offer :: "q_state \<Rightarrow> string \<Rightarrow> q_state" where
  "take_offer st raw =
     (case offer raw of
        None \<Rightarrow> st
      | Some (name, q) \<Rightarrow>
          if is_br name then st\<lparr>br_q := fmax (br_q st) q\<rparr>
          else if is_gzip name then st\<lparr>gz_q := fmax (gz_q st) q\<rparr>
          else if name = ''*'' then st\<lparr>star_q := fmax (star_q st) q\<rparr>
          else st)"

definition negotiate :: "string \<Rightarrow> Algos \<Rightarrow> Coding option" where
  "negotiate accept_encoding allowed =
     (let st = foldl take_offer \<lparr>br_q = FNeg, gz_q = FNeg, star_q = FNeg\<rparr>
                 (split_on (\<lambda>c. c = CHR '','') accept_encoding);
          br = (if br_q st = FNeg then star_q st else br_q st);
          gz = (if gz_q st = FNeg then star_q st else gz_q st)
      in if algos_brotli allowed \<and> br = FPos then Some Brotli
         else if algos_gzip allowed \<and> gz = FPos then Some Gzip
         else None)"

definition is_compressible :: "string \<Rightarrow> bool" where
  "is_compressible content_type =
     (let ct = trim (hd (split_on (\<lambda>c. c = CHR '';'') content_type))
      in (case strip_prefix_ignore_ascii_case ct ''text/'' of Some sub \<Rightarrow> sub \<noteq> [] | None \<Rightarrow> False)
         \<or> ct \<in> {''application/json'', ''application/javascript'', ''application/xml'', ''application/xhtml+xml'',
              ''application/rss+xml'', ''application/atom+xml'', ''application/x-javascript'',
              ''application/ld+json'', ''application/manifest+json'', ''image/svg+xml''})"

subsection \<open>Headers\<close>

definition names_accept_encoding :: "'h http_api \<Rightarrow> string \<Rightarrow> bool" where
  "names_accept_encoding H vary =
     (case hv_to_str H vary of
        None \<Rightarrow> False
      | Some v \<Rightarrow> list_ex (\<lambda>token. eq_ignore_ascii_case (trim token) ''accept-encoding'')
                    (split_on (\<lambda>c. c = CHR '','') v))"

definition trim_end_commas :: "string \<Rightarrow> string" where
  "trim_end_commas s = rev (dropWhile (\<lambda>c. c = CHR '','') (rev s))"

definition merged_vary :: "'h http_api \<Rightarrow> string list \<Rightarrow> string option" where
  "merged_vary H lines =
     (case lines of
        [only] \<Rightarrow> Option.bind (hv_to_str H only)
          (\<lambda>v. hv_from_str H (trim_end (trim_end_commas (trim_end v)) @ '', Accept-Encoding''))
      | _ \<Rightarrow> None)"

definition set_compression_headers :: "'h http_api \<Rightarrow> 'h \<Rightarrow> string \<Rightarrow> 'h" where
  "set_compression_headers H headers encoding =
     (let headers = hm_remove H (hm_insert H headers CONTENT_ENCODING encoding) CONTENT_LENGTH
      in if list_ex (names_accept_encoding H) (hm_get_all H headers VARY) then headers
         else case merged_vary H (hm_get_all H headers VARY) of
                Some vary \<Rightarrow> hm_insert H headers VARY vary
              | None \<Rightarrow> hm_append H headers VARY ''Accept-Encoding'')"

subsection \<open>Compressing a response\<close>

definition INLINE_MAX_BYTES :: nat where "INLINE_MAX_BYTES = 16 * 1024"

record Job =
  job_body :: string
  job_algo :: Algo

definition runs_inline :: "Job \<Rightarrow> bool" where
  "runs_inline job \<longleftrightarrow>
     length (job_body job) < INLINE_MAX_BYTES \<and>
     \<not> (case job_algo job of AlgoBrotli q \<Rightarrow> BROTLI_SLOW \<le> q | AlgoGzip _ \<Rightarrow> False)"

text \<open>The codecs: what they write, and the capacity the output buffer is left with.\<close>

record codecs =
  cd_gzip :: "nat \<Rightarrow> string \<Rightarrow> (string, string) result"
  cd_brotli :: "nat \<Rightarrow> string \<Rightarrow> (string, string) result"
  cd_capacity :: "nat \<Rightarrow> Algo \<Rightarrow> string \<Rightarrow> nat"

fun run_codec :: "codecs \<Rightarrow> Algo \<Rightarrow> string \<Rightarrow> (string, string) result" where
  "run_codec C (AlgoGzip level) body = cd_gzip C level body"
| "run_codec C (AlgoBrotli quality) body = cd_brotli C quality body"

text \<open>
  The output, which owns its buffer until the response is sent, or \<open>None\<close>, and then the buffer went back
  to the pool.
\<close>

definition job_run :: "codecs \<Rightarrow> compress_pool \<Rightarrow> Job \<Rightarrow> vec option \<times> compress_pool" where
  "job_run C pool job =
     (let (v, pool) = pool_pop pool (length (job_body job));
          v = vec_clear v;
          cap = cd_capacity C (vec_capacity v) (job_algo job) (job_body job)
      in case run_codec C (job_algo job) (job_body job) of
           Inr out \<Rightarrow>
             (let v = \<lparr>vec_bytes = out, vec_capacity = cap\<rparr>
              in if length out < length (job_body job) then (Some v, pool) else (None, pooled_drop pool v))
         | Inl e \<Rightarrow> (None, pooled_drop pool \<lparr>vec_bytes = [], vec_capacity = cap\<rparr>))"

definition plan :: "'h http_api \<Rightarrow> 'h ResponseData \<Rightarrow> string \<Rightarrow> Settings \<Rightarrow> Job option" where
  "plan H data accept_encoding settings =
     (if accept_encoding = [] \<or> hm_contains_key H (rd_headers data) CONTENT_ENCODING then None
      else if length (rd_body data) < set_min_size settings then None
      else
        (case (case Option.bind (hm_get H (rd_headers data) CONTENT_TYPE) (hv_to_str H) of
                 Some ct \<Rightarrow> Some ct | None \<Rightarrow> hv_to_str H (rd_content_type data)) of
           None \<Rightarrow> None
         | Some ct \<Rightarrow>
             if \<not> is_compressible ct then None
             else map_option (\<lambda>coding. \<lparr>job_body = rd_body data, job_algo = coding_at coding settings\<rparr>)
                    (negotiate accept_encoding (set_algos settings))))"

definition compression_apply :: "'h http_api \<Rightarrow> 'h ResponseData \<Rightarrow> string \<Rightarrow> Algo \<Rightarrow> 'h ResponseData" where
  "compression_apply H data compressed algo =
     data\<lparr>rd_body := compressed,
          rd_headers := set_compression_headers H (rd_headers data) (algo_header_value algo)\<rparr>"

text \<open>
  \<open>off_the_worker\<close>, with whether the blocking task finished; one that did not leaves its buffer to the
  allocator.
\<close>

definition off_the_worker :: "codecs \<Rightarrow> bool \<Rightarrow> compress_pool \<Rightarrow> Job \<Rightarrow> vec option \<times> compress_pool" where
  "off_the_worker C finished pool job =
     (if finished then job_run C pool job
      else (None, snd (pool_pop pool (length (job_body job)))))"

definition compress ::
    "'h http_api \<Rightarrow> codecs \<Rightarrow> bool \<Rightarrow> compress_pool \<Rightarrow> 'h ResponseData \<Rightarrow> string \<Rightarrow> Settings option \<Rightarrow>
     'h ResponseData \<times> compress_pool" where
  "compress H C finished pool data accept_encoding settings =
     (case Option.bind settings (plan H data accept_encoding) of
        None \<Rightarrow> (data, pool)
      | Some job \<Rightarrow>
          (let (out, pool) = (if runs_inline job then job_run C pool job else off_the_worker C finished pool job)
           in case out of
                Some v \<Rightarrow> (compression_apply H data (vec_bytes v) (job_algo job), pool)
              | None \<Rightarrow> (data, pool)))"

subsection \<open>Which coding is chosen\<close>

text \<open>
  What the client offers for the codings of a class of names, and whether it accepts them: a positive
  quality, or no usable entry of their own and a positive wildcard. An entry with quality zero, or one
  that does not parse, is a refusal the wildcard does not override.
\<close>

definition offers :: "string \<Rightarrow> (string \<times> fsign) list" where
  "offers accept_encoding = List.map_filter offer (split_on (\<lambda>c. c = CHR '','') accept_encoding)"

definition qualities :: "(string \<Rightarrow> bool) \<Rightarrow> (string \<times> fsign) list \<Rightarrow> fsign list" where
  "qualities names os = map snd (filter (\<lambda>(n, q). names n) os)"

definition accepts :: "(string \<Rightarrow> bool) \<Rightarrow> string \<Rightarrow> bool" where
  "accepts names accept_encoding \<longleftrightarrow>
     FPos \<in> set (qualities names (offers accept_encoding)) \<or>
     FZero \<notin> set (qualities names (offers accept_encoding)) \<and>
     FPos \<in> set (qualities (\<lambda>n. n = ''*'') (offers accept_encoding))"

lemma lower_names [simp]:
  "to_ascii_lowercase ''br'' = ''br''" "to_ascii_lowercase ''gzip'' = ''gzip''"
  "to_ascii_lowercase ''x-gzip'' = ''x-gzip''" "to_ascii_lowercase ''*'' = ''*''"
  "to_ascii_lowercase ''accept-encoding'' = ''accept-encoding''"
  by (simp_all add: ascii_defs)

lemma names_exclusive:
  "is_gzip n \<Longrightarrow> \<not> is_br n" "\<not> is_br ''*''" "\<not> is_gzip ''*''"
  by (auto simp: is_gzip_def is_br_def eq_ignore_ascii_case_def)

lemma foldl_fmax:
  "foldl fmax a qs =
     (if FPos \<in> set (a # qs) then FPos else if FZero \<in> set (a # qs) then FZero
      else if FNeg \<in> set (a # qs) then FNeg else FNaN)"
proof (induction qs arbitrary: a)
  case Nil
  then show ?case by (cases a) auto
next
  case (Cons q qs)
  then show ?case by (cases a; cases q) auto
qed

lemma foldl_take_offer:
  "foldl take_offer st raws =
     (let os = List.map_filter offer raws
      in \<lparr>br_q = foldl fmax (br_q st) (qualities is_br os),
          gz_q = foldl fmax (gz_q st) (qualities is_gzip os),
          star_q = foldl fmax (star_q st) (qualities (\<lambda>n. n = ''*'') os)\<rparr>)"
proof (induction raws arbitrary: st)
  case Nil
  then show ?case by (simp add: qualities_def map_filter_simps)
next
  case (Cons raw raws)
  then show ?case
    using names_exclusive
    by (auto simp: take_offer_def qualities_def map_filter_simps Let_def split: option.splits)
qed

text \<open>
  The coding chosen is brotli when the app allows it and the client accepts it, else gzip when the
  app allows it and the client accepts it, else none; a coding the client refuses by name is never
  chosen for the wildcard's sake.
\<close>

lemma negotiate_iff:
  "negotiate accept_encoding allowed =
     (if algos_brotli allowed \<and> accepts is_br accept_encoding then Some Brotli
      else if algos_gzip allowed \<and> accepts is_gzip accept_encoding then Some Gzip
      else None)"
  by (simp add: negotiate_def foldl_take_offer offers_def [symmetric] foldl_fmax accepts_def Let_def)

text \<open>Whether the client's header accepts a coding, and whether the app allows it.\<close>

fun client_accepts :: "string \<Rightarrow> Coding \<Rightarrow> bool" where
  "client_accepts accept_encoding Brotli = accepts is_br accept_encoding"
| "client_accepts accept_encoding Gzip = accepts is_gzip accept_encoding"

fun app_allows :: "Algos \<Rightarrow> Coding \<Rightarrow> bool" where
  "app_allows algos Brotli = algos_brotli algos"
| "app_allows algos Gzip = algos_gzip algos"

lemma negotiated:
  assumes "negotiate accept_encoding allowed = Some coding"
  shows "app_allows allowed coding \<and> client_accepts accept_encoding coding \<and>
     (coding = Brotli \<or> \<not> (app_allows allowed Brotli \<and> client_accepts accept_encoding Brotli))"
  using assms by (auto simp: negotiate_iff split: if_splits)

subsection \<open>What a compressed response carries\<close>

lemma trim_accept: "eq_ignore_ascii_case (trim '' Accept-Encoding'') ''accept-encoding''"
  "eq_ignore_ascii_case (trim ''Accept-Encoding'') ''accept-encoding''"
  by (simp_all add: trim_def trim_end_def is_space_def ascii_defs char_of_def bit_0)

context http_crate
begin

lemma names_accept_own: "names_accept_encoding H ''Accept-Encoding''"
  using trim_accept(2) by (simp add: names_accept_encoding_def to_str_iff visible_ascii_def)

lemma merged_vary_names: "merged_vary H lines = Some v \<Longrightarrow> names_accept_encoding H v"
proof -
  assume "merged_vary H lines = Some v"
  then obtain only t where t: "hv_to_str H only = Some t"
    and v: "hv_from_str H (trim_end (trim_end_commas (trim_end t)) @ '', Accept-Encoding'') = Some v"
    by (auto simp: merged_vary_def bind_eq_Some_conv split: list.splits)
  let ?t = "trim_end (trim_end_commas (trim_end t))"
  have v': "v = ?t @ '', Accept-Encoding''" using from_str_same [OF v] .
  have "set (trim_end s) \<subseteq> set s" for s using set_dropWhileD by (fastforce simp: trim_end_def)
  moreover have "set (trim_end_commas s) \<subseteq> set s" for s using set_dropWhileD by (fastforce simp: trim_end_commas_def)
  ultimately have "set ?t \<subseteq> set t" by blast
  moreover from t have "list_all visible_ascii t" by (simp add: to_str_Some)
  ultimately have vis: "list_all visible_ascii v"
    unfolding v' by (auto simp: list_all_iff visible_ascii_def)
  have "split_on (\<lambda>c. c = CHR '','') v = split_on (\<lambda>c. c = CHR '','') ?t @ ['' Accept-Encoding'']"
    unfolding v' using split_on_append [of "\<lambda>c. c = CHR '',''" "CHR '',''" ?t "'' Accept-Encoding''"]
    by simp
  then show "names_accept_encoding H v"
    using vis trim_accept(1) by (simp add: names_accept_encoding_def to_str_iff)
qed

lemma set_compression_headers_lines:
  "hm_get_all H (set_compression_headers H h enc) CONTENT_ENCODING = [enc]"
  "hm_get_all H (set_compression_headers H h enc) CONTENT_LENGTH = []"
  "\<exists>v \<in> set (hm_get_all H (set_compression_headers H h enc) VARY). names_accept_encoding H v"
  "n \<notin> {CONTENT_ENCODING, CONTENT_LENGTH, VARY} \<Longrightarrow>
     hm_get_all H (set_compression_headers H h enc) n = hm_get_all H h n"
  using merged_vary_names [of "hm_get_all H h VARY"] names_accept_own
  by (auto simp: set_compression_headers_def Let_def list_ex_iff split: option.splits)

end


subsection \<open>The pool's memory\<close>

definition pool_inv :: "compress_pool \<Rightarrow> bool" where
  "pool_inv pool \<longleftrightarrow>
     length pool \<le> POOL_SLOTS \<and> (\<forall>v \<in> set pool. vec_bytes v = [] \<and> vec_capacity v \<le> POOL_MAX_BUF_BYTES)"

lemma pool_inv_drop: "pool_inv pool \<Longrightarrow> pool_inv (pooled_drop pool v)"
  by (auto simp: pool_inv_def pooled_drop_def vec_clear_def)

lemma pool_inv_pop: "pool_inv pool \<Longrightarrow> pool_inv (snd (pool_pop pool n))"
  by (auto simp: pool_inv_def pool_pop_def dest: in_set_butlastD)

text \<open>
  Whatever responses are compressed, and whenever their buffers come back, the pool keeps at most 32
  empty buffers of at most 4 MiB each.
\<close>

theorem compress_pool_bounded:
  assumes "pool_inv pool"
  shows "pool_inv (snd (compress H C finished pool data accept_encoding settings)) \<and>
         pool_inv (pooled_drop pool v) \<and>
         sum_list (map vec_capacity pool) \<le> 128 * 2 ^ 20"
proof -
  have "sum_list (map vec_capacity pool) \<le> length pool * POOL_MAX_BUF_BYTES"
    using assms sum_list_mono [of pool vec_capacity "\<lambda>_. POOL_MAX_BUF_BYTES"]
    by (simp add: pool_inv_def sum_list_triv)
  also have "\<dots> \<le> POOL_SLOTS * POOL_MAX_BUF_BYTES" using assms by (simp add: pool_inv_def)
  finally have "sum_list (map vec_capacity pool) \<le> 128 * 2 ^ 20"
    by (simp add: POOL_SLOTS_def POOL_MAX_BUF_BYTES_def)
  moreover have "pool_inv (snd (job_run C pool job))" "pool_inv (snd (off_the_worker C finished pool job))" for job
    using pool_inv_pop [OF assms, of "length (job_body job)"]
    by (auto simp: job_run_def off_the_worker_def Let_def case_prod_unfold pool_inv_drop split: sum.splits)
  ultimately show ?thesis
    using assms pool_inv_drop [OF assms]
    by (auto simp: compress_def Let_def case_prod_unfold split: option.splits)
qed

subsection \<open>Witnesses\<close>

definition demo_codecs :: codecs where
  "demo_codecs = \<lparr>cd_gzip = (\<lambda>_ s. Ok ''z''), cd_brotli = (\<lambda>_ s. Err ''no''), cd_capacity = (\<lambda>c _ _. c)\<rparr>"

definition demo_settings :: Settings where
  "demo_settings = \<lparr>set_min_size = 2, set_algos = OnlyGzip, set_gzip_level = 6, set_brotli_quality = 4\<rparr>"

definition demo_data :: "(string \<times> string) list ResponseData" where
  "demo_data = \<lparr>rd_body = ''hello'', rd_content_type = ''text/html'', rd_status = 200, rd_headers = []\<rparr>"

lemma demo_compress:
  "fst (compress line_headers demo_codecs True [] demo_data ''gzip'' (Some demo_settings)) =
     demo_data\<lparr>rd_body := ''z'', rd_headers := [(''content-encoding'', ''gzip''), (''vary'', ''Accept-Encoding'')]\<rparr>"
proof -
  have "negotiate ''gzip'' OnlyGzip = Some Gzip"
    unfolding negotiate_def take_offer_def offer_def
    by (simp add: is_br_def is_gzip_def eq_ignore_ascii_case_def trim_def trim_end_def is_space_def
        algos_brotli_def algos_gzip_def ascii_defs char_of_def bit_0)
  moreover have "is_compressible ''text/html''"
    by (simp add: is_compressible_def strip_prefix_ignore_ascii_case_def trim_def trim_end_def is_space_def
        ascii_defs)
  ultimately show ?thesis
    by (simp add: compress_def plan_def demo_data_def demo_settings_def line_headers_def lines_all_def
        visible_ascii_def runs_inline_def INLINE_MAX_BYTES_def job_run_def pool_pop_def demo_codecs_def
        compression_apply_def set_compression_headers_def merged_vary_def header_name_defs)
qed


theorem compress_pool_bounded_witness:
  "pool_inv (snd (compress line_headers demo_codecs True [\<lparr>vec_bytes = [], vec_capacity = 64\<rparr>] demo_data ''gzip''
     (Some demo_settings)))"
proof -
  have "pool_inv [\<lparr>vec_bytes = [], vec_capacity = 64\<rparr>]"
    by (simp add: pool_inv_def POOL_SLOTS_def POOL_MAX_BUF_BYTES_def)
  from compress_pool_bounded [OF this] show ?thesis by blast
qed

end
