(* ===== verification/WebSocket.thy ===== *)
theory WebSocket
  imports Request
begin

section \<open>WebSocket connections (\<open>src/websocket.rs\<close>)\<close>

text \<open>
  The limits, the connection slots, the byte budget of each direction, the two queues of a connection
  and the opening handshake. A message's share of the budget is \<open>u32\<close> arithmetic, kept as words; the
  semaphore (Tokio's) is a parameter. The pump moves messages between the socket and the queues:
  \<open>forward\<close> is its reading arm, which waits while the budget is spent, and \<open>pump_send\<close> its writing arm, which ends
  the pump when a send fails.

  The results: never more connections open than the limit, under any order of acquisitions and
  releases; in each direction the queued messages hold exactly what the semaphore lacks, so an allowed
  message fits an empty queue; the handler gets the client's messages in order, each once, whatever
  mixture of typed and untyped receives it uses; and the handshake accepts exactly what RFC 6455 asks.
\<close>

subsection \<open>Limits\<close>

definition DEFAULT_MAX_MESSAGE_BYTES :: nat where "DEFAULT_MAX_MESSAGE_BYTES = 1024 * 1024"
definition DEFAULT_MAX_CONNECTIONS :: nat where "DEFAULT_MAX_CONNECTIONS = 1024"
definition MESSAGE_OVERHEAD_BYTES :: nat where "MESSAGE_OVERHEAD_BYTES = 64"
definition MAX_MESSAGE_BYTES_LIMIT :: nat where "MAX_MESSAGE_BYTES_LIMIT = 2 ^ 32 - 1 - MESSAGE_OVERHEAD_BYTES"

record WsLimits =
  ws_max_message_bytes :: nat
  ws_max_connections :: nat

datatype WsLimitError = MessageSize int | Connections int

definition ws_limits_default :: WsLimits where
  "ws_limits_default =
     \<lparr>ws_max_message_bytes = DEFAULT_MAX_MESSAGE_BYTES, ws_max_connections = DEFAULT_MAX_CONNECTIONS\<rparr>"

definition with_max_message_bytes :: "WsLimits \<Rightarrow> int \<Rightarrow> (WsLimits, WsLimitError) result" where
  "with_max_message_bytes l bytes =
     (if 0 \<le> bytes \<and> bytes < 2 ^ 32 \<and> 1 \<le> nat bytes \<and> nat bytes \<le> MAX_MESSAGE_BYTES_LIMIT
      then Ok (l\<lparr>ws_max_message_bytes := nat bytes\<rparr>) else Err (MessageSize bytes))"

definition with_max_connections :: "WsLimits \<Rightarrow> int \<Rightarrow> (WsLimits, WsLimitError) result" where
  "with_max_connections l connections =
     (if 0 \<le> connections \<and> 1 \<le> nat connections
      then Ok (l\<lparr>ws_max_connections := nat connections\<rparr>) else Err (Connections connections))"

definition tungstenite_config :: "WsLimits \<Rightarrow> nat option \<times> nat option" where
  "tungstenite_config l = (Some (ws_max_message_bytes l), Some (ws_max_message_bytes l))"

subsection \<open>Connection slots\<close>

text \<open>The counter of open connections: the atomic update and the release on drop.\<close>

definition slot_try_acquire :: "nat \<Rightarrow> nat \<Rightarrow> nat option" where
  "slot_try_acquire opened max_connections = (if opened < max_connections then Some (opened + 1) else None)"

definition slot_drop :: "nat \<Rightarrow> nat" where
  "slot_drop opened = (opened + (2 ^ 64 - 1)) mod 2 ^ 64"

text \<open>Any order of acquisitions, refused or not, and releases: the counter and the slots held.\<close>

inductive slots_reachable :: "nat \<Rightarrow> nat \<Rightarrow> nat \<Rightarrow> bool" for max_connections where
  slots_init: "slots_reachable max_connections 0 0"
| slots_acquire: "slots_reachable max_connections opened held \<Longrightarrow>
    slot_try_acquire opened max_connections = Some opened' \<Longrightarrow> slots_reachable max_connections opened' (Suc held)"
| slots_refuse: "slots_reachable max_connections opened held \<Longrightarrow>
    slot_try_acquire opened max_connections = None \<Longrightarrow> slots_reachable max_connections opened held"
| slots_release: "slots_reachable max_connections opened (Suc held) \<Longrightarrow>
    slots_reachable max_connections (slot_drop opened) held"

subsection \<open>Messages and the byte budget\<close>

datatype WsMsg = WsText string | WsBinary string

fun msg_kind :: "WsMsg \<Rightarrow> string" where
  "msg_kind (WsText _) = ''text''"
| "msg_kind (WsBinary _) = ''binary''"

fun msg_len :: "WsMsg \<Rightarrow> nat" where
  "msg_len (WsText s) = length s"
| "msg_len (WsBinary b) = length b"

fun into_text :: "WsMsg \<Rightarrow> (string, WsMsg) result" where
  "into_text (WsText s) = Ok s"
| "into_text other = Err other"

fun into_binary :: "WsMsg \<Rightarrow> (string, WsMsg) result" where
  "into_binary (WsBinary b) = Ok b"
| "into_binary other = Err other"

definition budget_new :: "'s sem_api \<Rightarrow> u32 \<Rightarrow> 's" where
  "budget_new S max_message_bytes = sem_new S (unat (max_message_bytes + of_nat MESSAGE_OVERHEAD_BYTES))"

definition budget_cost :: "nat \<Rightarrow> u32" where
  "budget_cost len = of_nat len + of_nat MESSAGE_OVERHEAD_BYTES"

text \<open>\<open>try_reserve\<close>, and \<open>reserve\<close> once it does not wait: the share is taken.\<close>

definition budget_reserve :: "'s sem_api \<Rightarrow> 's \<Rightarrow> nat \<Rightarrow> 's option" where
  "budget_reserve S sem len = sem_try_acquire S sem (unat (budget_cost len))"

definition budget_release :: "'s sem_api \<Rightarrow> 's \<Rightarrow> nat \<Rightarrow> 's" where
  "budget_release S sem len = sem_release S sem (unat (budget_cost len))"

subsection \<open>What the handler receives\<close>

record 's Inbox =
  ib_rx :: "WsMsg list"
  ib_held :: "WsMsg option"
  ib_budget :: 's

record KindMismatch =
  km_method :: string
  km_got :: string
  km_len :: nat

text \<open>
  \<open>blocking_recv\<close> on a queue that is empty returns once the sender is dropped: \<open>None\<close>. Taking a message
  off the queue drops its share of the budget.
\<close>

definition inbox_recv :: "'s sem_api \<Rightarrow> 's Inbox \<Rightarrow> WsMsg option \<times> 's Inbox" where
  "inbox_recv S ib =
     (case ib_held ib of
        Some m \<Rightarrow> (Some m, ib\<lparr>ib_held := None\<rparr>)
      | None \<Rightarrow>
          (case ib_rx ib of
             [] \<Rightarrow> (None, ib)
           | m # ms \<Rightarrow> (Some m, ib\<lparr>ib_rx := ms, ib_budget := budget_release S (ib_budget ib) (msg_len m)\<rparr>)))"

definition next_as ::
    "'s sem_api \<Rightarrow> string \<Rightarrow> (WsMsg \<Rightarrow> ('a, WsMsg) result) \<Rightarrow> 's Inbox \<Rightarrow>
     ('a option, KindMismatch) result \<times> 's Inbox" where
  "next_as S meth extract ib =
     (case inbox_recv S ib of
        (None, ib) \<Rightarrow> (Ok None, ib)
      | (Some msg, ib) \<Rightarrow>
          (case extract msg of
             Inr v \<Rightarrow> (Ok (Some v), ib)
           | Inl msg \<Rightarrow> (Err \<lparr>km_method = meth, km_got = msg_kind msg, km_len = msg_len msg\<rparr>,
                         ib\<lparr>ib_held := Some msg\<rparr>)))"

definition recv_message :: "'s sem_api \<Rightarrow> 's Inbox \<Rightarrow> (WsMsg option, KindMismatch) result \<times> 's Inbox" where
  "recv_message S = next_as S ''recv_message'' (\<lambda>m. Ok m)"

definition recv_text :: "'s sem_api \<Rightarrow> 's Inbox \<Rightarrow> (string option, KindMismatch) result \<times> 's Inbox" where
  "recv_text S = next_as S ''recv'' into_text"

definition recv_bytes :: "'s sem_api \<Rightarrow> 's Inbox \<Rightarrow> (string option, KindMismatch) result \<times> 's Inbox" where
  "recv_bytes S = next_as S ''recv_bytes'' into_binary"

text \<open>\<open>forward\<close>: \<open>None\<close> while it waits for the budget.\<close>

definition forward :: "'s sem_api \<Rightarrow> 's Inbox \<Rightarrow> WsMsg \<Rightarrow> 's Inbox option" where
  "forward S ib msg =
     map_option (\<lambda>sem. ib\<lparr>ib_rx := ib_rx ib @ [msg], ib_budget := sem\<rparr>)
       (budget_reserve S (ib_budget ib) (msg_len msg))"

subsection \<open>What the handler sends\<close>

record 's Outbox =
  ob_queue :: "WsMsg list"
  ob_peer :: bool \<comment> \<open>whether the pump still has the receiver\<close>
  ob_budget :: 's
  ob_max_message_bytes :: nat

datatype PushError = MessageTooBig string nat nat | BufferFull | ConnectionClosed

definition outbox_push :: "'s sem_api \<Rightarrow> 's Outbox \<Rightarrow> WsMsg \<Rightarrow> (unit, PushError) result \<times> 's Outbox" where
  "outbox_push S ob msg =
     (if ob_max_message_bytes ob < msg_len msg
      then (Err (MessageTooBig (msg_kind msg) (msg_len msg) (ob_max_message_bytes ob)), ob)
      else case budget_reserve S (ob_budget ob) (msg_len msg) of
             None \<Rightarrow> (Err BufferFull, ob)
           | Some sem \<Rightarrow>
               if ob_peer ob then (Ok (), ob\<lparr>ob_queue := ob_queue ob @ [msg], ob_budget := sem\<rparr>)
               else (Err ConnectionClosed, ob\<lparr>ob_budget := budget_release S sem (msg_len msg)\<rparr>))"

text \<open>\<open>PyronovaWebSocket::push\<close>: \<open>close()\<close> leaves no outbox.\<close>

definition ws_push :: "'s sem_api \<Rightarrow> 's Outbox option \<Rightarrow> WsMsg \<Rightarrow> (unit, PushError) result \<times> 's Outbox option" where
  "ws_push S outbox msg =
     (case outbox of
        None \<Rightarrow> (Err ConnectionClosed, None)
      | Some ob \<Rightarrow> (let (r, ob) = outbox_push S ob msg in (r, Some ob)))"

text \<open>
  The pump's writing arm, with whether the socket took the message: on the wire (\<open>Ok\<close>), or lost, which ends the pump (\<open>Err\<close>). Either way its
  share is released.
\<close>

definition pump_send :: "'s sem_api \<Rightarrow> bool \<Rightarrow> 's Outbox \<Rightarrow> ((WsMsg, WsMsg) result \<times> 's Outbox) option" where
  "pump_send S sent ob =
     (case ob_queue ob of
        [] \<Rightarrow> None
      | m # ms \<Rightarrow>
          Some (if sent then Ok m else Err m, ob\<lparr>ob_queue := ms, ob_budget := budget_release S (ob_budget ob) (msg_len m)\<rparr>))"

text \<open>The end of \<open>run_ws_connection\<close>: the receiver is dropped with what is queued, whose shares are released.\<close>

definition drop_outgoing :: "'s sem_api \<Rightarrow> 's Outbox \<Rightarrow> 's Outbox" where
  "drop_outgoing S ob =
     ob\<lparr>ob_queue := [], ob_peer := False, ob_budget := fold (\<lambda>m sem. budget_release S sem (msg_len m)) (ob_queue ob) (ob_budget ob)\<rparr>"

definition connection_channels :: "'s sem_api \<Rightarrow> WsLimits \<Rightarrow> 's Inbox \<times> 's Outbox" where
  "connection_channels S l =
     (\<lparr>ib_rx = [], ib_held = None, ib_budget = budget_new S (of_nat (ws_max_message_bytes l))\<rparr>,
      \<lparr>ob_queue = [], ob_peer = True, ob_budget = budget_new S (of_nat (ws_max_message_bytes l)),
       ob_max_message_bytes = ws_max_message_bytes l\<rparr>)"

subsection \<open>The opening handshake\<close>

definition WS_VERSION :: string where "WS_VERSION = ''13''"
definition UPGRADE :: string where "UPGRADE = ''upgrade''"
definition SEC_WEBSOCKET_VERSION :: string where "SEC_WEBSOCKET_VERSION = ''sec-websocket-version''"
definition SEC_WEBSOCKET_KEY :: string where "SEC_WEBSOCKET_KEY = ''sec-websocket-key''"
definition SEC_WEBSOCKET_ACCEPT :: string where "SEC_WEBSOCKET_ACCEPT = ''sec-websocket-accept''"

datatype HandshakeError =
    HttpVersion string
  | BadMethod string
  | NoConnectionUpgrade
  | MissingKey
  | WsVersion

definition connection_upgrade :: "'h http_api \<Rightarrow> 'h \<Rightarrow> bool" where
  "connection_upgrade H headers \<longleftrightarrow>
     list_ex (\<lambda>token. eq_ignore_ascii_case (trim_ascii token) ''upgrade'')
       (concat (map (split_on (\<lambda>b. b = CHR '','')) (hm_get_all H headers CONNECTION)))"

definition handshake_parse :: "'h http_api \<Rightarrow> 'h Parts \<Rightarrow> (string, HandshakeError) result" where
  "handshake_parse H parts =
     (if pt_version parts \<noteq> ''HTTP/1.1'' then Err (HttpVersion (pt_version parts))
      else if pt_method parts \<noteq> ''GET'' then Err (BadMethod (pt_method parts))
      else if \<not> connection_upgrade H (pt_headers parts) then Err NoConnectionUpgrade
      else if (case hm_get H (pt_headers parts) SEC_WEBSOCKET_VERSION of None \<Rightarrow> True | Some v \<Rightarrow> v \<noteq> WS_VERSION)
        then Err WsVersion
      else case hm_get H (pt_headers parts) SEC_WEBSOCKET_KEY of
             Some key \<Rightarrow> if key = [] then Err MissingKey else Ok key
           | None \<Rightarrow> Err MissingKey)"

fun handshake_error_text :: "HandshakeError \<Rightarrow> string" where
  "handshake_error_text (HttpVersion v) = ''a WebSocket upgrade needs HTTP/1.1, got '' @ v"
| "handshake_error_text (BadMethod m) = ''a WebSocket upgrade must be a GET, got '' @ m"
| "handshake_error_text NoConnectionUpgrade = ''a WebSocket upgrade needs `Connection: upgrade`''"
| "handshake_error_text MissingKey = ''a WebSocket upgrade needs a Sec-WebSocket-Key''"
| "handshake_error_text WsVersion = ''this server speaks WebSocket version 13''"

definition handshake_error_response :: "'h http_api \<Rightarrow> HandshakeError \<Rightarrow> 'h http_response" where
  "handshake_error_response H e =
     (let resp = response_new H (Full (handshake_error_text e))
      in if e = WsVersion
         then resp\<lparr>rsp_status := 426, rsp_headers := hm_insert H (rsp_headers resp) SEC_WEBSOCKET_VERSION WS_VERSION\<rparr>
         else resp\<lparr>rsp_status := 400\<rparr>)"

text \<open>\<open>derive_accept_key\<close> (crate \<open>tungstenite\<close>) is the parameter \<open>accept_key\<close>.\<close>

definition ws_upgrade_response :: "'h http_api \<Rightarrow> (string \<Rightarrow> string) \<Rightarrow> string \<Rightarrow> 'h http_response" where
  "ws_upgrade_response H accept_key key =
     (let resp = (response_new H (Full []))\<lparr>rsp_status := 101\<rparr>;
          headers = hm_insert H (hm_insert H (rsp_headers resp) UPGRADE ''websocket'') CONNECTION ''Upgrade''
      in resp\<lparr>rsp_headers :=
           (case hv_from_str H (accept_key key) of
              Some accept \<Rightarrow> hm_insert H headers SEC_WEBSOCKET_ACCEPT accept
            | None \<Rightarrow> headers)\<rparr>)"

subsection \<open>No more connections than the limit\<close>

text \<open>
  In any order of upgrade attempts and closed connections, the counter is the number of slots
  held and never exceeds the limit; it never wraps.
\<close>

theorem connection_slots_bounded:
  assumes "slots_reachable max_connections opened held" and "max_connections < 2 ^ 64"
  shows "opened = held \<and> held \<le> max_connections"
  using assms(1)
proof induction
  case (slots_release opened held)
  have drop: "slot_drop (Suc held) = held" if "held < 2 ^ 64"
  proof -
    have "Suc held + (2 ^ 64 - 1) = held + 2 ^ 64" by simp
    with that show ?thesis by (simp add: slot_drop_def del: add_Suc)
  qed
  with slots_release assms(2) show ?case by simp
qed (auto simp: slot_try_acquire_def split: if_splits)

theorem connection_slots_bounded_witness:
  "slots_reachable 1 1 1 \<and> (1::nat) \<le> 1 \<and> slot_try_acquire 1 1 = None"
proof -
  have "slots_reachable 1 1 1"
    using slots_acquire [OF slots_init, of 1 1] by (simp add: slot_try_acquire_def)
  with connection_slots_bounded [OF this] show ?thesis by (simp add: slot_try_acquire_def)
qed

subsection \<open>The budget of a queue\<close>

definition limits_ok :: "WsLimits \<Rightarrow> bool" where
  "limits_ok l \<longleftrightarrow>
     1 \<le> ws_max_message_bytes l \<and> ws_max_message_bytes l \<le> MAX_MESSAGE_BYTES_LIMIT \<and> 1 \<le> ws_max_connections l"

lemma limits_ok_default: "limits_ok ws_limits_default"
  by (simp add: limits_ok_def ws_limits_default_def DEFAULT_MAX_MESSAGE_BYTES_def DEFAULT_MAX_CONNECTIONS_def
      MAX_MESSAGE_BYTES_LIMIT_def MESSAGE_OVERHEAD_BYTES_def)

lemma limits_ok_set:
  "limits_ok l \<Longrightarrow> with_max_message_bytes l n = Ok l' \<Longrightarrow> limits_ok l'"
  "limits_ok l \<Longrightarrow> with_max_connections l n = Ok l' \<Longrightarrow> limits_ok l'"
  by (auto simp: limits_ok_def with_max_message_bytes_def with_max_connections_def split: if_splits)

lemma unat_cost:
  "n \<le> MAX_MESSAGE_BYTES_LIMIT \<Longrightarrow> unat (budget_cost n) = n + MESSAGE_OVERHEAD_BYTES"
  "n \<le> MAX_MESSAGE_BYTES_LIMIT \<Longrightarrow> unat (of_nat n + of_nat MESSAGE_OVERHEAD_BYTES :: u32) = n + MESSAGE_OVERHEAD_BYTES"
proof -
  assume "n \<le> MAX_MESSAGE_BYTES_LIMIT"
  then have "unat (of_nat (n + MESSAGE_OVERHEAD_BYTES) :: u32) = n + MESSAGE_OVERHEAD_BYTES"
    by (subst unat_of_nat) (simp add: MAX_MESSAGE_BYTES_LIMIT_def MESSAGE_OVERHEAD_BYTES_def)
  then show "unat (budget_cost n) = n + MESSAGE_OVERHEAD_BYTES"
    "unat (of_nat n + of_nat MESSAGE_OVERHEAD_BYTES :: u32) = n + MESSAGE_OVERHEAD_BYTES"
    by (simp_all add: budget_cost_def)
qed

text \<open>What the queued messages hold, and that it is what the semaphore lacks.\<close>

definition held_bytes :: "WsMsg list \<Rightarrow> nat" where
  "held_bytes q = sum_list (map (\<lambda>m. msg_len m + MESSAGE_OVERHEAD_BYTES) q)"

definition budget_ok :: "'s sem_api \<Rightarrow> nat \<Rightarrow> 's \<Rightarrow> WsMsg list \<Rightarrow> bool" where
  "budget_ok S mx sem q \<longleftrightarrow>
     list_all (\<lambda>m. msg_len m \<le> mx) q \<and>
     sem_available S sem + held_bytes q = mx + MESSAGE_OVERHEAD_BYTES"

lemma held_bytes_simps [simp]:
  "held_bytes [] = 0" "held_bytes (m # q) = msg_len m + MESSAGE_OVERHEAD_BYTES + held_bytes q"
  "held_bytes (q @ q') = held_bytes q + held_bytes q'"
  by (simp_all add: held_bytes_def)

context semaphore
begin

lemma budget_ok_new:
  "mx \<le> MAX_MESSAGE_BYTES_LIMIT \<Longrightarrow> budget_ok S mx (budget_new S (of_nat mx)) []"
  by (simp add: budget_ok_def budget_new_def unat_cost)

lemma budget_ok_reserve:
  assumes "mx \<le> MAX_MESSAGE_BYTES_LIMIT" and "budget_ok S mx sem q" and "msg_len m \<le> mx"
    and "budget_reserve S sem (msg_len m) = Some sem'"
  shows "budget_ok S mx sem' (q @ [m])"
  using try_acquire_Some [OF assms(4) [unfolded budget_reserve_def]] assms unat_cost(1) [of "msg_len m"]
  by (simp add: budget_ok_def)

lemma budget_ok_release:
  assumes "mx \<le> MAX_MESSAGE_BYTES_LIMIT" and "budget_ok S mx sem (m # q)"
  shows "budget_ok S mx (budget_release S sem (msg_len m)) q"
  using assms unat_cost(1) [of "msg_len m"] by (simp add: budget_ok_def budget_release_def)

lemma reserve_release:
  assumes "budget_reserve S sem n = Some sem'"
  shows "sem_available S (budget_release S sem' n) = sem_available S sem"
  using try_acquire_Some [OF assms [unfolded budget_reserve_def]] by (simp add: budget_release_def)

text \<open>An allowed message fits an empty queue.\<close>

lemma budget_fits_empty:
  assumes "mx \<le> MAX_MESSAGE_BYTES_LIMIT" and "budget_ok S mx sem []" and "n \<le> mx"
  shows "\<exists>sem'. budget_reserve S sem n = Some sem'"
  using assms try_acquire_None [of sem "unat (budget_cost n)"] unat_cost(1) [of n]
  by (auto simp: budget_reserve_def budget_ok_def)

end

subsection \<open>The client's messages reach the handler in order\<close>

datatype inbox_op = OpForward WsMsg | OpRecvMessage | OpRecv | OpRecvBytes

text \<open>The inbox, the messages the pump forwarded and those a receive returned.\<close>

type_synonym 's inbox_run = "'s Inbox \<times> WsMsg list \<times> WsMsg list"

definition got :: "('a option, KindMismatch) result \<Rightarrow> ('a \<Rightarrow> WsMsg) \<Rightarrow> WsMsg list" where
  "got r f = (case r of Inr (Some v) \<Rightarrow> [f v] | _ \<Rightarrow> [])"

fun inbox_step :: "'s sem_api \<Rightarrow> 's inbox_run \<Rightarrow> inbox_op \<Rightarrow> 's inbox_run" where
  "inbox_step S (ib, sent, recvd) (OpForward m) =
     (case forward S ib m of Some ib' \<Rightarrow> (ib', sent @ [m], recvd) | None \<Rightarrow> (ib, sent, recvd))"
| "inbox_step S (ib, sent, recvd) OpRecvMessage =
     (let (r, ib') = recv_message S ib in (ib', sent, recvd @ got r (\<lambda>m. m)))"
| "inbox_step S (ib, sent, recvd) OpRecv =
     (let (r, ib') = recv_text S ib in (ib', sent, recvd @ got r WsText))"
| "inbox_step S (ib, sent, recvd) OpRecvBytes =
     (let (r, ib') = recv_bytes S ib in (ib', sent, recvd @ got r WsBinary))"

definition held_list :: "'s Inbox \<Rightarrow> WsMsg list" where
  "held_list ib = (case ib_held ib of Some m \<Rightarrow> [m] | None \<Rightarrow> [])"

definition inbox_inv :: "'s sem_api \<Rightarrow> nat \<Rightarrow> 's inbox_run \<Rightarrow> bool" where
  "inbox_inv S mx r \<longleftrightarrow>
     (case r of (ib, sent, recvd) \<Rightarrow>
        recvd @ held_list ib @ ib_rx ib = sent \<and> budget_ok S mx (ib_budget ib) (ib_rx ib) \<and>
        list_all (\<lambda>m. msg_len m \<le> mx) (held_list ib))"

fun op_ok :: "nat \<Rightarrow> inbox_op \<Rightarrow> bool" where
  "op_ok mx (OpForward m) = (msg_len m \<le> mx)"
| "op_ok mx _ = True"

text \<open>One receive, whatever it extracts: the message is returned, or kept as held, at its place.\<close>

lemma next_as_inv:
  assumes S: "semaphore S" and mx: "mx \<le> MAX_MESSAGE_BYTES_LIMIT" and inv: "inbox_inv S mx (ib, sent, recvd)"
    and n: "next_as S meth extract ib = (r, ib')"
    and ok: "\<And>m v. extract m = Ok v \<Longrightarrow> f v = m" and err: "\<And>m m'. extract m = Err m' \<Longrightarrow> m' = m"
  shows "inbox_inv S mx (ib', sent, recvd @ got r f)"
proof -
  obtain out ib1 where recv: "inbox_recv S ib = (out, ib1)" by force
  have state: "budget_ok S mx (ib_budget ib1) (ib_rx ib1) \<and> ib_held ib1 = None \<and>
      (case out of None \<Rightarrow> held_list ib = [] \<and> ib_rx ib = [] \<and> ib_rx ib1 = []
       | Some m \<Rightarrow> held_list ib @ ib_rx ib = m # ib_rx ib1 \<and> msg_len m \<le> mx)"
    using recv inv semaphore.budget_ok_release [OF S mx]
    by (auto simp: inbox_recv_def inbox_inv_def held_list_def budget_ok_def split: option.splits list.splits)
  show ?thesis
  proof (cases out)
    case None
    with n recv state inv show ?thesis by (auto simp: next_as_def inbox_inv_def got_def held_list_def)
  next
    case (Some m)
    with state inv have "recvd @ m # ib_rx ib1 = sent" and "msg_len m \<le> mx" by (auto simp: inbox_inv_def)
    with n recv state Some show ?thesis
      by (cases "extract m") (auto simp: next_as_def inbox_inv_def got_def held_list_def dest: ok err)
  qed
qed

lemma into_inverse:
  "into_text m = Ok v \<Longrightarrow> WsText v = m" "into_binary m = Ok v \<Longrightarrow> WsBinary v = m"
  "into_text m = Err m' \<Longrightarrow> m' = m" "into_binary m = Err m' \<Longrightarrow> m' = m"
  by (cases m; simp)+

lemma inbox_step_inv:
  assumes S: "semaphore S" and mx: "mx \<le> MAX_MESSAGE_BYTES_LIMIT" and inv: "inbox_inv S mx r" and ok: "op_ok mx op"
  shows "inbox_inv S mx (inbox_step S r op)"
proof -
  obtain ib sent recvd where r: "r = (ib, sent, recvd)" by (cases r) auto
  note recv = next_as_inv [OF S mx inv [unfolded r]]
  show ?thesis
  proof (cases op)
    case (OpForward m)
    with inv ok r semaphore.budget_ok_reserve [OF S mx, of "ib_budget ib" "ib_rx ib" m] show ?thesis
      by (auto simp: forward_def inbox_inv_def held_list_def split: option.splits)
  next
    case OpRecvMessage
    then show ?thesis unfolding r by (auto simp: recv_message_def Let_def split: prod.splits intro!: recv)
  next
    case OpRecv
    then show ?thesis
      unfolding r by (auto simp: recv_text_def Let_def split: prod.splits intro!: recv dest: into_inverse)
  next
    case OpRecvBytes
    then show ?thesis
      unfolding r by (auto simp: recv_bytes_def Let_def split: prod.splits intro!: recv dest: into_inverse)
  qed
qed

text \<open>
  C8. Through any run of the pump and the handler, mixing \<open>recv()\<close>, \<open>recv_bytes()\<close> and
  \<open>recv_message()\<close>, the messages received, the one a typed receive refused and those queued are the
  forwarded ones, in order, each once. The queued ones hold exactly what the budget lacks, so they never
  take more than one message of the largest size and its overhead; and whenever the queue is empty the
  next allowed message is taken without waiting.
\<close>

theorem inbox_in_order:
  assumes S: "semaphore S" and l: "limits_ok l" and ops: "list_all (op_ok (ws_max_message_bytes l)) ops"
    and run: "foldl (inbox_step S) (fst (connection_channels S l), [], []) ops = (ib, sent, recvd)"
  shows "recvd @ held_list ib @ ib_rx ib = sent \<and>
         sem_available S (ib_budget ib) + held_bytes (ib_rx ib) = ws_max_message_bytes l + MESSAGE_OVERHEAD_BYTES \<and>
         (ib_rx ib = [] \<and> msg_len m \<le> ws_max_message_bytes l \<longrightarrow> forward S ib m \<noteq> None)"
proof -
  let ?mx = "ws_max_message_bytes l"
  have mx: "?mx \<le> MAX_MESSAGE_BYTES_LIMIT" using l by (simp add: limits_ok_def)
  have "inbox_inv S ?mx (foldl (inbox_step S) r ops)" if "inbox_inv S ?mx r" for r
    using that ops by (induction ops arbitrary: r) (simp_all add: inbox_step_inv [OF S mx] del: split_paired_All)
  moreover have "inbox_inv S ?mx (fst (connection_channels S l), [], [])"
    by (simp add: inbox_inv_def connection_channels_def held_list_def semaphore.budget_ok_new [OF S mx])
  ultimately have inv: "inbox_inv S ?mx (ib, sent, recvd)" using run by metis
  then have "budget_ok S ?mx (ib_budget ib) (ib_rx ib)" and "recvd @ held_list ib @ ib_rx ib = sent"
    by (simp_all add: inbox_inv_def)
  moreover from this(1) have "forward S ib m \<noteq> None" if "ib_rx ib = []" "msg_len m \<le> ?mx"
    using semaphore.budget_fits_empty [OF S mx, of "ib_budget ib" "msg_len m"] that by (auto simp: forward_def)
  ultimately show ?thesis by (auto simp: budget_ok_def)
qed

theorem inbox_in_order_witness:
  "\<exists>ib. foldl (inbox_step nat_sem) (fst (connection_channels nat_sem ws_limits_default), [], [])
          [OpForward (WsText ''a''), OpForward (WsBinary ''b''), OpRecv, OpRecv]
        = (ib, [WsText ''a'', WsBinary ''b''], [WsText ''a'']) \<and> held_list ib = [WsBinary ''b''] \<and> ib_rx ib = []"
proof -
  let ?ops = "[OpForward (WsText ''a''), OpForward (WsBinary ''b''), OpRecv, OpRecv]"
  have "\<exists>ib. foldl (inbox_step nat_sem) (fst (connection_channels nat_sem ws_limits_default), [], []) ?ops
        = (ib, [WsText ''a'', WsBinary ''b''], [WsText ''a'']) \<and> ib_rx ib = []"
    by (simp add: connection_channels_def ws_limits_default_def DEFAULT_MAX_MESSAGE_BYTES_def forward_def
        budget_reserve_def budget_release_def budget_cost_def budget_new_def MESSAGE_OVERHEAD_BYTES_def nat_sem_def
        recv_text_def next_as_def inbox_recv_def got_def)
  then obtain ib where run: "foldl (inbox_step nat_sem) (fst (connection_channels nat_sem ws_limits_default), [], []) ?ops
        = (ib, [WsText ''a'', WsBinary ''b''], [WsText ''a''])" and e: "ib_rx ib = []" by blast
  have "list_all (op_ok (ws_max_message_bytes ws_limits_default)) ?ops"
    by (simp add: ws_limits_default_def DEFAULT_MAX_MESSAGE_BYTES_def)
  from inbox_in_order [OF free.semaphore_axioms limits_ok_default this run, of "WsText []"] run e
  show ?thesis by auto
qed

subsection \<open>What the handler sends reaches the client in order\<close>

text \<open>
  The outbox with the messages that pushes accepted, those on the wire, the one whose send failed, those dropped
  with the queue, and whether the pump runs. It ends by itself, at a failed send or when the client is gone; the
  receiver is dropped after that.
\<close>

datatype outbox_op = OpPush WsMsg | OpWire bool | OpPumpEnds | OpReceiverDropped

record 's outbox_run =
  or_outbox :: "'s Outbox"
  or_accepted :: "WsMsg list"
  or_wired :: "WsMsg list"
  or_failed :: "WsMsg list"
  or_dropped :: "WsMsg list"
  or_pumping :: bool

fun outbox_step :: "'s sem_api \<Rightarrow> 's outbox_run \<Rightarrow> outbox_op \<Rightarrow> 's outbox_run" where
  "outbox_step S r (OpPush m) =
     (case outbox_push S (or_outbox r) m of
        (Inr _, ob) \<Rightarrow> r\<lparr>or_outbox := ob, or_accepted := or_accepted r @ [m]\<rparr>
      | (Inl _, ob) \<Rightarrow> r\<lparr>or_outbox := ob\<rparr>)"
| "outbox_step S r (OpWire sent) =
     (if or_pumping r then
        (case pump_send S sent (or_outbox r) of
           Some (Inr m, ob) \<Rightarrow> r\<lparr>or_outbox := ob, or_wired := or_wired r @ [m]\<rparr>
         | Some (Inl m, ob) \<Rightarrow> r\<lparr>or_outbox := ob, or_failed := or_failed r @ [m], or_pumping := False\<rparr>
         | None \<Rightarrow> r)
      else r)"
| "outbox_step S r OpPumpEnds = r\<lparr>or_pumping := False\<rparr>"
| "outbox_step S r OpReceiverDropped =
     (if or_pumping r then r
      else r\<lparr>or_outbox := drop_outgoing S (or_outbox r), or_dropped := or_dropped r @ ob_queue (or_outbox r)\<rparr>)"

definition outbox_start :: "'s sem_api \<Rightarrow> WsLimits \<Rightarrow> 's outbox_run" where
  "outbox_start S l =
     \<lparr>or_outbox = snd (connection_channels S l), or_accepted = [], or_wired = [], or_failed = [], or_dropped = [], or_pumping = True\<rparr>"

definition outbox_inv :: "'s sem_api \<Rightarrow> nat \<Rightarrow> 's outbox_run \<Rightarrow> bool" where
  "outbox_inv S mx r \<longleftrightarrow>
     or_wired r @ or_failed r @ or_dropped r @ ob_queue (or_outbox r) = or_accepted r \<and>
     budget_ok S mx (ob_budget (or_outbox r)) (ob_queue (or_outbox r)) \<and> ob_max_message_bytes (or_outbox r) = mx \<and>
     length (or_failed r) \<le> 1 \<and> (or_pumping r \<longrightarrow> or_failed r = [] \<and> or_dropped r = []) \<and>
     (ob_peer (or_outbox r) \<longrightarrow> or_dropped r = []) \<and> (or_pumping r \<longrightarrow> ob_peer (or_outbox r)) \<and>
     (\<not> ob_peer (or_outbox r) \<longrightarrow> ob_queue (or_outbox r) = [])"

lemma budget_ok_drop:
  assumes "semaphore S" and "mx \<le> MAX_MESSAGE_BYTES_LIMIT" and "budget_ok S mx sem q"
  shows "budget_ok S mx (fold (\<lambda>m sem. budget_release S sem (msg_len m)) q sem) []"
  using assms(3) by (induction q arbitrary: sem) (simp_all add: semaphore.budget_ok_release [OF assms(1,2)])

lemma outbox_push_inv:
  assumes S: "semaphore S" and mx: "mx \<le> MAX_MESSAGE_BYTES_LIMIT" and inv: "outbox_inv S mx r"
  shows "outbox_inv S mx (outbox_step S r (OpPush m))"
  using inv semaphore.budget_ok_reserve [OF S mx, of "ob_budget (or_outbox r)" "ob_queue (or_outbox r)" m]
    semaphore.reserve_release [OF S, of "ob_budget (or_outbox r)" "msg_len m"]
  by (auto simp: outbox_push_def outbox_inv_def budget_ok_def split: option.splits)

lemma outbox_step_inv:
  assumes S: "semaphore S" and mx: "mx \<le> MAX_MESSAGE_BYTES_LIMIT" and inv: "outbox_inv S mx r"
  shows "outbox_inv S mx (outbox_step S r op)"
proof (cases op)
  case (OpPush m)
  then show ?thesis using outbox_push_inv [OF assms] by simp
next
  case (OpWire sent)
  with inv semaphore.budget_ok_release [OF S mx, of "ob_budget (or_outbox r)"] show ?thesis
    by (auto simp: pump_send_def outbox_inv_def split: list.splits)
next
  case OpPumpEnds
  with inv show ?thesis by (simp add: outbox_inv_def)
next
  case OpReceiverDropped
  with inv budget_ok_drop [OF S mx, of "ob_budget (or_outbox r)" "ob_queue (or_outbox r)"] show ?thesis
    by (auto simp: outbox_inv_def drop_outgoing_def)
qed

text \<open>
  C9. Whatever the handler pushes, however the pump keeps up and however the connection ends, the accepted messages are, in order, those on the
  wire, the one whose send failed, those dropped with the queue at the end, and those queued; at most one
  send fails, and while the pump runs none is lost, so what is on the wire is what was accepted first. A push fails only for its reason: a message over the
  limit, a budget that cannot hold it, or a connection whose end has dropped the queue; a failed push leaves the budget as it was,
  and on an empty queue an allowed message is accepted while the connection is there.
\<close>

theorem outbox_in_order:
  assumes S: "semaphore S" and l: "limits_ok l"
    and run: "foldl (outbox_step S) (outbox_start S l) ops = r"
    and push: "outbox_push S (or_outbox r) m = (res, ob')"
  shows "or_wired r @ or_failed r @ or_dropped r @ ob_queue (or_outbox r) = or_accepted r \<and>
     length (or_failed r) \<le> 1 \<and> (or_pumping r \<longrightarrow> or_failed r = [] \<and> or_dropped r = []) \<and>
     (case res of
        Inr _ \<Rightarrow> msg_len m \<le> ws_max_message_bytes l \<and> ob_peer (or_outbox r) \<and> ob_queue ob' = ob_queue (or_outbox r) @ [m]
      | Inl e \<Rightarrow> ob_queue ob' = ob_queue (or_outbox r) \<and>
          sem_available S (ob_budget ob') = sem_available S (ob_budget (or_outbox r)) \<and>
          (case e of
             MessageTooBig _ _ _ \<Rightarrow> ws_max_message_bytes l < msg_len m
           | BufferFull \<Rightarrow> ob_queue (or_outbox r) \<noteq> [] \<and>
               sem_available S (ob_budget (or_outbox r)) < msg_len m + MESSAGE_OVERHEAD_BYTES
           | ConnectionClosed \<Rightarrow> \<not> ob_peer (or_outbox r) \<and> \<not> or_pumping r))"
proof -
  let ?mx = "ws_max_message_bytes l" and ?ob = "or_outbox r"
  have mx: "?mx \<le> MAX_MESSAGE_BYTES_LIMIT" using l by (simp add: limits_ok_def)
  have "outbox_inv S ?mx (foldl (outbox_step S) r ops)" if "outbox_inv S ?mx r" for r
    using that by (induction ops arbitrary: r) (simp_all add: outbox_step_inv [OF S mx])
  moreover have "outbox_inv S ?mx (outbox_start S l)"
    by (simp add: outbox_inv_def outbox_start_def connection_channels_def semaphore.budget_ok_new [OF S mx])
  ultimately have inv: "outbox_inv S ?mx r" using run by metis
  then have b: "budget_ok S ?mx (ob_budget ?ob) (ob_queue ?ob)" and m: "ob_max_message_bytes ?ob = ?mx"
    by (simp_all add: outbox_inv_def)
  have full: "ob_queue ?ob \<noteq> [] \<and> sem_available S (ob_budget ?ob) < msg_len m + MESSAGE_OVERHEAD_BYTES"
    if "budget_reserve S (ob_budget ?ob) (msg_len m) = None" "msg_len m \<le> ?mx"
    using that semaphore.budget_fits_empty [OF S mx, of "ob_budget ?ob" "msg_len m"] b
      semaphore.try_acquire_None [OF S, of "ob_budget ?ob" "unat (budget_cost (msg_len m))"]
      unat_cost(1) [of "msg_len m"] mx by (auto simp: budget_reserve_def)
  have "case res of
        Inr _ \<Rightarrow> msg_len m \<le> ?mx \<and> ob_peer ?ob \<and> ob_queue ob' = ob_queue ?ob @ [m]
      | Inl e \<Rightarrow> ob_queue ob' = ob_queue ?ob \<and> sem_available S (ob_budget ob') = sem_available S (ob_budget ?ob) \<and>
          (case e of
             MessageTooBig _ _ _ \<Rightarrow> ?mx < msg_len m
           | BufferFull \<Rightarrow> ob_queue ?ob \<noteq> [] \<and> sem_available S (ob_budget ?ob) < msg_len m + MESSAGE_OVERHEAD_BYTES
           | ConnectionClosed \<Rightarrow> \<not> ob_peer ?ob \<and> \<not> or_pumping r)"
    using push m full inv semaphore.reserve_release [OF S, of "ob_budget ?ob" "msg_len m"]
    by (auto simp: outbox_push_def outbox_inv_def split: if_splits option.splits)
  with inv show ?thesis unfolding outbox_inv_def by blast
qed

text \<open>A message on the wire, one whose send fails, and one that is dropped with the queue.\<close>

theorem outbox_in_order_witness:
  "\<exists>r ob'. foldl (outbox_step nat_sem) (outbox_start nat_sem ws_limits_default)
       [OpPush (WsText ''a''), OpPush (WsText ''b''), OpWire True, OpWire False, OpPush (WsText ''c''), OpReceiverDropped] = r \<and>
     outbox_push nat_sem (or_outbox r) (WsText ''d'') = (Err ConnectionClosed, ob') \<and>
     or_wired r = [WsText ''a''] \<and> or_failed r = [WsText ''b''] \<and> or_dropped r = [WsText ''c''] \<and> \<not> or_pumping r \<and>
     or_accepted r = [WsText ''a'', WsText ''b'', WsText ''c'']"
proof -
  let ?ops = "[OpPush (WsText ''a''), OpPush (WsText ''b''), OpWire True, OpWire False, OpPush (WsText ''c''), OpReceiverDropped]"
  define r where "r = foldl (outbox_step nat_sem) (outbox_start nat_sem ws_limits_default) ?ops"
  have eval: "\<exists>ob'. outbox_push nat_sem (or_outbox r) (WsText ''d'') = (Err ConnectionClosed, ob')"
    "or_wired r = [WsText ''a'']" "or_failed r = [WsText ''b'']" "or_dropped r = [WsText ''c'']" "ob_queue (or_outbox r) = []"
    by (simp_all add: r_def outbox_start_def connection_channels_def ws_limits_default_def DEFAULT_MAX_MESSAGE_BYTES_def outbox_push_def
        budget_reserve_def budget_release_def budget_cost_def budget_new_def MESSAGE_OVERHEAD_BYTES_def nat_sem_def
        pump_send_def drop_outgoing_def)
  then obtain ob' where push: "outbox_push nat_sem (or_outbox r) (WsText ''d'') = (Err ConnectionClosed, ob')" by blast
  from outbox_in_order [OF free.semaphore_axioms limits_ok_default r_def [symmetric] push] eval(2-)
  have "or_accepted r = [WsText ''a'', WsText ''b'', WsText ''c'']" "\<not> or_pumping r" by auto
  with eval(2-) push r_def show ?thesis by blast
qed

subsection \<open>The handshake\<close>

text \<open>
  An upgrade is accepted, with the client's key, exactly when it is an HTTP/1.1 \<open>GET\<close> with an
  \<open>upgrade\<close> token in a \<open>Connection\<close> line, version 13 and a key that is not empty; the 101 then names
  the protocol and the accept key derived from it. Any other is answered 400, or 426 naming the version
  the server speaks when only the version is wrong.
\<close>

theorem handshake_exact:
  assumes H: "http_crate H" and key: "\<And>k. list_all visible_ascii (accept_key k)"
  shows "(handshake_parse H parts = Ok k \<longleftrightarrow>
            pt_version parts = ''HTTP/1.1'' \<and> pt_method parts = ''GET'' \<and>
            (\<exists>line \<in> set (hm_get_all H (pt_headers parts) CONNECTION).
               \<exists>token \<in> set (split_on (\<lambda>b. b = CHR '','') line). eq_ignore_ascii_case (trim_ascii token) ''upgrade'') \<and>
            hm_get H (pt_headers parts) SEC_WEBSOCKET_VERSION = Some ''13'' \<and>
            hm_get H (pt_headers parts) SEC_WEBSOCKET_KEY = Some k \<and> k \<noteq> []) \<and>
         (case handshake_parse H parts of
            Inl e \<Rightarrow> rsp_status (handshake_error_response H e) = (if e = WsVersion then 426 else 400) \<and>
              (e = WsVersion \<longrightarrow>
                hm_get_all H (rsp_headers (handshake_error_response H e)) SEC_WEBSOCKET_VERSION = [''13''])
          | Inr k' \<Rightarrow> rsp_status (ws_upgrade_response H accept_key k') = 101 \<and>
              hm_get_all H (rsp_headers (ws_upgrade_response H accept_key k')) SEC_WEBSOCKET_ACCEPT = [accept_key k'])"
proof -
  have up: "connection_upgrade H (pt_headers parts) \<longleftrightarrow>
      (\<exists>line \<in> set (hm_get_all H (pt_headers parts) CONNECTION).
         \<exists>token \<in> set (split_on (\<lambda>b. b = CHR '','') line). eq_ignore_ascii_case (trim_ascii token) ''upgrade'')"
    by (auto simp: connection_upgrade_def list_ex_iff)
  have "handshake_parse H parts = Ok k \<longleftrightarrow>
      pt_version parts = ''HTTP/1.1'' \<and> pt_method parts = ''GET'' \<and> connection_upgrade H (pt_headers parts) \<and>
      hm_get H (pt_headers parts) SEC_WEBSOCKET_VERSION = Some ''13'' \<and>
      hm_get H (pt_headers parts) SEC_WEBSOCKET_KEY = Some k \<and> k \<noteq> []"
    by (auto simp: handshake_parse_def WS_VERSION_def split: option.splits if_splits)
  moreover have "rsp_status (handshake_error_response H e) = (if e = WsVersion then 426 else 400) \<and>
      (e = WsVersion \<longrightarrow> hm_get_all H (rsp_headers (handshake_error_response H e)) SEC_WEBSOCKET_VERSION = [''13''])" for e
    by (simp add: handshake_error_response_def Let_def http_crate.get_all_insert [OF H] WS_VERSION_def)
  moreover have "rsp_status (ws_upgrade_response H accept_key k') = 101 \<and>
      hm_get_all H (rsp_headers (ws_upgrade_response H accept_key k')) SEC_WEBSOCKET_ACCEPT = [accept_key k']" for k'
    by (simp add: ws_upgrade_response_def Let_def http_crate.get_all_insert [OF H] http_crate.from_str_visible [OF H key])
  ultimately show ?thesis unfolding up by (auto split: sum.split)
qed

theorem handshake_exact_witness:
  "handshake_parse line_headers
     \<lparr>pt_method = ''GET'', pt_path = ''/ws'', pt_query = None, pt_version = ''HTTP/1.1'',
      pt_headers = [(''connection'', ''keep-alive, upgrade''), (''sec-websocket-version'', ''13''),
                    (''sec-websocket-key'', ''abc'')]\<rparr> = Ok ''abc''"
proof -
  let ?p = "\<lparr>pt_method = ''GET'', pt_path = ''/ws'', pt_query = None, pt_version = ''HTTP/1.1'',
      pt_headers = [(''connection'', ''keep-alive, upgrade''), (''sec-websocket-version'', ''13''),
                    (''sec-websocket-key'', ''abc'')]\<rparr>"
  have "eq_ignore_ascii_case (trim_ascii '' upgrade'') ''upgrade''"
    by (simp add: trim_ascii_def is_ascii_whitespace_def)
  then have "\<exists>line \<in> set (hm_get_all line_headers (pt_headers ?p) CONNECTION).
      \<exists>token \<in> set (split_on (\<lambda>b. b = CHR '','') line). eq_ignore_ascii_case (trim_ascii token) ''upgrade''"
    by (simp add: line_headers_def lines_all_def CONNECTION_def)
  moreover have "hm_get line_headers (pt_headers ?p) SEC_WEBSOCKET_VERSION = Some ''13''"
    "hm_get line_headers (pt_headers ?p) SEC_WEBSOCKET_KEY = Some ''abc''"
    by (simp_all add: line_headers_def lines_all_def SEC_WEBSOCKET_VERSION_def SEC_WEBSOCKET_KEY_def)
  ultimately show ?thesis
    using handshake_exact [OF line.http_crate_axioms, of "\<lambda>_. ''x''" ?p "''abc''"] by (simp add: visible_ascii_def)
qed

end
