(* ===== verification/Site.thy ===== *)
theory Site
  imports Router Compression WebSocket
begin

section \<open>What one server serves (\<open>src/site.rs\<close>)\<close>

text \<open>
  The route table and the app's settings: CORS headers, access-log sampling, limits and compression. A
  thread's sampling roll is a 64-bit word that wraps. The results: applying CORS sets each configured
  header once and touches no other, and the access log keeps exactly one in \<open>N\<close> of the responses below
  the floor, rounded up, and all at or above it.
\<close>

definition DEFAULT_MAX_BODY_BYTES :: nat where "DEFAULT_MAX_BODY_BYTES = 10 * 1024 * 1024"

record Limits =
  lim_max_body_bytes :: nat
  lim_ws :: WsLimits

definition limits_default :: Limits where
  "limits_default = \<lparr>lim_max_body_bytes = DEFAULT_MAX_BODY_BYTES, lim_ws = ws_limits_default\<rparr>"

definition differ :: "string \<Rightarrow> nat \<Rightarrow> nat \<Rightarrow> string list" where
  "differ call worker served =
     (if worker \<noteq> served then
        [call @ ''('' @ show_nat worker @ '') in a worker is ignored: limits are per app, and the app ''
          @ ''served is the main interpreter's, which has '' @ show_nat served]
      else [])"

definition ignored_in_worker :: "Limits \<Rightarrow> Limits \<Rightarrow> string list" where
  "ignored_in_worker served in_worker =
     differ ''set_max_body_size'' (lim_max_body_bytes in_worker) (lim_max_body_bytes served)
     @ differ ''set_max_websocket_message_size'' (ws_max_message_bytes (lim_ws in_worker))
         (ws_max_message_bytes (lim_ws served))
     @ differ ''set_max_websocket_connections'' (ws_max_connections (lim_ws in_worker))
         (ws_max_connections (lim_ws served))"

lemma ignored_in_worker_Nil: "ignored_in_worker served in_worker = [] \<longleftrightarrow> served = (in_worker :: Limits)"
  by (cases served; cases in_worker; cases "lim_ws served"; cases "lim_ws in_worker")
     (auto simp: ignored_in_worker_def differ_def)

subsection \<open>CORS\<close>

definition ACCESS_CONTROL_ALLOW_ORIGIN :: string where
  "ACCESS_CONTROL_ALLOW_ORIGIN = ''access-control-allow-origin''"
definition ACCESS_CONTROL_ALLOW_METHODS :: string where
  "ACCESS_CONTROL_ALLOW_METHODS = ''access-control-allow-methods''"
definition ACCESS_CONTROL_ALLOW_HEADERS :: string where
  "ACCESS_CONTROL_ALLOW_HEADERS = ''access-control-allow-headers''"
definition ACCESS_CONTROL_ALLOW_CREDENTIALS :: string where
  "ACCESS_CONTROL_ALLOW_CREDENTIALS = ''access-control-allow-credentials''"
definition ACCESS_CONTROL_EXPOSE_HEADERS :: string where
  "ACCESS_CONTROL_EXPOSE_HEADERS = ''access-control-expose-headers''"

lemmas cors_name_defs =
  ACCESS_CONTROL_ALLOW_ORIGIN_def ACCESS_CONTROL_ALLOW_METHODS_def ACCESS_CONTROL_ALLOW_HEADERS_def
  ACCESS_CONTROL_ALLOW_CREDENTIALS_def ACCESS_CONTROL_EXPOSE_HEADERS_def

record Cors =
  cors_headers :: "(string \<times> string) list"

record CorsSpec =
  cs_origin :: string
  cs_methods :: string
  cs_headers :: string
  cs_expose_headers :: "string option"
  cs_allow_credentials :: bool

record CorsError =
  ce_setting :: string
  ce_value :: string

definition cors_value :: "'h http_api \<Rightarrow> string \<Rightarrow> string \<Rightarrow> (string, CorsError) result" where
  "cors_value H setting v = ok_or \<lparr>ce_setting = setting, ce_value = v\<rparr> (hv_from_str H v)"

definition cors_parse :: "'h http_api \<Rightarrow> CorsSpec \<Rightarrow> (Cors, CorsError) result" where
  "cors_parse H spec =
     and_then (cors_value H ''origin'' (cs_origin spec)) (\<lambda>origin.
     and_then (cors_value H ''methods'' (cs_methods spec)) (\<lambda>methods.
     and_then (cors_value H ''headers'' (cs_headers spec)) (\<lambda>headers.
     let base = [(ACCESS_CONTROL_ALLOW_ORIGIN, origin), (ACCESS_CONTROL_ALLOW_METHODS, methods),
                 (ACCESS_CONTROL_ALLOW_HEADERS, headers)]
                @ (if cs_allow_credentials spec then [(ACCESS_CONTROL_ALLOW_CREDENTIALS, ''true'')] else [])
     in case cs_expose_headers spec of
          None \<Rightarrow> Ok \<lparr>cors_headers = base\<rparr>
        | Some expose \<Rightarrow>
            map_ok (\<lambda>v. \<lparr>cors_headers = base @ [(ACCESS_CONTROL_EXPOSE_HEADERS, v)]\<rparr>)
              (cors_value H ''expose_headers'' expose))))"

definition cors_apply :: "'h http_api \<Rightarrow> Cors \<Rightarrow> 'h \<Rightarrow> 'h" where
  "cors_apply H cors hm = foldl (\<lambda>h (name, v). hm_insert H h name v) hm (cors_headers cors)"

subsection \<open>The access log\<close>

record AccessLog =
  al_enabled :: bool
  al_sample_n :: nat \<comment> \<open>non-zero\<close>
  al_always_status :: "nat option"

definition access_log_disabled :: AccessLog where
  "access_log_disabled = \<lparr>al_enabled = False, al_sample_n = 1, al_always_status = None\<rparr>"

definition next_roll :: "u64 \<Rightarrow> u64 \<times> u64" where
  "next_roll roll = (roll, roll + 1)"

text \<open>Whether a response is logged, and the thread's roll after it.\<close>

definition samples :: "AccessLog \<Rightarrow> u64 \<Rightarrow> nat \<Rightarrow> bool \<times> u64" where
  "samples log roll status =
     (if \<not> al_enabled log then (False, roll)
      else if (case al_always_status log of Some floor \<Rightarrow> floor \<le> status | None \<Rightarrow> False) then (True, roll)
      else if al_sample_n log = 1 then (True, roll)
      else (let (current, roll') = next_roll roll in (unat current mod al_sample_n log = 0, roll')))"

subsection \<open>The site\<close>

record SiteConfig =
  sc_cors :: "Cors option"
  sc_access_log :: AccessLog
  sc_grpc_benchmark :: bool
  sc_request_id_header :: "string option"
  sc_limits :: Limits
  sc_compression :: "Settings option"
  sc_ws_connections :: nat

record ('r, 'py, 'h) Site =
  site_routes :: "('r, 'py, 'h) RouteTable"
  site_config :: SiteConfig

subsection \<open>CORS is set, not appended\<close>

context http_crate
begin

lemma foldl_insert_lines:
  "distinct (map fst ps) \<Longrightarrow>
     hm_get_all H (foldl (\<lambda>h (name, v). hm_insert H h name v) h ps) n =
       (case map_of ps n of Some v \<Rightarrow> [v] | None \<Rightarrow> hm_get_all H h n)"
proof (induction ps arbitrary: h)
  case (Cons p ps)
  obtain name v where p: "p = (name, v)" by force
  from Cons.prems p have "map_of ps name = None" by (simp add: map_of_eq_None_iff)
  with Cons p show ?case by (auto split: option.splits)
qed simp

end

lemma cors_parse_names:
  "cors_parse H spec = Ok c \<Longrightarrow> distinct (map fst (cors_headers c))"
  by (auto simp: cors_parse_def result_iffs Let_def cors_name_defs split: option.splits if_splits)

text \<open>
  A response's headers after CORS: each configured header has exactly the configured value, on one
  line, whatever the handler had set; every other header is as it was; and the origin is always set.
\<close>

theorem cors_apply_sets:
  assumes H: "http_crate H" and c: "cors_parse H spec = Ok c"
  shows "hm_get_all H (cors_apply H c hm) n =
           (case map_of (cors_headers c) n of Some v \<Rightarrow> [v] | None \<Rightarrow> hm_get_all H hm n) \<and>
         map_of (cors_headers c) ACCESS_CONTROL_ALLOW_ORIGIN = Some (cs_origin spec) \<and>
         (map_of (cors_headers c) ACCESS_CONTROL_ALLOW_CREDENTIALS = Some ''true'' \<longleftrightarrow> cs_allow_credentials spec)"
proof -
  have "map_of (cors_headers c) ACCESS_CONTROL_ALLOW_ORIGIN = Some (cs_origin spec) \<and>
      (map_of (cors_headers c) ACCESS_CONTROL_ALLOW_CREDENTIALS = Some ''true'' \<longleftrightarrow> cs_allow_credentials spec)"
    using c http_crate.from_str_same [OF H]
    by (auto simp: cors_parse_def cors_value_def result_iffs Let_def cors_name_defs split: option.splits if_splits)
  then show ?thesis
    using http_crate.foldl_insert_lines [OF H cors_parse_names [OF c]] by (simp add: cors_apply_def)
qed

theorem cors_apply_sets_witness:
  "\<exists>c. cors_parse line_headers \<lparr>cs_origin = ''*'', cs_methods = ''GET'', cs_headers = ''x'',
        cs_expose_headers = None, cs_allow_credentials = True\<rparr> = Ok c \<and>
     hm_get_all line_headers (cors_apply line_headers c [(''access-control-allow-origin'', ''mine'')])
       ACCESS_CONTROL_ALLOW_ORIGIN = [''*'']"
proof -
  let ?spec = "\<lparr>cs_origin = ''*'', cs_methods = ''GET'', cs_headers = ''x'', cs_expose_headers = None,
      cs_allow_credentials = True\<rparr>"
  have "\<exists>c. cors_parse line_headers ?spec = Ok c"
    by (simp add: cors_parse_def cors_value_def line_headers_def visible_ascii_def)
  then obtain c where c: "cors_parse line_headers ?spec = Ok c" by blast
  from cors_apply_sets [OF line.http_crate_axioms c, of "[(''access-control-allow-origin'', ''mine'')]"
      ACCESS_CONTROL_ALLOW_ORIGIN] c
  show ?thesis by auto
qed

subsection \<open>One in \<open>N\<close>\<close>

fun access_run :: "AccessLog \<Rightarrow> u64 \<Rightarrow> nat list \<Rightarrow> bool list" where
  "access_run log roll [] = []"
| "access_run log roll (status # ss) = (let (b, roll') = samples log roll status in b # access_run log roll' ss)"

definition always_logged :: "AccessLog \<Rightarrow> nat \<Rightarrow> bool" where
  "always_logged log status \<longleftrightarrow> (case al_always_status log of Some floor \<Rightarrow> floor \<le> status | None \<Rightarrow> False)"

definition sampled :: "AccessLog \<Rightarrow> nat list \<Rightarrow> bool list \<Rightarrow> nat" where
  "sampled log ss bs = length (filter (\<lambda>(s, b). b \<and> \<not> always_logged log s) (zip ss bs))"

definition below :: "AccessLog \<Rightarrow> nat list \<Rightarrow> nat" where
  "below log ss = length (filter (\<lambda>s. \<not> always_logged log s) ss)"

lemma ceil_step:
  fixes r n :: nat
  assumes "0 < n"
  shows "(Suc r + n - 1) div n = (r + n - 1) div n + (if r mod n = 0 then 1 else 0)"
proof -
  obtain q m where r: "r = q * n + m" and m: "m < n"
    using assms by (metis mod_less_divisor div_mult_mod_eq)
  show ?thesis
  proof (cases m)
    case 0
    have "(q * n + n) div n = q + 1" "(q * n + n - 1) div n = q"
      using assms by (auto intro!: div_nat_eqI simp: algebra_simps)
    with 0 r show ?thesis by simp
  next
    case (Suc k)
    have "(q * n + Suc k + n) div n = q + 1" "(q * n + Suc k + n - 1) div n = q + 1"
      using Suc m assms by (auto intro!: div_nat_eqI simp: algebra_simps)
    with Suc r m show ?thesis by simp
  qed
qed

lemma access_run_sampled:
  assumes "al_enabled log" and "1 < al_sample_n log" and "unat roll = r" and "r + below log ss \<le> 2 ^ 64 - 1"
  shows "sampled log ss (access_run log roll ss) + (r + al_sample_n log - 1) div al_sample_n log =
         (r + below log ss + al_sample_n log - 1) div al_sample_n log"
  using assms(3,4)
proof (induction ss arbitrary: roll r)
  case Nil
  then show ?case by (simp add: sampled_def below_def)
next
  case (Cons s ss)
  show ?case
  proof (cases "always_logged log s")
    case True
    with Cons.prems Cons.IH [of roll r] assms show ?thesis
      by (simp add: samples_def always_logged_def sampled_def below_def)
  next
    case False
    then have bs: "below log (s # ss) = Suc (below log ss)" by (simp add: below_def)
    with Cons.prems have "unat roll + 1 < 2 ^ 64" by simp
    then have u: "unat (roll + 1) = Suc r"
      using Cons.prems(1) unat_word_ariths(1) [of roll 1] by simp
    have "sampled log (s # ss) (access_run log roll (s # ss)) =
        (if r mod al_sample_n log = 0 then 1 else 0) + sampled log ss (access_run log (roll + 1) ss)"
      using False Cons.prems(1) assms
      by (auto simp: samples_def always_logged_def sampled_def next_roll_def)
    with Cons.IH [OF u] Cons.prems bs ceil_step [of "al_sample_n log" r] assms(2) show ?thesis by simp
  qed
qed

lemma samples_always:
  "al_enabled log \<Longrightarrow> always_logged log s \<or> al_sample_n log = 1 \<Longrightarrow> fst (samples log roll s)"
  by (auto simp: samples_def always_logged_def)

lemma access_run_always:
  assumes "al_enabled log" and "(s, b) \<in> set (zip ss (access_run log roll ss))"
    and "always_logged log s \<or> al_sample_n log = 1"
  shows b
  using assms(2)
  by (induction ss arbitrary: roll)
     (auto simp: case_prod_unfold Let_def dest: samples_always [OF assms(1)] intro: samples_always [OF assms(1,3)])

text \<open>
  On a thread's run of responses, an enabled log keeps every response at or above its floor, and of
  the others exactly one in \<open>N\<close>, rounded up, for any \<open>N\<close> and up to \<open>2 ^ 64 - 1\<close> of them.
\<close>

theorem access_log_one_in_n:
  assumes "al_enabled log" and "1 \<le> al_sample_n log" and "below log ss \<le> 2 ^ 64 - 1"
  shows "sampled log ss (access_run log 0 ss) = (below log ss + al_sample_n log - 1) div al_sample_n log \<and>
         (\<forall>(s, b) \<in> set (zip ss (access_run log 0 ss)). always_logged log s \<longrightarrow> b)"
proof -
  have "sampled log ss (access_run log 0 ss) = (below log ss + al_sample_n log - 1) div al_sample_n log"
  proof (cases "al_sample_n log = 1")
    case True
    have len: "length (access_run log roll ss) = length ss" for roll
      by (induction ss arbitrary: roll) (auto simp: case_prod_unfold Let_def)
    have "filter (\<lambda>(s, b). b \<and> \<not> always_logged log s) (zip ss (access_run log 0 ss)) =
        filter (\<lambda>(s, b). \<not> always_logged log s) (zip ss (access_run log 0 ss))"
      using access_run_always [OF assms(1)] True by (intro filter_cong) auto
    also have "length \<dots> = length (filter (\<lambda>s. \<not> always_logged log s) (map fst (zip ss (access_run log 0 ss))))"
      by (simp add: filter_map comp_def case_prod_unfold)
    finally show ?thesis using True len by (simp add: sampled_def below_def)
  next
    case False
    with assms have n: "1 < al_sample_n log" by simp
    with access_run_sampled [OF assms(1) n, of 0 0 ss] assms(3) show ?thesis by simp
  qed
  then show ?thesis using access_run_always [OF assms(1)] by blast
qed

theorem access_log_one_in_n_witness:
  "sampled \<lparr>al_enabled = True, al_sample_n = 2, al_always_status = Some 500\<rparr> [200, 200, 500, 200]
     (access_run \<lparr>al_enabled = True, al_sample_n = 2, al_always_status = Some 500\<rparr> 0 [200, 200, 500, 200]) = 2"
  using access_log_one_in_n [of "\<lparr>al_enabled = True, al_sample_n = 2, al_always_status = Some 500\<rparr>" "[200, 200, 500, 200]"]
  by (simp add: below_def always_logged_def)

end
