(* ===== verification/Stream.thy ===== *)
theory Stream
  imports Response
begin

section \<open>Streamed responses (\<open>src/python/stream.rs\<close>)\<close>

text \<open>
  A \<open>Stream\<close> object a handler returns: a bounded channel of body chunks whose sending end \<open>close()\<close>
  drops and whose receiving end the response takes once. \<open>st_rx\<close> is the receiver while it is still in
  the object; \<open>st_peer\<close> says that it is alive, there or in the response; \<open>st_queue\<close> holds the chunks
  sent and not yet received. The objects live in a store, by identity.

  The theorem is about server-sent events: whatever text a handler puts in them, a client that follows
  the specification reads back the events that were sent, with their own fields.
\<close>

definition STREAM_CHANNEL_CAP :: nat where "STREAM_CHANNEL_CAP = 1024"

definition CR :: char where "CR = CHR 0x0D"
definition LF :: char where "LF = CHR 0x0A"

record 'h PyronovaStream =
  st_tx :: bool \<comment> \<open>the sender is still held: \<open>close()\<close> was not called\<close>
  st_rx :: bool \<comment> \<open>the receiver was not taken\<close>
  st_peer :: bool
  st_queue :: "string list"
  st_content_type :: string
  st_status_code :: nat
  st_headers :: 'h

definition stream_new ::
    "'h http_api \<Rightarrow> string option \<Rightarrow> nat \<Rightarrow> (py_scalar \<times> py_header_value) list option \<Rightarrow>
     ('h PyronovaStream, header_error) result" where
  "stream_new H content_type status_code headers =
     and_then (case content_type of
                 Some ct \<Rightarrow> header_value_of H ''content_type'' ct
               | None \<Rightarrow> Ok ''text/event-stream'') (\<lambda>ct.
     and_then (case headers of Some dict \<Rightarrow> headers_from_py H dict | None \<Rightarrow> Ok (hm_new H)) (\<lambda>hm.
       Ok \<lparr>st_tx = True, st_rx = True, st_peer = True, st_queue = [], st_content_type = ct,
           st_status_code = status_code, st_headers = hm\<rparr>))"

datatype send_error = ExplicitlyClosed | StreamBufferFull | ClientDisconnected | BadSseId | BadSseEvent

definition stream_push :: "'h PyronovaStream \<Rightarrow> string \<Rightarrow> (unit, send_error) result \<times> 'h PyronovaStream" where
  "stream_push s chunk =
     (if \<not> st_tx s then (Err ExplicitlyClosed, s)
      else if \<not> st_peer s then (Err ClientDisconnected, s)
      else if STREAM_CHANNEL_CAP \<le> length (st_queue s) then (Err StreamBufferFull, s)
      else (Ok (), s\<lparr>st_queue := st_queue s @ [chunk]\<rparr>))"

definition stream_send :: "'h PyronovaStream \<Rightarrow> string \<Rightarrow> (unit, send_error) result \<times> 'h PyronovaStream" where
  "stream_send s data = stream_push s data"

text \<open>\<open>split("\r\n")\<close>, and the lines of an event's data.\<close>

fun split_crlf :: "string \<Rightarrow> string list" where
  "split_crlf [] = [[]]"
| "split_crlf [c] = [[c]]"
| "split_crlf (c # d # s) =
     (if c = CR \<and> d = LF then [] # split_crlf s
      else (case split_crlf (d # s) of [] \<Rightarrow> [[c]] | l # ls \<Rightarrow> (c # l) # ls))"

definition is_line_break :: "char \<Rightarrow> bool" where
  "is_line_break c \<longleftrightarrow> c = CR \<or> c = LF"

definition strip_ending :: "string \<Rightarrow> string" where
  "strip_ending data =
     (if 2 \<le> length data \<and> drop (length data - 2) data = [CR, LF] then take (length data - 2) data
      else if data \<noteq> [] \<and> is_line_break (last data) then butlast data
      else data)"

definition sse_lines :: "string \<Rightarrow> string list" where
  "sse_lines data = concat (map (split_on is_line_break) (split_crlf (strip_ending data)))"

text \<open>The text \<open>send_event\<close> queues for one event.\<close>

definition sse_message :: "string \<Rightarrow> string option \<Rightarrow> string option \<Rightarrow> string" where
  "sse_message data event id' =
     (case id' of Some i \<Rightarrow> ''id: '' @ i @ [LF] | None \<Rightarrow> [])
     @ (case event of Some e \<Rightarrow> ''event: '' @ e @ [LF] | None \<Rightarrow> [])
     @ concat (map (\<lambda>line. ''data: '' @ line @ [LF]) (sse_lines data))
     @ [LF]"

definition has_break :: "string option \<Rightarrow> bool" where
  "has_break field = (case field of Some s \<Rightarrow> list_ex is_line_break s | None \<Rightarrow> False)"

definition send_event ::
    "'h PyronovaStream \<Rightarrow> string \<Rightarrow> string option \<Rightarrow> string option \<Rightarrow>
     (unit, send_error) result \<times> 'h PyronovaStream" where
  "send_event s data event id' =
     (if has_break id' then (Err BadSseId, s)
      else if has_break event then (Err BadSseEvent, s)
      else stream_push s (sse_message data event id'))"

definition stream_close :: "'h PyronovaStream \<Rightarrow> 'h PyronovaStream" where
  "stream_close s = s\<lparr>st_tx := False\<rparr>"

text \<open>\<open>take_rx\<close>: true the first time, when the caller gets the receiver.\<close>

definition take_rx :: "'h PyronovaStream \<Rightarrow> bool \<times> 'h PyronovaStream" where
  "take_rx s = (st_rx s, s\<lparr>st_rx := False\<rparr>)"

subsection \<open>What a client reads\<close>

text \<open>
  The event stream format (WHATWG HTML, server-sent events): lines end with \<open>CR LF\<close>, \<open>LF\<close> or \<open>CR\<close>; a
  line is a field name and, after a colon and an optional space, its value; an empty line dispatches
  the event if it has data. The type of an event without a name is \<open>message\<close>. The last event id is kept from one event to the next
  until another id is read, and an id that holds a NUL is ignored. What follows the last line ending is incomplete and is dropped.
\<close>

record sse_event =
  ev_id :: string \<comment> \<open>the last event id\<close>
  ev_event :: string \<comment> \<open>the type\<close>
  ev_data :: "string list" \<comment> \<open>the lines, which the client joins\<close>

text \<open>The fields read so far: the last event id, the name and the data.\<close>

definition no_fields :: "string \<Rightarrow> sse_event" where
  "no_fields last_id = \<lparr>ev_id = last_id, ev_event = [], ev_data = []\<rparr>"

definition event_type :: "string \<Rightarrow> string" where
  "event_type name = (if name = [] then ''message'' else name)"

fun text_lines :: "string \<Rightarrow> string list" where
  "text_lines [] = [[]]"
| "text_lines (c # s) =
     (if c = CR then (case s of d # s' \<Rightarrow> if d = LF then [] # text_lines s' else [] # text_lines s
                              | [] \<Rightarrow> [] # text_lines s)
      else if c = LF then [] # text_lines s
      else (case text_lines s of [] \<Rightarrow> [[c]] | l # ls \<Rightarrow> (c # l) # ls))"

definition field_of :: "string \<Rightarrow> string \<times> string" where
  "field_of line =
     (case split_once CHR '':'' line of
        None \<Rightarrow> (line, [])
      | Some (name, v) \<Rightarrow> (name, case v of c # cs \<Rightarrow> if c = CHR '' '' then cs else v | [] \<Rightarrow> []))"

definition take_field :: "sse_event \<Rightarrow> string \<Rightarrow> sse_event" where
  "take_field ev line =
     (let (name, v) = field_of line
      in if name = ''data'' then ev\<lparr>ev_data := ev_data ev @ [v]\<rparr>
         else if name = ''event'' then ev\<lparr>ev_event := v\<rparr>
         else if name = ''id'' \<and> CHR 0x00 \<notin> set v then ev\<lparr>ev_id := v\<rparr>
         else ev)"

fun dispatch_lines :: "sse_event \<Rightarrow> string list \<Rightarrow> sse_event list" where
  "dispatch_lines ev [] = []"
| "dispatch_lines ev (line # rest) =
     (if line = [] then (if ev_data ev = [] then [] else [ev\<lparr>ev_event := event_type (ev_event ev)\<rparr>]) @ dispatch_lines (no_fields (ev_id ev)) rest
      else dispatch_lines (take_field ev line) rest)"

text \<open>What a client whose last event id is \<open>last_id\<close> reads.\<close>

definition sse_read :: "string \<Rightarrow> string \<Rightarrow> sse_event list" where
  "sse_read last_id text = dispatch_lines (no_fields last_id) (butlast (text_lines text))"

subsection \<open>Lines\<close>

lemma CR_LF_differ [simp]: "CR \<noteq> LF" "LF \<noteq> CR"
  by (simp_all add: CR_def LF_def)

lemma is_line_break_simps [simp]:
  "is_line_break CR" "is_line_break LF" "c \<noteq> CR \<Longrightarrow> c \<noteq> LF \<Longrightarrow> \<not> is_line_break c"
  by (simp_all add: is_line_break_def)

text \<open>The cases of the definition as one rule each, on the first two characters.\<close>

lemma text_lines_Cons:
  "text_lines [c] = (if c = CR \<or> c = LF then [[], []] else [[c]])"
  "text_lines (c # d # s) =
     (if c = CR \<and> d = LF then [] # text_lines s
      else if c = CR \<or> c = LF then [] # text_lines (d # s)
      else (case text_lines (d # s) of [] \<Rightarrow> [[c]] | l # ls \<Rightarrow> (c # l) # ls))"
  by auto

lemma text_lines_not_Nil [simp]: "text_lines s \<noteq> []"
  by (cases s) (auto split: list.splits)

lemma text_lines_line:
  "list_all (\<lambda>c. \<not> is_line_break c) line \<Longrightarrow> text_lines (line @ LF # rest) = line # text_lines rest"
  by (induction line) (auto simp: is_line_break_def)

lemma split_crlf_not_Nil [simp]: "split_crlf s \<noteq> []"
  by (induction s rule: split_crlf.induct) (auto split: list.splits)

text \<open>Splitting at \<open>CR LF\<close> and the pieces at either character is splitting at all three endings.\<close>

lemma concat_split_crlf: "concat (map (split_on is_line_break) (split_crlf s)) = text_lines s"
proof (induction s rule: split_crlf.induct)
  case (2 c)
  then show ?case by (cases "c = CR \<or> c = LF") auto
next
  case (3 c d s)
  obtain l ls where l: "split_crlf (d # s) = l # ls" by (cases "split_crlf (d # s)") auto
  obtain m ms where m: "split_on is_line_break l = m # ms" by (cases "split_on is_line_break l") auto
  from 3 l m have "text_lines (d # s) = m # ms @ concat (map (split_on is_line_break) ls)"
    if "\<not> (c = CR \<and> d = LF)" using that by simp
  with 3 l m show ?case
    by (cases "c = CR \<and> d = LF") (auto simp del: text_lines.simps(2) simp: text_lines_Cons)
qed simp

lemma text_lines_snoc_CR: "text_lines (s @ [CR]) = text_lines s @ [[]]"
proof (induction s rule: text_lines.induct)
  case (2 c s)
  then show ?case by (cases s; cases "text_lines s") (auto simp del: text_lines.simps(2) simp: text_lines_Cons)
qed simp

lemma text_lines_snoc_LF: "s = [] \<or> last s \<noteq> CR \<Longrightarrow> text_lines (s @ [LF]) = text_lines s @ [[]]"
proof (induction s rule: text_lines.induct)
  case (2 c s)
  then show ?case
    by (cases s; cases "text_lines s"; cases "tl s = []")
       (auto simp del: text_lines.simps(2) simp: text_lines_Cons)
qed simp

lemma text_lines_snoc_CRLF: "text_lines (s @ [CR, LF]) = text_lines s @ [[]]"
proof (induction s rule: text_lines.induct)
  case (2 c s)
  then show ?case by (cases s; cases "text_lines s") (auto simp del: text_lines.simps(2) simp: text_lines_Cons)
qed simp

text \<open>The lines of a text: a last line ending ends the last line, and an empty text is one empty line.\<close>

definition data_lines :: "string \<Rightarrow> string list" where
  "data_lines data =
     (let ls = text_lines data in if data \<noteq> [] \<and> last ls = [] then butlast ls else ls)"

lemma text_lines_snoc:
  "\<not> is_line_break c \<Longrightarrow> text_lines (s @ [c]) = butlast (text_lines s) @ [last (text_lines s) @ [c]]"
proof (induction s rule: text_lines.induct)
  case (2 a s)
  then show ?case
    by (cases s; cases "text_lines s")
       (auto simp del: text_lines.simps(2) simp: text_lines_Cons is_line_break_def)
qed (auto simp: is_line_break_def)

text \<open>The three ways a text can end with a line ending, and what is left without it.\<close>

lemma line_ending_cases [case_names crlf cr lf none]:
  obtains t where "s = t @ [CR, LF]" "strip_ending s = t"
    | t where "s = t @ [CR]" "strip_ending s = t"
    | t where "s = t @ [LF]" "t = [] \<or> last t \<noteq> CR" "strip_ending s = t"
    | "s = [] \<or> \<not> is_line_break (last s)" "strip_ending s = s"
proof (cases s rule: rev_cases)
  case Nil
  with that(4) show ?thesis by (simp add: strip_ending_def)
next
  case (snoc t c)
  show ?thesis
  proof (cases t rule: rev_cases)
    case Nil
    with snoc that show ?thesis by (auto simp: strip_ending_def is_line_break_def)
  next
    case (snoc u b)
    note s = \<open>s = t @ [c]\<close> [unfolded snoc]
    have d: "drop (length s - 2) s = [b, c]" "take (length s - 2) s = u" "butlast s = u @ [b]"
      using s by (simp_all add: butlast_append)
    show ?thesis
    proof (cases "is_line_break c")
      case True
      then consider "c = CR" | "b = CR" "c = LF" | "b \<noteq> CR" "c = LF" by (auto simp: is_line_break_def)
      then show ?thesis
        by cases (rule that; use s d snoc True in \<open>simp add: strip_ending_def\<close>)+
    next
      case False
      with s d have "strip_ending s = s" by (auto simp: strip_ending_def is_line_break_def)
      with s False show ?thesis by (intro that(4)) simp_all
    qed
  qed
qed

lemma text_lines_strip:
  "s \<noteq> [] \<Longrightarrow> is_line_break (last s) \<Longrightarrow> text_lines s = text_lines (strip_ending s) @ [[]]"
  by (cases s rule: line_ending_cases)
     (simp_all add: text_lines_snoc_CR text_lines_snoc_LF text_lines_snoc_CRLF)

lemma text_lines_last_Nil: "s \<noteq> [] \<Longrightarrow> last (text_lines s) = [] \<longleftrightarrow> is_line_break (last s)"
proof (cases "is_line_break (last s)")
  case False
  assume "s \<noteq> []"
  with False show ?thesis by (cases s rule: rev_cases) (simp_all add: text_lines_snoc)
qed (use text_lines_strip [of s] in simp)

lemma data_lines_strip: "data_lines s = text_lines (strip_ending s)"
proof (cases "s = [] \<or> \<not> is_line_break (last s)")
  case True
  then have "strip_ending s = s" by (cases s rule: line_ending_cases) auto
  with True show ?thesis by (auto simp: data_lines_def Let_def text_lines_last_Nil)
next
  case False
  with text_lines_strip [of s] show ?thesis by (simp add: data_lines_def Let_def)
qed

lemma sse_lines_data: "sse_lines data = data_lines data"
  by (simp add: sse_lines_def concat_split_crlf data_lines_strip)

lemma text_lines_no_break: "line \<in> set (text_lines s) \<Longrightarrow> list_all (\<lambda>c. \<not> is_line_break c) line"
proof (induction s arbitrary: line rule: text_lines.induct)
  case (2 c s)
  then show ?case
    by (cases s; cases "text_lines s")
       (auto simp del: text_lines.simps(2) simp: text_lines_Cons split: if_splits)
qed simp

lemma data_lines_no_break: "line \<in> set (data_lines s) \<Longrightarrow> list_all (\<lambda>c. \<not> is_line_break c) line"
  by (simp add: data_lines_strip text_lines_no_break)

lemma data_lines_not_Nil [simp]: "data_lines s \<noteq> []"
  by (simp add: data_lines_strip)

subsection \<open>Events are read back as they were sent\<close>

text \<open>The lines of one message, without their endings and the empty line that ends it.\<close>

definition message_lines :: "string \<Rightarrow> string option \<Rightarrow> string option \<Rightarrow> string list" where
  "message_lines data event id' =
     (case id' of Some i \<Rightarrow> [''id: '' @ i] | None \<Rightarrow> [])
     @ (case event of Some e \<Rightarrow> [''event: '' @ e] | None \<Rightarrow> [])
     @ map (\<lambda>line. ''data: '' @ line) (data_lines data)"

lemma sse_message_lines:
  "sse_message data event id' = concat (map (\<lambda>l. l @ [LF]) (message_lines data event id' @ [[]]))"
  by (simp add: sse_message_def message_lines_def sse_lines_data comp_def split: option.split)

lemma text_lines_block:
  "list_all (list_all (\<lambda>c. \<not> is_line_break c)) ls \<Longrightarrow>
     text_lines (concat (map (\<lambda>l. l @ [LF]) ls) @ rest) = ls @ text_lines rest"
  by (induction ls) (auto simp: text_lines_line simp del: text_lines.simps(2))

lemma message_lines_no_break:
  assumes "\<not> has_break event" and "\<not> has_break id'"
  shows "list_all (list_all (\<lambda>c. \<not> is_line_break c)) (message_lines data event id' @ [[]])"
  using assms data_lines_no_break [of _ data]
  by (auto simp: message_lines_def has_break_def list_all_iff list_ex_iff is_line_break_def CR_def LF_def
      split: option.splits)

lemma field_of_simps [simp]:
  "field_of (''id: '' @ v) = (''id'', v)" "field_of (''event: '' @ v) = (''event'', v)"
  "field_of (''data: '' @ v) = (''data'', v)"
  by (simp_all add: field_of_def)

lemma foldl_data_fields:
  "foldl take_field ev (map (\<lambda>line. ''data: '' @ line) ls) = ev\<lparr>ev_data := ev_data ev @ ls\<rparr>"
  by (induction ls arbitrary: ev) (simp_all add: take_field_def del: append.simps)

text \<open>The last event id after a message.\<close>

definition id_after :: "string option \<Rightarrow> string \<Rightarrow> string" where
  "id_after id' last_id = (case id' of Some i \<Rightarrow> if CHR 0x00 \<in> set i then last_id else i | None \<Rightarrow> last_id)"

lemma foldl_message_fields:
  "foldl take_field (no_fields last_id) (message_lines data event id') =
     \<lparr>ev_id = id_after id' last_id, ev_event = (case event of Some e \<Rightarrow> e | None \<Rightarrow> []), ev_data = data_lines data\<rparr>"
  by (auto simp: message_lines_def foldl_data_fields take_field_def no_fields_def id_after_def simp del: append.simps
      split: option.split)

lemma dispatch_lines_fields:
  "[] \<notin> set ls \<Longrightarrow> dispatch_lines ev (ls @ rest) = dispatch_lines (foldl take_field ev ls) rest"
  by (induction ls arbitrary: ev) auto

lemma message_lines_not_empty: "[] \<notin> set (message_lines data event id')"
  by (auto simp: message_lines_def split: option.splits)

text \<open>What a client should read of a sequence of messages.\<close>

fun events_of :: "string \<Rightarrow> (string \<times> string option \<times> string option) list \<Rightarrow> sse_event list" where
  "events_of last_id [] = []"
| "events_of last_id ((data, event, id') # messages) =
     \<lparr>ev_id = id_after id' last_id, ev_event = event_type (case event of Some e \<Rightarrow> e | None \<Rightarrow> []), ev_data = data_lines data\<rparr> #
     events_of (id_after id' last_id) messages"

lemma sse_read_message:
  assumes "\<not> has_break event" and "\<not> has_break id'"
  shows "sse_read last_id (sse_message data event id' @ rest) =
     events_of last_id [(data, event, id')] @ sse_read (id_after id' last_id) rest"
proof -
  have "text_lines (sse_message data event id' @ rest) = message_lines data event id' @ [] # text_lines rest"
    using text_lines_block [OF message_lines_no_break [OF assms(1,2)], of data rest]
    unfolding sse_message_lines by (simp only: append_assoc append.simps)
  then show ?thesis
    using foldl_message_fields [of last_id data event id'] message_lines_not_empty
    by (simp add: sse_read_def butlast_append dispatch_lines_fields)
qed

text \<open>A run of \<open>send_event\<close> calls on one stream: the stream after them, and the calls that returned.\<close>

type_synonym sse_call = "string \<times> string option \<times> string option"

fun send_events :: "'h PyronovaStream \<Rightarrow> sse_call list \<Rightarrow> 'h PyronovaStream \<times> sse_call list" where
  "send_events s [] = (s, [])"
| "send_events s ((data, event, id') # calls) =
     (case send_event s data event id' of
        (Inr _, s') \<Rightarrow> apsnd ((#) (data, event, id')) (send_events s' calls)
      | (Inl _, s') \<Rightarrow> send_events s' calls)"

lemma send_event_Ok:
  "send_event s data event id' = (Ok (), s') \<longleftrightarrow>
     \<not> has_break id' \<and> \<not> has_break event \<and> st_tx s \<and> st_peer s \<and> length (st_queue s) < STREAM_CHANNEL_CAP \<and>
     s' = s\<lparr>st_queue := st_queue s @ [sse_message data event id']\<rparr>"
  by (auto simp: send_event_def stream_push_def)

lemma send_event_Err: "send_event s data event id' = (Err e, s') \<Longrightarrow> s' = s"
  by (auto simp: send_event_def stream_push_def split: if_splits)

lemma send_events_queue:
  "send_events s calls = (s', accepted) \<Longrightarrow>
     st_queue s' = st_queue s @ map (\<lambda>(d, e, i). sse_message d e i) accepted \<and>
     set accepted \<subseteq> set calls \<and> list_all (\<lambda>(d, e, i). \<not> has_break i \<and> \<not> has_break e) accepted"
proof (induction s calls arbitrary: s' accepted rule: send_events.induct)
  case (2 s data event id' calls)
  obtain r s1 where se: "send_event s data event id' = (r, s1)" by force
  show ?case
  proof (cases r)
    case (Inl e)
    with se have "s1 = s" by (auto dest: send_event_Err)
    with se Inl 2(3) have "send_events s calls = (s', accepted)" by simp
    from 2(1) [OF se [symmetric] _ this [folded \<open>s1 = s\<close>]] Inl \<open>s1 = s\<close> show ?thesis by auto
  next
    case (Inr u)
    obtain s2 acc where rest: "send_events s1 calls = (s2, acc)" by force
    from se Inr have ok: "send_event s data event id' = (Ok (), s1)" by simp
    from 2(2) [OF se [symmetric] _ rest] Inr 2(3) ok rest show ?thesis by (auto simp: send_event_Ok)
  qed
qed simp

text \<open>
  C40. A client that follows the event stream format reads, from the chunks of a stream and whatever its last event id, exactly
  the events of the \<open>send_event\<close> calls that returned, in order: each with its event name and, as data, the lines of its text
  whatever line endings it uses, and with its id, or the last one before it when it has none or one that holds a NUL, which the format makes
  clients ignore. No text in a field adds, ends or changes an event.
\<close>

theorem sse_events_read_back:
  assumes "send_events s calls = (s', accepted)" and "st_queue s = []"
  shows "sse_read last_id (concat (st_queue s')) = events_of last_id accepted"
proof -
  have "sse_read last_id (concat (map (\<lambda>(d, e, i). sse_message d e i) cs)) = events_of last_id cs"
    if "list_all (\<lambda>(d, e, i). \<not> has_break i \<and> \<not> has_break e) cs" for cs last_id
    using that
    by (induction last_id cs rule: events_of.induct) (auto simp: sse_read_message, simp add: sse_read_def)
  with send_events_queue [OF assms(1)] assms(2) show ?thesis by simp
qed

definition demo_stream :: "(string \<times> string) list PyronovaStream" where
  "demo_stream = \<lparr>st_tx = True, st_rx = True, st_peer = True, st_queue = [],
     st_content_type = ''text/event-stream'', st_status_code = 200, st_headers = []\<rparr>"

theorem sse_events_read_back_witness:
  "sse_read ''7'' (concat (st_queue (fst (send_events demo_stream
       [(''a'' @ [CR] @ ''id: 9'', Some ''tick'', Some ''1''), (''x'', Some [LF], None), ([], None, Some [CHR 0x00])])))) =
     [\<lparr>ev_id = ''1'', ev_event = ''tick'', ev_data = [''a'', ''id: 9'']\<rparr>,
      \<lparr>ev_id = ''1'', ev_event = ''message'', ev_data = [[]]\<rparr>]"
  using sse_events_read_back [of demo_stream
      "[(''a'' @ [CR] @ ''id: 9'', Some ''tick'', Some ''1''), (''x'', Some [LF], None), ([], None, Some [CHR 0x00])]" _ _ "''7''"]
  by (simp add: demo_stream_def send_event_def stream_push_def has_break_def is_line_break_def CR_def LF_def
      STREAM_CHANNEL_CAP_def data_lines_def id_after_def event_type_def split_beta)

end
