(* ===== verification/Hook_Chain.thy ===== *)
theory Hook_Chain
  imports Site Stream "HOL-Library.Sublist"
begin

section \<open>A request on the main interpreter (\<open>src/python/hook_chain.rs\<close>, \<open>src/python/request_context.rs\<close>, \<open>src/handlers.rs\<close>)\<close>

text \<open>
  The before hooks, the handler and the after hooks of one request, run in a \<open>contextvars.Context\<close> of
  its own. The Python interpreter is not modelled: the record \<open>runtime\<close> has the calls the chain makes
  into it, over a state of which the engine knows the thread's event loop, the stream objects and the
  GIL counters. A call returns a value, raises, or lets a Rust panic through (PyO3 resumes it), so an
  engine function ends with a value, an error or a panic: the type \<open>fault\<close>.

  The locale \<open>python_runtime\<close> says what the engine relies on: which calls it made and which contexts
  are entered can be read off the interpreter's state, a call leaves the contexts as it found them, and
  \<open>PyContext_New\<close>, \<open>Enter\<close> and \<open>Exit\<close> do what CPython documents.

  The results: the order of the hooks and of the handler, that a before hook that raises or answers
  keeps the handler from running, and that every call of a request is made in one fresh context that is
  left at the end, panics included.
\<close>

subsection \<open>Running with a state\<close>

datatype 'e fault = Fails 'e | Unwinds panic_payload

fun map_fault_err :: "('e \<Rightarrow> 'f) \<Rightarrow> 'e fault \<Rightarrow> 'f fault" where
  "map_fault_err g (Fails e) = Fails (g e)"
| "map_fault_err g (Unwinds p) = Unwinds p"

type_synonym ('a, 'e, 'w) run = "'w \<Rightarrow> ('a, 'e) result \<times> 'w"

definition run_bind :: "('a, 'e, 'w) run \<Rightarrow> ('a \<Rightarrow> ('b, 'e, 'w) run) \<Rightarrow> ('b, 'e, 'w) run" where
  "run_bind m f w = (case m w of (Inl e, w') \<Rightarrow> (Inl e, w') | (Inr v, w') \<Rightarrow> f v w')"

definition run_err :: "('e \<Rightarrow> 'f) \<Rightarrow> ('a, 'e, 'w) run \<Rightarrow> ('a, 'f, 'w) run" where
  "run_err g m w = (case m w of (r, w') \<Rightarrow> (map_err g r, w'))"

definition run_ret :: "('a, 'e) result \<Rightarrow> ('a, 'e, 'w) run" where
  "run_ret r w = (r, w)"

lemma run_bind_Ok: "m w = (Inr v, w1) \<Longrightarrow> run_bind m f w = f v w1"
  by (simp add: run_bind_def)

lemma run_bind_Err: "m w = (Inl e, w1) \<Longrightarrow> run_bind m f w = (Inl e, w1)"
  by (simp add: run_bind_def)

lemma run_err_eq: "m w = (r, w1) \<Longrightarrow> run_err g m w = (map_err g r, w1)"
  by (simp add: run_err_def)

subsection \<open>The state and the interpreter\<close>

text \<open>The counters of \<open>src/monitor.rs\<close> that a main-interpreter call updates.\<close>

record GilMonitor =
  gm_queue_length :: u64 \<comment> \<open>an \<open>isize\<close>\<close>
  gm_latency_last :: u64
  gm_latency_max :: u64
  gm_total_wait :: u64
  gm_probe_count :: u64
  gm_hold_max :: u64

definition GIL_CONGESTED_WARN_US :: u64 where "GIL_CONGESTED_WARN_US = 50000"

text \<open>Whether the wait is logged as congestion, and the counters.\<close>

definition record_gil_wait :: "u64 \<Rightarrow> GilMonitor \<Rightarrow> bool \<times> GilMonitor" where
  "record_gil_wait wait_us m =
     (GIL_CONGESTED_WARN_US < wait_us,
      m\<lparr>gm_latency_last := wait_us, gm_latency_max := max (gm_latency_max m) wait_us,
        gm_total_wait := gm_total_wait m + wait_us, gm_probe_count := gm_probe_count m + 1\<rparr>)"

record ('l, 'h, 'w) world =
  w_loop :: "('l \<times> int) option" \<comment> \<open>\<open>LOOP\<close>: this thread's event loop and the interpreter it is of\<close>
  w_streams :: "nat \<Rightarrow> 'h PyronovaStream"
  w_gil :: GilMonitor
  w_py :: 'w

record ('py, 'h, 'c, 'l, 'w) runtime =
  ip_call :: "'py \<Rightarrow> 'h pyobj list \<Rightarrow> ('h pyobj, PyErr fault, ('l, 'h, 'w) world) run"
  ip_is_coroutine :: "'h pyobj \<Rightarrow> bool" \<comment> \<open>\<open>PyCoro_CheckExact\<close>\<close>
  ip_has_await :: "'h pyobj \<Rightarrow> bool" \<comment> \<open>\<open>tp_as_async->am_await\<close>\<close>
  ip_future_marker :: "'h pyobj \<Rightarrow> bool" \<comment> \<open>\<open>_asyncio_future_blocking\<close> is there and not \<open>None\<close>\<close>
  ip_drive :: "'h pyobj \<Rightarrow> ('h pyobj, PyErr fault, ('l, 'h, 'w) world) run" \<comment> \<open>\<open>_awaitable.drive\<close>\<close>
  ip_create_task :: "'l \<Rightarrow> 'h pyobj \<Rightarrow> 'c \<Rightarrow> ('h pyobj, PyErr fault, ('l, 'h, 'w) world) run"
  ip_run_until_complete :: "'l \<Rightarrow> 'h pyobj \<Rightarrow> ('h pyobj, PyErr fault, ('l, 'h, 'w) world) run"
  ip_context_new :: "('c, PyErr, ('l, 'h, 'w) world) run"
  ip_context_enter :: "'c \<Rightarrow> (unit, PyErr, ('l, 'h, 'w) world) run"
  ip_context_exit :: "'c \<Rightarrow> (unit, PyErr, ('l, 'h, 'w) world) run"
  ip_new_event_loop :: "('l, PyErr fault, ('l, 'h, 'w) world) run" \<comment> \<open>made and set as the current one\<close>
  ip_loop_close :: "'l \<Rightarrow> (unit, PyErr fault, ('l, 'h, 'w) world) run"
  ip_interp_id :: int \<comment> \<open>the interpreter the thread is attached to\<close>
  ip_new_request :: "'h PyronovaRequest \<Rightarrow> ('h pyobj, PyErr fault, ('l, 'h, 'w) world) run" \<comment> \<open>\<open>Bound::new\<close>\<close>
  ip_new_str :: "string \<Rightarrow> ('l, 'h, 'w) world \<Rightarrow> 'h pyobj \<times> ('l, 'h, 'w) world" \<comment> \<open>\<open>PyString::new\<close>\<close>
  ip_new_response :: "'h pyobj \<Rightarrow> ('h pyobj, PyException, ('l, 'h, 'w) world) run" \<comment> \<open>\<open>Bound::new\<close>\<close>

subsection \<open>The request's context\<close>

text \<open>
  \<open>in_request_context\<close>: \<open>f\<close> in a new context; the context is left however \<open>f\<close> ends, and a failure to
  leave it is only logged.
\<close>

definition in_request_context ::
    "('py, 'h, 'c, 'l, 'w) runtime \<Rightarrow> ('c \<Rightarrow> ('l, 'h, 'w) world \<Rightarrow> 'r \<times> ('l, 'h, 'w) world) \<Rightarrow>
     ('r, PyErr, ('l, 'h, 'w) world) run" where
  "in_request_context R f =
     run_bind (ip_context_new R) (\<lambda>ctx.
     run_bind (ip_context_enter R ctx) (\<lambda>_ w.
       let (r, w') = f ctx w in (Ok r, snd (ip_context_exit R ctx w'))))"

datatype Awaitable = Future | InTask

definition awaitable_of :: "('py, 'h, 'c, 'l, 'w) runtime \<Rightarrow> 'h pyobj \<Rightarrow> Awaitable option" where
  "awaitable_of R obj =
     (if ip_is_coroutine R obj then Some InTask
      else if \<not> ip_has_await R obj then None
      else Some (if ip_future_marker R obj then Future else InTask))"

text \<open>
  \<open>run_in_task\<close>: the context is left for the run and entered again however the run ends (the guard
  \<open>Suspended\<close>; a failure to enter it is only logged).
\<close>

definition run_in_task ::
    "('py, 'h, 'c, 'l, 'w) runtime \<Rightarrow> 'c \<Rightarrow> 'l \<Rightarrow> 'h pyobj \<Rightarrow> ('h pyobj, PyErr fault, ('l, 'h, 'w) world) run" where
  "run_in_task R ctx event_loop awaitable =
     run_bind (if ip_is_coroutine R awaitable then run_ret (Ok awaitable) else ip_drive R awaitable) (\<lambda>coro.
     run_bind (run_err Fails (ip_context_exit R ctx)) (\<lambda>_ w.
       let (r, w') = run_bind (ip_create_task R event_loop coro ctx) (ip_run_until_complete R event_loop) w
       in (r, snd (ip_context_enter R ctx w'))))"

subsection \<open>The thread's event loop\<close>

definition thread_event_loop ::
    "('py, 'h, 'c, 'l, 'w) runtime \<Rightarrow> ('l, HandlerError fault, ('l, 'h, 'w) world) run" where
  "thread_event_loop R w =
     (let current = ip_interp_id R;
          check = (\<lambda>(l, interp) w. (if interp \<noteq> current then Err (Fails (ForeignEventLoop interp current)) else Ok l, w))
      in case w_loop w of
           Some existing \<Rightarrow> check existing w
         | None \<Rightarrow>
             (case ip_new_event_loop R w of
                (Inl e, w') \<Rightarrow> (Err (map_fault_err (handler_error_python Setup) e), w')
              | (Inr l, w') \<Rightarrow> check (l, current) (w'\<lparr>w_loop := Some (l, current)\<rparr>)))"

text \<open>\<open>close_loop\<close> (a failed \<open>close()\<close> is only logged), \<open>close_thread_event_loop\<close> and the drop at thread exit.\<close>

definition close_loop :: "('py, 'h, 'c, 'l, 'w) runtime \<Rightarrow> 'l \<Rightarrow> ('l, 'h, 'w) world \<Rightarrow> ('l, 'h, 'w) world" where
  "close_loop R l w = snd (ip_loop_close R l w)"

definition close_thread_event_loop :: "('py, 'h, 'c, 'l, 'w) runtime \<Rightarrow> ('l, 'h, 'w) world \<Rightarrow> ('l, 'h, 'w) world" where
  "close_thread_event_loop R w =
     (case w_loop w of None \<Rightarrow> w | Some (l, _) \<Rightarrow> close_loop R l (w\<lparr>w_loop := None\<rparr>))"

definition loop_guard_drop ::
    "('py, 'h, 'c, 'l, 'w) runtime \<Rightarrow> bool \<Rightarrow> ('l, 'h, 'w) world \<Rightarrow> ('l, 'h, 'w) world" where
  "loop_guard_drop R initialized w =
     (case w_loop w of
        None \<Rightarrow> w
      | Some (l, _) \<Rightarrow> if initialized then close_loop R l (w\<lparr>w_loop := None\<rparr>) else w\<lparr>w_loop := None\<rparr>)"

subsection \<open>The chain\<close>

record ('c, 'l, 'h, 'w) Chain =
  ch_rc :: 'c
  ch_event_loop :: "('l, HandlerError fault, ('l, 'h, 'w) world) run"
  ch_to_response :: "'h pyobj \<Rightarrow> ('h ResponseData, ResponseError) result"

definition main_response :: "'h http_api \<Rightarrow> 'h interp \<Rightarrow> 'h pyobj \<Rightarrow> ('h ResponseData, ResponseError) result" where
  "main_response H P value = extract_response_data H P value"

fun is_stream :: "'h pyobj \<Rightarrow> bool" where
  "is_stream (PyStream _) = True"
| "is_stream _ = False"

definition worker_response :: "'h http_api \<Rightarrow> 'h interp \<Rightarrow> 'h pyobj \<Rightarrow> ('h ResponseData, ResponseError) result" where
  "worker_response H P value =
     (if is_stream value then Err StreamInWorker else extract_response_data H P value)"

definition is_none :: "'h pyobj \<Rightarrow> bool" where
  "is_none value = (case value of PyNone \<Rightarrow> True | _ \<Rightarrow> False)"

text \<open>A \<open>ResponseError\<close> as the chain's error (\<open>?\<close> with \<open>From\<close>).\<close>

definition response_fault :: "ResponseError \<Rightarrow> HandlerError fault" where
  "response_fault e = Fails (ResponseErr e)"

definition chain_call ::
    "('py, 'h, 'c, 'l, 'w) runtime \<Rightarrow> ('c, 'l, 'h, 'w) Chain \<Rightarrow> 'py \<Rightarrow> 'h pyobj list \<Rightarrow> Stage \<Rightarrow>
     ('h pyobj, HandlerError fault, ('l, 'h, 'w) world) run" where
  "chain_call R ch f args stage =
     (let raised = map_fault_err (handler_error_python stage)
      in run_bind (run_err raised (ip_call R f args)) (\<lambda>value.
           case awaitable_of R value of
             None \<Rightarrow> run_ret (Ok value)
           | Some InTask \<Rightarrow>
               run_bind (ch_event_loop ch) (\<lambda>l. run_err raised (run_in_task R (ch_rc ch) l value))
           | Some Future \<Rightarrow>
               run_bind (ch_event_loop ch) (\<lambda>l. run_err raised (ip_run_until_complete R l value))))"

fun chain_before ::
    "('py, 'h, 'c, 'l, 'w) runtime \<Rightarrow> ('c, 'l, 'h, 'w) Chain \<Rightarrow> 'py list \<Rightarrow> 'h pyobj \<Rightarrow>
     ('h ResponseData option, HandlerError fault, ('l, 'h, 'w) world) run" where
  "chain_before R ch [] req = run_ret (Ok None)"
| "chain_before R ch (hook # hooks) req =
     run_bind (chain_call R ch hook [req] BeforeHook) (\<lambda>value.
       if \<not> is_none value then run_ret (map_err response_fault (map_ok Some (ch_to_response ch value)))
       else chain_before R ch hooks req)"

definition chain_handler ::
    "('py, 'h, 'c, 'l, 'w) runtime \<Rightarrow> ('c, 'l, 'h, 'w) Chain \<Rightarrow> 'py \<Rightarrow> 'h pyobj \<Rightarrow>
     ('h pyobj, HandlerError fault, ('l, 'h, 'w) world) run" where
  "chain_handler R ch h req = chain_call R ch h [req] Handler"

text \<open>\<open>ResponseData::to_py\<close>: the response so far as a \<open>Response\<close> object.\<close>

definition response_to_py ::
    "('py, 'h, 'c, 'l, 'w) runtime \<Rightarrow> 'h ResponseData \<Rightarrow> ('h pyobj, ResponseError, ('l, 'h, 'w) world) run" where
  "response_to_py R data w =
     (let (body, w') = (if is_utf8 (rd_body data) then ip_new_str R (rd_body data) w
                        else (PyBytes (rd_body data), w))
      in run_err ToPy
           (ip_new_response R (PyResponse body (rd_status data) (Some (rd_content_type data)) (rd_headers data))) w')"

fun chain_after ::
    "('py, 'h, 'c, 'l, 'w) runtime \<Rightarrow> ('c, 'l, 'h, 'w) Chain \<Rightarrow> 'py list \<Rightarrow> 'h pyobj \<Rightarrow> 'h ResponseData \<Rightarrow>
     ('h ResponseData, HandlerError fault, ('l, 'h, 'w) world) run" where
  "chain_after R ch [] req response = run_ret (Ok response)"
| "chain_after R ch (hook # hooks) req response =
     run_bind (run_err response_fault (response_to_py R response)) (\<lambda>current.
     run_bind (chain_call R ch hook [req, current] AfterHook) (\<lambda>value.
     run_bind (if is_none value then run_ret (Ok response)
               else run_ret (map_err response_fault (ch_to_response ch value))) (\<lambda>response'.
       chain_after R ch hooks req response')))"

subsection \<open>The main interpreter's request (\<open>call_handler_with_hooks\<close>)\<close>

definition main_chain ::
    "('py, 'h, 'c, 'l, 'w) runtime \<Rightarrow> 'h http_api \<Rightarrow> 'h interp \<Rightarrow> 'c \<Rightarrow> ('c, 'l, 'h, 'w) Chain" where
  "main_chain R H P rc =
     \<lparr>ch_rc = rc, ch_event_loop = thread_event_loop R, ch_to_response = main_response H P\<rparr>"

record 'h StreamInfo =
  si_stream :: nat \<comment> \<open>the stream whose receiver it holds\<close>
  si_content_type :: string
  si_status :: nat
  si_headers :: 'h

datatype 'h MainReply = ReplyResponse "'h ResponseData" | ReplyStream "'h StreamInfo"

fun stream_info ::
    "'h http_api \<Rightarrow> 'h pyobj \<Rightarrow> ('h StreamInfo, ResponseError, ('l, 'h, 'w) world) run" where
  "stream_info H (PyStream i) w =
     (let stream = w_streams w i
      in case http_status H (st_status_code stream) of
           Inl e \<Rightarrow> (Err e, w)
         | Inr status \<Rightarrow>
             (let (rx, stream') = take_rx stream; w' = w\<lparr>w_streams := (w_streams w)(i := stream')\<rparr>
              in if rx
                 then (Ok \<lparr>si_stream = i, si_content_type = st_content_type stream, si_status = status,
                           si_headers = st_headers stream\<rparr>, w')
                 else (Err StreamConsumed, w')))"
| "stream_info H _ w = (Err StreamConsumed, w)"

text \<open>The handler a target names; indexing and \<open>expect\<close> panic.\<close>

fun missing_handler :: "('r, 'py, 'h) RouteTable \<Rightarrow> Target \<Rightarrow> panic_payload" where
  "missing_handler t (Route rid) = PayloadString
     (''index out of bounds: the len is '' @ show_nat (length (rt_routes t)) @ '' but the index is '' @ show_nat rid)"
| "missing_handler t Fallback = PayloadString ''Target::Fallback resolved on a table without a fallback''"

definition run_with_hooks ::
    "('py, 'h, 'c, 'l, 'w) runtime \<Rightarrow> 'h http_api \<Rightarrow> 'h interp \<Rightarrow> ('r, 'py, 'h) RouteTable \<Rightarrow> Target \<Rightarrow>
     'h PyronovaRequest \<Rightarrow> 'c \<Rightarrow> ('h MainReply, HandlerError fault, ('l, 'h, 'w) world) run" where
  "run_with_hooks R H P routes target sky_req rc =
     (let chain = main_chain R H P rc
      in run_bind (run_err (map_fault_err (handler_error_python Setup)) (ip_new_request R sky_req)) (\<lambda>req.
         run_bind (chain_before R chain (rt_before_hooks routes) req) (\<lambda>short_circuit.
           case short_circuit of
             Some d \<Rightarrow> run_ret (Ok (ReplyResponse d))
           | None \<Rightarrow>
               run_bind (case handler routes target of
                           Some h \<Rightarrow> chain_handler R chain h req
                         | None \<Rightarrow> run_ret (Err (Unwinds (missing_handler routes target)))) (\<lambda>value.
                 if is_stream value
                 then run_bind (run_err response_fault (stream_info H value)) (\<lambda>info. run_ret (Ok (ReplyStream info)))
                 else run_bind (run_ret (map_err response_fault (extract_response_data H P value))) (\<lambda>data.
                      run_bind (chain_after R chain (rt_after_hooks routes) req data) (\<lambda>data'.
                        run_ret (Ok (ReplyResponse data'))))))))"

text \<open>What \<open>catch_unwind\<close> sees of a run.\<close>

fun caught :: "('a, HandlerError fault) result \<Rightarrow> panic_payload + ('a, HandlerError) result" where
  "caught (Inr v) = Inr (Ok v)"
| "caught (Inl (Fails e)) = Inr (Err e)"
| "caught (Inl (Unwinds p)) = Inl p"

text \<open>
  \<open>call_handler_with_hooks\<close>: the result, the log line of a failure, and the state. The waits for the
  GIL and the time it was held are inputs, in microseconds.
\<close>

definition call_handler_with_hooks ::
    "('py, 'h, 'c, 'l, 'w) runtime \<Rightarrow> 'h http_api \<Rightarrow> 'h interp \<Rightarrow> ('r, 'py, 'h) Site \<Rightarrow> Target \<Rightarrow>
     'h PyronovaRequest \<Rightarrow> u64 \<Rightarrow> u64 \<Rightarrow> ('l, 'h, 'w) world \<Rightarrow>
     ('h MainReply, Logged) result \<times> log_line option \<times> ('l, 'h, 'w) world" where
  "call_handler_with_hooks R H P site target sky_req wait_us hold_us w =
     (let queued = w\<lparr>w_gil := (w_gil w)\<lparr>gm_queue_length := gm_queue_length (w_gil w) + 1\<rparr>\<rparr>;
          label = request_label sky_req;
          dequeued = (w_gil queued)\<lparr>gm_queue_length := gm_queue_length (w_gil queued) - 1\<rparr>;
          attached = queued\<lparr>w_gil := snd (record_gil_wait wait_us dequeued)\<rparr>;
          (made, w1) = in_request_context R (run_with_hooks R H P (site_routes site) target sky_req) attached;
          result = catch_panic (case made of
                                  Inr r \<Rightarrow> caught r
                                | Inl e \<Rightarrow> Inr (Err (handler_error_python Setup e)));
          w2 = w1\<lparr>w_gil := (w_gil w1)\<lparr>gm_hold_max := max (gm_hold_max (w_gil w1)) hold_us\<rparr>\<rparr>
      in case result of
           Inr reply \<Rightarrow> (Ok reply, None, w2)
         | Inl e \<Rightarrow> (let (logged, line) = error_log e (label_tag label) in (Err logged, Some line, w2)))"

text \<open>
  \<open>build_stream_response\<close>: the chunks are what the receiver yields until the stream is closed.
\<close>

definition build_stream_response :: "'h http_api \<Rightarrow> string list \<Rightarrow> 'h StreamInfo \<Rightarrow> 'h http_response" where
  "build_stream_response H chunks info =
     (let headers = hm_or_insert H (hm_or_insert H (hm_or_insert H (hm_or_insert H (si_headers info)
            CONTENT_TYPE (si_content_type info)) CACHE_CONTROL ''no-cache'') CONNECTION ''keep-alive'')
            SERVER SERVER_HEADER
      in (response_new H (StreamBody (map Crates.Data chunks)))\<lparr>rsp_status := si_status info, rsp_headers := headers\<rparr>)"

subsection \<open>What the engine relies on\<close>

text \<open>Observations of the interpreter: the calls the engine made, each with the contexts it was made in, and the contexts entered now, the current one first.\<close>

definition undisturbed ::
    "('w \<Rightarrow> ('py \<times> 'c list) list) \<Rightarrow> ('w \<Rightarrow> 'c list) \<Rightarrow> (('l, 'h, 'w) world \<Rightarrow> 'r \<times> ('l, 'h, 'w) world) \<Rightarrow> bool" where
  "undisturbed calls entered m \<longleftrightarrow>
     (\<forall>w. calls (w_py (snd (m w))) = calls (w_py w) \<and> entered (w_py (snd (m w))) = entered (w_py w))"

locale python_runtime =
  fixes R :: "('py, 'h, 'c, 'l, 'w) runtime"
    and calls :: "'w \<Rightarrow> ('py \<times> 'c list) list"
    and entered :: "'w \<Rightarrow> 'c list"
  assumes call_made: "ip_call R f args w = (r, w') \<Longrightarrow>
      calls (w_py w') = calls (w_py w) @ [(f, entered (w_py w))] \<and> entered (w_py w') = entered (w_py w)"
    and quiet: "undisturbed calls entered (ip_drive R x)"
      "undisturbed calls entered (ip_create_task R l x c)"
      "undisturbed calls entered (ip_run_until_complete R l x)"
      "undisturbed calls entered (ip_new_event_loop R)"
      "undisturbed calls entered (ip_new_request R rq)"
      "undisturbed calls entered (ip_new_str R t)"
      "undisturbed calls entered (ip_new_response R x)"
      "undisturbed calls entered (ip_context_new R)"
    and context_new: "ip_context_new R w = (Ok c, w') \<Longrightarrow> c \<notin> set (entered (w_py w))"
    and context_enter: "ip_context_enter R c w = (ended, w') \<Longrightarrow> c \<notin> set (entered (w_py w)) \<Longrightarrow>
      ended = Ok () \<and> calls (w_py w') = calls (w_py w) \<and> entered (w_py w') = c # entered (w_py w)"
    and context_exit: "ip_context_exit R c w = (ended, w') \<Longrightarrow> entered (w_py w) = c # cs \<Longrightarrow>
      ended = Ok () \<and> calls (w_py w') = calls (w_py w) \<and> entered (w_py w') = cs"

text \<open>
  A run in the contexts \<open>cs\<close> that leaves them as they were, and whose outcome and calls, all made in
  those contexts, are related by \<open>Q\<close>.
\<close>

definition traced ::
    "('w \<Rightarrow> ('py \<times> 'c list) list) \<Rightarrow> ('w \<Rightarrow> 'c list) \<Rightarrow> 'c list \<Rightarrow> (('a, 'e) result \<Rightarrow> 'py list \<Rightarrow> bool) \<Rightarrow>
     ('a, 'e, ('l, 'h, 'w) world) run \<Rightarrow> bool" where
  "traced calls entered cs Q m \<longleftrightarrow>
     (\<forall>w r w'. entered (w_py w) = cs \<longrightarrow> m w = (r, w') \<longrightarrow>
        entered (w_py w') = cs \<and>
        (\<exists>made. calls (w_py w') = calls (w_py w) @ map (\<lambda>f. (f, cs)) made \<and> Q r made))"

lemma tracedD:
  assumes "traced calls entered cs Q m" and "entered (w_py w) = cs" and "m w = (r, w')"
  obtains made where "entered (w_py w') = cs" and "calls (w_py w') = calls (w_py w) @ map (\<lambda>f. (f, cs)) made"
    and "Q r made"
  using assms unfolding traced_def by blast

lemma traced_ret: "Q r [] \<Longrightarrow> traced calls entered cs Q (run_ret r)"
  by (auto simp: traced_def run_ret_def)

lemma traced_weaken:
  "traced calls entered cs Q m \<Longrightarrow> (\<And>r made. Q r made \<Longrightarrow> Q' r made) \<Longrightarrow> traced calls entered cs Q' m"
  unfolding traced_def by blast

lemma traced_bind:
  assumes m: "traced calls entered cs Q m"
    and f: "\<And>v made. Q (Ok v) made \<Longrightarrow> traced calls entered cs (\<lambda>r made'. Q' r (made @ made')) (f v)"
    and err: "\<And>e made. Q (Err e) made \<Longrightarrow> Q' (Err e) made"
  shows "traced calls entered cs Q' (run_bind m f)"
  unfolding traced_def
proof (intro allI impI)
  fix w r w'
  assume w: "entered (w_py w) = cs" and run: "run_bind m f w = (r, w')"
  obtain r1 w1 where m1: "m w = (r1, w1)" by force
  from tracedD [OF m w m1] obtain made where e1: "entered (w_py w1) = cs"
    and c1: "calls (w_py w1) = calls (w_py w) @ map (\<lambda>f. (f, cs)) made" and q1: "Q r1 made" .
  show "entered (w_py w') = cs \<and> (\<exists>made. calls (w_py w') = calls (w_py w) @ map (\<lambda>f. (f, cs)) made \<and> Q' r made)"
  proof (cases r1)
    case (Inl e)
    with run m1 e1 c1 err q1 show ?thesis by (auto simp: run_bind_def)
  next
    case (Inr v)
    with run m1 have "f v w1 = (r, w')" by (simp add: run_bind_def)
    from tracedD [OF f e1 this] q1 Inr obtain made' where "entered (w_py w') = cs"
      "calls (w_py w') = calls (w_py w1) @ map (\<lambda>f. (f, cs)) made'" "Q' r (made @ made')" by auto
    with c1 show ?thesis by (auto intro!: exI [of _ "made @ made'"])
  qed
qed

lemma traced_err:
  "traced calls entered cs (\<lambda>r made. Q (map_err g r) made) m \<Longrightarrow> traced calls entered cs Q (run_err g m)"
  unfolding traced_def run_err_def by (auto split: prod.splits)

lemma traced_undisturbed:
  assumes "undisturbed calls entered m"
  shows "traced calls entered cs (\<lambda>r made. made = []) m"
  unfolding traced_def
proof (intro allI impI)
  fix w r w'
  assume "entered (w_py w) = cs" "m w = (r, w')"
  with assms [unfolded undisturbed_def, rule_format, of w]
  show "entered (w_py w') = cs \<and> (\<exists>made. calls (w_py w') = calls (w_py w) @ map (\<lambda>f. (f, cs)) made \<and> made = [])"
    by simp
qed

text \<open>The stage an uncaught Python exception is reported with.\<close>

definition stage_in :: "Stage set \<Rightarrow> ('a, HandlerError fault) result \<Rightarrow> bool" where
  "stage_in S r \<longleftrightarrow> (\<forall>s x. r = Err (Fails (Python s x)) \<longrightarrow> s \<in> S)"

lemma stage_in_simps [simp]:
  "stage_in S (Ok v)" "stage_in S (Err (Unwinds p))" "stage_in S (Err (Fails (ResponseErr e)))"
  "stage_in S (Err (response_fault e))"
  by (simp_all add: stage_in_def response_fault_def)

lemma stage_in_raised [simp]: "s \<in> S \<Longrightarrow> stage_in S (map_err (map_fault_err (handler_error_python s)) r)"
proof (cases r)
  case (Inl e)
  assume "s \<in> S"
  with Inl show ?thesis by (cases e) (auto simp: stage_in_def handler_error_python_def split: option.splits)
qed simp

lemma stage_in_fails_raised [simp]: "s \<in> S \<Longrightarrow> stage_in S (Err (Fails (handler_error_python s e)))"
  by (auto simp: stage_in_def handler_error_python_def split: option.splits)

lemma stage_in_Err: "stage_in S (Err e :: ('a, HandlerError fault) result) \<Longrightarrow> stage_in S (Err e :: ('b, HandlerError fault) result)"
  by (simp add: stage_in_def)

lemma stage_in_mono: "stage_in S r \<Longrightarrow> S \<subseteq> T \<Longrightarrow> stage_in T r"
  by (auto simp: stage_in_def)

lemma stage_in_response [simp]: "stage_in S (map_err response_fault r)"
  by (cases r) simp_all

context python_runtime
begin

lemmas quiet_traced = quiet(1-5) [THEN traced_undisturbed] quiet(7,8) [THEN traced_undisturbed]

lemma traced_thread_loop:
  "traced calls entered cs (\<lambda>r made. made = [] \<and> stage_in {Setup} r) (thread_event_loop R)"
  unfolding traced_def
proof (intro allI impI)
  fix w r w'
  assume w: "entered (w_py w) = cs" "thread_event_loop R w = (r, w')"
  obtain r1 w1 where n: "ip_new_event_loop R w = (r1, w1)" by force
  with quiet(4) have q: "calls (w_py w1) = calls (w_py w)" "entered (w_py w1) = entered (w_py w)"
    by (metis undisturbed_def snd_conv)+
  show "entered (w_py w') = cs \<and>
      (\<exists>made. calls (w_py w') = calls (w_py w) @ map (\<lambda>f. (f, cs)) made \<and> made = [] \<and> stage_in {Setup} r)"
  proof (cases "w_loop w")
    case None
    have "stage_in {Setup} (Err (map_fault_err (handler_error_python Setup) e))" for e
      using stage_in_raised [of Setup "{Setup}" "Err e"] by simp
    with None w n q show ?thesis
      by (cases r1) (auto simp: thread_event_loop_def Let_def stage_in_def)
  next
    case (Some x)
    with w show ?thesis by (cases x) (auto simp: thread_event_loop_def Let_def stage_in_def split: if_splits)
  qed
qed

lemma traced_run_in_task:
  assumes "c \<notin> set cs"
  shows "traced calls entered (c # cs) (\<lambda>r made. made = []) (run_in_task R c l x)"
  unfolding run_in_task_def
proof (rule traced_bind [where Q = "\<lambda>r made. made = []"])
  show "traced calls entered (c # cs) (\<lambda>r made. made = [])
      (if ip_is_coroutine R x then run_ret (Ok x) else ip_drive R x)"
    by (simp add: traced_ret quiet_traced)
next
  fix coro and made :: "'py list"
  assume "made = []"
  let ?body = "run_bind (ip_create_task R l coro c) (ip_run_until_complete R l)"
  have body: "traced calls entered cs (\<lambda>r made. made = []) ?body"
    by (rule traced_bind [OF quiet_traced(2)]) (simp_all add: quiet_traced)
  have "traced calls entered (c # cs) (\<lambda>r made'. made' = [])
      (run_bind (run_err Fails (ip_context_exit R c)) (\<lambda>_ w. let (r, w') = ?body w in (r, snd (ip_context_enter R c w'))))"
    unfolding traced_def
  proof (intro allI impI)
    fix w r w'
    assume w: "entered (w_py w) = c # cs"
      and run: "run_bind (run_err Fails (ip_context_exit R c)) (\<lambda>_ w. let (r, w') = ?body w in (r, snd (ip_context_enter R c w'))) w = (r, w')"
    obtain r1 w1 where ex: "ip_context_exit R c w = (r1, w1)" by force
    from context_exit [OF ex w] have w1: "r1 = Ok ()" "calls (w_py w1) = calls (w_py w)" "entered (w_py w1) = cs" by auto
    obtain r2 w2 where b: "?body w1 = (r2, w2)" by force
    from tracedD [OF body w1(3) b] have w2: "entered (w_py w2) = cs" "calls (w_py w2) = calls (w_py w1)" by auto
    obtain r3 w3 where en: "ip_context_enter R c w2 = (r3, w3)" by force
    from context_enter [OF en] assms w2 have "entered (w_py w3) = c # cs" "calls (w_py w3) = calls (w_py w)" using w1 by auto
    with run ex w1 b en show "entered (w_py w') = c # cs \<and>
        (\<exists>made. calls (w_py w') = calls (w_py w) @ map (\<lambda>f. (f, c # cs)) made \<and> made = [])"
      by (simp add: run_bind_def run_err_def)
  qed
  then show "traced calls entered (c # cs) (\<lambda>r made'. made @ made' = [])
      (run_bind (run_err Fails (ip_context_exit R c)) (\<lambda>_ w. let (r, w') = ?body w in (r, snd (ip_context_enter R c w'))))"
    using \<open>made = []\<close> by simp
qed simp

lemma traced_call:
  assumes rc: "ch_rc ch \<notin> set cs"
    and loop: "traced calls entered (ch_rc ch # cs) (\<lambda>r made. made = [] \<and> stage_in {Setup} r) (ch_event_loop ch)"
  shows "traced calls entered (ch_rc ch # cs) (\<lambda>r made. made = [f] \<and> stage_in {st, Setup} r) (chain_call R ch f args st)"
proof -
  let ?tr = "traced calls entered (ch_rc ch # cs)"
  let ?raised = "map_fault_err (handler_error_python st)"
  have call: "?tr (\<lambda>r made. made = [f]) (ip_call R f args)"
    unfolding traced_def by (auto dest!: call_made)
  have "?tr (\<lambda>r made. made = [] \<and> stage_in {st, Setup} r) (run_bind (ch_event_loop ch) (\<lambda>l. run_err ?raised (m l)))"
    if "\<And>l. ?tr (\<lambda>r made. made = []) (m l)" for m :: "'l \<Rightarrow> ('h pyobj, PyErr fault, ('l, 'h, 'w) world) run"
    by (rule traced_bind [OF loop])
       (auto intro!: traced_err traced_weaken [OF that] intro: stage_in_mono [OF stage_in_Err])
  note awaited = this [OF traced_run_in_task [OF rc]] this [OF quiet_traced(3)]
  show ?thesis
    unfolding chain_call_def Let_def
  proof (rule traced_bind [where Q = "\<lambda>r made. made = [f] \<and> stage_in {st, Setup} r"])
    show "?tr (\<lambda>r made. made = [f] \<and> stage_in {st, Setup} r) (run_err ?raised (ip_call R f args))"
      by (rule traced_err, rule traced_weaken [OF call]) simp
  qed (use awaited in \<open>auto simp: traced_ret split: option.split Awaitable.split intro: stage_in_Err\<close>)
qed

lemma traced_before:
  assumes "ch_rc ch \<notin> set cs"
    and "traced calls entered (ch_rc ch # cs) (\<lambda>r made. made = [] \<and> stage_in {Setup} r) (ch_event_loop ch)"
  shows "traced calls entered (ch_rc ch # cs)
      (\<lambda>r made. prefix made bs \<and> (r = Ok None \<longrightarrow> made = bs) \<and> (\<forall>d. r = Ok (Some d) \<longrightarrow> made \<noteq> []) \<and>
         stage_in {BeforeHook, Setup} r)
      (chain_before R ch bs req)"
proof (induction bs)
  case Nil
  then show ?case by (simp add: traced_ret)
next
  case (Cons b bs)
  show ?case
    unfolding chain_before.simps
    by (rule traced_bind [OF traced_call [OF assms]])
       (auto simp: map_ok_eq_Inr map_err_eq_Inr intro!: traced_ret traced_weaken [OF Cons.IH] intro: stage_in_Err)
qed

lemma traced_to_py: "traced calls entered cs (\<lambda>r made. made = []) (response_to_py R data)"
  unfolding traced_def
proof (intro allI impI)
  fix w r w'
  assume w: "entered (w_py w) = cs" and run: "response_to_py R data w = (r, w')"
  obtain x w1 where n: "ip_new_str R (rd_body data) w = (x, w1)" by force
  with quiet(6) have "calls (w_py w1) = calls (w_py w)" "entered (w_py w1) = entered (w_py w)"
    by (metis undisturbed_def snd_conv)+
  with w run n tracedD [OF quiet_traced(6)] show
    "entered (w_py w') = cs \<and> (\<exists>made. calls (w_py w') = calls (w_py w) @ map (\<lambda>f. (f, cs)) made \<and> made = [])"
    by (fastforce simp: response_to_py_def run_err_def split: if_splits prod.splits)
qed

lemma traced_after:
  assumes "ch_rc ch \<notin> set cs"
    and "traced calls entered (ch_rc ch # cs) (\<lambda>r made. made = [] \<and> stage_in {Setup} r) (ch_event_loop ch)"
  shows "traced calls entered (ch_rc ch # cs)
      (\<lambda>r made. prefix made afs \<and> (\<forall>d. r = Ok d \<longrightarrow> made = afs) \<and> stage_in {AfterHook, Setup} r)
      (chain_after R ch afs req data)"
proof (induction afs arbitrary: data)
  case Nil
  then show ?case by (simp add: traced_ret)
next
  case (Cons a afs)
  let ?tr = "traced calls entered (ch_rc ch # cs)"
  have to_py: "?tr (\<lambda>r made. made = [] \<and> stage_in {AfterHook, Setup} r) (run_err response_fault (response_to_py R data))"
    by (rule traced_err, rule traced_weaken [OF traced_to_py]) simp
  have map: "?tr (\<lambda>r made. made = [] \<and> stage_in {AfterHook, Setup} r)
      (if is_none v then run_ret (Ok data) else run_ret (map_err response_fault (ch_to_response ch v)))" for v
    by (auto intro: traced_ret)
  let ?Q = "\<lambda>r made. prefix made (a # afs) \<and> (\<forall>d. r = Ok d \<longrightarrow> made = a # afs) \<and> stage_in {AfterHook, Setup} r"
  have rest: "?tr (\<lambda>r made. ?Q r (a # made)) (run_bind
      (if is_none v then run_ret (Ok data) else run_ret (map_err response_fault (ch_to_response ch v)))
      (chain_after R ch afs req))" for v
    by (rule traced_bind [OF map]) (auto intro!: traced_weaken [OF Cons.IH] intro: stage_in_Err)
  have "?tr ?Q (run_bind (chain_call R ch a [req, current] AfterHook) (\<lambda>v. run_bind
      (if is_none v then run_ret (Ok data) else run_ret (map_err response_fault (ch_to_response ch v)))
      (chain_after R ch afs req)))" for current
    by (rule traced_bind [OF traced_call [OF assms]]) (use rest in \<open>auto intro: stage_in_Err\<close>)
  then show ?case
    unfolding chain_after.simps by (intro traced_bind [OF to_py]) (auto intro: stage_in_Err)
qed

end

text \<open>The calls a request made, for each way it can end.\<close>

fun ran_for :: "'py list \<Rightarrow> 'py \<Rightarrow> 'py list \<Rightarrow> ('h MainReply, HandlerError fault) result \<Rightarrow> 'py list \<Rightarrow> bool" where
  "ran_for bs h afs (Inr (ReplyResponse d)) made \<longleftrightarrow> made = bs @ h # afs \<or> made \<noteq> [] \<and> prefix made bs"
| "ran_for bs h afs (Inr (ReplyStream i)) made \<longleftrightarrow> made = bs @ [h]"
| "ran_for bs h afs (Inl (Fails e)) made \<longleftrightarrow>
     prefix made (bs @ h # afs) \<and>
     (\<forall>s x. e = Python s x \<longrightarrow>
        (s = BeforeHook \<longrightarrow> prefix made bs) \<and> (s = Handler \<longrightarrow> made = bs @ [h]) \<and> (s = AfterHook \<longrightarrow> prefix (bs @ [h]) made))"
| "ran_for bs h afs (Inl (Unwinds p)) made \<longleftrightarrow> prefix made (bs @ h # afs)"

lemma ran_for_before: "prefix made bs \<Longrightarrow> stage_in {BeforeHook, Setup} (Err e) \<Longrightarrow> ran_for bs h afs (Err e) made"
  by (cases e) (auto simp: stage_in_def)

lemma ran_for_handler: "stage_in {Handler, Setup} (Err e) \<Longrightarrow> ran_for bs h afs (Err e) (bs @ [h])"
  by (cases e) (auto simp: stage_in_def)

lemma ran_for_after:
  "prefix made afs \<Longrightarrow> stage_in {AfterHook, Setup} (Err e) \<Longrightarrow> ran_for bs h afs (Err e) (bs @ h # made)"
  by (cases e) (auto simp: stage_in_def)

context python_runtime
begin

lemma traced_stream_info: "traced calls entered cs (\<lambda>r made. made = []) 
    (stream_info H v :: ('h StreamInfo, ResponseError, ('l, 'h, 'w) world) run)"
proof -
  have "w_py (snd (stream_info H v w)) = w_py w" for w :: "('l, 'h, 'w) world"
    by (cases "(H, v, w)" rule: stream_info.cases) (auto simp: Let_def split: sum.splits prod.splits)
  then show ?thesis by (intro traced_undisturbed) (simp add: undisturbed_def)
qed

lemma traced_answer:
  assumes "c \<notin> set cs" and ch_def: "ch = main_chain R H P c"
  shows "traced calls entered (c # cs) (\<lambda>r made. ran_for bs h afs r (bs @ h # made))
     (if is_stream v
      then run_bind (run_err response_fault (stream_info H v)) (\<lambda>info. run_ret (Ok (ReplyStream info)))
      else run_bind (run_ret (map_err response_fault (extract_response_data H P v))) (\<lambda>data.
           run_bind (chain_after R ch afs req data) (\<lambda>data'. run_ret (Ok (ReplyResponse data')))))"
    (is "traced _ _ _ ?Q _")
proof -
  have ch: "ch_rc ch = c" "ch_event_loop ch = thread_event_loop R" by (simp_all add: ch_def main_chain_def)
  have err: "ran_for bs h afs (Err (response_fault e)) (bs @ [h])" for e
    by (simp add: response_fault_def)
  have stream: "traced calls entered (c # cs) ?Q
      (run_bind (run_err response_fault (stream_info H v)) (\<lambda>info. run_ret (Ok (ReplyStream info)) ::
         ('h MainReply, HandlerError fault, ('l, 'h, 'w) world) run))"
    by (rule traced_bind [where Q = "\<lambda>r made. made = [] \<and> (\<forall>e. r = Err e \<longrightarrow> ?Q (Err e) [])"])
       (auto intro!: traced_ret traced_err traced_weaken [OF traced_stream_info] simp: map_err_eq_Inl err)
  have after: "traced calls entered (c # cs)
      (\<lambda>r made. prefix made afs \<and> (\<forall>d. r = Ok d \<longrightarrow> made = afs) \<and> stage_in {AfterHook, Setup} r)
      (chain_after R ch afs req data)" for data
    using traced_after [of ch cs afs req data] assms(1) traced_thread_loop ch by simp
  have "traced calls entered (c # cs) ?Q
      (run_bind (chain_after R ch afs req data) (\<lambda>data'. run_ret (Ok (ReplyResponse data'))))" for data
    by (rule traced_bind [OF after]) (auto intro!: traced_ret ran_for_after intro: stage_in_Err)
  then have "traced calls entered (c # cs) ?Q (run_bind (run_ret (map_err response_fault (extract_response_data H P v)))
      (\<lambda>data. run_bind (chain_after R ch afs req data) (\<lambda>data'. run_ret (Ok (ReplyResponse data')))))"
    by (intro traced_bind [OF traced_ret [where Q = "\<lambda>r made. made = [] \<and> (\<forall>e. r = Err e \<longrightarrow> ?Q (Err e) [])"]])
       (auto simp: map_err_eq_Inl err)
  with stream show ?thesis by simp
qed

lemma traced_run_with_hooks:
  assumes "c \<notin> set cs" and h: "handler routes target = Some h"
  shows "traced calls entered (c # cs) (ran_for (rt_before_hooks routes) h (rt_after_hooks routes))
     (run_with_hooks R H P routes target rq c)"
proof -
  let ?bs = "rt_before_hooks routes" and ?afs = "rt_after_hooks routes" and ?ch = "main_chain R H P c"
  let ?tr = "traced calls entered (c # cs)" and ?Q = "ran_for ?bs h ?afs"
  have ch: "ch_rc ?ch = c" "ch_event_loop ?ch = thread_event_loop R" by (simp_all add: main_chain_def)
  have before: "?tr (\<lambda>r made. prefix made ?bs \<and> (r = Ok None \<longrightarrow> made = ?bs) \<and> (\<forall>d. r = Ok (Some d) \<longrightarrow> made \<noteq> []) \<and>
      stage_in {BeforeHook, Setup} r) (chain_before R ?ch ?bs req)" for req
    using traced_before [of ?ch cs ?bs req] assms(1) traced_thread_loop ch by simp
  have call: "?tr (\<lambda>r made. made = [h] \<and> stage_in {Handler, Setup} r) (chain_handler R ?ch h req)" for req
    using traced_call [of ?ch cs h Handler "[req]"] assms(1) traced_thread_loop ch by (simp add: chain_handler_def)
  have new: "?tr (\<lambda>r made. made = [] \<and> stage_in {Setup} r)
      (run_err (map_fault_err (handler_error_python Setup)) (ip_new_request R rq))"
    by (rule traced_err, rule traced_weaken [OF quiet_traced(5)]) simp
  show ?thesis
    unfolding run_with_hooks_def Let_def h option.case
    by (rule traced_bind [OF new], simp, rule traced_bind [OF before])
       (auto intro!: traced_ret traced_bind [OF call] traced_weaken [OF traced_answer [OF assms(1) refl]]
          ran_for_before ran_for_handler intro: stage_in_Err stage_in_mono split: option.split)
qed

text \<open>A request's context: new, entered before its calls and left after them, however they end.\<close>

lemma context_calls:
  assumes f: "\<And>c. c \<notin> set (entered (w_py w)) \<Longrightarrow> traced calls entered (c # entered (w_py w)) Q (f c)"
    and run: "in_request_context R f w = (x, w')"
  shows "\<exists>c made. entered (w_py w') = entered (w_py w) \<and>
     calls (w_py w') = calls (w_py w) @ map (\<lambda>f. (f, c # entered (w_py w))) made \<and>
     (made \<noteq> [] \<longrightarrow> c \<notin> set (entered (w_py w))) \<and> (case x of Inl e \<Rightarrow> made = [] | Inr r \<Rightarrow> Q r made)"
proof -
  obtain rn wn where new: "ip_context_new R w = (rn, wn)" by force
  with quiet(8) have wn: "calls (w_py wn) = calls (w_py w)" "entered (w_py wn) = entered (w_py w)"
    by (metis undisturbed_def snd_conv)+
  show ?thesis
  proof (cases rn)
    case (Inl e)
    with new run have "x = Err e" "w' = wn" by (auto simp: in_request_context_def run_bind_def)
    with wn show ?thesis by (intro exI [of _ "[]"] exI) auto
  next
    case (Inr c)
    with context_new [of w c wn] new have c: "c \<notin> set (entered (w_py w))" by simp
    obtain re we where enter: "ip_context_enter R c wn = (re, we)" by force
    with context_enter [OF enter] c wn have we: "re = Ok ()" "calls (w_py we) = calls (w_py w)"
      "entered (w_py we) = c # entered (w_py w)" by auto
    obtain r wb where body: "f c we = (r, wb)" by force
    from tracedD [OF f [OF c] we(3) body] we(2) obtain made where
      b: "entered (w_py wb) = c # entered (w_py w)"
      "calls (w_py wb) = calls (w_py w) @ map (\<lambda>f. (f, c # entered (w_py w))) made" "Q r made" by metis
    obtain rx wx where exit: "ip_context_exit R c wb = (rx, wx)" by force
    with context_exit [OF exit b(1)] have wx: "calls (w_py wx) = calls (w_py wb)"
      "entered (w_py wx) = entered (w_py w)" by auto
    from new Inr enter we(1) body exit run have "x = Ok r" "w' = wx"
      by (auto simp: in_request_context_def run_bind_def)
    with wx b(2,3) c show ?thesis by auto
  qed
qed

text \<open>The handler is called exactly when every before hook has returned \<open>None\<close>.\<close>

lemma handler_called_iff:
  assumes c: "c \<notin> set cs" and h: "handler routes target = Some h" and w: "entered (w_py w) = c # cs"
    and new: "ip_new_request R rq w = (Ok req, w0)"
    and run: "run_with_hooks R H P routes target rq c w = (r, w')"
  obtains made where "calls (w_py w') = calls (w_py w) @ map (\<lambda>f. (f, c # cs)) made"
    and "length (rt_before_hooks routes) < length made \<longleftrightarrow>
       fst (chain_before R (main_chain R H P c) (rt_before_hooks routes) req w0) = Ok None"
proof -
  let ?bs = "rt_before_hooks routes" and ?ch = "main_chain R H P c" and ?m = "map (\<lambda>f. (f, c # cs))"
  have ch: "ch_rc ?ch = c" "ch_event_loop ?ch = thread_event_loop R" by (simp_all add: main_chain_def)
  from tracedD [OF quiet_traced(5) w new] have w0: "entered (w_py w0) = c # cs" "calls (w_py w0) = calls (w_py w)" by auto
  obtain rb wb where b: "chain_before R ?ch ?bs req w0 = (rb, wb)" by force
  have "traced calls entered (c # cs) (\<lambda>r made. prefix made ?bs \<and> (r = Ok None \<longrightarrow> made = ?bs) \<and>
      (\<forall>d. r = Ok (Some d) \<longrightarrow> made \<noteq> []) \<and> stage_in {BeforeHook, Setup} r) (chain_before R ?ch ?bs req)"
    using traced_before [of ?ch cs ?bs req] c traced_thread_loop ch by simp
  from tracedD [OF this w0(1) b] obtain mb where wb: "entered (w_py wb) = c # cs"
    "calls (w_py wb) = calls (w_py w) @ ?m mb" "prefix mb ?bs" "rb = Ok None \<longrightarrow> mb = ?bs"
    using w0(2) by auto
  show thesis
  proof (cases "rb = Ok None")
    case False
    then have "w' = wb"
      using run new b
      by (cases rb) (auto simp: run_with_hooks_def Let_def run_bind_def run_err_def run_ret_def split: option.splits)
    with that [of mb] wb False b show thesis by (auto dest: prefix_length_le)
  next
    case True
    let ?rest = "run_bind (chain_handler R ?ch h req) (\<lambda>v. if is_stream v
      then run_bind (run_err response_fault (stream_info H v)) (\<lambda>info. run_ret (Ok (ReplyStream info)))
      else run_bind (run_ret (map_err response_fault (extract_response_data H P v))) (\<lambda>data.
           run_bind (chain_after R ?ch (rt_after_hooks routes) req data) (\<lambda>data'. run_ret (Ok (ReplyResponse data')))))"
    have call: "traced calls entered (c # cs) (\<lambda>r made. made = [h] \<and> stage_in {Handler, Setup} r) (chain_handler R ?ch h req)"
      using traced_call [of ?ch cs h Handler "[req]"] c traced_thread_loop ch by (simp add: chain_handler_def)
    have rest: "traced calls entered (c # cs) (\<lambda>r made. made \<noteq> []) ?rest"
    proof (rule traced_bind [OF call])
      fix v :: "'h pyobj" and made :: "'py list"
      assume "made = [h] \<and> stage_in {Handler, Setup} (Ok v :: ('h pyobj, HandlerError fault) result)"
      then show "traced calls entered (c # cs) (\<lambda>r made'. made @ made' \<noteq> []) (if is_stream v
          then run_bind (run_err response_fault (stream_info H v)) (\<lambda>info. run_ret (Ok (ReplyStream info)))
          else run_bind (run_ret (map_err response_fault (extract_response_data H P v))) (\<lambda>data.
               run_bind (chain_after R ?ch (rt_after_hooks routes) req data) (\<lambda>data'. run_ret (Ok (ReplyResponse data')))))"
        by (intro traced_weaken [OF traced_answer [OF c refl]]) simp
    qed simp
    from run new b True h have "?rest wb = (r, w')"
      by (simp add: run_with_hooks_def Let_def run_bind_Ok run_err_eq)
    from tracedD [OF rest wb(1) this] obtain mr where "calls (w_py w') = calls (w_py wb) @ ?m mr" "mr \<noteq> []" by auto
    with that [of "mb @ mr"] wb True b show thesis by auto
  qed
qed

end

subsection \<open>A runtime\<close>

text \<open>
  An interpreter whose state is the calls made and the contexts entered: the callable \<open>deny\<close> raises,
  \<open>view\<close> returns bytes, any other returns \<open>None\<close>.
\<close>

type_synonym demo_py = "(string \<times> nat list) list \<times> nat list"

type_synonym demo_world = "(nat, (string \<times> string) list, demo_py) world"

definition demo_err :: PyErr where
  "demo_err = \<lparr>py_exception = no_exception, py_rejection = None\<rparr>"

definition demo_runtime :: "(string, (string \<times> string) list, nat, nat, demo_py) runtime" where
  "demo_runtime =
     \<lparr>ip_call = (\<lambda>f args w.
        (if f = ''deny'' then Err (Fails demo_err) else if f = ''view'' then Ok (PyBytes ''hi'') else Ok PyNone,
         w\<lparr>w_py := (fst (w_py w) @ [(f, snd (w_py w))], snd (w_py w))\<rparr>)),
      ip_is_coroutine = (\<lambda>_. False), ip_has_await = (\<lambda>_. False), ip_future_marker = (\<lambda>_. False),
      ip_drive = (\<lambda>x w. (Ok x, w)), ip_create_task = (\<lambda>_ x _ w. (Ok x, w)),
      ip_run_until_complete = (\<lambda>_ x w. (Ok x, w)),
      ip_context_new = (\<lambda>w. (Ok (Suc (sum_list (snd (w_py w)))), w)),
      ip_context_enter = (\<lambda>c w. if c \<in> set (snd (w_py w)) then (Err demo_err, w)
                                else (Ok (), w\<lparr>w_py := (fst (w_py w), c # snd (w_py w))\<rparr>)),
      ip_context_exit = (\<lambda>c w. case snd (w_py w) of
          [] \<Rightarrow> (Err demo_err, w)
        | c' # cs \<Rightarrow> if c' = c then (Ok (), w\<lparr>w_py := (fst (w_py w), cs)\<rparr>) else (Err demo_err, w)),
      ip_new_event_loop = (\<lambda>w. (Ok 0, w)), ip_loop_close = (\<lambda>_ w. (Ok (), w)), ip_interp_id = 0,
      ip_new_request = (\<lambda>_ w. (Ok (PyOther 0), w)), ip_new_str = (\<lambda>_ w. (PyStr 0, w)),
      ip_new_response = (\<lambda>x w. (Ok x, w))\<rparr>"

interpretation demo: python_runtime demo_runtime fst snd
  by unfold_locales
     (auto simp: demo_runtime_def undisturbed_def dest!: member_le_sum_list split: if_splits list.splits)

definition demo_interp :: "(string \<times> string) list interp" where
  "demo_interp =
     \<lparr>in_dumps = (\<lambda>_. Ok []), in_to_str = (\<lambda>_. Ok []), in_str = (\<lambda>x. Ok x), in_type_name = (\<lambda>_. [])\<rparr>"

definition demo_world :: demo_world where
  "demo_world = \<lparr>w_loop = None, w_streams = (\<lambda>_. demo_stream), w_gil =
      \<lparr>gm_queue_length = 0, gm_latency_last = 0, gm_latency_max = 0, gm_total_wait = 0, gm_probe_count = 0,
       gm_hold_max = 0\<rparr>, w_py = ([], [])\<rparr>"

definition demo_routes :: "string list \<Rightarrow> ((string \<times> nat) list, string, (string \<times> string) list) RouteTable" where
  "demo_routes hooks = route_table_new\<lparr>rt_fallback := Some ''view'', rt_before_hooks := hooks, rt_after_hooks := [''b'']\<rparr>"

definition demo_request :: "(string \<times> string) list PyronovaRequest" where
  "demo_request = request_new \<lparr>hd_parts = \<lparr>pt_method = ''GET'', pt_path = ''/'', pt_query = None,
     pt_version = ''HTTP/1.1'', pt_headers = []\<rparr>, hd_params = [], hd_client_ip = [], hd_request_id = Minted 1\<rparr>
     (BodyBuffered [])"

lemmas run_defs = run_bind_def run_err_def run_ret_def

subsection \<open>The theorems\<close>

lemma call_handler_body:
  assumes "call_handler_with_hooks R H P site target rq wait_us hold_us w = (res, line, w')"
  obtains w1 inner w2 where "w_py w1 = w_py w"
    and "in_request_context R (run_with_hooks R H P (site_routes site) target rq) w1 = (inner, w2)"
    and "w_py w' = w_py w2"
    and "map_err lg_error res =
      catch_panic (case inner of Inr r \<Rightarrow> caught r | Inl e \<Rightarrow> Inr (Err (handler_error_python Setup e)))"
    and "line = None \<longleftrightarrow> (\<exists>reply. res = Ok reply)"
proof -
  define w1 where "w1 = w\<lparr>w_gil := snd (record_gil_wait wait_us
     ((w_gil w)\<lparr>gm_queue_length := gm_queue_length (w_gil w) + 1 - 1\<rparr>))\<rparr>"
  obtain inner w2 where inner: "in_request_context R (run_with_hooks R H P (site_routes site) target rq) w1 = (inner, w2)"
    by force
  let ?result = "catch_panic (case inner of Inr r \<Rightarrow> caught r | Inl e \<Rightarrow> Inr (Err (handler_error_python Setup e)))"
  let ?w2 = "w2\<lparr>w_gil := (w_gil w2)\<lparr>gm_hold_max := max (gm_hold_max (w_gil w2)) hold_us\<rparr>\<rparr>"
  have "(res, line, w') = (case ?result of
           Inr reply \<Rightarrow> (Ok reply, None, ?w2)
         | Inl e \<Rightarrow> (let (logged, line) = error_log e (label_tag (request_label rq)) in (Err logged, Some line, ?w2)))"
    unfolding assms [symmetric] call_handler_with_hooks_def Let_def
    using inner by (simp add: w1_def)
  then have "w_py w' = w_py w2" "map_err lg_error res = ?result" "line = None \<longleftrightarrow> (\<exists>reply. res = Ok reply)"
    by (cases ?result; simp add: error_log_def)+
  moreover have "w_py w1 = w_py w" by (simp add: w1_def)
  ultimately show thesis using that inner by blast
qed

text \<open>Every hook, called in order on the request, returns \<open>None\<close>.\<close>

fun hooks_pass ::
    "('py, 'h, 'c, 'l, 'w) runtime \<Rightarrow> ('c, 'l, 'h, 'w) Chain \<Rightarrow> 'py list \<Rightarrow> 'h pyobj \<Rightarrow> ('l, 'h, 'w) world \<Rightarrow> bool" where
  "hooks_pass R ch [] req w = True"
| "hooks_pass R ch (hook # hooks) req w =
     (case chain_call R ch hook [req] BeforeHook w of
        (Inr value, w') \<Rightarrow> is_none value \<and> hooks_pass R ch hooks req w'
      | (Inl _, _) \<Rightarrow> False)"

lemma chain_before_passes: "fst (chain_before R ch hooks req w) = Ok None \<longleftrightarrow> hooks_pass R ch hooks req w"
  by (induction hooks arbitrary: w)
     (auto simp: run_bind_def run_ret_def map_ok_def map_err_def split: prod.splits sum.splits)

text \<open>
  C38. The handler of a request runs exactly when each before hook, called in order on the same request,
  has returned \<open>None\<close>: a hook that raises, answers or makes a value that is no response keeps it from
  running.
\<close>

theorem handler_needs_before_hooks:
  assumes "python_runtime R calls entered" and "handler routes target = Some h"
    and "entered (w_py w) = c # cs" and "c \<notin> set cs"
    and "ip_new_request R rq w = (Ok req, w0)" and "run_with_hooks R H P routes target rq c w = (r, w')"
  shows "\<exists>made. calls (w_py w') = calls (w_py w) @ map (\<lambda>f. (f, c # cs)) made \<and>
           (length (rt_before_hooks routes) < length made \<longleftrightarrow>
              hooks_pass R (main_chain R H P c) (rt_before_hooks routes) req w0)"
  using python_runtime.handler_called_iff [OF assms(1,4,2,3,5,6)] unfolding chain_before_passes by metis

theorem handler_needs_before_hooks_witness:
  "\<exists>r w'. run_with_hooks demo_runtime line_headers demo_interp (demo_routes [''a'', ''deny'', ''a'']) Fallback
      demo_request 1 (demo_world\<lparr>w_py := ([], [1])\<rparr>) = (r, w') \<and>
     (\<exists>made. fst (w_py w') = map (\<lambda>f. (f, [1])) made \<and> \<not> 3 < length made)"
proof -
  let ?w = "demo_world\<lparr>w_py := ([], [1])\<rparr>" and ?routes = "demo_routes [''a'', ''deny'', ''a'']"
  obtain r w' where run: "run_with_hooks demo_runtime line_headers demo_interp ?routes Fallback demo_request 1 ?w = (r, w')"
    by force
  have new: "ip_new_request demo_runtime demo_request ?w = (Ok (PyOther 0), ?w)" by (simp add: demo_runtime_def)
  have "\<not> hooks_pass demo_runtime (main_chain demo_runtime line_headers demo_interp 1)
      [''a'', ''deny'', ''a''] (PyOther 0) ?w"
    by (simp add: run_defs chain_call_def demo_runtime_def awaitable_of_def is_none_def Let_def)
  with handler_needs_before_hooks [OF demo.python_runtime_axioms _ _ _ new run, of "''view''" "[]"] run show ?thesis
    by (auto simp: demo_routes_def demo_world_def)
qed

text \<open>
  C39. However a request on the main interpreter ends, with a response, a stream, an error or a caught
  panic, the calls it made are the before hooks, the handler and the after hooks in that order, as far
  as it got; all in one context that no other call had entered, which is left at the end. A before
  hook's exception means that the handler was not called, the handler's that no after hook was; a
  response means that all of them ran or that a before hook gave it.
\<close>

theorem hooks_in_order:
  assumes R: "python_runtime R calls entered" and h: "handler (site_routes site) target = Some h"
    and run: "call_handler_with_hooks R H P site target rq wait_us hold_us w = (res, line, w')"
  shows "\<exists>c made. entered (w_py w') = entered (w_py w) \<and>
     calls (w_py w') = calls (w_py w) @ map (\<lambda>f. (f, c # entered (w_py w))) made \<and>
     (made \<noteq> [] \<longrightarrow> c \<notin> set (entered (w_py w))) \<and>
     ran_for (rt_before_hooks (site_routes site)) h (rt_after_hooks (site_routes site))
       (map_err (\<lambda>l. Fails (lg_error l)) res) made \<and>
     (line = None \<longleftrightarrow> (\<exists>reply. res = Ok reply))"
proof -
  let ?bs = "rt_before_hooks (site_routes site)" and ?afs = "rt_after_hooks (site_routes site)"
  let ?body = "run_with_hooks R H P (site_routes site) target rq"
  let ?result = "\<lambda>inner. catch_panic (case inner of Inr r \<Rightarrow> caught r | Inl e \<Rightarrow> Inr (Err (handler_error_python Setup e)))"
  from call_handler_body [OF run] obtain w1 inner w2 where w1: "w_py w1 = w_py w"
    and inner: "in_request_context R ?body w1 = (inner, w2)" and w': "w_py w' = w_py w2"
    and res: "map_err lg_error res = ?result inner" and line: "line = None \<longleftrightarrow> (\<exists>reply. res = Ok reply)" .
  have "ran_for ?bs h ?afs (map_err Fails (?result inner)) made"
    if "case inner of Inl e \<Rightarrow> made = [] | Inr r \<Rightarrow> ran_for ?bs h ?afs r made" for made
  proof (cases inner)
    case (Inl e)
    with that show ?thesis by (auto simp: catch_panic_def handler_error_python_def split: option.splits)
  next
    case (Inr r)
    with that show ?thesis by (cases r rule: caught.cases) (auto simp: catch_panic_def handler_error_panic_def)
  qed
  with python_runtime.context_calls [OF R _ inner, of "ran_for ?bs h ?afs"] python_runtime.traced_run_with_hooks [OF R _ h] w1
  have "\<exists>c made. entered (w_py w2) = entered (w_py w) \<and>
      calls (w_py w2) = calls (w_py w) @ map (\<lambda>f. (f, c # entered (w_py w))) made \<and>
      (made \<noteq> [] \<longrightarrow> c \<notin> set (entered (w_py w))) \<and> ran_for ?bs h ?afs (map_err Fails (?result inner)) made"
    by metis
  moreover have "map_err (\<lambda>l. Fails (lg_error l)) res = map_err Fails (?result inner)"
    unfolding res [symmetric] by (cases res) simp_all
  ultimately show ?thesis using w' line by simp
qed

definition demo_site :: "((string \<times> nat) list, string, (string \<times> string) list) Site" where
  "demo_site = \<lparr>site_routes = demo_routes [''a''], site_config =
     \<lparr>sc_cors = None, sc_access_log = access_log_disabled, sc_grpc_benchmark = False, sc_request_id_header = None,
      sc_limits = limits_default, sc_compression = None, sc_ws_connections = 0\<rparr>\<rparr>"

lemma demo_call:
  "call_handler_with_hooks demo_runtime line_headers demo_interp demo_site Fallback demo_request 5 7 demo_world =
     (Ok (ReplyResponse \<lparr>rd_body = ''hi'', rd_content_type = OCTET_STREAM, rd_status = 200, rd_headers = []\<rparr>), None,
      demo_world\<lparr>w_gil := \<lparr>gm_queue_length = 0, gm_latency_last = 5, gm_latency_max = 5, gm_total_wait = 5,
         gm_probe_count = 1, gm_hold_max = 7\<rparr>,
       w_py := ([(''a'', [1]), (''view'', [1]), (''b'', [1])], [])\<rparr>)"
proof -
  let ?data = "\<lparr>rd_body = ''hi'', rd_content_type = OCTET_STREAM, rd_status = 200, rd_headers = []\<rparr>"
  have data: "extract_response_data line_headers demo_interp (PyBytes ''hi'') = Ok ?data"
    by (simp add: extract_response_data_def plain_response_def body_of_def line_headers_def)
  have "is_utf8 ''hi''" using is_utf8_append [OF is_utf8_ascii is_utf8_ascii, of "CHR ''h''" "CHR ''i''"]
    by (simp add: byte_in_def)
  then show ?thesis
    by (simp add: call_handler_with_hooks_def demo_site_def demo_routes_def demo_world_def in_request_context_def
        run_with_hooks_def run_defs chain_call_def chain_handler_def main_chain_def demo_runtime_def awaitable_of_def
        is_none_def response_to_py_def record_gil_wait_def catch_panic_def data Let_def split_beta)
qed

theorem hooks_in_order_witness:
  "case call_handler_with_hooks demo_runtime line_headers demo_interp demo_site Fallback demo_request 5 7 demo_world of
     (res, line, w') \<Rightarrow>
       fst (w_py w') = [(''a'', [1]), (''view'', [1]), (''b'', [1])] \<and>
       (\<exists>c made. fst (w_py w') = fst (w_py demo_world) @ map (\<lambda>f. (f, c # snd (w_py demo_world))) made \<and>
          ran_for (rt_before_hooks (site_routes demo_site)) ''view'' (rt_after_hooks (site_routes demo_site))
            (map_err (\<lambda>l. Fails (lg_error l)) res) made)"
proof -
  have h: "handler (site_routes demo_site) Fallback = Some ''view''" by (simp add: demo_site_def demo_routes_def)
  note hooks_in_order [OF demo.python_runtime_axioms h demo_call]
  then show ?thesis unfolding demo_call prod.case by (intro conjI) (simp, blast)
qed

end
