(* ===== verification/Worker_Serve.thy ===== *)
theory Worker_Serve
  imports Hook_Chain
begin

section \<open>Sub-interpreter workers: thread states and serving (\<open>src/python/worker.rs\<close>)\<close>

text \<open>
  A worker owns a CPython interpreter through one saved thread state, and serves a request by making that
  thread state current, running the hook chain and saving it again.

  CPython's C functions are the parameter \<open>C\<close>. A function with a precondition (\<open>PyEval_SaveThread\<close> with no
  current thread state, \<open>PyEval_RestoreThread\<close> over a current one, \<open>Py_EndInterpreter\<close> of a thread state that
  is not current, \<open>PyThreadState_Clear\<close> with no thread state of that interpreter current, \<open>PyThreadState_Delete\<close> of one that was
  not cleared or is current, \<open>PyErr::take\<close> with no current one) is a partial one: \<open>None\<close> is the fatal error or undefined behaviour. The
  locale \<open>cpython\<close> states what the functions promise where their documented preconditions hold; \<open>alive\<close> gives the interpreter of each
  thread state that exists, and \<open>cleared\<close> says which were cleared. The model is
  of one operating system thread: its current thread state is \<open>cp_get\<close>.

  The results: no operation of a worker's life violates a precondition, and at the end its interpreter
  and no other one is gone; the garbage collector runs after every \<open>threshold\<close> requests exactly.
\<close>

subsection \<open>CPython\<close>

type_synonym tstate = nat

record PyStatus =
  ps_error :: bool \<comment> \<open>\<open>PyStatus_IsError\<close>\<close>
  ps_func :: "string option"
  ps_err_msg :: "string option"

record 's cpython =
  cp_get :: "'s \<Rightarrow> tstate option" \<comment> \<open>\<open>PyThreadState_GetUnchecked\<close>\<close>
  cp_swap :: "tstate option \<Rightarrow> 's \<Rightarrow> (tstate option \<times> 's) option" \<comment> \<open>\<open>PyThreadState_Swap\<close>\<close>
  cp_new_interpreter :: "'s \<Rightarrow> PyStatus \<times> tstate option \<times> 's" \<comment> \<open>\<open>Py_NewInterpreterFromConfig\<close>\<close>
  cp_end_interpreter :: "tstate \<Rightarrow> 's \<Rightarrow> 's option"
  cp_save :: "'s \<Rightarrow> (tstate \<times> 's) option" \<comment> \<open>\<open>PyEval_SaveThread\<close>\<close>
  cp_restore :: "tstate \<Rightarrow> 's \<Rightarrow> 's option" \<comment> \<open>\<open>PyEval_RestoreThread\<close>\<close>
  cp_new_tstate :: "'s \<Rightarrow> (tstate option \<times> 's) option" \<comment> \<open>\<open>PyThreadState_New\<close>, of the current interpreter\<close>
  cp_clear :: "tstate \<Rightarrow> 's \<Rightarrow> 's option"
  cp_delete :: "tstate \<Rightarrow> 's \<Rightarrow> 's option"
  cp_take_err :: "'s \<Rightarrow> 's option" \<comment> \<open>\<open>PyErr::take\<close>\<close>
  cp_initialized :: "'s \<Rightarrow> bool" \<comment> \<open>\<open>Py_IsInitialized\<close>\<close>

subsection \<open>A worker's thread state\<close>

record 'role SubInterpreterWorker =
  wk_tstate :: tstate
  wk_worker_id :: nat
  wk_role :: 'role

definition rebind_tstate_to_current_thread :: "'s cpython \<Rightarrow> tstate \<Rightarrow> 's \<Rightarrow> (tstate \<times> 's) option" where
  "rebind_tstate_to_current_thread C creator_tstate s =
     Option.bind (cp_restore C creator_tstate s) (\<lambda>s.
     Option.bind (cp_new_tstate C s) (\<lambda>(fresh, s).
       case fresh of
         None \<Rightarrow> Option.bind (cp_take_err C s) (cp_save C)
       | Some fresh \<Rightarrow>
           Option.bind (cp_swap C (Some fresh) s) (\<lambda>(prev, s).
           Option.bind (cp_clear C creator_tstate s) (\<lambda>s.
           Option.bind (cp_delete C creator_tstate s) (cp_save C)))))"

definition bind_to_this_thread ::
    "'s cpython \<Rightarrow> 'role SubInterpreterWorker \<Rightarrow> 's \<Rightarrow> ('role SubInterpreterWorker \<times> 's) option" where
  "bind_to_this_thread C wk s =
     map_option (\<lambda>(t, s). (wk\<lparr>wk_tstate := t\<rparr>, s)) (rebind_tstate_to_current_thread C (wk_tstate wk) s)"

text \<open>\<open>release\<close> drops the references the role holds.\<close>

definition worker_end :: "'s cpython \<Rightarrow> ('role \<Rightarrow> 's \<Rightarrow> 's) \<Rightarrow> 'role SubInterpreterWorker \<Rightarrow> 's \<Rightarrow> 's option" where
  "worker_end C release wk s =
     (let previous = cp_get C s
      in Option.bind (if previous \<noteq> None then map_option snd (cp_save C s) else Some s) (\<lambda>s.
         Option.bind (cp_restore C (wk_tstate wk) s) (\<lambda>s.
           let s = release (wk_role wk) s
           in Option.bind (cp_get C s) (\<lambda>t.
              Option.bind (cp_end_interpreter C t s) (\<lambda>s.
                case previous of None \<Rightarrow> Some s | Some p \<Rightarrow> cp_restore C p s)))))"

definition worker_abandon :: "'role SubInterpreterWorker \<Rightarrow> 's \<Rightarrow> 's" where
  "worker_abandon wk s = s"

definition end_on_own_thread :: "'s cpython \<Rightarrow> ('role \<Rightarrow> 's \<Rightarrow> 's) \<Rightarrow> 'role SubInterpreterWorker \<Rightarrow> 's \<Rightarrow> 's option" where
  "end_on_own_thread C release wk s =
     (if cp_initialized C s then worker_end C release wk s else Some (worker_abandon wk s))"

fun end_all :: "'s cpython \<Rightarrow> ('role \<Rightarrow> 's \<Rightarrow> 's) \<Rightarrow> 'role SubInterpreterWorker list \<Rightarrow> 's \<Rightarrow> 's option" where
  "end_all C release [] s = Some s"
| "end_all C release (w # workers) s =
     Option.bind (if cp_initialized C s then worker_end C release w s else Some (worker_abandon w s))
       (end_all C release workers)"

text \<open>
  \<open>with_gil\<close>: the guard saves the thread state however \<open>f\<close> ends; a panic in it is its payload.
\<close>

definition with_gil ::
    "'s cpython \<Rightarrow> ('role \<Rightarrow> 's \<Rightarrow> (panic_payload + 'a) \<times> 'role \<times> 's) \<Rightarrow> 'role SubInterpreterWorker \<Rightarrow> 's \<Rightarrow>
     ((panic_payload + 'a) \<times> 'role SubInterpreterWorker \<times> 's) option" where
  "with_gil C f wk s =
     Option.bind (cp_restore C (wk_tstate wk) s) (\<lambda>s.
       let (result, role, s) = f (wk_role wk) s
       in Option.bind (cp_save C s) (\<lambda>(tstate, s).
            Some (result, wk\<lparr>wk_tstate := tstate, wk_role := role\<rparr>, s)))"

subsection \<open>Collections\<close>

record 'py GcSchedule =
  gc_collect :: 'py
  gc_threshold :: u64
  gc_served :: u64
  gc_collected_at :: u64

definition since_collect :: "'py GcSchedule \<Rightarrow> u64" where
  "since_collect gc = gc_served gc - gc_collected_at gc"

definition gc_due :: "'py GcSchedule \<Rightarrow> bool" where
  "gc_due gc \<longleftrightarrow> 0 < gc_threshold gc \<and> gc_threshold gc \<le> since_collect gc"

text \<open>One collection; an exception is logged. What it returns is the panic, if the call panicked.\<close>

definition run_collect ::
    "('py, 'h, 'c, 'l, 'w) runtime \<Rightarrow> 'py GcSchedule \<Rightarrow> ('l, 'h, 'w) world \<Rightarrow>
     panic_payload option \<times> 'py GcSchedule \<times> ('l, 'h, 'w) world" where
  "run_collect R gc w =
     (let gc' = gc\<lparr>gc_collected_at := gc_served gc\<rparr>; (r, w') = ip_call R (gc_collect gc) [] w
      in (case r of Inl (Unwinds p) \<Rightarrow> Some p | _ \<Rightarrow> None, gc', w'))"

subsection \<open>The inline role\<close>

record ('py, 'l) Inline =
  il_handlers :: "'py list"
  il_before_hooks :: "'py list"
  il_after_hooks :: "'py list"
  il_event_loop :: 'l
  il_gc :: "'py GcSchedule"

datatype ('py, 'l) reference = RefObject 'py | RefLoop 'l

definition inline_release :: "(('py, 'l) reference \<Rightarrow> 's \<Rightarrow> 's) \<Rightarrow> ('py, 'l) Inline \<Rightarrow> 's \<Rightarrow> 's" where
  "inline_release drop_ref il s =
     fold drop_ref
       (map RefObject (il_handlers il @ il_before_hooks il @ il_after_hooks il) @
        [RefLoop (il_event_loop il), RefObject (gc_collect (il_gc il))]) s"

definition inline_chain :: "'h http_api \<Rightarrow> 'h interp \<Rightarrow> ('py, 'l) Inline \<Rightarrow> 'c \<Rightarrow> ('c, 'l, 'h, 'w) Chain" where
  "inline_chain H P il rc =
     \<lparr>ch_rc = rc, ch_event_loop = run_ret (Ok (il_event_loop il)), ch_to_response = worker_response H P\<rparr>"

definition index_panic :: "nat \<Rightarrow> nat \<Rightarrow> panic_payload" where
  "index_panic len i =
     PayloadString (''index out of bounds: the len is '' @ show_nat len @ '' but the index is '' @ show_nat i)"

definition inline_run ::
    "('py, 'h, 'c, 'l, 'w) runtime \<Rightarrow> 'h http_api \<Rightarrow> 'h interp \<Rightarrow> ('py, 'l) Inline \<Rightarrow> RouteId \<Rightarrow>
     'h PyronovaRequest \<Rightarrow> 'c \<Rightarrow> ('h ResponseData, HandlerError fault, ('l, 'h, 'w) world) run" where
  "inline_run R H P il rid request rc =
     (let chain = inline_chain H P il rc
      in run_bind (run_err (map_fault_err (handler_error_python Setup)) (ip_new_request R request)) (\<lambda>req.
         run_bind (chain_before R chain (il_before_hooks il) req) (\<lambda>short_circuit.
           case short_circuit of
             Some response \<Rightarrow> run_ret (Ok response)
           | None \<Rightarrow>
               run_bind (if rid < length (il_handlers il) then chain_handler R chain (il_handlers il ! rid) req
                         else run_ret (Err (Unwinds (index_panic (length (il_handlers il)) rid)))) (\<lambda>value.
               run_bind (run_ret (map_err response_fault (worker_response H P value))) (\<lambda>data.
                 chain_after R chain (il_after_hooks il) req data)))))"

definition inline_serve ::
    "('py, 'h, 'c, 'l, 'w) runtime \<Rightarrow> 'h http_api \<Rightarrow> 'h interp \<Rightarrow> ('py, 'l) Inline \<Rightarrow> RouteId \<Rightarrow>
     'h PyronovaRequest \<Rightarrow> ('l, 'h, 'w) world \<Rightarrow>
     (panic_payload + ('h ResponseData, HandlerError) result) \<times> ('py, 'l) Inline \<times> ('l, 'h, 'w) world" where
  "inline_serve R H P il rid request w =
     (let il = il\<lparr>il_gc := (il_gc il)\<lparr>gc_served := gc_served (il_gc il) + 1\<rparr>\<rparr>;
          (made, w) = in_request_context R (inline_run R H P il rid request) w
      in (case made of
            Inr r \<Rightarrow> caught r
          | Inl e \<Rightarrow> Inr (Err (handler_error_python Setup e)), il, w))"

text \<open>The closure of \<open>SubInterpreterWorker::serve\<close>: the request, then the collection that is due.\<close>

definition serve_and_collect ::
    "('py, 'h, 'c, 'l, 'w) runtime \<Rightarrow> 'h http_api \<Rightarrow> 'h interp \<Rightarrow> RouteId \<Rightarrow> 'h PyronovaRequest \<Rightarrow>
     ('py, 'l) Inline \<Rightarrow> ('l, 'h, 'w) world \<Rightarrow>
     (panic_payload + ('h ResponseData, HandlerError) result) \<times> ('py, 'l) Inline \<times> ('l, 'h, 'w) world" where
  "serve_and_collect R H P rid request il w =
     (let (response, il, w) = inline_serve R H P il rid request w
      in case response of
           Inl p \<Rightarrow> (Inl p, il, w)
         | Inr r \<Rightarrow>
             if gc_due (il_gc il)
             then (let (panicked, gc, w) = run_collect R (il_gc il) w
                   in (case panicked of Some p \<Rightarrow> Inl p | None \<Rightarrow> Inr r, il\<lparr>il_gc := gc\<rparr>, w))
             else (Inr r, il, w))"

definition worker_serve ::
    "('l, 'h, 'w) world cpython \<Rightarrow> ('py, 'h, 'c, 'l, 'w) runtime \<Rightarrow> 'h http_api \<Rightarrow> 'h interp \<Rightarrow> RouteId \<Rightarrow>
     'h PyronovaRequest \<Rightarrow> ('py, 'l) Inline SubInterpreterWorker \<Rightarrow> ('l, 'h, 'w) world \<Rightarrow>
     (('h ResponseData, HandlerError) result \<times> ('py, 'l) Inline SubInterpreterWorker \<times> ('l, 'h, 'w) world) option" where
  "worker_serve C R H P rid request wk w =
     map_option (\<lambda>(r, wk, w). (catch_panic r, wk, w)) (with_gil C (serve_and_collect R H P rid request) wk w)"

text \<open>A panic in an idle collection is logged.\<close>

definition collect_garbage_between_requests ::
    "('l, 'h, 'w) world cpython \<Rightarrow> ('py, 'h, 'c, 'l, 'w) runtime \<Rightarrow> ('py, 'l) Inline SubInterpreterWorker \<Rightarrow>
     ('l, 'h, 'w) world \<Rightarrow> (('py, 'l) Inline SubInterpreterWorker \<times> ('l, 'h, 'w) world) option" where
  "collect_garbage_between_requests C R wk w =
     map_option snd
       (with_gil C (\<lambda>il w. let (p, gc, w) = run_collect R (il_gc il) w
                           in (case p of Some p \<Rightarrow> Inl p | None \<Rightarrow> Inr (), il\<lparr>il_gc := gc\<rparr>, w)) wk w)"

definition requests_served :: "('py, 'l) Inline SubInterpreterWorker \<Rightarrow> u64" where
  "requests_served wk = gc_served (il_gc (wk_role wk))"

definition requests_since_collect :: "('py, 'l) Inline SubInterpreterWorker \<Rightarrow> u64" where
  "requests_since_collect wk = since_collect (il_gc (wk_role wk))"

text \<open>What the thread of a worker does with it between binding and ending it.\<close>

datatype 'h worker_call = Request RouteId "'h PyronovaRequest" | IdleCollect

fun worker_calls ::
    "('l, 'h, 'w) world cpython \<Rightarrow> ('py, 'h, 'c, 'l, 'w) runtime \<Rightarrow> 'h http_api \<Rightarrow> 'h interp \<Rightarrow> 'h worker_call list \<Rightarrow>
     ('py, 'l) Inline SubInterpreterWorker \<Rightarrow> ('l, 'h, 'w) world \<Rightarrow>
     (('h ResponseData, HandlerError) result list \<times> ('py, 'l) Inline SubInterpreterWorker \<times> ('l, 'h, 'w) world) option" where
  "worker_calls C R H P [] wk w = Some ([], wk, w)"
| "worker_calls C R H P (Request rid rq # cs) wk w =
     Option.bind (worker_serve C R H P rid rq wk w) (\<lambda>(r, wk, w).
       map_option (\<lambda>(rs, wk, w). (r # rs, wk, w)) (worker_calls C R H P cs wk w))"
| "worker_calls C R H P (IdleCollect # cs) wk w =
     Option.bind (collect_garbage_between_requests C R wk w) (\<lambda>(wk, w). worker_calls C R H P cs wk w)"


subsection \<open>What CPython promises\<close>

text \<open>
  Running Python code: the current thread state stays, and the thread states of other interpreters
  are as they were (the code may start and end threads of its own interpreter).
\<close>

definition elsewhere :: "('s \<Rightarrow> tstate \<rightharpoonup> nat) \<Rightarrow> nat \<Rightarrow> 's \<Rightarrow> 's \<Rightarrow> bool" where
  "elsewhere alive i s s' \<longleftrightarrow> (\<forall>t j. j \<noteq> i \<longrightarrow> (alive s' t = Some j \<longleftrightarrow> alive s t = Some j))"

definition attached :: "'s cpython \<Rightarrow> ('s \<Rightarrow> tstate \<rightharpoonup> nat) \<Rightarrow> 's \<Rightarrow> 's \<Rightarrow> bool" where
  "attached C alive s s' \<longleftrightarrow>
     cp_get C s' = cp_get C s \<and>
     (\<forall>t i. cp_get C s = Some t \<longrightarrow> alive s t = Some i \<longrightarrow> alive s' t = Some i \<and> elsewhere alive i s s')"

lemma elsewhere_refl [simp]: "elsewhere alive i s s"
  by (simp add: elsewhere_def)

lemma elsewhere_trans: "elsewhere alive i s s' \<Longrightarrow> elsewhere alive i s' s'' \<Longrightarrow> elsewhere alive i s s''"
  by (simp add: elsewhere_def)

lemma attached_refl [simp]: "attached C alive s s"
  by (simp add: attached_def)

lemma attached_trans: "attached C alive s s' \<Longrightarrow> attached C alive s' s'' \<Longrightarrow> attached C alive s s''"
  unfolding attached_def using elsewhere_trans by metis

lemma attachedD:
  "attached C alive s s' \<Longrightarrow> cp_get C s = Some t \<Longrightarrow> alive s t = Some i \<Longrightarrow>
     cp_get C s' = Some t \<and> alive s' t = Some i \<and> elsewhere alive i s s'"
  by (simp add: attached_def)

locale cpython =
  fixes C :: "'s cpython" and alive :: "'s \<Rightarrow> tstate \<rightharpoonup> nat" and cleared :: "'s \<Rightarrow> tstate \<Rightarrow> bool"
  assumes save: "cp_get C s = Some t \<Longrightarrow> \<exists>s'. cp_save C s = Some (t, s') \<and> cp_get C s' = None \<and> alive s' = alive s"
    and restore: "cp_get C s = None \<Longrightarrow> alive s t \<noteq> None \<Longrightarrow>
      \<exists>s'. cp_restore C t s = Some s' \<and> cp_get C s' = Some t \<and> alive s' = alive s"
    and swap: "alive s t \<noteq> None \<Longrightarrow>
      \<exists>s'. cp_swap C (Some t) s = Some (cp_get C s, s') \<and> cp_get C s' = Some t \<and> alive s' = alive s"
    and refused: "cp_new_interpreter C s = (status, r, s') \<Longrightarrow> ps_error status \<or> r = None \<Longrightarrow> alive s' = alive s"
    and new_interpreter: "cp_get C s = Some m \<Longrightarrow> alive s m \<noteq> None \<Longrightarrow>
      cp_new_interpreter C s = (status, Some t, s') \<Longrightarrow> \<not> ps_error status \<Longrightarrow>
      \<exists>i. alive s t = None \<and> i \<notin> ran (alive s) \<and> cp_get C s' = Some t \<and> alive s' = (alive s)(t \<mapsto> i)"
    and end_interpreter: "cp_get C s = Some t \<Longrightarrow> alive s t = Some i \<Longrightarrow>
      \<exists>s'. cp_end_interpreter C t s = Some s' \<and> cp_get C s' = None \<and>
           alive s' = (\<lambda>u. if alive s u = Some i then None else alive s u)"
    and new_tstate: "cp_get C s = Some t \<Longrightarrow> alive s t = Some i \<Longrightarrow>
      \<exists>r s'. cp_new_tstate C s = Some (r, s') \<and> cp_get C s' = Some t \<and>
             (case r of None \<Rightarrow> alive s' = alive s | Some u \<Rightarrow> alive s u = None \<and> alive s' = (alive s)(u \<mapsto> i))"
    and clear: "cp_get C s = Some u \<Longrightarrow> alive s u = Some i \<Longrightarrow> alive s t = Some i \<Longrightarrow>
      \<exists>s'. cp_clear C t s = Some s' \<and> cp_get C s' = Some u \<and> alive s' = alive s \<and> cleared s' t"
    and delete: "alive s t \<noteq> None \<Longrightarrow> cleared s t \<Longrightarrow> cp_get C s \<noteq> Some t \<Longrightarrow>
      \<exists>s'. cp_delete C t s = Some s' \<and> cp_get C s' = cp_get C s \<and> alive s' = (alive s)(t := None)"
    and take_err: "cp_get C s = Some t \<Longrightarrow> \<exists>s'. cp_take_err C s = Some s' \<and> cp_get C s' = Some t \<and> alive s' = alive s"
begin

text \<open>The creator's thread state is replaced by a new one of the same interpreter, or kept.\<close>

lemma rebind_safe:
  assumes "cp_get C s = None" and "alive s creator = Some i"
  obtains t s' where "rebind_tstate_to_current_thread C creator s = Some (t, s')" and "cp_get C s' = None"
    and "alive s' t = Some i" and "elsewhere alive i s s'"
proof -
  obtain s1 where s1: "cp_restore C creator s = Some s1" "cp_get C s1 = Some creator" "alive s1 = alive s"
    using restore [OF assms(1), of creator] assms(2) by auto
  obtain r s2 where s2: "cp_new_tstate C s1 = Some (r, s2)" "cp_get C s2 = Some creator"
    "case r of None \<Rightarrow> alive s2 = alive s1 | Some u \<Rightarrow> alive s1 u = None \<and> alive s2 = (alive s1)(u \<mapsto> i)"
    using new_tstate [OF s1(2), of i] s1(3) assms(2) by (elim exE conjE meta_impE) auto
  show thesis
  proof (cases r)
    case None
    obtain s3 where s3: "cp_take_err C s2 = Some s3" "cp_get C s3 = Some creator" "alive s3 = alive s2" using take_err [OF s2(2)] by auto
    obtain s4 where "cp_save C s3 = Some (creator, s4)" "cp_get C s4 = None" "alive s4 = alive s3" using save [OF s3(2)] by auto
    with None s1 s2 s3 assms show thesis
      by (intro that [of creator s4]) (simp_all add: rebind_tstate_to_current_thread_def elsewhere_def)
  next
    case (Some u)
    with s2 have u: "alive s1 u = None" "alive s2 = (alive s1)(u \<mapsto> i)" by simp_all
    then have ne: "u \<noteq> creator" using s1 assms(2) by auto
    obtain s3 where s3: "cp_swap C (Some u) s2 = Some (Some creator, s3)" "cp_get C s3 = Some u" "alive s3 = alive s2"
      using swap [of s2 u] u s2(2) by auto
    obtain s4 where s4: "cp_clear C creator s3 = Some s4" "cp_get C s4 = Some u" "alive s4 = alive s2" "cleared s4 creator"
      using clear [of s3 u i creator] s3 u s1(3) assms(2) ne by auto
    obtain s5 where s5: "cp_delete C creator s4 = Some s5" "cp_get C s5 = Some u" "alive s5 = (alive s2)(creator := None)"
      using delete [of s4 creator] s4 u s1(3) assms(2) ne by auto
    obtain s6 where s6: "cp_save C s5 = Some (u, s6)" "cp_get C s6 = None" "alive s6 = alive s5"
      using save [OF s5(2)] by auto
    have "elsewhere alive i s s6" using s6 s5 u s1(3) assms(2) by (auto simp: elsewhere_def)
    with Some s1 s2 s3 s4 s5 s6 u ne show thesis
      by (intro that [of u s6]) (simp_all add: rebind_tstate_to_current_thread_def)
  qed
qed

lemma with_gil_safe:
  assumes "cp_get C s = None" and "alive s (wk_tstate wk) = Some i"
    and f: "\<And>s1 r role s2. f (wk_role wk) s1 = (r, role, s2) \<Longrightarrow> attached C alive s1 s2"
  obtains s1 r role s2 s' where "f (wk_role wk) s1 = (r, role, s2)"
    and "with_gil C f wk s = Some (r, wk\<lparr>wk_role := role\<rparr>, s')" and "cp_get C s' = None"
    and "alive s' (wk_tstate wk) = Some i" and "elsewhere alive i s s'"
proof -
  obtain s1 where s1: "cp_restore C (wk_tstate wk) s = Some s1" "cp_get C s1 = Some (wk_tstate wk)" "alive s1 = alive s"
    using restore [OF assms(1), of "wk_tstate wk"] assms(2) by auto
  obtain r role s2 where s2: "f (wk_role wk) s1 = (r, role, s2)" by (metis prod_cases3)
  from attachedD [OF f [OF s2] s1(2)] s1(3) assms(2)
  have a: "cp_get C s2 = Some (wk_tstate wk)" "alive s2 (wk_tstate wk) = Some i" "elsewhere alive i s1 s2" by simp_all
  obtain s3 where s3: "cp_save C s2 = Some (wk_tstate wk, s3)" "cp_get C s3 = None" "alive s3 = alive s2"
    using save [OF a(1)] by auto
  from s1 s2 s3 a show thesis
    by (intro that [OF s2, of s3]) (simp_all add: with_gil_def elsewhere_def)
qed

text \<open>Ending a worker, on its own thread or over another interpreter's thread state.\<close>

lemma end_safe:
  assumes wk: "alive s (wk_tstate wk) = Some i"
    and previous: "\<And>p. cp_get C s = Some p \<Longrightarrow> \<exists>j. alive s p = Some j \<and> j \<noteq> i"
    and release: "\<And>s1. attached C alive s1 (release (wk_role wk) s1)"
  obtains s' where "worker_end C release wk s = Some s'" and "cp_get C s' = cp_get C s"
    and "i \<notin> ran (alive s')" and "elsewhere alive i s s'"
proof -
  obtain s1 where s1: "(if cp_get C s \<noteq> None then map_option snd (cp_save C s) else Some s) = Some s1"
    "cp_get C s1 = None" "alive s1 = alive s"
    using save [of s] by (cases "cp_get C s") auto
  obtain s2 where s2: "cp_restore C (wk_tstate wk) s1 = Some s2" "cp_get C s2 = Some (wk_tstate wk)" "alive s2 = alive s"
    using restore [OF s1(2), of "wk_tstate wk"] wk s1(3) by auto
  let ?s3 = "release (wk_role wk) s2"
  have s3: "cp_get C ?s3 = Some (wk_tstate wk)" "alive ?s3 (wk_tstate wk) = Some i" "elsewhere alive i s2 ?s3"
    using attachedD [OF release s2(2)] wk s2(3) by simp_all
  obtain s4 where s4: "cp_end_interpreter C (wk_tstate wk) ?s3 = Some s4" "cp_get C s4 = None"
    "alive s4 = (\<lambda>u. if alive ?s3 u = Some i then None else alive ?s3 u)"
    using end_interpreter [OF s3(1,2)] by auto
  then have gone: "i \<notin> ran (alive s4)" and other: "elsewhere alive i s s4"
    using s3(3) s2(3) unfolding elsewhere_def by (auto simp: ran_def, metis option.inject)
  show thesis
  proof (cases "cp_get C s")
    case None
    with s1 s2 s3 s4 gone other show thesis by (intro that [of s4]) (simp_all add: worker_end_def Let_def)
  next
    case (Some p)
    then obtain j where "alive s p = Some j" "j \<noteq> i" using previous by blast
    then have "alive s4 p \<noteq> None" using other unfolding elsewhere_def by blast
    from restore [OF s4(2) this] obtain s5 where s5: "cp_restore C p s4 = Some s5" "cp_get C s5 = Some p" "alive s5 = alive s4"
      by auto
    with Some s1 s2 s3 s4 gone other show thesis
      by (intro that [of s5]) (auto simp: worker_end_def Let_def elsewhere_def)
  qed
qed

end


subsection \<open>A run keeps its thread state and its kind of error\<close>

text \<open>
  A run whose states are related by \<open>A\<close> and whose errors satisfy \<open>E\<close>.
\<close>

definition sound :: "('s \<Rightarrow> 's \<Rightarrow> bool) \<Rightarrow> ('e \<Rightarrow> bool) \<Rightarrow> ('a, 'e, 's) run \<Rightarrow> bool" where
  "sound A E m \<longleftrightarrow> (\<forall>w r w'. m w = (r, w') \<longrightarrow> A w w' \<and> (\<forall>e. r = Err e \<longrightarrow> E e))"

lemma soundD: "sound A E m \<Longrightarrow> m w = (r, w') \<Longrightarrow> A w w' \<and> (\<forall>e. r = Err e \<longrightarrow> E e)"
  by (auto simp: sound_def)

lemma sound_ret: "(\<And>w. A w w) \<Longrightarrow> (\<And>e. r = Err e \<Longrightarrow> E e) \<Longrightarrow> sound A E (run_ret r)"
  by (auto simp: sound_def run_ret_def)

lemma sound_err: "sound A (\<lambda>e. E (g e)) m \<Longrightarrow> sound A E (run_err g m)"
  by (fastforce simp: sound_def run_err_def map_err_eq_Inl split: prod.splits)

lemma sound_weaken: "sound A E m \<Longrightarrow> (\<And>e. E e \<Longrightarrow> E' e) \<Longrightarrow> sound A E' m"
  by (auto simp: sound_def)

lemma sound_bind:
  assumes trans: "\<And>s s' s''. A s s' \<Longrightarrow> A s' s'' \<Longrightarrow> A s s''"
    and m: "sound A E m" and f: "\<And>v. sound A E (f v)"
  shows "sound A E (run_bind m f)"
  unfolding sound_def
proof (intro allI impI)
  fix w r w'
  assume run: "run_bind m f w = (r, w')"
  obtain r1 w1 where m1: "m w = (r1, w1)" by force
  show "A w w' \<and> (\<forall>e. r = Err e \<longrightarrow> E e)"
  proof (cases r1)
    case (Inl e)
    with run m1 soundD [OF m m1] show ?thesis by (auto simp: run_bind_def)
  next
    case (Inr v)
    with run m1 have "f v w1 = (r, w')" by (simp add: run_bind_def)
    from soundD [OF f this] soundD [OF m m1] trans show ?thesis by blast
  qed
qed

text \<open>A failure that is the request's own: the server did not refuse it.\<close>

fun own_failure :: "HandlerError fault \<Rightarrow> bool" where
  "own_failure (Fails (Refused r)) = False"
| "own_failure (Fails (Panic p)) = False"
| "own_failure _ = True"

lemma own_failure_python [simp]: "own_failure (map_fault_err (handler_error_python st) e)"
  by (cases e) (auto simp: handler_error_python_def split: option.splits)

lemma own_failure_response [simp]: "own_failure (response_fault e)"
  by (simp add: response_fault_def)

text \<open>The interpreter's operations leave the thread state current.\<close>

locale worker_runtime = cpython C alive cleared
  for C :: "('l, 'h, 'w) world cpython" and alive :: "('l, 'h, 'w) world \<Rightarrow> tstate \<rightharpoonup> nat"
    and cleared :: "('l, 'h, 'w) world \<Rightarrow> tstate \<Rightarrow> bool" +
  fixes R :: "('py, 'h, 'c, 'l, 'w) runtime"
  assumes keeps: "attached C alive w (snd (ip_call R f args w))"
      "attached C alive w (snd (ip_drive R x w))"
      "attached C alive w (snd (ip_create_task R l x c w))"
      "attached C alive w (snd (ip_run_until_complete R l x w))"
      "attached C alive w (snd (ip_context_new R w))"
      "attached C alive w (snd (ip_context_enter R c w))"
      "attached C alive w (snd (ip_context_exit R c w))"
      "attached C alive w (snd (ip_new_request R rq w))"
      "attached C alive w (snd (ip_new_str R t w))"
      "attached C alive w (snd (ip_new_response R x w))"
begin

abbreviation att :: "('l, 'h, 'w) world \<Rightarrow> ('l, 'h, 'w) world \<Rightarrow> bool" where
  "att \<equiv> attached C alive"

lemma bind_att: "sound att E m \<Longrightarrow> (\<And>v. sound att E (f v)) \<Longrightarrow> sound att E (run_bind m f)"
  by (rule sound_bind) (rule attached_trans)

lemma ret_att: "(\<And>e. r = Err e \<Longrightarrow> E e) \<Longrightarrow> sound att E (run_ret r)"
  by (rule sound_ret) simp_all

lemma ret_att_Ok [simp]: "sound att E (run_ret (Ok v))"
  by (rule ret_att) simp

lemma sound_keeps: "(\<And>w. att w (snd (m w))) \<Longrightarrow> sound att (\<lambda>_. True) m"
  by (metis sound_def snd_conv)

lemmas keeps_sound = keeps(1-8,10) [THEN sound_keeps]

lemma sound_python: "sound att (\<lambda>_. True) m \<Longrightarrow> sound att own_failure (run_err (map_fault_err (handler_error_python st)) m)"
  by (rule sound_err) (erule sound_weaken, simp)

lemma sound_run_in_task: "sound att (\<lambda>_. True) (run_in_task R c l x)"
proof -
  have body: "sound att (\<lambda>_. True) (run_bind (ip_create_task R l coro c) (ip_run_until_complete R l))" for coro
    by (rule bind_att) (rule keeps_sound)+
  have "sound att (\<lambda>_. True) (\<lambda>w. let (r, w') = run_bind (ip_create_task R l coro c) (ip_run_until_complete R l) w
      in (r, snd (ip_context_enter R c w')))" for coro
    using soundD [OF body] attached_trans keeps(6) by (fastforce simp: sound_def split: prod.splits)
  then show ?thesis
    unfolding run_in_task_def by (intro bind_att) (auto intro!: ret_att keeps_sound sound_err)
qed

lemma sound_call:
  assumes "sound att own_failure (ch_event_loop ch)"
  shows "sound att own_failure (chain_call R ch f args st)"
  unfolding chain_call_def Let_def
  by (rule bind_att)
     (auto intro!: sound_python keeps_sound ret_att bind_att [OF assms] sound_run_in_task split: option.split Awaitable.split)

lemma sound_before:
  assumes "sound att own_failure (ch_event_loop ch)"
  shows "sound att own_failure (chain_before R ch hooks req)"
proof (induction hooks)
  case (Cons b bs)
  show ?case
    unfolding chain_before.simps
    by (rule bind_att [OF sound_call [OF assms]]) (auto intro!: ret_att Cons.IH simp: map_err_eq_Inl)
qed (simp add: ret_att)

lemma sound_to_py: "sound att (\<lambda>_. True) (response_to_py R data)"
proof (rule sound_keeps)
  fix w
  obtain x w1 where n: "ip_new_str R (rd_body data) w = (x, w1)" by force
  have "att w w1" using keeps(9) n by (metis snd_conv)
  moreover have "att v (snd (run_err ToPy (ip_new_response R y) v))" for y v
    using keeps(10) [of v y] by (simp add: run_err_def split_beta)
  ultimately show "att w (snd (response_to_py R data w))"
    using n by (auto simp: response_to_py_def intro: attached_trans)
qed

lemma sound_after:
  assumes "sound att own_failure (ch_event_loop ch)"
  shows "sound att own_failure (chain_after R ch hooks req data)"
proof (induction hooks arbitrary: data)
  case (Cons a hooks)
  show ?case
    unfolding chain_after.simps
    by (intro bind_att sound_call [OF assms] Cons.IH sound_err [OF sound_weaken [OF sound_to_py]])
       (auto intro!: ret_att simp: map_err_eq_Inl)
qed (simp add: ret_att)

lemma sound_inline_run: "sound att own_failure (inline_run R H P il rid request rc)"
proof -
  have loop: "sound att own_failure (ch_event_loop (inline_chain H P il rc))" by (simp add: inline_chain_def ret_att)
  show ?thesis
    unfolding inline_run_def Let_def
    by (intro bind_att sound_python keeps_sound sound_before [OF loop])
       (auto intro!: ret_att bind_att sound_after [OF loop] sound_call [OF loop] simp: chain_handler_def map_err_eq_Inl
          split: option.split)
qed

lemma attached_context:
  assumes f: "\<And>c w r w'. f c w = (r, w') \<Longrightarrow> att w w'" and run: "in_request_context R f w = (r, w')"
  shows "att w w'"
proof -
  obtain rn wn where new: "ip_context_new R w = (rn, wn)" by force
  then have wn: "att w wn" using keeps(5) by (metis snd_conv)
  show ?thesis
  proof (cases rn)
    case (Inr c)
    obtain re we where enter: "ip_context_enter R c wn = (re, we)" by force
    then have we: "att w we" using keeps(6) wn attached_trans by (metis snd_conv)
    show ?thesis
    proof (cases re)
      case (Inr u)
      obtain x wf where fx: "f c we = (x, wf)" by force
      have "att w wf" by (rule attached_trans [OF we f [OF fx]])
      then have "att w (snd (ip_context_exit R c wf))" using keeps(7) by (rule attached_trans)
      with run new \<open>rn = Inr c\<close> enter Inr fx show ?thesis by (auto simp: in_request_context_def run_bind_def)
    qed (use run new \<open>rn = Inr c\<close> enter we in \<open>auto simp: in_request_context_def run_bind_def\<close>)
  qed (use run new wn in \<open>auto simp: in_request_context_def run_bind_def\<close>)
qed

lemma attached_inline_serve:
  assumes "inline_serve R H P il rid rq w = (r, il', w')"
  shows "att w w'"
proof -
  let ?run = "inline_run R H P (il\<lparr>il_gc := (il_gc il)\<lparr>gc_served := gc_served (il_gc il) + 1\<rparr>\<rparr>) rid rq"
  obtain made w1 where made: "in_request_context R ?run w = (made, w1)" by force
  have "att v v'" if "?run c v = (x, v')" for c v x v'
    by (rule conjunct1 [OF soundD [OF sound_inline_run that]])
  then have "att w w1" using made by (rule attached_context)
  with assms made show ?thesis by (simp add: inline_serve_def Let_def)
qed

lemma attached_collect: "run_collect R gc w = (p, gc', w') \<Longrightarrow> att w w'"
  using keeps(1) [of w "gc_collect gc" "[]"] by (auto simp: run_collect_def Let_def split: prod.splits)

lemma attached_serve: "serve_and_collect R H P rid rq il w = (r, il', w') \<Longrightarrow> att w w'"
  unfolding serve_and_collect_def
  by (auto split: prod.splits sum.splits if_splits dest!: attached_inline_serve attached_collect intro: attached_trans)

text \<open>What a request fails with is its own: a worker refuses nothing.\<close>

lemma inline_serve_own:
  assumes "inline_serve R H P il rid rq w = (Inr (Err e), il', w')"
  shows "\<forall>x p. e \<noteq> Refused x \<and> e \<noteq> Panic p"
proof -
  let ?il = "il\<lparr>il_gc := (il_gc il)\<lparr>gc_served := gc_served (il_gc il) + 1\<rparr>\<rparr>"
  obtain made w1 where made: "in_request_context R (inline_run R H P ?il rid rq) w = (made, w1)" by force
  with assms consider x where "made = Inl x" "e = handler_error_python Setup x" | "made = Inr (Inl (Fails e))"
    by (auto simp: inline_serve_def Let_def elim!: caught.elims split: sum.splits)
  then show ?thesis
  proof cases
    case 1
    then show ?thesis by (auto simp: handler_error_python_def split: option.splits)
  next
    case 2
    with made obtain c v v' where "inline_run R H P ?il rid rq c v = (Err (Fails e), v')"
      by (auto simp: in_request_context_def run_bind_def split: prod.splits sum.splits)
    from soundD [OF sound_inline_run this] have "own_failure (Fails e)" by simp
    then show ?thesis by (cases e) simp_all
  qed
qed

lemma worker_serve_safe:
  assumes "cp_get C w = None" and "alive w (wk_tstate wk) = Some i"
  obtains r wk' w' where "worker_serve C R H P rid rq wk w = Some (r, wk', w')" and "cp_get C w' = None"
    and "wk_tstate wk' = wk_tstate wk" and "alive w' (wk_tstate wk) = Some i" and "elsewhere alive i w w'"
  by (rule with_gil_safe [OF assms, where f = "serve_and_collect R H P rid rq", OF attached_serve])
     (use that in \<open>auto simp: worker_serve_def\<close>)

lemma idle_collect_safe:
  assumes "cp_get C w = None" and "alive w (wk_tstate wk) = Some i"
  obtains wk' w' where "collect_garbage_between_requests C R wk w = Some (wk', w')" and "cp_get C w' = None"
    and "wk_tstate wk' = wk_tstate wk" and "alive w' (wk_tstate wk) = Some i" and "elsewhere alive i w w'"
proof -
  define f :: "('py, 'l) Inline \<Rightarrow> ('l, 'h, 'w) world \<Rightarrow> (panic_payload + unit) \<times> ('py, 'l) Inline \<times> ('l, 'h, 'w) world" where
    "f = (\<lambda>il w. let (p, gc, w) = run_collect R (il_gc il) w
                 in (case p of Some p \<Rightarrow> Inl p | None \<Rightarrow> Inr (), il\<lparr>il_gc := gc\<rparr>, w))"
  have att_f: "att s1 s2" if "f (wk_role wk) s1 = (r, role, s2)" for s1 r role s2
    using that unfolding f_def by (auto dest: attached_collect split: prod.splits)
  obtain s1 r role s2 w' where w': "f (wk_role wk) s1 = (r, role, s2)" "with_gil C f wk w = Some (r, wk\<lparr>wk_role := role\<rparr>, w')"
      "cp_get C w' = None" "alive w' (wk_tstate wk) = Some i" "elsewhere alive i w w'"
    using att_f by (rule with_gil_safe [OF assms])
  then show thesis
    by (intro that [of "wk\<lparr>wk_role := role\<rparr>" w']) (simp_all only: collect_garbage_between_requests_def flip: f_def, simp_all)
qed

lemma worker_calls_safe:
  assumes "cp_get C w = None" and "alive w (wk_tstate wk) = Some i"
  shows "\<exists>rs wk' w'. worker_calls C R H P cs wk w = Some (rs, wk', w') \<and> cp_get C w' = None \<and>
     alive w' (wk_tstate wk') = Some i \<and> elsewhere alive i w w'"
  using assms
proof (induction cs arbitrary: wk w)
  case (Cons c cs)
  show ?case
  proof (cases c)
    case (Request rid rq)
    from worker_serve_safe [OF Cons.prems] obtain r wk1 w1 where
      1: "worker_serve C R H P rid rq wk w = Some (r, wk1, w1)" "cp_get C w1 = None" "wk_tstate wk1 = wk_tstate wk"
      "alive w1 (wk_tstate wk) = Some i" "elsewhere alive i w w1" by metis
    with Cons.IH [of w1 wk1] Request show ?thesis using elsewhere_trans by fastforce
  next
    case IdleCollect
    from idle_collect_safe [OF Cons.prems] obtain wk1 w1 where
      1: "collect_garbage_between_requests C R wk w = Some (wk1, w1)" "cp_get C w1 = None" "wk_tstate wk1 = wk_tstate wk"
      "alive w1 (wk_tstate wk) = Some i" "elsewhere alive i w w1" by metis
    with Cons.IH [of w1 wk1] IdleCollect show ?thesis using elsewhere_trans by fastforce
  qed
qed simp

end


subsection \<open>An interpreter\<close>

text \<open>
  A process whose state is the current thread state and, for every thread state there was, its interpreter
  as long as it exists, and those that were cleared; calls return \<open>None\<close>.
\<close>

type_synonym threads_py = "tstate option \<times> nat option list \<times> tstate list"

type_synonym threads_world = "(nat, (string \<times> string) list, threads_py) world"

definition threads_alive :: "threads_world \<Rightarrow> tstate \<rightharpoonup> nat" where
  "threads_alive w t = (if t < length (fst (snd (w_py w))) then fst (snd (w_py w)) ! t else None)"

definition threads_cleared :: "threads_world \<Rightarrow> tstate \<Rightarrow> bool" where
  "threads_cleared w t \<longleftrightarrow> t \<in> set (snd (snd (w_py w)))"

definition put_threads :: "tstate option \<Rightarrow> nat option list \<Rightarrow> threads_world \<Rightarrow> threads_world" where
  "put_threads cur ts w = w\<lparr>w_py := (cur, ts, snd (snd (w_py w)))\<rparr>"

definition threads_cpython :: "threads_world cpython" where
  "threads_cpython =
     \<lparr>cp_get = (\<lambda>w. fst (w_py w)),
      cp_swap = (\<lambda>t w. Some (fst (w_py w), put_threads t (fst (snd (w_py w))) w)),
      cp_new_interpreter = (\<lambda>w. let ts = fst (snd (w_py w))
         in (\<lparr>ps_error = False, ps_func = None, ps_err_msg = None\<rparr>, Some (length ts),
             put_threads (Some (length ts)) (ts @ [Some (Suc (sum_list (map (case_option 0 id) ts)))]) w)),
      cp_end_interpreter = (\<lambda>t w. if fst (w_py w) = Some t
         then Some (put_threads None (map (\<lambda>i. if i = threads_alive w t then None else i) (fst (snd (w_py w)))) w) else None),
      cp_save = (\<lambda>w. map_option (\<lambda>t. (t, put_threads None (fst (snd (w_py w))) w)) (fst (w_py w))),
      cp_restore = (\<lambda>t w. if fst (w_py w) = None \<and> threads_alive w t \<noteq> None
         then Some (put_threads (Some t) (fst (snd (w_py w))) w) else None),
      cp_new_tstate = (\<lambda>w. case fst (w_py w) of
           None \<Rightarrow> None
         | Some t \<Rightarrow> Some (Some (length (fst (snd (w_py w)))), put_threads (Some t) (fst (snd (w_py w)) @ [threads_alive w t]) w)),
      cp_clear = (\<lambda>t w. case fst (w_py w) of
           Some u \<Rightarrow> if threads_alive w u = threads_alive w t then Some (w\<lparr>w_py := (Some u, fst (snd (w_py w)), t # snd (snd (w_py w)))\<rparr>) else None
         | None \<Rightarrow> None),
      cp_delete = (\<lambda>t w. if fst (w_py w) \<noteq> Some t \<and> threads_cleared w t
         then Some (put_threads (fst (w_py w)) ((fst (snd (w_py w)))[t := None]) w) else None),
      cp_take_err = (\<lambda>w. if fst (w_py w) = None then None else Some w),
      cp_initialized = (\<lambda>_. True)\<rparr>"

lemma fresh_interpreter: "Some (Suc (sum_list (map (case_option 0 id) ts))) \<notin> set ts"
proof
  assume "Some (Suc (sum_list (map (case_option 0 id) ts))) \<in> set ts"
  then have "Suc (sum_list (map (case_option 0 id) ts)) \<in> set (map (case_option 0 id) ts)" by force
  from member_le_sum_list [OF this] show False by simp
qed

lemma fresh_interpreter_nth: "t < length ts \<Longrightarrow> ts ! t \<noteq> Some (Suc (sum_list (map (case_option 0 id) ts)))"
  using fresh_interpreter nth_mem by metis

interpretation threads: cpython threads_cpython threads_alive threads_cleared
proof
  show "\<exists>i. threads_alive s t = None \<and> i \<notin> ran (threads_alive s) \<and> cp_get threads_cpython s' = Some t \<and>
      threads_alive s' = (threads_alive s)(t \<mapsto> i)"
    if "cp_new_interpreter threads_cpython s = (status, Some t, s')" for s status t s'
    using that fresh_interpreter_nth [of _ "fst (snd (w_py s))"]
    by (intro exI [of _ "Suc (sum_list (map (case_option 0 id) (fst (snd (w_py s)))))"])
       (auto simp: threads_cpython_def threads_alive_def put_threads_def Let_def ran_def nth_append less_Suc_eq split: if_splits)
qed (auto simp: threads_cpython_def threads_alive_def threads_cleared_def put_threads_def Let_def nth_append less_Suc_eq fun_eq_iff split: if_splits)

definition threads_runtime :: "(nat, (string \<times> string) list, nat, nat, threads_py) runtime" where
  "threads_runtime =
     \<lparr>ip_call = (\<lambda>f args w. (Ok PyNone, w)),
      ip_is_coroutine = (\<lambda>_. False), ip_has_await = (\<lambda>_. False), ip_future_marker = (\<lambda>_. False),
      ip_drive = (\<lambda>x w. (Ok x, w)), ip_create_task = (\<lambda>_ x _ w. (Ok x, w)), ip_run_until_complete = (\<lambda>_ x w. (Ok x, w)),
      ip_context_new = (\<lambda>w. (Ok 0, w)), ip_context_enter = (\<lambda>c w. (Ok (), w)), ip_context_exit = (\<lambda>c w. (Ok (), w)),
      ip_new_event_loop = (\<lambda>w. (Ok 0, w)), ip_loop_close = (\<lambda>_ w. (Ok (), w)), ip_interp_id = 0,
      ip_new_request = (\<lambda>_ w. (Ok (PyOther 0), w)), ip_new_str = (\<lambda>_ w. (PyStr 0, w)),
      ip_new_response = (\<lambda>x w. (Ok x, w))\<rparr>"

interpretation served: worker_runtime threads_cpython threads_alive threads_cleared threads_runtime
  by unfold_locales (simp_all add: threads_runtime_def)

definition threads_start :: threads_world where
  "threads_start = \<lparr>w_loop = None, w_streams = (\<lambda>_. demo_stream), w_gil =
      \<lparr>gm_queue_length = 0, gm_latency_last = 0, gm_latency_max = 0, gm_total_wait = 0, gm_probe_count = 0,
       gm_hold_max = 0\<rparr>, w_py = (None, [Some 0, Some 7], [])\<rparr>"

definition threads_worker :: "(nat, nat) Inline SubInterpreterWorker" where
  "threads_worker = \<lparr>wk_tstate = 1, wk_worker_id = 3, wk_role = \<lparr>il_handlers = [10], il_before_hooks = [], il_after_hooks = [],
      il_event_loop = 0, il_gc = \<lparr>gc_collect = 99, gc_threshold = 2, gc_served = 0, gc_collected_at = 0\<rparr>\<rparr>\<rparr>"

subsection \<open>The theorems\<close>

lemma attached_release:
  "(\<And>x s. attached C alive s (drop_ref x s)) \<Longrightarrow> attached C alive s (inline_release drop_ref il s)"
proof -
  assume d: "\<And>x s. attached C alive s (drop_ref x s)"
  have "attached C alive s (fold drop_ref xs s)" for xs s
    by (induction xs arbitrary: s) (auto intro: attached_trans d)
  then show ?thesis by (simp only: inline_release_def)
qed

text \<open>
  C30. The life of a worker on the thread that serves it (\<open>bind_to_this_thread\<close>, \<open>serve\<close>,
  \<open>collect_garbage_between_requests\<close>, \<open>end_on_own_thread\<close>): started with no thread state current and
  the worker's thread state saved, every CPython function is called as it must be (the creator's thread state is cleared before it is deleted, with
  a thread state of its interpreter current), whatever the requests do, panics included. After each request no thread state is current, and at the end the worker's
  interpreter is gone, while the thread states of every other interpreter are untouched; after
  \<open>Py_Finalize\<close> the worker is left alone.
\<close>

theorem worker_thread_life:
  assumes "worker_runtime C alive cleared R" and "\<And>x s. attached C alive s (drop_ref x s)"
    and "cp_get C w = None" and "alive w (wk_tstate wk) = Some i"
  shows "\<exists>wk1 w1 rs wk2 w2 w3.
     bind_to_this_thread C wk w = Some (wk1, w1) \<and> cp_get C w1 = None \<and>
     worker_calls C R H P cs wk1 w1 = Some (rs, wk2, w2) \<and> cp_get C w2 = None \<and>
     end_on_own_thread C (inline_release drop_ref) wk2 w2 = Some w3 \<and> cp_get C w3 = None \<and>
     elsewhere alive i w w3 \<and> (cp_initialized C w2 \<longrightarrow> i \<notin> ran (alive w3))"
proof -
  have C: "cpython C alive cleared" using assms(1) by (rule worker_runtime.axioms(1))
  obtain t w1 where 1: "rebind_tstate_to_current_thread C (wk_tstate wk) w = Some (t, w1)" "cp_get C w1 = None"
    "alive w1 t = Some i" "elsewhere alive i w w1" by (rule cpython.rebind_safe [OF C assms(3,4)])
  let ?wk1 = "wk\<lparr>wk_tstate := t\<rparr>"
  from worker_runtime.worker_calls_safe [OF assms(1) 1(2), of ?wk1 i H P cs] 1(3) obtain rs wk2 w2 where
    2: "worker_calls C R H P cs ?wk1 w1 = Some (rs, wk2, w2)" "cp_get C w2 = None" "alive w2 (wk_tstate wk2) = Some i"
      "elsewhere alive i w1 w2" by auto
  have "\<And>p. cp_get C w2 = Some p \<Longrightarrow> \<exists>j. alive w2 p = Some j \<and> j \<noteq> i" using 2(2) by simp
  then obtain e where "worker_end C (inline_release drop_ref) wk2 w2 = Some e" "cp_get C e = cp_get C w2" "i \<notin> ran (alive e)"
    "elsewhere alive i w2 e" using attached_release [OF assms(2)] by (rule cpython.end_safe [OF C 2(3)])
  then obtain w3 where 3: "end_on_own_thread C (inline_release drop_ref) wk2 w2 = Some w3" "cp_get C w3 = None"
      "elsewhere alive i w2 w3" "cp_initialized C w2 \<longrightarrow> i \<notin> ran (alive w3)"
    using 2(2) by (cases "cp_initialized C w2") (auto simp: end_on_own_thread_def worker_abandon_def)
  have "elsewhere alive i w w3" by (rule elsewhere_trans [OF elsewhere_trans [OF 1(4) 2(4)] 3(3)])
  with 1 2 3 have "bind_to_this_thread C wk w = Some (?wk1, w1) \<and> cp_get C w1 = None \<and>
     worker_calls C R H P cs ?wk1 w1 = Some (rs, wk2, w2) \<and> cp_get C w2 = None \<and>
     end_on_own_thread C (inline_release drop_ref) wk2 w2 = Some w3 \<and> cp_get C w3 = None \<and>
     elsewhere alive i w w3 \<and> (cp_initialized C w2 \<longrightarrow> i \<notin> ran (alive w3))"
    by (simp add: bind_to_this_thread_def)
  then show ?thesis by (intro exI)
qed

theorem worker_thread_life_witness:
  "\<exists>wk1 w1 rs wk2 w2 w3.
     bind_to_this_thread threads_cpython threads_worker threads_start = Some (wk1, w1) \<and>
     worker_calls threads_cpython threads_runtime line_headers demo_interp
       [Request 0 demo_request, IdleCollect, Request 5 demo_request] wk1 w1 = Some (rs, wk2, w2) \<and>
     end_on_own_thread threads_cpython (inline_release (\<lambda>_ s. s)) wk2 w2 = Some w3 \<and> 7 \<notin> ran (threads_alive w3)"
proof -
  have "cp_get threads_cpython threads_start = None" "threads_alive threads_start (wk_tstate threads_worker) = Some 7"
    and init: "cp_initialized threads_cpython w2" for w2
    by (simp_all add: threads_cpython_def threads_start_def threads_alive_def threads_worker_def)
  from worker_thread_life [OF served.worker_runtime_axioms _ this(1,2), of "\<lambda>_ s. s" line_headers demo_interp
      "[Request 0 demo_request, IdleCollect, Request 5 demo_request]"] init
  show ?thesis by (simp only: attached_refl simp_thms) blast
qed


text \<open>
  A worker refuses nothing: what \<open>serve\<close> fails with is the request's own error or a panic. This is what
  the pipeline relies on when it accounts for the requests the server gave up on (\<open>plain_worker\<close>).
\<close>

lemma worker_serve_result:
  assumes "worker_serve C R H P rid rq wk w = Some (r, wk', w')"
  obtains s x s2 where "serve_and_collect R H P rid rq (wk_role wk) s = (x, wk_role wk', s2)" and "r = catch_panic x"
proof -
  from assms obtain x where "with_gil C (serve_and_collect R H P rid rq) wk w = Some (x, wk', w')" and r: "r = catch_panic x"
    by (auto simp: worker_serve_def)
  then obtain s where s: "(let (result, role, s) = serve_and_collect R H P rid rq (wk_role wk) s
       in Option.bind (cp_save C s) (\<lambda>(tstate, s). Some (result, wk\<lparr>wk_tstate := tstate, wk_role := role\<rparr>, s))) = Some (x, wk', w')"
    unfolding with_gil_def by (auto simp: Option.bind_eq_Some_conv)
  obtain y role s2 where "serve_and_collect R H P rid rq (wk_role wk) s = (y, role, s2)" by (metis prod_cases3)
  with s r show thesis by (intro that [of s x s2]) (auto simp: Option.bind_eq_Some_conv)
qed

lemma worker_never_refuses:
  assumes "worker_runtime C alive cleared R" and "worker_serve C R H P rid rq wk w = Some (Err e, wk', w')"
  shows "e \<noteq> Refused x"
proof -
  obtain s r role s2 where r: "serve_and_collect R H P rid rq (wk_role wk) s = (r, role, s2)" "catch_panic r = Err e"
    by (rule worker_serve_result [OF assms(2)]) metis
  show ?thesis
  proof (cases r)
    case (Inl p)
    with r show ?thesis by (auto simp: catch_panic_def handler_error_panic_def)
  next
    case (Inr resp)
    with r obtain il' w1 where "inline_serve R H P (wk_role wk) rid rq s = (Inr (Err e), il', w1)"
      by (auto simp: serve_and_collect_def catch_panic_def Let_def split: prod.splits sum.splits if_splits option.splits)
    from worker_runtime.inline_serve_own [OF assms(1) this] show ?thesis by blast
  qed
qed

text \<open>A request that did not panic, and the count of requests since the last collection.\<close>

lemma serve_and_collect_gc:
  assumes "serve_and_collect R H P rid rq il w = (Inr r, il', w')"
  shows "gc_threshold (il_gc il') = gc_threshold (il_gc il) \<and> gc_served (il_gc il') = gc_served (il_gc il) + 1 \<and>
     since_collect (il_gc il') =
       (if 0 < gc_threshold (il_gc il) \<and> gc_threshold (il_gc il) \<le> since_collect (il_gc il) + 1 then 0
        else since_collect (il_gc il) + 1)"
proof -
  obtain resp il1 w1 where 1: "inline_serve R H P il rid rq w = (resp, il1, w1)" by (metis prod_cases3)
  then have gc: "il_gc il1 = (il_gc il)\<lparr>gc_served := gc_served (il_gc il) + 1\<rparr>"
    by (auto simp: inline_serve_def Let_def split: prod.splits)
  then have since: "since_collect (il_gc il1) = since_collect (il_gc il) + 1" by (simp add: since_collect_def)
  obtain p gc' w2 where c: "run_collect R (il_gc il1) w1 = (p, gc', w2)" by (metis prod_cases3)
  then have "gc' = (il_gc il1)\<lparr>gc_collected_at := gc_served (il_gc il1)\<rparr>"
    by (auto simp: run_collect_def Let_def split: prod.splits)
  with 1 gc since c assms show ?thesis
    by (cases "gc_due (il_gc il1)") (auto simp: serve_and_collect_def gc_due_def since_collect_def diff_add_eq split: sum.splits)
qed

lemma worker_serve_gc:
  assumes "worker_serve C R H P rid rq wk w = Some (r, wk', w')" and "\<forall>p. r \<noteq> Err (Panic p)"
  shows "gc_threshold (il_gc (wk_role wk')) = gc_threshold (il_gc (wk_role wk)) \<and>
     requests_served wk' = requests_served wk + 1 \<and>
     requests_since_collect wk' =
       (if 0 < gc_threshold (il_gc (wk_role wk)) \<and> gc_threshold (il_gc (wk_role wk)) \<le> requests_since_collect wk + 1 then 0
        else requests_since_collect wk + 1)"
proof -
  obtain s x s2 where x: "serve_and_collect R H P rid rq (wk_role wk) s = (x, wk_role wk', s2)" "r = catch_panic x"
    by (rule worker_serve_result [OF assms(1)])
  with assms(2) obtain resp where "x = Inr resp"
    by (cases x) (auto simp: catch_panic_def handler_error_panic_def)
  with x have "serve_and_collect R H P rid rq (wk_role wk) s = (Inr resp, wk_role wk', s2)" by simp
  from serve_and_collect_gc [OF this] show ?thesis by (simp add: requests_served_def requests_since_collect_def)
qed

text \<open>
  The garbage collector of a worker (\<open>GcSchedule\<close>, \<open>SubInterpreterWorker::serve\<close>): over any sequence of
  requests that do not panic, started less than a threshold after a collection, the worker has collected after
  every \<open>threshold\<close>-th request and at no other time: the requests since the last collection are
  the requests so far modulo the threshold, at every length of the sequence, and also when the 64-bit
  counters wrap around.
\<close>

theorem worker_collects_on_schedule:
  assumes "worker_calls C R H P (map (\<lambda>(rid, rq). Request rid rq) rqs) wk w = Some (rs, wk', w')"
    and "\<forall>r \<in> set rs. \<forall>p. r \<noteq> Err (Panic p)"
    and "requests_since_collect wk < gc_threshold (il_gc (wk_role wk))"
  shows "requests_served wk' = requests_served wk + of_nat (length rqs) \<and>
     unat (requests_since_collect wk') =
       (unat (requests_since_collect wk) + length rqs) mod unat (gc_threshold (il_gc (wk_role wk)))"
  using assms
proof (induction rqs arbitrary: wk w rs)
  case Nil
  then show ?case by (simp add: word_less_nat_alt)
next
  case (Cons x rqs)
  obtain rid rq where x: "x = (rid, rq)" by force
  with Cons.prems(1) obtain r wk1 w1 rs' where 1: "worker_serve C R H P rid rq wk w = Some (r, wk1, w1)"
    and rest: "worker_calls C R H P (map (\<lambda>(rid, rq). Request rid rq) rqs) wk1 w1 = Some (rs', wk', w')" and rs: "rs = r # rs'"
    by (auto simp: Option.bind_eq_Some_conv)
  let ?t = "gc_threshold (il_gc (wk_role wk))" and ?n = "requests_since_collect wk"
  from worker_serve_gc [OF 1] Cons.prems(2) rs have gc: "gc_threshold (il_gc (wk_role wk1)) = ?t"
    "requests_served wk1 = requests_served wk + 1"
    "requests_since_collect wk1 = (if 0 < ?t \<and> ?t \<le> ?n + 1 then 0 else ?n + 1)" by simp_all
  have n: "unat ?n < unat ?t" using Cons.prems(3) by (simp add: word_less_nat_alt)
  then have plus: "unat (?n + 1) = unat ?n + 1"
  proof -
    have "unat ?t < 2 ^ 64" using unsigned_less [of ?t] by simp
    with n show ?thesis by (simp add: unat_word_ariths)
  qed
  have since: "unat (requests_since_collect wk1) = (unat ?n + 1) mod unat ?t"
    and less: "requests_since_collect wk1 < gc_threshold (il_gc (wk_role wk1))"
    using n plus gc by (cases "unat ?n + 1 = unat ?t"; auto simp: word_le_nat_alt word_less_nat_alt not_le)+
  from Cons.IH [OF rest _ less] Cons.prems(2) rs
  have "requests_served wk' = requests_served wk1 + of_nat (length rqs)"
    "unat (requests_since_collect wk') = (unat (requests_since_collect wk1) + length rqs) mod unat ?t" using gc(1) by simp_all
  then show ?case by (simp add: gc(2) since mod_simps)
qed

lemma threads_serve:
  assumes "il_handlers il \<noteq> []" and "il_before_hooks il = []" and "il_after_hooks il = []"
    and "serve_and_collect threads_runtime line_headers demo_interp 0 demo_request il w = (x, il', w')"
  shows "il_handlers il' \<noteq> [] \<and> il_before_hooks il' = [] \<and> il_after_hooks il' = [] \<and> (\<forall>p. catch_panic x \<noteq> Err (Panic p))"
proof -
  let ?il = "il\<lparr>il_gc := (il_gc il)\<lparr>gc_served := gc_served (il_gc il) + 1\<rparr>\<rparr>"
  let ?r = "worker_response line_headers demo_interp PyNone"
  have "inline_run threads_runtime line_headers demo_interp ?il 0 demo_request c v = (map_err response_fault ?r, v)" for c v
    using assms(1-3) by (cases ?r) (simp_all add: inline_run_def inline_chain_def run_defs chain_call_def chain_handler_def
        threads_runtime_def awaitable_of_def Let_def)
  then have "inline_serve threads_runtime line_headers demo_interp il 0 demo_request w = (caught (map_err response_fault ?r), ?il, w)"
    by (simp add: inline_serve_def in_request_context_def run_defs Let_def) (simp add: threads_runtime_def run_bind_def)
  with assms show ?thesis
    by (cases ?r) (auto simp: serve_and_collect_def response_fault_def run_collect_def threads_runtime_def catch_panic_def
        Let_def split: if_splits)
qed

lemma threads_serves:
  assumes "cp_get threads_cpython w = None" and "threads_alive w (wk_tstate wk) = Some i"
    and "il_handlers (wk_role wk) \<noteq> []" and "il_before_hooks (wk_role wk) = []" and "il_after_hooks (wk_role wk) = []"
  shows "\<exists>rs wk' w'. worker_calls threads_cpython threads_runtime line_headers demo_interp
     (map (\<lambda>(rid, rq). Request rid rq) (replicate n (0, demo_request))) wk w = Some (rs, wk', w') \<and>
     (\<forall>r \<in> set rs. \<forall>p. r \<noteq> Err (Panic p))"
  using assms
proof (induction n arbitrary: wk w)
  case (Suc n)
  obtain r wk1 w1 where 1: "worker_serve threads_cpython threads_runtime line_headers demo_interp 0 demo_request wk w = Some (r, wk1, w1)"
    "cp_get threads_cpython w1 = None" "wk_tstate wk1 = wk_tstate wk" "threads_alive w1 (wk_tstate wk) = Some i"
    by (rule served.worker_serve_safe [OF Suc.prems(1,2)]) blast
  obtain s x s2 where x: "serve_and_collect threads_runtime line_headers demo_interp 0 demo_request (wk_role wk) s = (x, wk_role wk1, s2)"
    "r = catch_panic x" by (rule worker_serve_result [OF 1(1)])
  from threads_serve [OF Suc.prems(3-5) x(1)] Suc.IH [of w1 wk1] 1 x(2) show ?case by auto
qed simp

theorem worker_collects_on_schedule_witness:
  "\<exists>rs wk' w'. worker_calls threads_cpython threads_runtime line_headers demo_interp
       (map (\<lambda>(rid, rq). Request rid rq) (replicate 3 (0, demo_request))) threads_worker threads_start = Some (rs, wk', w') \<and>
     requests_served wk' = 3 \<and> unat (requests_since_collect wk') = 1"
proof -
  let ?calls = "map (\<lambda>(rid, rq). Request rid rq) (replicate 3 (0, demo_request))"
  let ?run = "worker_calls threads_cpython threads_runtime line_headers demo_interp ?calls threads_worker threads_start"
  have eval: "\<exists>rs wk' w'. ?run = Some (rs, wk', w') \<and> (\<forall>r \<in> set rs. \<forall>p. r \<noteq> Err (Panic p))"
    by (rule threads_serves) (simp_all add: threads_worker_def threads_start_def threads_cpython_def threads_alive_def)
  then obtain rs wk' w' where run: "?run = Some (rs, wk', w')" and ok: "\<forall>r \<in> set rs. \<forall>p. r \<noteq> Err (Panic p)" by blast
  have "requests_since_collect threads_worker < gc_threshold (il_gc (wk_role threads_worker))" "requests_served threads_worker = 0"
    "requests_since_collect threads_worker = 0" "gc_threshold (il_gc (wk_role threads_worker)) = 2"
    by (simp_all add: threads_worker_def requests_since_collect_def requests_served_def since_collect_def)
  with worker_collects_on_schedule [OF run ok] run show ?thesis by auto
qed


subsection \<open>The order of the hooks in a worker\<close>

lemma run_bind_ret: "run_bind (run_ret (Err e)) f = run_ret (Err e)" "run_bind (run_ret (Ok v)) f = f v"
  by (simp_all add: run_bind_def run_ret_def fun_eq_iff)

context python_runtime
begin

lemma traced_inline_run:
  assumes c: "c \<notin> set cs" and h: "rid < length (il_handlers il)"
  shows "traced calls entered (c # cs)
     (\<lambda>r made. ran_for (il_before_hooks il) (il_handlers il ! rid) (il_after_hooks il) (map_ok ReplyResponse r) made)
     (inline_run R H P il rid rq c)"
proof -
  let ?ch = "inline_chain H P il c" and ?tr = "traced calls entered (c # cs)" and ?h = "il_handlers il ! rid"
  let ?bs = "il_before_hooks il" and ?afs = "il_after_hooks il"
  have ch: "ch_rc ?ch \<notin> set cs" "ch_rc ?ch = c" using c by (simp_all add: inline_chain_def)
  have loop: "traced calls entered (ch_rc ?ch # cs) (\<lambda>r made. made = [] \<and> stage_in {Setup} r) (ch_event_loop ?ch)"
    by (simp add: inline_chain_def traced_ret)
  note before = traced_before [OF ch(1) loop, of ?bs, unfolded ch(2)]
  have after: "?tr (\<lambda>r made. ran_for ?bs ?h ?afs (map_ok ReplyResponse r) (?bs @ ?h # made)) (chain_after R ?ch ?afs req data)" for req data
    by (rule traced_weaken [OF traced_after [OF ch(1) loop, of ?afs, unfolded ch(2)]])
       (auto simp: map_ok_def intro!: ran_for_after split: sum.splits intro: stage_in_Err)
  have answer: "?tr (\<lambda>r made. ran_for ?bs ?h ?afs (map_ok ReplyResponse r) (?bs @ ?h # made))
      (run_bind (run_ret (map_err response_fault (worker_response H P v))) (\<lambda>data. chain_after R ?ch ?afs req data))" for v req
    using after by (cases "worker_response H P v") (simp_all add: run_bind_ret response_fault_def map_ok_def traced_ret)
  have call: "?tr (\<lambda>r made. made = [?h] \<and> stage_in {Handler, Setup} r) (chain_handler R ?ch ?h req)" for req
    using traced_call [OF ch(1) loop, of ?h Handler "[req]", unfolded ch(2)] by (simp add: chain_handler_def)
  have new: "?tr (\<lambda>r made. made = [] \<and> stage_in {Setup} r)
      (run_err (map_fault_err (handler_error_python Setup)) (ip_new_request R rq))"
    by (rule traced_err, rule traced_weaken [OF quiet_traced(5)]) simp
  show ?thesis
    unfolding inline_run_def Let_def using h
    by (simp, intro traced_bind [OF new], simp, intro traced_bind [OF before])
       (auto simp: map_ok_def intro!: traced_ret traced_bind [OF call] traced_weaken [OF answer] ran_for_before ran_for_handler
          intro: stage_in_Err stage_in_mono split: option.split)
qed

end


text \<open>
  C32. \<open>Inline::serve\<close> (\<open>src/python/worker.rs\<close>): a worker runs a request as the main interpreter does. However it
  ends, the calls are the before hooks, the handler at the route's index and the after hooks in that order,
  as far as it got, all in one new context that is left at the end; a before hook's exception
  means that the handler was not called, the handler's that no after hook was.
\<close>

theorem worker_hooks_in_order:
  assumes R: "python_runtime R calls entered" and h: "rid < length (il_handlers il)"
    and run: "inline_serve R H P il rid rq w = (x, il', w')"
  shows "\<exists>c made. entered (w_py w') = entered (w_py w) \<and>
     calls (w_py w') = calls (w_py w) @ map (\<lambda>f. (f, c # entered (w_py w))) made \<and>
     (made \<noteq> [] \<longrightarrow> c \<notin> set (entered (w_py w))) \<and>
     ran_for (il_before_hooks il) (il_handlers il ! rid) (il_after_hooks il)
       (map_ok ReplyResponse (map_err Fails (catch_panic x))) made"
proof -
  let ?il = "il\<lparr>il_gc := (il_gc il)\<lparr>gc_served := gc_served (il_gc il) + 1\<rparr>\<rparr>"
  let ?ran = "\<lambda>r made. ran_for (il_before_hooks il) (il_handlers il ! rid) (il_after_hooks il) (map_ok ReplyResponse r) made"
  obtain inner w1 where inner: "in_request_context R (inline_run R H P ?il rid rq) w = (inner, w1)" by force
  with run have x: "x = (case inner of Inr r \<Rightarrow> caught r | Inl e \<Rightarrow> Inr (Err (handler_error_python Setup e)))" and w1: "w' = w1"
    by (auto simp: inline_serve_def Let_def)
  have "?ran (map_err Fails (catch_panic x)) made" if "case inner of Inl e \<Rightarrow> made = [] | Inr r \<Rightarrow> ?ran r made" for made
  proof (cases inner)
    case (Inl e)
    with that x show ?thesis by (auto simp: catch_panic_def handler_error_python_def map_ok_def split: option.splits)
  next
    case (Inr r)
    with that x show ?thesis
      by (cases r rule: caught.cases) (auto simp: catch_panic_def handler_error_panic_def map_ok_def)
  qed
  moreover have "traced calls entered (c # cs) ?ran (inline_run R H P ?il rid rq c)" if "c \<notin> set cs" for c cs
    using python_runtime.traced_inline_run [OF R that, of rid ?il H P rq] h by simp
  ultimately show ?thesis using python_runtime.context_calls [OF R _ inner, of ?ran] w1 by metis
qed

theorem worker_hooks_in_order_witness:
  "\<exists>x il' w' c made.
     inline_serve demo_runtime line_headers demo_interp
       \<lparr>il_handlers = [''view''], il_before_hooks = [''a'', ''b''], il_after_hooks = [''c''], il_event_loop = 0,
        il_gc = \<lparr>gc_collect = ''collect'', gc_threshold = 0, gc_served = 0, gc_collected_at = 0\<rparr>\<rparr> 0 demo_request demo_world
       = (x, il', w') \<and>
     fst (w_py w') = map (\<lambda>f. (f, [c])) made \<and>
     ran_for [''a'', ''b''] ''view'' [''c''] (map_ok ReplyResponse (map_err Fails (catch_panic x))) made"
proof -
  let ?il = "\<lparr>il_handlers = [''view''], il_before_hooks = [''a'', ''b''], il_after_hooks = [''c''], il_event_loop = 0,
        il_gc = \<lparr>gc_collect = ''collect'', gc_threshold = 0, gc_served = 0, gc_collected_at = 0\<rparr>\<rparr> :: (string, nat) Inline"
  obtain x il' w' where run: "inline_serve demo_runtime line_headers demo_interp ?il 0 demo_request demo_world = (x, il', w')"
    by (metis prod_cases3)
  have "0 < length (il_handlers ?il)" by simp
  from worker_hooks_in_order [OF demo.python_runtime_axioms this run] obtain c made where
    "fst (w_py w') = fst (w_py demo_world) @ map (\<lambda>f. (f, c # snd (w_py demo_world))) made"
    "ran_for [''a'', ''b''] ''view'' [''c''] (map_ok ReplyResponse (map_err Fails (catch_panic x))) made" by auto
  with run show ?thesis by (auto simp: demo_world_def)
qed

end
