(* ===== verification/Shared_State.thy ===== *)
theory Shared_State
  imports Crates Request
begin

section \<open>The shared state of an app (\<open>src/state.rs\<close>)\<close>

text \<open>
  \<open>SharedState\<close>: a map from strings to bytes that every interpreter of a running app reads and writes. The
  maps are reference counted: a \<open>SharedState\<close> is a handle, and the interpreters of a run hold handles of one
  map. The concurrent map is the parameter \<open>D\<close> (\<open>dash_map\<close>); each operation holds the lock of the key it
  works on to its end, so what several interpreters do at once is some sequence of whole operations.

  The results: whatever the interleaving, a key that is only counted is exactly a counter of 64 bits that
  refuses to overflow; an operation that raises changes nothing that can be read; and a value written in
  one interpreter of a run is read in every other.
\<close>

subsection \<open>Handles\<close>

type_synonym key = string
type_synonym handle = nat
type_synonym i64 = "64 word" \<comment> \<open>read by \<open>sint\<close>\<close>

text \<open>The maps that have been created, and \<open>WORKER_MAP\<close>: the handle each worker interpreter was given.\<close>

record 'm SharedMaps =
  maps :: "'m list"
  WORKER_MAP :: "nat \<rightharpoonup> handle"

datatype StateError = AlreadyHanded

definition hand_to_worker :: "nat \<Rightarrow> handle \<Rightarrow> 'm SharedMaps \<Rightarrow> (unit, StateError) result \<times> 'm SharedMaps" where
  "hand_to_worker py shared st =
     (case WORKER_MAP st py of
        Some _ \<Rightarrow> (Err AlreadyHanded, st)
      | None \<Rightarrow> (Ok (), st\<lparr>WORKER_MAP := (WORKER_MAP st)(py \<mapsto> shared)\<rparr>))"

definition map_for_new :: "('m, key, string) dash_api \<Rightarrow> nat \<Rightarrow> 'm SharedMaps \<Rightarrow> handle \<times> 'm SharedMaps" where
  "map_for_new D py st =
     (case WORKER_MAP st py of
        Some shared \<Rightarrow> (shared, st)
      | None \<Rightarrow> (length (maps st), st\<lparr>maps := maps st @ [dm_new D]\<rparr>))"

record SharedState =
  inner :: handle

definition with_inner :: "handle \<Rightarrow> SharedState" where
  "with_inner shared = \<lparr>inner = shared\<rparr>"

definition state_new :: "('m, key, string) dash_api \<Rightarrow> nat \<Rightarrow> 'm SharedMaps \<Rightarrow> SharedState \<times> 'm SharedMaps" where
  "state_new D py st = (let (shared, st') = map_for_new D py st in (\<lparr>inner = shared\<rparr>, st'))"

text \<open>A call on a \<open>SharedState\<close>: on the map behind its handle.\<close>

definition on_inner :: "SharedState \<Rightarrow> ('m \<Rightarrow> 'a \<times> 'm) \<Rightarrow> 'm SharedMaps \<Rightarrow> 'a \<times> 'm SharedMaps" where
  "on_inner self f st =
     (let (r, m) = f (maps st ! inner self) in (r, st\<lparr>maps := (maps st)[inner self := m]\<rparr>))"

subsection \<open>Operations\<close>

datatype StateException =
    KeyError key
  | NotText key \<comment> \<open>\<open>TypeError\<close>: the value is not UTF-8\<close>
  | IncrNotUtf8 key \<comment> \<open>\<open>TypeError\<close>\<close>
  | IncrNotInteger key string \<comment> \<open>\<open>TypeError\<close>\<close>
  | IncrOverflow key \<comment> \<open>\<open>OverflowError\<close>\<close>
  | DecrMin \<comment> \<open>\<open>OverflowError\<close>: \<open>i64::MIN\<close> has no negation\<close>

definition state_text :: "key \<Rightarrow> string \<Rightarrow> (string, StateException) result" where
  "state_text key v = (if is_utf8 v then Ok v else Err (NotText key))"

definition state_set :: "('m, key, string) dash_api \<Rightarrow> key \<Rightarrow> string \<Rightarrow> 'm \<Rightarrow> unit \<times> 'm" where
  "state_set D key v m = ((), snd (dm_insert D m key v))"

definition state_get :: "('m, key, string) dash_api \<Rightarrow> key \<Rightarrow> string option \<Rightarrow> 'm \<Rightarrow> (string option, StateException) result" where
  "state_get D key dflt m =
     (case dm_get D m key of Some v \<Rightarrow> map_ok Some (state_text key v) | None \<Rightarrow> Ok dflt)"

definition state_set_bytes :: "('m, key, string) dash_api \<Rightarrow> key \<Rightarrow> string \<Rightarrow> 'm \<Rightarrow> unit \<times> 'm" where
  "state_set_bytes D key v m = ((), snd (dm_insert D m key v))"

definition state_get_bytes :: "('m, key, string) dash_api \<Rightarrow> key \<Rightarrow> 'm \<Rightarrow> string option" where
  "state_get_bytes D key m = dm_get D m key"

definition state_delete :: "('m, key, string) dash_api \<Rightarrow> key \<Rightarrow> 'm \<Rightarrow> bool \<times> 'm" where
  "state_delete D key m = (let (old, m') = dm_remove D m key in (old \<noteq> None, m'))"

definition state_keys :: "('m, key, string) dash_api \<Rightarrow> 'm \<Rightarrow> key list" where
  "state_keys D m = map fst (dm_iter D m)"

definition state_values :: "('m, key, string) dash_api \<Rightarrow> 'm \<Rightarrow> (string list, StateException) result" where
  "state_values D m = try_map (\<lambda>(k, v). state_text k v) (dm_iter D m)"

definition state_items :: "('m, key, string) dash_api \<Rightarrow> 'm \<Rightarrow> ((key \<times> string) list, StateException) result" where
  "state_items D m = try_map (\<lambda>(k, v). map_ok (Pair k) (state_text k v)) (dm_iter D m)"

definition state_len :: "('m, key, string) dash_api \<Rightarrow> 'm \<Rightarrow> nat" where
  "state_len D m = length (dm_iter D m)"

definition state_contains :: "('m, key, string) dash_api \<Rightarrow> key \<Rightarrow> 'm \<Rightarrow> bool" where
  "state_contains D key m \<longleftrightarrow> dm_get D m key \<noteq> None"

definition state_setitem :: "('m, key, string) dash_api \<Rightarrow> key \<Rightarrow> string \<Rightarrow> 'm \<Rightarrow> unit \<times> 'm" where
  "state_setitem D key v m = state_set D key v m"

definition state_getitem :: "('m, key, string) dash_api \<Rightarrow> key \<Rightarrow> 'm \<Rightarrow> (string, StateException) result" where
  "state_getitem D key m =
     (case dm_get D m key of None \<Rightarrow> Err (KeyError key) | Some v \<Rightarrow> state_text key v)"

definition state_delitem :: "('m, key, string) dash_api \<Rightarrow> key \<Rightarrow> 'm \<Rightarrow> (unit, StateException) result \<times> 'm" where
  "state_delitem D key m =
     (let (existed, m') = state_delete D key m in (if existed then Ok () else Err (KeyError key), m'))"

text \<open>\<open>entry(key).or_insert_with(\<dots>)\<close>: the value of the key, put there first if there is none.\<close>

definition entry_or_insert :: "('m, key, string) dash_api \<Rightarrow> 'm \<Rightarrow> key \<Rightarrow> string \<Rightarrow> string \<times> 'm" where
  "entry_or_insert D m key dflt =
     (case dm_get D m key of Some v \<Rightarrow> (v, m) | None \<Rightarrow> (dflt, snd (dm_insert D m key dflt)))"

definition checked_i64 :: "int \<Rightarrow> int option" where
  "checked_i64 i = (if I64_MIN \<le> i \<and> i \<le> I64_MAX then Some i else None)"

definition checked_neg :: "i64 \<Rightarrow> i64 option" where
  "checked_neg i = (if sint i = I64_MIN then None else Some (- i))"

definition incr :: "('m, key, string) dash_api \<Rightarrow> key \<Rightarrow> i64 \<Rightarrow> 'm \<Rightarrow> (int, StateException) result \<times> 'm" where
  "incr D key amount m =
     (let (entry, m) = entry_or_insert D m key ''0''
      in if \<not> is_utf8 entry then (Err (IncrNotUtf8 key), m)
         else case parse_i64 entry of
             None \<Rightarrow> (Err (IncrNotInteger key entry), m)
           | Some current \<Rightarrow>
               (case checked_i64 (current + sint amount) of
                  None \<Rightarrow> (Err (IncrOverflow key), m)
                | Some new_val \<Rightarrow> (Ok new_val, snd (dm_insert D m key (show_int new_val)))))"

definition decr :: "('m, key, string) dash_api \<Rightarrow> key \<Rightarrow> i64 \<Rightarrow> 'm \<Rightarrow> (int, StateException) result \<times> 'm" where
  "decr D key amount m =
     (case checked_neg amount of None \<Rightarrow> (Err DecrMin, m) | Some neg \<Rightarrow> incr D key neg m)"

definition state_repr :: "('m, key, string) dash_api \<Rightarrow> 'm \<Rightarrow> string" where
  "state_repr D m = ''SharedState('' @ show_nat (state_len D m) @ '' keys)''"

subsection \<open>Sequences of operations\<close>

text \<open>The calls that change a map, made by whichever interpreter.\<close>

datatype StateOp =
    OpSet key string
  | OpSetBytes key string
  | OpSetItem key string
  | OpDelete key
  | OpDelItem key
  | OpIncr key i64
  | OpDecr key i64

datatype StateAnswer = Nothing | Existed bool | Count int | Raised StateException

fun answer_of :: "('a \<Rightarrow> StateAnswer) \<Rightarrow> ('a, StateException) result \<Rightarrow> StateAnswer" where
  "answer_of f (Inr v) = f v"
| "answer_of f (Inl e) = Raised e"

fun state_op :: "('m, key, string) dash_api \<Rightarrow> StateOp \<Rightarrow> 'm \<Rightarrow> StateAnswer \<times> 'm" where
  "state_op D (OpSet k v) m = (let (_, m) = state_set D k v m in (Nothing, m))"
| "state_op D (OpSetBytes k v) m = (let (_, m) = state_set_bytes D k v m in (Nothing, m))"
| "state_op D (OpSetItem k v) m = (let (_, m) = state_setitem D k v m in (Nothing, m))"
| "state_op D (OpDelete k) m = (let (b, m) = state_delete D k m in (Existed b, m))"
| "state_op D (OpDelItem k) m = (let (r, m) = state_delitem D k m in (answer_of (\<lambda>_. Nothing) r, m))"
| "state_op D (OpIncr k a) m = (let (r, m) = incr D k a m in (answer_of Count r, m))"
| "state_op D (OpDecr k a) m = (let (r, m) = decr D k a m in (answer_of Count r, m))"

fun state_ops :: "('m, key, string) dash_api \<Rightarrow> StateOp list \<Rightarrow> 'm \<Rightarrow> StateAnswer list \<times> 'm" where
  "state_ops D [] m = ([], m)"
| "state_ops D (op # ops) m =
     (let (a, m) = state_op D op m; (as', m) = state_ops D ops m in (a # as', m))"

fun op_key :: "StateOp \<Rightarrow> key" where
  "op_key (OpSet k _) = k"
| "op_key (OpSetBytes k _) = k"
| "op_key (OpSetItem k _) = k"
| "op_key (OpDelete k) = k"
| "op_key (OpDelItem k) = k"
| "op_key (OpIncr k _) = k"
| "op_key (OpDecr k _) = k"

text \<open>The amount by which an operation counts; \<open>None\<close> if it is no counting.\<close>

fun op_amount :: "StateOp \<Rightarrow> int option" where
  "op_amount (OpIncr _ a) = Some (sint a)"
| "op_amount (OpDecr _ a) = Some (- sint a)"
| "op_amount _ = None"

subsection \<open>A counter\<close>

text \<open>The specification: a number within 64 bits, to which an amount is added or which refuses it.\<close>

definition counter_add :: "int \<Rightarrow> int \<Rightarrow> int option \<times> int" where
  "counter_add c a =
     (if I64_MIN \<le> a \<and> a \<le> I64_MAX \<and> I64_MIN \<le> c + a \<and> c + a \<le> I64_MAX then (Some (c + a), c + a) else (None, c))"

fun counter_run :: "int list \<Rightarrow> int \<Rightarrow> int option list \<times> int" where
  "counter_run [] c = ([], c)"
| "counter_run (a # amounts) c =
     (let (r, c) = counter_add c a; (rs, c) = counter_run amounts c in (r # rs, c))"

definition counter_value :: "('m, key, string) dash_api \<Rightarrow> key \<Rightarrow> 'm \<Rightarrow> int option" where
  "counter_value D k m =
     (case dm_get D m k of None \<Rightarrow> Some 0 | Some v \<Rightarrow> if is_utf8 v then parse_i64 v else None)"

fun counted :: "StateAnswer \<Rightarrow> int option" where
  "counted (Count n) = Some n"
| "counted _ = None"

lemma is_utf8_show_int: "is_utf8 (show_int i)"
proof -
  have asc: "list_all (byte_in 0 127) s \<Longrightarrow> is_utf8 s" for s
  proof (induction s)
    case (Cons c s)
    then show ?case using is_utf8_append [of "[c]" s] is_utf8_ascii [of c] by simp
  qed simp
  have "list_all (byte_in 0 127) (show_nat n)" for n
    using show_nat_digits [of n] by (auto simp: list_all_iff is_ascii_digit_def byte_in_def)
  then show ?thesis by (intro asc) (simp add: show_int_def byte_in_def)
qed

lemma zero_text: "is_utf8 ''0''" "parse_i64 ''0'' = Some 0"
proof -
  have "show_int 0 = ''0''" by code_simp
  then show "is_utf8 ''0''" "parse_i64 ''0'' = Some 0"
    using is_utf8_show_int [of 0] parse_i64_show_int [of 0] by (simp_all add: int_bounds)
qed

lemma sint_i64_range: "I64_MIN \<le> sint (a :: i64)" "sint (a :: i64) \<le> I64_MAX"
  using sint_range_size [of a] by (simp_all add: I64_MIN_def I64_MAX_def word_size)

lemma checked_neg_sint:
  "checked_neg a = Some b \<Longrightarrow> sint b = - sint a" "checked_neg a = None \<longleftrightarrow> I64_MAX < - sint a"
proof -
  have "sint (- a) = - sint a" if "sint a \<noteq> I64_MIN"
  proof -
    have "- (2 ^ 63) \<le> - sint a" "- sint a < 2 ^ 63"
      using that sint_i64_range [of a] by (simp_all add: I64_MIN_def I64_MAX_def)
    then have "sint (of_int (- sint a) :: i64) = - sint a" by (simp only: signed_of_int) (simp add: signed_take_bit_int_eq_self)
    then show ?thesis by simp
  qed
  then show "checked_neg a = Some b \<Longrightarrow> sint b = - sint a" by (auto simp: checked_neg_def split: if_splits)
  show "checked_neg a = None \<longleftrightarrow> I64_MAX < - sint a"
    using sint_i64_range [of a] by (auto simp: checked_neg_def I64_MIN_def I64_MAX_def)
qed

locale shared_map = dash_map D for D :: "('m, key, string) dash_api"
begin

lemmas state_defs = state_set_def state_set_bytes_def state_setitem_def state_delete_def state_delitem_def case_prod_beta

lemma state_op_other:
  "op_key op \<noteq> k \<Longrightarrow> dm_get D (snd (state_op D op m)) k = dm_get D m k"
  by (cases op) (auto simp: state_defs incr_def decr_def entry_or_insert_def split: option.splits)

lemma incr_counts:
  assumes "counter_value D k m = Some c" and "I64_MIN \<le> c" "c \<le> I64_MAX"
  shows "counter_value D k (snd (incr D k a m)) = Some (snd (counter_add c (sint a)))"
    and "counted (answer_of Count (fst (incr D k a m))) = fst (counter_add c (sint a))"
proof -
  obtain e m' where e: "entry_or_insert D m k ''0'' = (e, m')" by fastforce
  with assms(1) zero_text have ev: "is_utf8 e" "parse_i64 e = Some c" and m': "counter_value D k m' = Some c"
    by (auto simp: entry_or_insert_def counter_value_def split: option.splits if_splits)
  show "counter_value D k (snd (incr D k a m)) = Some (snd (counter_add c (sint a)))"
    using ev m' is_utf8_show_int sint_i64_range [of a]
    by (auto simp: incr_def e checked_i64_def counter_add_def parse_i64_show_int counter_value_def [of D k "snd (dm_insert D m' k v)" for v])
  show "counted (answer_of Count (fst (incr D k a m))) = fst (counter_add c (sint a))"
    using ev sint_i64_range [of a] by (auto simp: incr_def e checked_i64_def counter_add_def)
qed

text \<open>One operation: on its own key a counting is the counter's, every other key is left alone.\<close>

lemma state_op_counts:
  assumes c: "counter_value D k m = Some c" "I64_MIN \<le> c" "c \<le> I64_MAX"
    and "op_key op = k" and amount: "op_amount op = Some a"
  shows "counter_value D k (snd (state_op D op m)) = Some (snd (counter_add c a))"
    and "counted (fst (state_op D op m)) = fst (counter_add c a)"
proof -
  have "counter_value D k (snd (state_op D op m)) = Some (snd (counter_add c a)) \<and>
        counted (fst (state_op D op m)) = fst (counter_add c a)"
  proof (cases op)
    case (OpIncr k' b)
    with assms show ?thesis using incr_counts [OF c, of b] by (simp add: case_prod_beta)
  next
    case (OpDecr k' b)
    show ?thesis
    proof (cases "checked_neg b")
      case None
      then have "counter_add c a = (None, c)" using OpDecr amount checked_neg_sint(2) [of b] by (auto simp: counter_add_def)
      with None OpDecr assms show ?thesis by (simp add: decr_def)
    next
      case (Some n)
      then have "sint n = a" using OpDecr amount checked_neg_sint(1) by simp
      with Some OpDecr assms show ?thesis using incr_counts [OF c, of n] by (simp add: decr_def case_prod_beta)
    qed
  qed (use amount in simp_all)
  then show "counter_value D k (snd (state_op D op m)) = Some (snd (counter_add c a))"
    and "counted (fst (state_op D op m)) = fst (counter_add c a)" by simp_all
qed

lemma counter_value_cong: "dm_get D m k = dm_get D m' k \<Longrightarrow> counter_value D k m = counter_value D k m'"
  by (simp add: counter_value_def)

lemma counter_add_range:
  "I64_MIN \<le> c \<Longrightarrow> c \<le> I64_MAX \<Longrightarrow> I64_MIN \<le> snd (counter_add c a) \<and> snd (counter_add c a) \<le> I64_MAX"
  by (simp add: counter_add_def)

lemma state_ops_count:
  assumes "counter_value D k m = Some c" "I64_MIN \<le> c" "c \<le> I64_MAX"
    and "list_all (\<lambda>op. op_key op = k \<longrightarrow> op_amount op \<noteq> None) ops"
  shows "counter_value D k (snd (state_ops D ops m)) =
           Some (snd (counter_run (map (the \<circ> op_amount) (filter (\<lambda>op. op_key op = k) ops)) c)) \<and>
         map (counted \<circ> snd) (filter (\<lambda>(op, _). op_key op = k) (zip ops (fst (state_ops D ops m)))) =
           fst (counter_run (map (the \<circ> op_amount) (filter (\<lambda>op. op_key op = k) ops)) c)"
  using assms
proof (induction ops arbitrary: m c)
  case (Cons op ops)
  obtain a m' where op: "state_op D op m = (a, m')" by fastforce
  show ?case
  proof (cases "op_key op = k")
    case True
    with Cons.prems(4) obtain n where n: "op_amount op = Some n" by auto
    obtain r c' where add: "counter_add c n = (r, c')" by fastforce
    have "counter_value D k m' = Some c'" "counted a = r"
      using state_op_counts [OF Cons.prems(1-3) True n] op add by simp_all
    moreover have "I64_MIN \<le> c' \<and> c' \<le> I64_MAX" using counter_add_range [OF Cons.prems(2,3), of n] add by simp
    ultimately show ?thesis using Cons.IH [of m' c'] Cons.prems(4) True n op add
      by (simp add: case_prod_beta)
  next
    case False
    then have "counter_value D k m' = Some c"
      using Cons.prems(1) state_op_other [of op k m] counter_value_cong op by (metis snd_conv)
    then show ?thesis using Cons.IH [of m' c] Cons.prems False op by (simp add: case_prod_beta)
  qed
qed simp

text \<open>An operation that raises.\<close>

lemma incr_raised:
  assumes "fst (incr D k' a m) = Err e"
  shows "dm_get D (snd (incr D k' a m)) k = dm_get D m k"
proof (cases "dm_get D m k'")
  case None
  have "checked_i64 (0 + sint a) = Some (sint a)" using sint_i64_range [of a] by (simp add: checked_i64_def)
  then show ?thesis using assms None zero_text by (auto simp: incr_def entry_or_insert_def)
next
  case (Some v)
  then show ?thesis using assms by (auto simp: incr_def entry_or_insert_def split: option.splits if_splits)
qed

lemma state_op_raised:
  "fst (state_op D op m) = Raised e \<Longrightarrow> dm_get D (snd (state_op D op m)) k = dm_get D m k"
proof (cases op)
  case (OpIncr k' a)
  assume "fst (state_op D op m) = Raised e"
  then have "fst (incr D k' a m) = Err e" using OpIncr by (cases "fst (incr D k' a m)") (auto simp: case_prod_beta)
  then show ?thesis using incr_raised OpIncr by (simp add: case_prod_beta)
next
  case (OpDecr k' a)
  assume r: "fst (state_op D op m) = Raised e"
  show ?thesis
  proof (cases "checked_neg a")
    case (Some n)
    then have "fst (incr D k' n m) = Err e" using OpDecr r
      by (cases "fst (incr D k' n m)") (auto simp: decr_def case_prod_beta)
    then show ?thesis using incr_raised OpDecr Some by (simp add: decr_def case_prod_beta)
  qed (use OpDecr in \<open>simp add: decr_def\<close>)
qed (auto simp: state_defs split: if_splits)

end

interpretation shared_alist: shared_map "alist_dash :: ((key \<times> string) list, key, string) dash_api"
  by (rule shared_map.intro) (rule alist.dash_map_axioms)

lemma counter_value_range: "counter_value D k m = Some c \<Longrightarrow> I64_MIN \<le> c \<and> c \<le> I64_MAX"
  by (auto simp: counter_value_def int_bounds dest: parse_i64_bounds split: option.splits if_splits)

text \<open>
  C35. \<open>SharedState::incr\<close> and \<open>decr\<close> (\<open>src/state.rs\<close>): run any sequence of operations on a map, whichever
  interpreters make them. If a key holds a number (or nothing, which counts as 0) and is only incremented
  and decremented, its value and every answer given for it are those of an abstract 64-bit counter that
  adds the amount or refuses: no increment is lost or counted twice, nothing wraps, a refused one changes
  nothing, and what is done to other keys does not matter.
\<close>

theorem state_counters_add_up:
  assumes "dash_map D" and "counter_value D k m = Some c"
    and "list_all (\<lambda>op. op_key op = k \<longrightarrow> op_amount op \<noteq> None) ops"
  shows "counter_value D k (snd (state_ops D ops m)) =
           Some (snd (counter_run (map (the \<circ> op_amount) (filter (\<lambda>op. op_key op = k) ops)) c)) \<and>
         map (counted \<circ> snd) (filter (\<lambda>(op, _). op_key op = k) (zip ops (fst (state_ops D ops m)))) =
           fst (counter_run (map (the \<circ> op_amount) (filter (\<lambda>op. op_key op = k) ops)) c)"
  using shared_map.state_ops_count [OF shared_map.intro [OF assms(1)] assms(2) _ _ assms(3)]
    counter_value_range [OF assms(2)] by blast

text \<open>Two interpreters count one key, one of them past the end of the range; a third writes another key.\<close>

theorem state_counters_add_up_witness:
  "counter_value alist_dash ''n''
     (snd (state_ops alist_dash [OpIncr ''n'' 7, OpSet ''m'' ''x'', OpDecr ''n'' 2, OpIncr ''n'' 0x7FFFFFFFFFFFFFFF] [])) = Some 5"
proof -
  let ?ops = "[OpIncr ''n'' 7, OpSet ''m'' ''x'', OpDecr ''n'' 2, OpIncr ''n'' 0x7FFFFFFFFFFFFFFF]"
  have "counter_value alist_dash ''n'' [] = Some 0" by (simp add: counter_value_def alist_dash_def)
  moreover have "list_all (\<lambda>op. op_key op = ''n'' \<longrightarrow> op_amount op \<noteq> None) ?ops" by simp
  ultimately have "counter_value alist_dash ''n'' (snd (state_ops alist_dash ?ops [])) =
      Some (snd (counter_run (map (the \<circ> op_amount) (filter (\<lambda>op. op_key op = ''n'') ?ops)) 0))"
    using state_counters_add_up [OF alist.dash_map_axioms] by blast
  then show ?thesis by (simp add: counter_add_def int_bounds)
qed

text \<open>An operation that raises leaves every key with the value it had.\<close>

lemma state_raised_unchanged:
  "dash_map D \<Longrightarrow> fst (state_op D op m) = Raised e \<Longrightarrow> dm_get D (snd (state_op D op m)) k = dm_get D m k"
  by (rule shared_map.state_op_raised [OF shared_map.intro])

text \<open>
  \<open>hand_to_worker\<close>, \<open>map_for_new\<close> and \<open>SharedState::new\<close> (\<open>src/state.rs\<close>): two worker interpreters that
  were handed the running app's map make \<open>SharedState\<close> objects over it, and text that one of them sets
  is what the other gets; a \<open>SharedState\<close> made where no map was handed out is a new, empty map that this write
  does not reach.
\<close>

theorem worker_states_shared:
  assumes "dash_map D" and "h < length (maps st)"
    and "hand_to_worker i h st = (Ok (), st1)" and "hand_to_worker j h st1 = (Ok (), st2)"
    and "WORKER_MAP st2 p = None"
    and "state_new D i st2 = (a, st3)" and "state_new D j st3 = (b, st4)" and "state_new D p st4 = (s, st5)"
    and "on_inner a (state_set D k v) st5 = (u, st6)" and "is_utf8 v"
  shows "state_get D k dflt (maps st6 ! inner b) = Ok (Some v) \<and> state_get D k' dflt (maps st6 ! inner s) = Ok dflt"
proof -
  have w: "WORKER_MAP st2 i = Some h" "WORKER_MAP st2 j = Some h" and m: "maps st2 = maps st"
    using assms(3,4) by (auto simp: hand_to_worker_def split: option.splits if_splits)
  then have ab: "inner a = h" "inner b = h" "st4 = st2"
    using assms(6,7) by (auto simp: state_new_def map_for_new_def)
  then have s: "inner s = length (maps st)" "maps st5 = maps st @ [dm_new D]"
    using assms(5,8) m by (auto simp: state_new_def map_for_new_def)
  have "maps st6 = (maps st5)[h := snd (dm_insert D (maps st5 ! h) k v)]"
    using assms(9) ab by (auto simp: on_inner_def state_set_def)
  with s ab assms(2,10) show ?thesis
    by (simp add: nth_append state_get_def state_text_def dash_map.get_insert [OF assms(1)] dash_map.get_new [OF assms(1)])
qed

theorem worker_states_shared_witness:
  "\<exists>st6 :: (key \<times> string) list SharedMaps. state_get alist_dash ''k'' None (maps st6 ! 0) = Ok (Some []) \<and>
     state_get alist_dash ''k'' None (maps st6 ! 1) = Ok None"
proof -
  let ?st = "\<lparr>maps = [[]], WORKER_MAP = Map.empty\<rparr> :: (key \<times> string) list SharedMaps"
  let ?st1 = "?st\<lparr>WORKER_MAP := [7 \<mapsto> 0]\<rparr>" and ?st2 = "?st\<lparr>WORKER_MAP := [7 \<mapsto> 0, 8 \<mapsto> 0]\<rparr>"
  let ?st5 = "?st2\<lparr>maps := [[], []]\<rparr>" and ?st6 = "?st2\<lparr>maps := [[(''k'', [])], []]\<rparr>"
  have h: "hand_to_worker 7 0 ?st = (Ok (), ?st1)" "hand_to_worker 8 0 ?st1 = (Ok (), ?st2)"
    by (auto simp: hand_to_worker_def)
  have n: "state_new alist_dash 7 ?st2 = (\<lparr>inner = 0\<rparr>, ?st2)" "state_new alist_dash 8 ?st2 = (\<lparr>inner = 0\<rparr>, ?st2)"
    "state_new alist_dash 1 ?st2 = (\<lparr>inner = 1\<rparr>, ?st5)" "WORKER_MAP ?st2 1 = None"
    by (simp_all add: state_new_def map_for_new_def alist_dash_def)
  have "on_inner \<lparr>inner = 0\<rparr> (state_set alist_dash ''k'' []) ?st5 = ((), ?st6)"
    by (simp add: on_inner_def state_set_def alist_dash_def)
  from worker_states_shared [OF alist.dash_map_axioms _ h n(4) n(1-3) this, of None "''k''"]
  show ?thesis by (intro exI [of _ ?st6]) simp
qed

end
