(* ===== verification/Worker_Start.thy ===== *)
theory Worker_Start
  imports Worker_Serve Shared_State
begin

section \<open>Sub-interpreter workers: starting one (\<open>src/python/worker.rs\<close>, \<open>src/python/worker_app.rs\<close>)\<close>

text \<open>
  A worker is built in a new interpreter: it gets the app's shared state, the main interpreter's
  \<open>sys.path\<close>, the bootstrap and the user's script, and takes its handlers from the app that
  script registered on, if that app has the main interpreter's routes. The calls into the interpreter are
  the parameter \<open>I\<close>; the sources of the Python modules that are compiled into the engine are fields of it.

  The results: a start that fails leaves no interpreter behind and the main thread state current; a worker
  that starts has, at every index of the main table, the handler of the same route.
\<close>

subsection \<open>Why a worker did not start\<close>

record NewInterpreterError =
  nie_func :: "string option"
  nie_message :: "string option"

definition from_status :: "PyStatus \<Rightarrow> NewInterpreterError" where
  "from_status status = \<lparr>nie_func = ps_func status, nie_message = ps_err_msg status\<rparr>"

definition new_interpreter_text :: "NewInterpreterError \<Rightarrow> string" where
  "new_interpreter_text e =
     ''Py_NewInterpreterFromConfig failed'' @ (case nie_func e of Some f \<Rightarrow> '' in '' @ f | None \<Rightarrow> []) @ '': '' @
     (case nie_message e of Some m \<Rightarrow> m | None \<Rightarrow> ''it returned no error message and no thread state'')"

datatype ExceptionClass = ModuleNotFound | Import | OtherClass

record StartException =
  se_exception :: PyException
  se_class :: ExceptionClass

datatype ScriptFailure = RelativeImport | OtherFailure

fun script_failure_text :: "ScriptFailure \<Rightarrow> string" where
  "script_failure_text RelativeImport =
     CHR 0x0A # ''(A worker executes the script as a module of its own, `__pyronova_worker__`, outside any package, '' @
     ''so a relative import in it (`from . import x`, `from .models import X`) cannot resolve there. Import by '' @
     ''absolute name (`from mypkg.models import X`), with the package importable from sys.path.)''"
| "script_failure_text OtherFailure = []"

datatype WorkerStartError =
    NewInterpreter NewInterpreterError
  | StateErr StateError
  | Script nat string StartException ScriptFailure
  | SetupErr nat string StartException \<comment> \<open>\<open>WorkerStartError::Setup\<close>\<close>
  | Nul nat string nat \<comment> \<open>the position of the NUL byte\<close>
  | RouteMismatch nat string
  | NoRoutes nat nat

datatype ExecError = ExecNul nat | ExecRaised StartException ScriptFailure

fun start_error_exec :: "nat \<Rightarrow> string \<Rightarrow> ExecError \<Rightarrow> WorkerStartError" where
  "start_error_exec worker fname (ExecNul pos) = Nul worker fname pos"
| "start_error_exec worker fname (ExecRaised raised failure) = Script worker fname raised failure"

fun start_error_raised :: "WorkerStartError \<Rightarrow> StartException option" where
  "start_error_raised (Script _ _ raised _) = Some raised"
| "start_error_raised (SetupErr _ _ raised) = Some raised"
| "start_error_raised _ = None"

definition exception_text :: "PyException \<Rightarrow> string" where
  "exception_text e = pe_type_name e @ '': '' @ pe_message e"

text \<open>The text of a \<open>NulError\<close>.\<close>

definition nul_text :: "nat \<Rightarrow> string" where
  "nul_text pos = ''nul byte found in provided data at position: '' @ show_nat pos"

fun start_error_text :: "WorkerStartError \<Rightarrow> string" where
  "start_error_text (NewInterpreter e) = new_interpreter_text e"
| "start_error_text (StateErr AlreadyHanded) = ''this worker interpreter already has a shared-state map''"
| "start_error_text (Script worker fname raised failure) =
     ''worker '' @ show_nat worker @ '': '' @ fname @ '' raised while the worker started: '' @
     exception_text (se_exception raised) @ script_failure_text failure"
| "start_error_text (SetupErr worker step raised) =
     ''worker '' @ show_nat worker @ '': '' @ step @ '' failed: '' @ exception_text (se_exception raised)"
| "start_error_text (Nul worker fname pos) =
     ''worker '' @ show_nat worker @ '': '' @ fname @ '' can't be compiled: it contains a NUL byte ('' @ nul_text pos @ '')''"
| "start_error_text (RouteMismatch worker mismatch) =
     ''worker '' @ show_nat worker @ '': the script registered a different route table than the main interpreter '' @
     ''(a script must register the same routes in every interpreter; routes that exist only on main are registered after '' @
     ''app.run() starts and must be gil=True).'' @ [CHR 0x0A] @ mismatch"
| "start_error_text (NoRoutes worker expected) =
     ''worker '' @ show_nat worker @ '': the script registered no routes in the worker, but the main interpreter has '' @
     show_nat expected @ '' route(s). A worker executes the whole script and serves the app it registers routes on; '' @
     ''don't register routes only in the main interpreter.''"

text \<open>What the main interpreter raises: the class, the text, and the traceback of its cause.\<close>

datatype raised_class = RuntimeErrorClass | ImportErrorClass | ModuleNotFoundErrorClass

fun start_error_class :: "ExceptionClass \<Rightarrow> raised_class" where
  "start_error_class ModuleNotFound = ModuleNotFoundErrorClass"
| "start_error_class Import = ImportErrorClass"
| "start_error_class OtherClass = RuntimeErrorClass"

definition into_pyerr :: "WorkerStartError \<Rightarrow> raised_class \<times> string \<times> string option" where
  "into_pyerr e =
     (let txt = start_error_text e
      in case start_error_raised e of
           None \<Rightarrow> (RuntimeErrorClass, txt, None)
         | Some raised \<Rightarrow> (start_error_class (se_class raised), txt, Some (pe_traceback (se_exception raised))))"

datatype AsyncEngineError =
    EngineSetup nat PyException
  | EngineNul nat nat
  | EngineStopped nat PyException
  | EnginePanic nat string

subsection \<open>The interpreter a worker is built in\<close>

datatype attribute = Builtins | TextAttr string | NumberAttr nat | TextsAttr "string list" | InboxAttr | SecondsAttr nat

record TracebackFrame =
  tb_filename :: "(string, PyErr) result"
  tb_lineno :: "(nat, PyErr) result"
  tb_next :: "(unit, PyErr) result" \<comment> \<open>reading the attribute\<close>

record AstNode =
  an_import_from :: "(bool, PyErr) result" \<comment> \<open>an instance of \<open>ast.ImportFrom\<close>\<close>
  an_level :: "(nat, PyErr) result"
  an_lineno :: "(nat, PyErr) result"
  an_end_lineno :: "(nat, PyErr) result"

text \<open>A call that fails raises, or unwinds: PyO3 resumes the panic of an exception that carries one.\<close>

record ('r, 'py, 'h, 'l, 'm, 'code, 's) init_api =
  py_set_path :: "string list \<Rightarrow> (unit, PyErr fault, 's) run" \<comment> \<open>\<open>sys.path\<close>\<close>
  py_module_new :: "string \<Rightarrow> ('m, PyErr fault, 's) run"
  py_setattr :: "'m \<Rightarrow> string \<Rightarrow> attribute \<Rightarrow> (unit, PyErr fault, 's) run"
  py_modules_set :: "'m \<Rightarrow> (unit, PyErr fault, 's) run" \<comment> \<open>\<open>sys.modules[name] = module\<close>\<close>
  py_compile :: "string \<Rightarrow> string \<Rightarrow> ('code, PyErr fault, 's) run"
  py_eval :: "'code \<Rightarrow> 'm \<Rightarrow> (unit, PyErr fault, 's) run"
  py_require_json :: "(unit, PyErr fault, 's) run"
  py_new_loop :: "('l, PyErr fault, 's) run" \<comment> \<open>\<open>asyncio.new_event_loop()\<close>\<close>
  py_set_loop :: "'l \<Rightarrow> (unit, PyErr fault, 's) run"
  py_gc_collect :: "('py, PyErr fault, 's) run" \<comment> \<open>\<open>import gc; gc.collect\<close>\<close>
  py_worker_app :: "'s \<Rightarrow> (('r, 'py, 'h) RouteTable \<times> Limits, PyErr) result option" \<comment> \<open>\<open>WORKER_APP\<close>, borrowed as an app\<close>
  py_is_module_not_found :: "PyErr \<Rightarrow> bool"
  py_is_import_error :: "PyErr \<Rightarrow> bool"
  py_traceback :: "PyErr \<Rightarrow> TracebackFrame list"
  py_ast_walk :: "string \<Rightarrow> ((AstNode, PyErr) result list, PyErr) result"
  py_log_bridge_source :: string
  py_bootstrap_source :: string
  py_async_engine_source :: string

definition exception_class :: "('r, 'py, 'h, 'l, 'm, 'code, 's) init_api \<Rightarrow> PyErr \<Rightarrow> ExceptionClass" where
  "exception_class I err =
     (if py_is_module_not_found I err then ModuleNotFound else if py_is_import_error I err then Import else OtherClass)"

definition start_exception :: "('r, 'py, 'h, 'l, 'm, 'code, 's) init_api \<Rightarrow> PyErr \<Rightarrow> StartException" where
  "start_exception I err = \<lparr>se_exception = py_exception err, se_class = exception_class I err\<rparr>"

definition setup_error :: "('r, 'py, 'h, 'l, 'm, 'code, 's) init_api \<Rightarrow> nat \<Rightarrow> string \<Rightarrow> PyErr \<Rightarrow> WorkerStartError" where
  "setup_error I worker step e = SetupErr worker step (start_exception I e)"

definition new_event_loop :: "('r, 'py, 'h, 'l, 'm, 'code, 's) init_api \<Rightarrow> ('l, PyErr fault, 's) run" where
  "new_event_loop I = run_bind (py_new_loop I) (\<lambda>l. run_bind (py_set_loop I l) (\<lambda>_. run_ret (Ok l)))"

definition new_module :: "('r, 'py, 'h, 'l, 'm, 'code, 's) init_api \<Rightarrow> string \<Rightarrow> string option \<Rightarrow> ('m, PyErr fault, 's) run" where
  "new_module I name fname =
     run_bind (py_module_new I name) (\<lambda>m.
     run_bind (py_setattr I m ''__builtins__'' Builtins) (\<lambda>_.
     run_bind (case fname of Some path \<Rightarrow> py_setattr I m ''__file__'' (TextAttr path) | None \<Rightarrow> run_ret (Ok ())) (\<lambda>_.
     run_bind (py_modules_set I m) (\<lambda>_. run_ret (Ok m)))))"

text \<open>\<open>CString::new\<close>: the position of the first NUL byte is an error.\<close>

definition cstring_new :: "string \<Rightarrow> (string, nat) result" where
  "cstring_new s =
     (let n = length (takeWhile (\<lambda>c. c \<noteq> CHR 0x00) s) in if n < length s then Err n else Ok s)"

fun failing_line_from :: "string \<Rightarrow> nat option \<Rightarrow> TracebackFrame list \<Rightarrow> (nat option, PyErr) result" where
  "failing_line_from fname line [] = Ok line"
| "failing_line_from fname line (frame # frames) =
     and_then (tb_filename frame) (\<lambda>code_file.
     and_then (if code_file = fname then map_ok Some (tb_lineno frame) else Ok line) (\<lambda>line.
     and_then (tb_next frame) (\<lambda>_. failing_line_from fname line frames)))"

definition failing_line :: "('r, 'py, 'h, 'l, 'm, 'code, 's) init_api \<Rightarrow> PyErr \<Rightarrow> string \<Rightarrow> (nat option, PyErr) result" where
  "failing_line I err fname = failing_line_from fname None (py_traceback I err)"

fun relative_import_in :: "nat \<Rightarrow> (AstNode, PyErr) result list \<Rightarrow> (bool, PyErr) result" where
  "relative_import_in line [] = Ok False"
| "relative_import_in line (node # nodes) =
     and_then node (\<lambda>node.
     and_then (an_import_from node) (\<lambda>is_from.
       if \<not> is_from then relative_import_in line nodes
       else and_then (an_level node) (\<lambda>level.
         if level = 0 then relative_import_in line nodes
         else and_then (an_lineno node) (\<lambda>first.
              and_then (an_end_lineno node) (\<lambda>last_line.
                if first \<le> line \<and> line \<le> last_line then Ok True else relative_import_in line nodes)))))"

definition relative_import_at ::
    "('r, 'py, 'h, 'l, 'm, 'code, 's) init_api \<Rightarrow> string \<Rightarrow> nat option \<Rightarrow> (bool, PyErr) result" where
  "relative_import_at I src line =
     (case line of None \<Rightarrow> Ok False | Some line \<Rightarrow> and_then (py_ast_walk I src) (relative_import_in line))"

definition script_failure ::
    "('r, 'py, 'h, 'l, 'm, 'code, 's) init_api \<Rightarrow> PyErr \<Rightarrow> string \<Rightarrow> string \<Rightarrow> ScriptFailure" where
  "script_failure I err fname src =
     (if \<not> py_is_import_error I err then OtherFailure
      else case and_then (failing_line I err fname) (relative_import_at I src) of
          Inr relative \<Rightarrow> if relative then RelativeImport else OtherFailure
        | Inl _ \<Rightarrow> OtherFailure)"

definition exec_in ::
    "('r, 'py, 'h, 'l, 'm, 'code, 's) init_api \<Rightarrow> string \<Rightarrow> string \<Rightarrow> 'm \<Rightarrow> (unit, ExecError fault, 's) run" where
  "exec_in I src fname m =
     run_bind (run_ret (map_err (\<lambda>p. Fails (ExecNul p)) (cstring_new src))) (\<lambda>src_c.
     run_bind (run_ret (map_err (\<lambda>p. Fails (ExecNul p)) (cstring_new fname))) (\<lambda>file_c.
       run_err (map_fault_err (\<lambda>e. ExecRaised (start_exception I e) (script_failure I e fname src)))
         (run_bind (py_compile I src_c file_c) (\<lambda>code. py_eval I code m))))"

subsection \<open>The routes of the script's app\<close>

record 'py WorkerRoutes =
  wr_signature :: RouteSignature
  wr_handlers :: "'py list"
  wr_before_hooks :: "'py list"
  wr_after_hooks :: "'py list"
  wr_limits :: Limits

definition worker_routes_empty :: "'py WorkerRoutes" where
  "worker_routes_empty =
     \<lparr>wr_signature = \<lparr>sig_routes = [], sig_before_hooks = 0, sig_after_hooks = 0\<rparr>, wr_handlers = [], wr_before_hooks = [],
      wr_after_hooks = [], wr_limits = limits_default\<rparr>"

text \<open>\<open>PyronovaApp::worker_routes\<close>: of a table.\<close>

definition app_worker_routes :: "('r, 'py, 'h) RouteTable \<Rightarrow> Limits \<Rightarrow> 'py WorkerRoutes" where
  "app_worker_routes table limits =
     \<lparr>wr_signature = route_signature_of table, wr_handlers = map r_handler (rt_routes table),
      wr_before_hooks = rt_before_hooks table, wr_after_hooks = rt_after_hooks table, wr_limits = limits\<rparr>"

text \<open>
  \<open>record\<close>: \<open>WORKER_APP\<close> is set by the first registration in a worker and stays; the main interpreter records
  nothing.
\<close>

datatype RecordError = SecondApp

definition record_app :: "bool \<Rightarrow> 'a \<Rightarrow> 'a option \<Rightarrow> (unit, RecordError) result \<times> 'a option" where
  "record_app on_main app recorded =
     (if on_main then (Ok (), recorded)
      else case recorded of
          Some first \<Rightarrow> if first = app then (Ok (), recorded) else (Err SecondApp, recorded)
        | None \<Rightarrow> (Ok (), Some app))"

definition worker_routes :: "('r, 'py, 'h, 'l, 'm, 'code, 's) init_api \<Rightarrow> 's \<Rightarrow> ('py WorkerRoutes option, PyErr) result" where
  "worker_routes I s =
     (case py_worker_app I s of
        None \<Rightarrow> Ok None
      | Some app \<Rightarrow> map_ok (\<lambda>(table, limits). Some (app_worker_routes table limits)) app)"

record WorkerProgram =
  wp_script_path :: string
  wp_script :: string
  wp_import_path :: "string list"
  wp_isolate :: "string list"

record WorkerSpec =
  ws_program :: WorkerProgram
  ws_expected :: RouteSignature
  ws_shared_state :: handle
  ws_gc_threshold :: u64
  ws_limits :: Limits

text \<open>\<open>import_path\<close>: the entries that \<open>os.fsdecode\<close> reads as paths, in their order.\<close>

definition import_path :: "(string, PyErr) result list \<Rightarrow> string list" where
  "import_path entries = concat (map (\<lambda>e. case e of Inr p \<Rightarrow> [p] | Inl _ \<Rightarrow> []) entries)"

text \<open>\<open>WorkerProgram::read\<close>: the script as the file system has it, or why it can't be read.\<close>

definition program_read :: "(string, string) result \<Rightarrow> (string, PyErr) result list \<Rightarrow> string \<Rightarrow> string list \<Rightarrow> (WorkerProgram, string) result" where
  "program_read contents entries script_path isolate =
     map_ok (\<lambda>script. \<lparr>wp_script_path = script_path, wp_script = script, wp_import_path = import_path entries, wp_isolate = isolate\<rparr>)
       (map_err (\<lambda>e. ''read script '' @ [CHR 0x27] @ script_path @ [CHR 0x27] @ '': '' @ e) contents)"

text \<open>The warnings are the second component.\<close>

definition registered_routes ::
    "('r, 'py, 'h, 'l, 'm, 'code, 's) init_api \<Rightarrow> nat \<Rightarrow> WorkerSpec \<Rightarrow> 's \<Rightarrow>
     ('py WorkerRoutes \<times> string list, WorkerStartError) result" where
  "registered_routes I worker spec s =
     and_then (map_err (setup_error I worker ''reading the app the script registered'') (worker_routes I s)) (\<lambda>registered.
       let expected = ws_expected spec
       in map_ok (\<lambda>routes. (routes, ignored_in_worker (ws_limits spec) (wr_limits routes)))
            (case registered of
               Some r \<Rightarrow>
                 if wr_signature r = expected then Ok r
                 else Err (RouteMismatch worker (describe_mismatch expected (wr_signature r)))
             | None \<Rightarrow>
                 if signature_is_empty expected then Ok worker_routes_empty
                 else Err (NoRoutes worker (length (sig_routes expected)))))"

subsection \<open>Roles\<close>

definition inline_build ::
    "('r, 'py, 'h, 'l, 'm, 'code, 's) init_api \<Rightarrow> nat \<Rightarrow> 'py WorkerRoutes \<Rightarrow> u64 \<Rightarrow> (('py, 'l) Inline, WorkerStartError fault, 's) run" where
  "inline_build I worker routes threshold =
     run_bind (run_err (map_fault_err (setup_error I worker ''creating the asyncio event loop'')) (new_event_loop I)) (\<lambda>event_loop.
     run_bind (run_err (map_fault_err (setup_error I worker ''looking up gc.collect'')) (py_gc_collect I)) (\<lambda>collect.
       run_ret (Ok \<lparr>il_handlers = wr_handlers routes, il_before_hooks = wr_before_hooks routes,
                    il_after_hooks = wr_after_hooks routes, il_event_loop = event_loop,
                    il_gc = \<lparr>gc_collect = collect, gc_threshold = threshold, gc_served = 0, gc_collected_at = 0\<rparr>\<rparr>)))"

definition async_engine_build :: "nat \<Rightarrow> 'py WorkerRoutes \<Rightarrow> u64 \<Rightarrow> (unit, WorkerStartError fault, 's) run" where
  "async_engine_build worker routes threshold = run_ret (Ok ())"

definition SCRIPT_MODULE :: string where "SCRIPT_MODULE = ''__pyronova_worker__''"
definition BOOTSTRAP_MODULE :: string where "BOOTSTRAP_MODULE = ''__pyronova_bootstrap__''"
definition ASYNC_ENGINE_MODULE :: string where "ASYNC_ENGINE_MODULE = ''__pyronova_async_engine__''"
definition BOOTSTRAP_FILE :: string where "BOOTSTRAP_FILE = ''pyronova/_bootstrap.py''"
definition LOG_BRIDGE_FILE :: string where "LOG_BRIDGE_FILE = ''pyronova/_log_bridge.py''"
definition ASYNC_ENGINE_FILE :: string where "ASYNC_ENGINE_FILE = ''pyronova/_async_engine.py''"
definition ASYNC_TASK_MARGIN :: nat where "ASYNC_TASK_MARGIN = 2"
definition ASYNC_TASK_BUDGET :: nat where "ASYNC_TASK_BUDGET = REQUEST_BUDGET - ASYNC_TASK_MARGIN"

subsection \<open>The start\<close>

text \<open>
  The part of \<open>prepare\<close> after the shared state was handed over; \<open>build\<close> is \<open>R::build\<close>.
\<close>

definition run_program ::
    "('r, 'py, 'h, 'l, 'm, 'code, 's) init_api \<Rightarrow> ('py WorkerRoutes \<Rightarrow> u64 \<Rightarrow> ('role, WorkerStartError fault, 's) run) \<Rightarrow>
     nat \<Rightarrow> WorkerSpec \<Rightarrow> ('role, WorkerStartError fault, 's) run" where
  "run_program I build worker spec =
     (let program = ws_program spec; setup = (\<lambda>step. map_fault_err (setup_error I worker step))
      in run_bind (run_err (setup ''setting sys.path to main's'') (py_set_path I (wp_import_path program))) (\<lambda>_.
         run_bind (run_err (setup ''creating the bootstrap module'')
           (run_bind (new_module I BOOTSTRAP_MODULE None) (\<lambda>m.
            run_bind (py_setattr I m ''WORKER_ID'' (NumberAttr worker)) (\<lambda>_.
            run_bind (py_setattr I m ''ISOLATE_LIBS'' (TextsAttr (wp_isolate program))) (\<lambda>_. run_ret (Ok m)))))) (\<lambda>bootstrap.
         run_bind (run_err (map_fault_err (start_error_exec worker LOG_BRIDGE_FILE))
           (exec_in I (py_log_bridge_source I) LOG_BRIDGE_FILE bootstrap)) (\<lambda>_.
         run_bind (run_err (map_fault_err (start_error_exec worker BOOTSTRAP_FILE))
           (exec_in I (py_bootstrap_source I) BOOTSTRAP_FILE bootstrap)) (\<lambda>_.
         run_bind (run_err (setup ''creating the script module'')
           (new_module I SCRIPT_MODULE (Some (wp_script_path program)))) (\<lambda>script_module.
         run_bind (run_err (map_fault_err (start_error_exec worker (wp_script_path program)))
           (exec_in I (wp_script program) (wp_script_path program) script_module)) (\<lambda>_.
         run_bind (run_err (setup ''loading the JSON serializer'') (py_require_json I)) (\<lambda>_.
         run_bind (\<lambda>s. (map_err Fails (registered_routes I worker spec s), s)) (\<lambda>(routes, warnings).
           build routes (ws_gc_threshold spec))))))))))"

text \<open>The interpreter's number stands for it in the table of handed-out maps.\<close>

definition prepare ::
    "('r, 'py, 'h, 'l, 'm, 'code, 's) init_api \<Rightarrow> ('py WorkerRoutes \<Rightarrow> u64 \<Rightarrow> ('role, WorkerStartError fault, 's) run) \<Rightarrow>
     nat \<Rightarrow> nat \<Rightarrow> WorkerSpec \<Rightarrow> 'maps SharedMaps \<Rightarrow> 's \<Rightarrow> ('role, WorkerStartError fault) result \<times> 'maps SharedMaps \<times> 's" where
  "prepare I build interp worker spec shared s =
     (case hand_to_worker interp (ws_shared_state spec) shared of
        (Inl e, shared) \<Rightarrow> (Err (Fails (StateErr e)), shared, s)
      | (Inr _, shared) \<Rightarrow> (let (r, s) = run_program I build worker spec s in (r, shared, s)))"

text \<open>
  \<open>SubInterpreterWorker::new\<close>. Nothing catches a panic while it prepares: it unwinds past the end of the interpreter and the swap back.
\<close>

definition worker_new ::
    "'s cpython \<Rightarrow> ('s \<Rightarrow> nat) \<Rightarrow> ('r, 'py, 'h, 'l, 'm, 'code, 's) init_api \<Rightarrow>
     ('py WorkerRoutes \<Rightarrow> u64 \<Rightarrow> ('role, WorkerStartError fault, 's) run) \<Rightarrow> nat \<Rightarrow> WorkerSpec \<Rightarrow> 'maps SharedMaps \<Rightarrow> 's \<Rightarrow>
     (('role SubInterpreterWorker, WorkerStartError fault) result \<times> 'maps SharedMaps \<times> 's) option" where
  "worker_new C interp_id I build worker spec shared s =
     Option.bind (cp_get C s) (\<lambda>main_tstate.
       let (status, new_tstate, s) = cp_new_interpreter C s
       in if ps_error status \<or> new_tstate = None
          then map_option (\<lambda>(_, s). (Err (Fails (NewInterpreter (from_status status))), shared, s)) (cp_swap C (Some main_tstate) s)
          else
            (let (built, shared, s) = prepare I build (interp_id s) worker spec shared s;
                 back = (\<lambda>r s. map_option (\<lambda>(_, s). (r, shared, s)) (cp_swap C (Some main_tstate) s))
             in case built of
                  Inr role \<Rightarrow>
                    Option.bind (cp_save C s) (\<lambda>(t, s). back (Ok \<lparr>wk_tstate = t, wk_worker_id = worker, wk_role = role\<rparr>) s)
                | Inl (Fails e) \<Rightarrow>
                    Option.bind (cp_get C s) (\<lambda>t. Option.bind (cp_end_interpreter C t s) (back (Err (Fails e))))
                | Inl (Unwinds p) \<Rightarrow> Some (Err (Unwinds p), shared, s)))"

text \<open>The engine's module with the worker's id, inbox and budget, executed.\<close>

definition run_engine :: "('r, 'py, 'h, 'l, 'm, 'code, 's) init_api \<Rightarrow> nat \<Rightarrow> (unit, AsyncEngineError fault, 's) run" where
  "run_engine I worker =
     run_bind (run_err (map_fault_err (\<lambda>e. EngineSetup worker (py_exception e)))
       (run_bind (new_module I ASYNC_ENGINE_MODULE None) (\<lambda>m.
        run_bind (py_setattr I m ''WORKER_ID'' (NumberAttr worker)) (\<lambda>_.
        run_bind (py_setattr I m ''CHANNEL'' InboxAttr) (\<lambda>_.
        run_bind (py_setattr I m ''TASK_TIMEOUT'' (SecondsAttr ASYNC_TASK_BUDGET)) (\<lambda>_. run_ret (Ok m))))))) (\<lambda>engine.
     run_err (map_fault_err (\<lambda>e. case e of ExecNul p \<Rightarrow> EngineNul worker p | ExecRaised raised _ \<Rightarrow> EngineStopped worker (se_exception raised)))
       (exec_in I (py_async_engine_source I) ASYNC_ENGINE_FILE engine))"

definition run_async_engine ::
    "'s cpython \<Rightarrow> ('r, 'py, 'h, 'l, 'm, 'code, 's) init_api \<Rightarrow> unit SubInterpreterWorker \<Rightarrow> 's \<Rightarrow>
     ((unit, AsyncEngineError) result \<times> unit SubInterpreterWorker \<times> 's) option" where
  "run_async_engine C I wk s =
     map_option (\<lambda>(r, wk, s). (case r of Inl p \<Rightarrow> Err (EnginePanic (wk_worker_id wk) (panic_message p)) | Inr r \<Rightarrow> r, wk, s))
       (with_gil C (\<lambda>_ s. let (r, s) = run_engine I (wk_worker_id wk) s
         in (case r of Inr u \<Rightarrow> Inr (Ok u) | Inl (Fails e) \<Rightarrow> Inr (Err e) | Inl (Unwinds p) \<Rightarrow> Inl p, (), s)) wk s)"


subsection \<open>The thread state through a start\<close>

text \<open>
  How a start ends. A start that fails has ended the interpreter it made, and one that succeeds has saved it in the worker; both are back on the
  main thread state. After a panic the new interpreter is there and its thread state current.
\<close>

definition start_outcome ::
    "'s cpython \<Rightarrow> ('s \<Rightarrow> tstate \<rightharpoonup> nat) \<Rightarrow> tstate \<Rightarrow> 's \<Rightarrow>
     (('role SubInterpreterWorker, WorkerStartError fault) result \<times> 'maps SharedMaps \<times> 's) option \<Rightarrow> bool" where
  "start_outcome C alive main s outcome \<longleftrightarrow>
     (case outcome of
        None \<Rightarrow> False
      | Some (Inl (Fails e), _, s') \<Rightarrow> cp_get C s' = Some main \<and> alive s' = alive s
      | Some (Inl (Unwinds p), _, s') \<Rightarrow>
          (\<exists>t i. cp_get C s' = Some t \<and> alive s' t = Some i \<and> i \<notin> ran (alive s) \<and> elsewhere alive i s s')
      | Some (Inr wk, _, s') \<Rightarrow>
          cp_get C s' = Some main \<and> (\<exists>i. i \<notin> ran (alive s) \<and> alive s' (wk_tstate wk) = Some i \<and> elsewhere alive i s s'))"

lemma ended_restores:
  assumes e: "elsewhere alive i s s2" and i: "i \<notin> ran (alive s)"
  shows "(\<lambda>u. if alive s2 u = Some i then None else alive s2 u) = alive s"
proof
  fix u
  have same: "k \<noteq> i \<Longrightarrow> alive s2 u = Some k \<longleftrightarrow> alive s u = Some k" for k using e by (simp add: elsewhere_def)
  show "(if alive s2 u = Some i then None else alive s2 u) = alive s u"
  proof (cases "alive s u")
    case None
    with same have "alive s2 u = None \<or> alive s2 u = Some i" by (cases "alive s2 u") auto
    with None show ?thesis by auto
  next
    case (Some k)
    with i have "k \<noteq> i" by (auto simp: ran_def)
    with same [of k] Some show ?thesis by simp
  qed
qed

text \<open>Python code run while a worker starts leaves the worker's thread state current.\<close>

locale init_runtime = cpython C alive cleared
  for C :: "'s cpython" and alive :: "'s \<Rightarrow> tstate \<rightharpoonup> nat" and cleared :: "'s \<Rightarrow> tstate \<Rightarrow> bool" +
  fixes I :: "('r, 'py, 'h, 'l, 'm, 'code, 's) init_api"
  assumes init_keeps: "attached C alive s (snd (py_set_path I path s))"
      "attached C alive s (snd (py_module_new I name s))"
      "attached C alive s (snd (py_setattr I m name a s))"
      "attached C alive s (snd (py_modules_set I m s))"
      "attached C alive s (snd (py_compile I src name s))"
      "attached C alive s (snd (py_eval I code m s))"
      "attached C alive s (snd (py_require_json I s))"
      "attached C alive s (snd (py_new_loop I s))"
      "attached C alive s (snd (py_set_loop I l s))"
      "attached C alive s (snd (py_gc_collect I s))"
begin

abbreviation runs_attached :: "('a, 'e, 's) run \<Rightarrow> bool" where
  "runs_attached m \<equiv> sound (attached C alive) (\<lambda>_. True) m"

lemma runs_bind: "runs_attached m \<Longrightarrow> (\<And>v. runs_attached (f v)) \<Longrightarrow> runs_attached (run_bind m f)"
  by (rule sound_bind) (rule attached_trans)

lemma runs_ret: "runs_attached (run_ret r)"
  by (rule sound_ret) simp_all

lemma runs_err: "runs_attached m \<Longrightarrow> runs_attached (run_err g m)"
  by (rule sound_err)

lemma runs_keeps: "(\<And>s. attached C alive s (snd (m s))) \<Longrightarrow> runs_attached m"
  by (metis sound_def snd_conv)

lemmas init_attached = init_keeps [THEN runs_keeps]
lemmas runs_intros = runs_bind runs_ret runs_err init_attached

lemma runs_new_module: "runs_attached (new_module I name fname)"
  unfolding new_module_def by (cases fname) (auto intro!: runs_intros)

lemma runs_exec_in: "runs_attached (exec_in I src fname m)"
  unfolding exec_in_def by (intro runs_intros)

lemma runs_async_engine_build: "runs_attached (async_engine_build worker routes threshold)"
  unfolding async_engine_build_def by (rule runs_ret)

lemma runs_inline_build: "runs_attached (inline_build I worker routes threshold)"
  unfolding inline_build_def new_event_loop_def by (intro runs_intros)

lemma runs_program:
  assumes "\<And>routes threshold. runs_attached (build routes threshold)"
  shows "runs_attached (run_program I build worker spec)"
proof -
  have "runs_attached (\<lambda>s. (map_err Fails (registered_routes I worker spec s), s))" by (rule runs_keeps) simp
  with assms show ?thesis
    unfolding run_program_def Let_def by (auto intro!: runs_intros runs_new_module runs_exec_in split: prod.split)
qed

lemma attached_prepare:
  assumes "\<And>routes threshold. runs_attached (build routes threshold)"
    and "prepare I build interp worker spec shared s = (r, shared', s')"
  shows "attached C alive s s'"
  using soundD [OF runs_program [OF assms(1)]] assms(2)
  by (fastforce simp: prepare_def split: prod.splits sum.splits)

text \<open>\<open>SubInterpreterWorker::new\<close>, whatever the role.\<close>

lemma worker_new_safe:
  assumes build: "\<And>routes threshold. runs_attached (build routes threshold)"
    and main: "cp_get C s = Some main" "alive s main = Some j"
  shows "start_outcome C alive main s (worker_new C interp_id I build worker spec shared s)"
proof -
  obtain status nt s1 where n: "cp_new_interpreter C s = (status, nt, s1)" by (metis prod_cases3)
  show ?thesis
  proof (cases "ps_error status \<or> nt = None")
    case True
    from refused [OF n this] have a1: "alive s1 = alive s" .
    with swap [of s1 main] main(2) obtain s2 where s2: "cp_swap C (Some main) s1 = Some (cp_get C s1, s2)" "cp_get C s2 = Some main"
      "alive s2 = alive s" by auto
    with True n main(1) show ?thesis by (auto simp: worker_new_def start_outcome_def)
  next
    case False
    then obtain t where t: "nt = Some t" "\<not> ps_error status" by auto
    from new_interpreter [OF main(1)] main(2) n t obtain i where i: "alive s t = None" "i \<notin> ran (alive s)" "cp_get C s1 = Some t"
      "alive s1 = (alive s)(t \<mapsto> i)" by blast
    then have s1: "elsewhere alive i s s1" "alive s1 t = Some i" by (auto simp: elsewhere_def ran_def)
    obtain built shared2 s2 where b: "prepare I build (interp_id s1) worker spec shared s1 = (built, shared2, s2)" by (metis prod_cases3)
    from attachedD [OF attached_prepare [OF build b] i(3) s1(2)] have s2: "cp_get C s2 = Some t" "alive s2 t = Some i"
      "elsewhere alive i s s2" using elsewhere_trans [OF s1(1)] by auto
    have "j \<noteq> i" using main(2) i(2) by (auto simp: ran_def)
    have still: "alive v main \<noteq> None" if "elsewhere alive i s v" for v
      using that main(2) \<open>j \<noteq> i\<close> unfolding elsewhere_def by blast
    consider role where "built = Inr role" | e where "built = Inl (Fails e)" | p where "built = Inl (Unwinds p)"
      by (metis fault.exhaust old.sum.exhaust)
    then show ?thesis
    proof cases
      case 1
      obtain s3 where s3: "cp_save C s2 = Some (t, s3)" "alive s3 = alive s2" using save [OF s2(1)] by auto
      have e3: "elsewhere alive i s s3" using s2(3) s3(2) by (simp add: elsewhere_def)
      from swap [OF still [OF e3]] obtain s4 where s4: "cp_swap C (Some main) s3 = Some (cp_get C s3, s4)" "cp_get C s4 = Some main"
        "alive s4 = alive s3" by auto
      with 1 n t main(1) b s3 s2 e3 i(2) show ?thesis by (auto simp: worker_new_def start_outcome_def elsewhere_def)
    next
      case 2
      obtain s3 where s3: "cp_end_interpreter C t s2 = Some s3" "alive s3 = (\<lambda>u. if alive s2 u = Some i then None else alive s2 u)"
        using end_interpreter [OF s2(1,2)] by auto
      have a3: "alive s3 = alive s" using ended_restores [OF s2(3) i(2)] s3(2) by simp
      from swap [of s3 main] main(2) a3 obtain s4 where s4: "cp_swap C (Some main) s3 = Some (cp_get C s3, s4)" "cp_get C s4 = Some main"
        "alive s4 = alive s" by auto
      with 2 n t main(1) b s3 s2 show ?thesis by (auto simp: worker_new_def start_outcome_def)
    next
      case 3
      with n t main(1) b s2 i(2) show ?thesis by (auto simp: worker_new_def start_outcome_def)
    qed
  qed
qed

end


subsection \<open>A start\<close>

definition threads_table :: "((string \<times> nat) list, nat, (string \<times> string) list) RouteTable" where
  "threads_table = route_table_new\<lparr>rt_routes := [\<lparr>r_handler = 10, r_name = ''view'',
     r_key = \<lparr>rk_method = ''GET'', rk_path = ''/''\<rparr>, r_dispatch = Worker Sync\<rparr>]\<rparr>"

text \<open>A script that registers one route, the module \<open>broken\<close> that does not compile, and one whose compilation panics.\<close>

definition threads_init ::
    "((string \<times> nat) list, nat, (string \<times> string) list, nat, string, string, threads_world) init_api" where
  "threads_init =
     \<lparr>py_set_path = (\<lambda>_ s. (Ok (), s)), py_module_new = (\<lambda>name s. (Ok name, s)), py_setattr = (\<lambda>_ _ _ s. (Ok (), s)),
      py_modules_set = (\<lambda>_ s. (Ok (), s)),
      py_compile = (\<lambda>src fname s. (if src = ''broken'' then Err (Fails demo_err) else if src = ''panics'' then Err (Unwinds (PayloadString ''boom'')) else Ok src, s)), py_eval = (\<lambda>_ _ s. (Ok (), s)),
      py_require_json = (\<lambda>s. (Ok (), s)), py_new_loop = (\<lambda>s. (Ok 0, s)), py_set_loop = (\<lambda>_ s. (Ok (), s)),
      py_gc_collect = (\<lambda>s. (Ok 99, s)), py_worker_app = (\<lambda>_. Some (Ok (threads_table, limits_default))),
      py_is_module_not_found = (\<lambda>_. False), py_is_import_error = (\<lambda>_. False), py_traceback = (\<lambda>_. []),
      py_ast_walk = (\<lambda>_. Ok []), py_log_bridge_source = [], py_bootstrap_source = [], py_async_engine_source = []\<rparr>"

interpretation started: init_runtime threads_cpython threads_alive threads_cleared threads_init
  by unfold_locales (simp_all add: threads_init_def)

definition threads_shared :: "(key \<times> string) list SharedMaps" where
  "threads_shared = \<lparr>maps = [[]], WORKER_MAP = Map.empty\<rparr>"

definition threads_spec :: "string \<Rightarrow> WorkerSpec" where
  "threads_spec src = \<lparr>ws_program = \<lparr>wp_script_path = ''app.py'', wp_script = src, wp_import_path = [], wp_isolate = []\<rparr>,
     ws_expected = route_signature_of threads_table, ws_shared_state = 0, ws_gc_threshold = 100, ws_limits = limits_default\<rparr>"

subsection \<open>A start that succeeds\<close>

lemma run_bind_OkE:
  assumes "run_bind m f s = (Ok v, s')"
  obtains x s1 where "m s = (Ok x, s1)" and "f x s1 = (Ok v, s')"
  using assms by (auto simp: run_bind_def split: prod.splits sum.splits)

text \<open>The last two steps of a start that succeeds.\<close>

lemma run_program_Ok:
  assumes "run_program I build worker spec s = (Ok role, s')"
  obtains s1 routes warnings where "registered_routes I worker spec s1 = Ok (routes, warnings)"
    and "build routes (ws_gc_threshold spec) s1 = (Ok role, s')"
  using assms unfolding run_program_def Let_def by (elim run_bind_OkE) (auto simp: map_err_def split: prod.splits sum.splits)

lemma inline_build_Ok:
  "inline_build I worker routes threshold s = (Ok il, s') \<Longrightarrow>
     il_handlers il = wr_handlers routes \<and> il_before_hooks il = wr_before_hooks routes \<and> il_after_hooks il = wr_after_hooks routes"
  unfolding inline_build_def by (elim run_bind_OkE) (auto simp: run_ret_def)

lemma worker_new_Ok:
  assumes "worker_new C interp_id I build worker spec shared s = Some (Ok wk, shared', s')"
  obtains s1 s2 where "run_program I build worker spec s1 = (Ok (wk_role wk), s2)"
proof -
  obtain status nt v where n: "cp_new_interpreter C s = (status, nt, v)" by (metis prod_cases3)
  obtain built shared2 v2 where p: "prepare I build (interp_id v) worker spec shared v = (built, shared2, v2)" by (metis prod_cases3)
  have b: "built = Ok (wk_role wk)"
    using assms n p by (cases built) (auto simp: worker_new_def Let_def Option.bind_eq_Some_conv split: if_splits fault.splits)
  obtain h shared3 where h: "hand_to_worker (interp_id v) (ws_shared_state spec) shared = (h, shared3)" by fastforce
  obtain r v3 where "run_program I build worker spec v = (r, v3)" by fastforce
  with that [of v v3] p b h show thesis by (cases h) (auto simp: prepare_def)
qed

subsection \<open>The theorems\<close>

text \<open>
  C29. \<open>SubInterpreterWorker::new\<close> (\<open>src/python/worker.rs\<close>), for a worker of either role: called with the main thread state current, it calls
  every CPython function as it must be called, whatever the new interpreter, the bootstrap or the script answer. A start that fails at
  any step has ended the interpreter it made: exactly the thread states exist that existed before, and the main one is current. A start that
  succeeds leaves one new interpreter, saved in the worker, nothing else changed, and the main thread state current. A panic while the worker is
  prepared is the one way out without this: the new interpreter, and no other, stays, and its thread state is the current one.
\<close>

theorem worker_start_outcome:
  assumes "init_runtime C alive cleared I" and "cp_get C s = Some main" and "alive s main = Some j"
  shows "start_outcome C alive main s (worker_new C interp_id I (inline_build I worker) worker spec shared s) \<and>
     start_outcome C alive main s (worker_new C interp_id I (async_engine_build worker) worker spec shared s)"
  using assms(2,3)
  by (intro conjI; intro init_runtime.worker_new_safe [OF assms(1)])
     (auto intro: init_runtime.runs_inline_build [OF assms(1)] init_runtime.runs_async_engine_build [OF assms(1)])

lemma broken_program:
  "run_program threads_init build 3 (threads_spec ''broken'') v = (Err (Fails (Script 3 ''app.py''
      \<lparr>se_exception = py_exception demo_err, se_class = OtherClass\<rparr> OtherFailure)), v)"
  by (simp add: run_program_def threads_init_def threads_spec_def new_module_def exec_in_def run_defs cstring_new_def BOOTSTRAP_FILE_def LOG_BRIDGE_FILE_def
      start_exception_def exception_class_def script_failure_def Let_def)

theorem worker_start_outcome_witness:
  "\<exists>e shared' s'.
     worker_new threads_cpython (\<lambda>_. 1) threads_init (inline_build threads_init 3) 3 (threads_spec ''broken'')
       threads_shared (put_threads (Some 0) [Some 0] threads_start) = Some (Err (Fails e), shared', s') \<and>
     threads_alive s' = threads_alive (put_threads (Some 0) [Some 0] threads_start)"
proof -
  let ?s = "put_threads (Some 0) [Some 0] threads_start"
  let ?run = "worker_new threads_cpython (\<lambda>_. 1) threads_init (inline_build threads_init 3) 3 (threads_spec ''broken'')
       threads_shared ?s"
  have main: "cp_get threads_cpython ?s = Some 0" "threads_alive ?s 0 = Some 0"
    by (simp_all add: threads_cpython_def put_threads_def threads_alive_def)
  have outcome: "start_outcome threads_cpython threads_alive 0 ?s ?run"
    using worker_start_outcome [OF started.init_runtime_axioms main] by blast
  moreover have "\<exists>e shared' s'. ?run = Some (Err (Fails e), shared', s')"
    using broken_program [of "inline_build threads_init 3"]
    by (simp add: worker_new_def prepare_def hand_to_worker_def threads_shared_def threads_cpython_def put_threads_def threads_spec_def Let_def)
  ultimately show ?thesis by (auto simp: start_outcome_def)
qed

text \<open>A script whose loading panics, on the same interpreter: the start leaves its interpreter behind.\<close>

lemma panicking_start_leaks:
  "\<exists>p shared' s'.
     worker_new threads_cpython (\<lambda>_. 1) threads_init (inline_build threads_init 3) 3 (threads_spec ''panics'')
       threads_shared (put_threads (Some 0) [Some 0] threads_start) = Some (Err (Unwinds p), shared', s') \<and>
     threads_alive s' \<noteq> threads_alive (put_threads (Some 0) [Some 0] threads_start)"
proof -
  let ?t = "put_threads (Some 1) [Some 0, Some 1] threads_start"
  have "run_program threads_init (inline_build threads_init 3) 3 (threads_spec ''panics'') v = (Err (Unwinds (PayloadString ''boom'')), v)" for v
    by (simp add: run_program_def threads_init_def threads_spec_def new_module_def exec_in_def run_defs cstring_new_def
        BOOTSTRAP_FILE_def LOG_BRIDGE_FILE_def Let_def)
  then have "\<exists>shared'. worker_new threads_cpython (\<lambda>_. 1) threads_init (inline_build threads_init 3) 3 (threads_spec ''panics'')
      threads_shared (put_threads (Some 0) [Some 0] threads_start) = Some (Err (Unwinds (PayloadString ''boom'')), shared', ?t)"
    by (simp add: worker_new_def prepare_def hand_to_worker_def threads_shared_def threads_cpython_def put_threads_def threads_spec_def Let_def)
  moreover have "threads_alive ?t 1 \<noteq> threads_alive (put_threads (Some 0) [Some 0] threads_start) 1"
    by (simp add: threads_alive_def put_threads_def)
  ultimately show ?thesis by metis
qed


text \<open>A table's signature lists its routes up to the seal.\<close>

lemma signature_nth:
  "rid < length (sig_routes (route_signature_of t)) \<Longrightarrow>
     rid < length (rt_routes t) \<and>
     sig_routes (route_signature_of t) ! rid =
       (rk_method (r_key (rt_routes t ! rid)), rk_path (r_key (rt_routes t ! rid)), is_main (r_dispatch (rt_routes t ! rid)))"
  by (simp add: route_signature_of_def Let_def)

text \<open>
  A worker that starts serves the main interpreter's routes (\<open>registered_routes\<close>, \<open>Inline::build\<close>): for every route
  of the main table up to its seal, the worker has a handler at the same index, it is the handler its
  own script registered for the same method and path, on the same kind of dispatch, and the hooks are as many.
  A worker whose script registered anything else does not start.
\<close>

lemma worker_has_handlers:
  assumes "worker_new C interp_id I (inline_build I worker) worker spec shared s = Some (Ok wk, shared', s')"
    and "ws_expected spec = route_signature_of main_table"
    and "rid < length (sig_routes (ws_expected spec))"
  shows "\<exists>s1 table limits. py_worker_app I s1 = Some (Ok (table, limits)) \<and>
     rid < length (il_handlers (wk_role wk)) \<and> rid < length (rt_routes main_table) \<and>
     il_handlers (wk_role wk) ! rid = r_handler (rt_routes table ! rid) \<and>
     r_key (rt_routes table ! rid) = r_key (rt_routes main_table ! rid) \<and>
     is_main (r_dispatch (rt_routes table ! rid)) = is_main (r_dispatch (rt_routes main_table ! rid)) \<and>
     sig_before_hooks (route_signature_of table) = sig_before_hooks (ws_expected spec) \<and>
     sig_after_hooks (route_signature_of table) = sig_after_hooks (ws_expected spec)"
proof -
  obtain s0 s2 where "run_program I (inline_build I worker) worker spec s0 = (Ok (wk_role wk), s2)" by (rule worker_new_Ok [OF assms(1)])
  then obtain s1 routes warnings where reg: "registered_routes I worker spec s1 = Ok (routes, warnings)"
    and "inline_build I worker routes (ws_gc_threshold spec) s1 = (Ok (wk_role wk), s2)" by (rule run_program_Ok)
  from inline_build_Ok [OF this(2)] have hs: "il_handlers (wk_role wk) = wr_handlers routes" by simp
  have "\<not> signature_is_empty (ws_expected spec)" using assms(3) by (auto simp: signature_is_empty_def)
  with reg obtain table limits where app: "py_worker_app I s1 = Some (Ok (table, limits))"
    and routes: "routes = app_worker_routes table limits" and sig: "route_signature_of table = ws_expected spec"
    by (auto simp: registered_routes_def worker_routes_def Let_def map_ok_def and_then_def app_worker_routes_def
        split: option.splits sum.splits if_splits)
  from signature_nth [of rid table] signature_nth [of rid main_table] assms(2,3) sig
  have "rid < length (rt_routes table)" "rid < length (rt_routes main_table)"
    "r_key (rt_routes table ! rid) = r_key (rt_routes main_table ! rid)"
    "is_main (r_dispatch (rt_routes table ! rid)) = is_main (r_dispatch (rt_routes main_table ! rid))" by simp_all
  with app routes hs sig show ?thesis
    by (intro exI [of _ s1] exI [of _ table] exI [of _ limits]) (simp add: app_worker_routes_def)
qed

lemma threads_started:
  "\<exists>wk shared' s'. worker_new threads_cpython (\<lambda>_. 1) threads_init (inline_build threads_init 3) 3 (threads_spec ''app'')
     threads_shared (put_threads (Some 0) [Some 0] threads_start) = Some (Ok wk, shared', s')"
proof -
  have "\<exists>il. run_program threads_init (inline_build threads_init 3) 3 (threads_spec ''app'') v = (Ok il, v)" for v
    by (simp add: run_program_def threads_init_def threads_spec_def new_module_def exec_in_def run_defs cstring_new_def
        BOOTSTRAP_FILE_def LOG_BRIDGE_FILE_def registered_routes_def worker_routes_def app_worker_routes_def inline_build_def
        new_event_loop_def and_then_def map_ok_def Let_def)
  then obtain il where il: "run_program threads_init (inline_build threads_init 3) 3 (threads_spec ''app'')
      (put_threads (Some 1) [Some 0, Some 1] threads_start) = (Ok il, put_threads (Some 1) [Some 0, Some 1] threads_start)" by blast
  then show ?thesis
    by (simp add: worker_new_def prepare_def hand_to_worker_def threads_shared_def threads_cpython_def put_threads_def Let_def)
qed

end
