(* ===== verification/Grpc.thy ===== *)
theory Grpc
  imports Request Response
begin

section \<open>The gRPC benchmark method (\<open>src/grpc.rs\<close>)\<close>

text \<open>
  One unary method over HTTP/2: a framed protobuf message in, a framed message and trailers out. The
  decoder works on bytes (\<open>u8\<close>); a body is a \<open>string\<close>, one \<open>char\<close> per byte, and \<open>bytes_of\<close> and
  \<open>text_of\<close> convert. The \<open>int32\<close> fields are 32-bit words, the varints 64-bit words: the additions wrap
  as in the source. \<open>utf8_percent_encode\<close> (crate \<open>percent_encoding\<close>) is a parameter.

  The results: a varint written is the varint read, and a call with any two numbers is answered with
  their sum, while a body that is no such call is answered with the status of what is wrong with it and
  no message.
\<close>

definition bytes_of :: "string \<Rightarrow> u8 list" where
  "bytes_of s = map (\<lambda>c. of_nat (of_char c)) s"

definition text_of :: "u8 list \<Rightarrow> string" where
  "text_of bs = map (\<lambda>b. char_of (unat b)) bs"

datatype GrpcStatus = GrpcOk | DeadlineExceeded | ResourceExhausted | Unimplemented | Internal | Unavailable

fun grpc_header_value :: "GrpcStatus \<Rightarrow> string" where
  "grpc_header_value GrpcOk = ''0''"
| "grpc_header_value DeadlineExceeded = ''4''"
| "grpc_header_value ResourceExhausted = ''8''"
| "grpc_header_value Unimplemented = ''12''"
| "grpc_header_value Internal = ''13''"
| "grpc_header_value Unavailable = ''14''"

datatype DecodeError = Varint | TruncatedField u64 | WireType u64 u8

datatype GrpcError =
    BodyTooLarge nat
  | BodyTimedOut
  | BodyRead string
  | ShortFrame nat
  | Compressed u8
  | TruncatedFrame nat nat
  | TrailingBytes nat nat
  | Decode DecodeError

fun grpc_status :: "GrpcError \<Rightarrow> GrpcStatus" where
  "grpc_status (BodyTooLarge _) = ResourceExhausted"
| "grpc_status BodyTimedOut = DeadlineExceeded"
| "grpc_status (BodyRead _) = Unavailable"
| "grpc_status (Compressed _) = Unimplemented"
| "grpc_status (ShortFrame _) = Internal"
| "grpc_status (TruncatedFrame _ _) = Internal"
| "grpc_status (TrailingBytes _ _) = Internal"
| "grpc_status (Decode _) = Internal"

fun decode_error_text :: "DecodeError \<Rightarrow> string" where
  "decode_error_text Varint = ''truncated or over-long varint''"
| "decode_error_text (TruncatedField field) =
     ''field '' @ show_nat (unat field) @ '' runs past the end of the message''"
| "decode_error_text (WireType field wire_type) =
     ''field '' @ show_nat (unat field) @ '' uses wire type '' @ show_nat (unat wire_type)
       @ '', which proto3 does not allow''"

fun grpc_error_text :: "GrpcError \<Rightarrow> string" where
  "grpc_error_text (BodyTooLarge limit) = ''request body exceeds max_body_size ('' @ show_nat limit @ '' bytes)''"
| "grpc_error_text BodyTimedOut = ''request body did not arrive within 30s''"
| "grpc_error_text (BodyRead e) = ''request body read failed: '' @ e"
| "grpc_error_text (ShortFrame n) =
     ''request is '' @ show_nat n @ '' bytes, shorter than the 5-byte gRPC frame header''"
| "grpc_error_text (Compressed flag) =
     ''message is compressed (flag '' @ show_nat (unat flag) @ ''); no grpc-encoding is supported''"
| "grpc_error_text (TruncatedFrame declared actual) =
     ''frame declares a '' @ show_nat declared @ ''-byte message but carries '' @ show_nat actual @ '' bytes''"
| "grpc_error_text (TrailingBytes declared actual) =
     ''frame declares a '' @ show_nat declared @ ''-byte message but carries '' @ show_nat actual
       @ '' bytes: a unary call sends exactly one message, nothing after it''"
| "grpc_error_text (Decode e) = ''malformed SumRequest: '' @ decode_error_text e"

definition GET_SUM_PATH :: string where "GET_SUM_PATH = ''/benchmark.BenchmarkService/GetSum''"

definition is_get_sum_call :: "'h http_api \<Rightarrow> 'h Parts \<Rightarrow> bool" where
  "is_get_sum_call H parts \<longleftrightarrow>
     pt_method parts = ''POST'' \<and> pt_path parts = GET_SUM_PATH \<and>
     (case Option.bind (hm_get H (pt_headers parts) CONTENT_TYPE) (hv_to_str H) of
        Some ct \<Rightarrow> strip_prefix ''application/grpc'' ct \<noteq> None
      | None \<Rightarrow> False)"

subsection \<open>Frames\<close>

definition HEADER_LEN :: nat where "HEADER_LEN = 5"

definition u32_from_be_bytes :: "u8 \<Rightarrow> u8 \<Rightarrow> u8 \<Rightarrow> u8 \<Rightarrow> u32" where
  "u32_from_be_bytes a b c d =
     push_bit 24 (ucast a) OR push_bit 16 (ucast b) OR push_bit 8 (ucast c) OR ucast d"

definition unframe :: "u8 list \<Rightarrow> (u8 list, GrpcError) result" where
  "unframe framed =
     (if length framed < HEADER_LEN then Err (ShortFrame (length framed))
      else if framed ! 0 \<noteq> 0 then Err (Compressed (framed ! 0))
      else let declared = unat (u32_from_be_bytes (framed ! 1) (framed ! 2) (framed ! 3) (framed ! 4));
               actual = length framed - HEADER_LEN
           in if actual < declared then Err (TruncatedFrame declared actual)
              else if declared < actual then Err (TrailingBytes declared actual)
              else Ok (drop HEADER_LEN framed))"

definition put_u32 :: "u32 \<Rightarrow> u8 list" where
  "put_u32 n = [ucast (drop_bit 24 n), ucast (drop_bit 16 n), ucast (drop_bit 8 n), ucast n]"

definition grpc_frame :: "u8 list \<Rightarrow> u8 list" where
  "grpc_frame message = [0] @ put_u32 (of_nat (length message)) @ message"

subsection \<open>Varints and fields\<close>

fun read_varint_from :: "u64 \<Rightarrow> nat \<Rightarrow> u8 list \<Rightarrow> (u64 \<times> u8 list) option" where
  "read_varint_from result shift [] = None"
| "read_varint_from result shift (byte # rest) =
     (let result = result OR push_bit shift (ucast (byte AND 0x7F))
      in if byte AND 0x80 = 0 then Some (result, rest)
         else if 64 \<le> shift + 7 then None
         else read_varint_from result (shift + 7) rest)"

definition read_varint :: "u8 list \<Rightarrow> (u64 \<times> u8 list) option" where
  "read_varint input = read_varint_from 0 0 input"

lemma unat_drop_7: "unat (drop_bit 7 (v :: u64)) = unat v div 128"
  unfolding unat_drop_bit_eq by (simp add: drop_bit_eq_div)

function write_varint :: "u64 \<Rightarrow> u8 list" where \<comment> \<open>the loop of \<open>write_varint_i32\<close>\<close>
  "write_varint v =
     (let byte = ucast (v AND 0x7F); v' = drop_bit 7 v
      in if v' = 0 then [byte] else (byte OR 0x80) # write_varint v')"
  by pat_completeness auto
termination
proof (relation "measure unat")
  fix v :: u64 and byte :: u8 and v'
  assume "v' = drop_bit 7 v" "v' \<noteq> 0"
  then have "unat v div 128 \<noteq> 0" using unat_drop_7 [of v] by (metis unat_eq_0)
  with \<open>v' = drop_bit 7 v\<close> show "(v', v) \<in> measure unat" by (simp add: unat_drop_7)
qed simp

declare write_varint.simps [simp del]

definition write_varint_i32 :: "u32 \<Rightarrow> u8 list" where
  "write_varint_i32 i = write_varint (scast i)"

record SumRequest =
  sr_a :: u32
  sr_b :: u32

text \<open>\<open>input.get(len..)\<close>.\<close>

definition get_from :: "nat \<Rightarrow> 'a list \<Rightarrow> 'a list option" where
  "get_from len input = (if len \<le> length input then Some (drop len input) else None)"

definition skip_field :: "u64 \<Rightarrow> u8 \<Rightarrow> u8 list \<Rightarrow> (u8 list, DecodeError) result" where
  "skip_field field wire_type input =
     (if wire_type = 0 then ok_or Varint (map_option snd (read_varint input))
      else if wire_type = 1 then ok_or (TruncatedField field) (get_from 8 input)
      else if wire_type = 5 then ok_or (TruncatedField field) (get_from 4 input)
      else if wire_type = 2
        then and_then (ok_or Varint (read_varint input)) (\<lambda>(len, rest).
               ok_or (TruncatedField field) (get_from (unat len) rest))
      else Err (WireType field wire_type))"

lemma read_varint_from_shorter:
  "read_varint_from result shift input = Some (v, rest) \<Longrightarrow> length rest < length input"
  by (induction result shift input rule: read_varint_from.induct) (auto simp: Let_def split: if_splits)

lemma read_varint_shorter: "read_varint input = Some (v, rest) \<Longrightarrow> length rest < length input"
  by (simp add: read_varint_def read_varint_from_shorter)

lemma skip_field_shorter: "skip_field field wire_type input = Inr rest \<Longrightarrow> length rest \<le> length input"
  by (auto simp: skip_field_def get_from_def result_iffs dest!: read_varint_shorter split: if_splits)

text \<open>The loop of \<open>decode_sum_request\<close>.\<close>

function decode_fields :: "SumRequest \<Rightarrow> u8 list \<Rightarrow> (SumRequest, DecodeError) result" where
  "decode_fields request cursor =
     (if cursor = [] then Ok request
      else case read_varint cursor of
             None \<Rightarrow> Err Varint
           | Some (tag, rest) \<Rightarrow>
               (let field = drop_bit 3 tag; wire_type = ucast (tag AND 0x07)
                in if (field = 1 \<or> field = 2) \<and> wire_type = 0
                   then (case read_varint rest of
                           None \<Rightarrow> Err Varint
                         | Some (v, rest') \<Rightarrow>
                             decode_fields (if field = 1 then request\<lparr>sr_a := ucast v\<rparr> else request\<lparr>sr_b := ucast v\<rparr>) rest')
                   else (case skip_field field wire_type rest of
                           Inl e \<Rightarrow> Err e
                         | Inr rest' \<Rightarrow> decode_fields request rest')))"
  by pat_completeness auto
termination
  by (relation "measure (length \<circ> snd)")
     (auto dest!: read_varint_shorter skip_field_shorter)

declare decode_fields.simps [simp del]

definition decode_sum_request :: "u8 list \<Rightarrow> (SumRequest, DecodeError) result" where
  "decode_sum_request cursor = decode_fields \<lparr>sr_a = 0, sr_b = 0\<rparr> cursor"

definition get_sum :: "u8 list \<Rightarrow> (u8 list, GrpcError) result" where
  "get_sum message =
     map_ok (\<lambda>req. 0x08 # write_varint_i32 (sr_a req + sr_b req))
       (map_err Decode (decode_sum_request message))"

subsection \<open>The call\<close>

fun grpc_reject :: "nat \<Rightarrow> BodyReject \<Rightarrow> GrpcError" where
  "grpc_reject limit TooLarge = BodyTooLarge limit"
| "grpc_reject limit TimedOut = BodyTimedOut"
| "grpc_reject limit (Read e) = BodyRead e"

definition read_message :: "arrival list \<Rightarrow> nat \<Rightarrow> (u8 list, GrpcError) result" where
  "read_message body limit =
     and_then (map_err (grpc_reject limit) (read_body body limit)) (\<lambda>collected. unframe (bytes_of collected))"

text \<open>
  \<open>grpc_message_value\<close>; an encoded message that is no header value is only logged, and left out.
\<close>

definition grpc_message_value :: "'h http_api \<Rightarrow> (string \<Rightarrow> string) \<Rightarrow> string \<Rightarrow> string option" where
  "grpc_message_value H percent_encode message = hv_from_str H (percent_encode message)"

definition grpc_reply ::
    "'h http_api \<Rightarrow> (string \<Rightarrow> string) \<Rightarrow> u8 list option \<Rightarrow> GrpcStatus \<Rightarrow> string option \<Rightarrow> 'h http_response" where
  "grpc_reply H percent_encode data status message =
     (let trailers = (''grpc-status'', grpc_header_value status)
            # (case Option.bind message (grpc_message_value H percent_encode) of
                 Some v \<Rightarrow> [(''grpc-message'', v)] | None \<Rightarrow> []);
          frames = (case data of Some d \<Rightarrow> [Crates.Data (text_of d)] | None \<Rightarrow> []) @ [Crates.Trailers trailers];
          resp = response_new H (StreamBody frames)
      in resp\<lparr>rsp_headers := hm_insert H (rsp_headers resp) CONTENT_TYPE ''application/grpc''\<rparr>)"

definition handle_get_sum ::
    "'h http_api \<Rightarrow> (string \<Rightarrow> string) \<Rightarrow> arrival list \<Rightarrow> nat \<Rightarrow> 'h http_response" where
  "handle_get_sum H percent_encode body limit =
     (case and_then (read_message body limit) get_sum of
        Inr reply \<Rightarrow> grpc_reply H percent_encode (Some (grpc_frame reply)) GrpcOk None
      | Inl e \<Rightarrow> grpc_reply H percent_encode None (grpc_status e) (Some (grpc_error_text e)))"

subsection \<open>A varint written is the varint read\<close>

lemma low_byte_bits:
  fixes v :: u64
  shows "(ucast (v AND 0x7F) :: u8) AND 0x80 = 0"
    and "((ucast (v AND 0x7F) :: u8) OR 0x80) AND 0x80 \<noteq> 0"
    and "ucast ((ucast (v AND 0x7F) :: u8) AND 0x7F) = v AND 0x7F"
    and "ucast (((ucast (v AND 0x7F) :: u8) OR 0x80) AND 0x7F) = v AND 0x7F"
proof -
  have m: "(0x7F :: u64) = mask 7" "(0x7F :: u8) = mask 7" by (simp_all add: mask_eq_decr_exp)
  have top: "bit (0x80 :: u8) n \<longleftrightarrow> n = 7" "bit (0x80 :: int) n \<longleftrightarrow> n = 7" for n
    using bit_exp_iff [where 'a = "8 word", of 7 n] bit_exp_iff [where 'a = int, of 7 n] by auto
  show "(ucast (v AND 0x7F) :: u8) AND 0x80 = 0"
    unfolding m by (rule bit_word_eqI) (auto simp: bit_simps top)
  have "bit (((ucast (v AND 0x7F) :: u8) OR 0x80) AND 0x80) 7" unfolding m by (simp add: bit_simps top)
  then show "((ucast (v AND 0x7F) :: u8) OR 0x80) AND 0x80 \<noteq> 0" by (metis bit_0_eq bot_apply bot_bool_def)
  show "ucast ((ucast (v AND 0x7F) :: u8) AND 0x7F) = v AND 0x7F"
    unfolding m by (rule bit_word_eqI) (auto simp: bit_simps)
  show "ucast (((ucast (v AND 0x7F) :: u8) OR 0x80) AND 0x7F) = v AND 0x7F"
    unfolding m by (rule bit_word_eqI) (auto simp: bit_simps top)
qed

lemma push_low_high:
  fixes v :: u64
  shows "push_bit s (v AND 0x7F) OR push_bit (s + 7) (drop_bit 7 v) = push_bit s v"
proof -
  have m: "(0x7F :: u64) = mask 7" by (simp add: mask_eq_decr_exp)
  show ?thesis unfolding m
  proof (rule bit_word_eqI)
    fix n
    have "7 + (n - (s + 7)) = n - s" if "\<not> n - s < 7" using that by simp
    then show "bit (push_bit s (v AND mask 7) OR push_bit (s + 7) (drop_bit 7 v)) n \<longleftrightarrow> bit (push_bit s v) n"
      by (cases "n - s < 7") (auto simp: bit_simps)
  qed
qed

lemma read_write_varint:
  "shift < 64 \<Longrightarrow> unat v < 2 ^ (64 - shift) \<Longrightarrow>
     read_varint_from acc shift (write_varint v @ rest) = Some (acc OR push_bit shift v, rest)"
proof (induction v arbitrary: acc shift rule: write_varint.induct)
  case (1 v)
  let ?hi = "drop_bit 7 v"
  show ?case
  proof (cases "?hi = 0")
    case True
    then have "push_bit shift (v AND 0x7F) = push_bit shift v" using push_low_high [of shift v] by simp
    with True show ?thesis
      by (subst write_varint.simps) (simp add: Let_def low_byte_bits)
  next
    case False
    then have "128 \<le> unat v" using unat_drop_7 [of v] by (metis div_less not_le unat_0 unat_eq_zero)
    with 1(3) have s: "shift + 7 < 64" using power_less_imp_less_exp [of "2 :: nat" 7 "64 - shift"] by simp
    have "(2 :: nat) ^ (64 - shift) = 2 ^ (64 - (shift + 7)) * 2 ^ 7"
      using s by (subst power_add [symmetric]) simp
    with 1(3) have "unat v < 2 ^ (64 - (shift + 7)) * 2 ^ 7" by simp
    then have hi: "unat ?hi < 2 ^ (64 - (shift + 7))" by (simp add: unat_drop_7 less_mult_imp_div_less)
    show ?thesis
      using 1(1) [OF refl refl False s hi] False s push_low_high [of shift v]
      by (subst write_varint.simps) (simp add: Let_def low_byte_bits or.assoc)
  qed
qed

lemma read_varint_write [simp]: "read_varint (write_varint v @ rest) = Some (v, rest)"
  using read_write_varint [of 0 v 0 rest] unsigned_less [of v] by (simp add: read_varint_def)

lemma length_write_varint: "unat v < 128 ^ k \<Longrightarrow> 0 < k \<Longrightarrow> length (write_varint v) \<le> k"
proof (induction v arbitrary: k rule: write_varint.induct)
  case (1 v)
  show ?case
  proof (cases "drop_bit 7 v = 0")
    case True
    with 1(3) show ?thesis by (subst write_varint.simps) simp
  next
    case False
    then have "128 \<le> unat v" using unat_drop_7 [of v] by (metis div_less not_le unat_0 unat_eq_zero)
    with 1(2,3) obtain k' where k: "k = Suc k'" "0 < k'" by (cases k; cases "k - 1") auto
    with 1(2) have "unat (drop_bit 7 v) < 128 ^ k'" by (simp add: unat_drop_7 less_mult_imp_div_less mult.commute)
    with 1(1) [OF refl refl False this k(2)] False k show ?thesis
      by (subst write_varint.simps) (simp add: Let_def)
  qed
qed

lemma length_write_varint_i32: "length (write_varint_i32 i) \<le> 10"
proof -
  have "(2 :: nat) ^ 64 \<le> 128 ^ 10" by simp
  moreover have "unat (scast i :: u64) < 2 ^ LENGTH(64)" by (rule unsigned_less)
  ultimately show ?thesis unfolding write_varint_i32_def by (intro length_write_varint) simp_all
qed

lemma be_bytes:
  fixes n :: u32
  shows "u32_from_be_bytes (ucast (drop_bit 24 n)) (ucast (drop_bit 16 n)) (ucast (drop_bit 8 n)) (ucast n) = n"
  unfolding u32_from_be_bytes_def
proof (rule bit_word_eqI)
  fix i
  assume "i < LENGTH(32)"
  then consider "i < 8" | "8 \<le> i" "i < 16" | "16 \<le> i" "i < 24" | "24 \<le> i" "i < 32" by force
  then show "bit (push_bit 24 (ucast (ucast (drop_bit 24 n) :: u8)) OR push_bit 16 (ucast (ucast (drop_bit 16 n) :: u8)) OR
      push_bit 8 (ucast (ucast (drop_bit 8 n) :: u8)) OR ucast (ucast n :: u8) :: u32) i \<longleftrightarrow> bit n i"
    by cases (auto simp: bit_simps)
qed

lemma unframe_frame:
  assumes "length m < 2 ^ 32"
  shows "unframe (grpc_frame m) = Ok m"
proof -
  have "unat (of_nat (length m) :: u32) = length m" using assms by (simp add: unat_of_nat take_bit_nat_eq_self)
  then show ?thesis
    by (simp add: unframe_def grpc_frame_def put_u32_def be_bytes HEADER_LEN_def Let_def)
qed

lemma bytes_of_text_of [simp]: "bytes_of (text_of bs) = bs"
  unfolding bytes_of_def text_of_def map_map
proof (rule map_idI)
  fix b :: u8
  have "unat b < 2 ^ LENGTH(8)" by (rule unsigned_less)
  then show "((\<lambda>c. of_nat (of_char c)) \<circ> (\<lambda>b. char_of (unat b))) b = b" by simp
qed

subsection \<open>The sum is what was asked for\<close>

text \<open>A \<open>SumRequest\<close> as a client writes it, and what a client reads of a \<open>SumReply\<close>.\<close>

definition encode_sum_request :: "u32 \<Rightarrow> u32 \<Rightarrow> u8 list" where
  "encode_sum_request a b = 0x08 # write_varint_i32 a @ 0x10 # write_varint_i32 b"

definition read_reply :: "u8 list \<Rightarrow> u32 option" where
  "read_reply message =
     (case message of
        tag # rest \<Rightarrow> (case read_varint rest of Some (v, []) \<Rightarrow> if tag = 0x08 then Some (ucast v) else None | _ \<Rightarrow> None)
      | [] \<Rightarrow> None)"

lemma ucast_scast_i32 [simp]: "ucast (scast (i :: u32) :: u64) = i"
proof (rule bit_word_eqI)
  fix n
  assume "n < LENGTH(32)"
  then show "bit (ucast (scast i :: u64) :: u32) n \<longleftrightarrow> bit i n"
    by (cases "n = 31") (auto simp: bit_simps min_def)
qed

lemma read_tags [simp]: "read_varint (0x08 # rest) = Some (0x08, rest)" "read_varint (0x10 # rest) = Some (0x10, rest)"
  by (simp_all add: read_varint_def)

lemma decode_encode: "decode_sum_request (encode_sum_request a b) = Ok \<lparr>sr_a = a, sr_b = b\<rparr>"
proof -
  have "read_varint (write_varint (scast b)) = Some (scast b, [])" using read_varint_write [of "scast b" "[]"] by simp
  then show ?thesis
    unfolding decode_sum_request_def encode_sum_request_def write_varint_i32_def
    by (subst decode_fields.simps, simp add: Let_def, subst decode_fields.simps, simp add: Let_def,
        subst decode_fields.simps, simp)
qed

lemma read_reply_get_sum: "get_sum message = Ok reply \<Longrightarrow> decode_sum_request message = Ok \<lparr>sr_a = a, sr_b = b\<rparr> \<Longrightarrow>
    read_reply reply = Some (a + b) \<and> length reply \<le> 11"
  using read_varint_write [of "scast (a + b)" "[]"] length_write_varint_i32 [of "a + b"]
  by (auto simp: get_sum_def read_reply_def write_varint_i32_def)

text \<open>
  A call to the benchmark method whose body is one framed \<open>SumRequest\<close> that fits the limit is
  answered with status 0 and one frame, which a client reads as the sum of its numbers, wrapped to 32
  bits. A body that is rejected or is not such a message is answered with a status that is not 0 and
  without a message.
\<close>

theorem get_sum_adds:
  assumes "limit < USIZE_MAX" and "list_all is_frame body"
    and "body_data body = text_of (grpc_frame (encode_sum_request a b))" and "length (body_data body) \<le> limit"
  shows "(\<exists>reply. handle_get_sum H percent_encode body limit =
           grpc_reply H percent_encode (Some (grpc_frame reply)) GrpcOk None \<and>
         unframe (grpc_frame reply) = Ok reply \<and> read_reply reply = Some (a + b)) \<and>
     (and_then (read_message bad limit) get_sum = Err e \<longrightarrow>
        (\<exists>status trailers. rsp_body (handle_get_sum H percent_encode bad limit) =
           StreamBody [Crates.Trailers ((''grpc-status'', status) # trailers)] \<and> status \<noteq> ''0''))"
proof (intro conjI impI)
  have "read_body body limit = Ok (body_data body)"
    using assms(2,4) by (simp add: read_body_iff [OF assms(1)] completes_def)
  moreover have "length (encode_sum_request a b) \<le> 22"
    using length_write_varint_i32 [of a] length_write_varint_i32 [of b] by (simp add: encode_sum_request_def)
  then have "unframe (grpc_frame (encode_sum_request a b)) = Ok (encode_sum_request a b)"
    by (intro unframe_frame) simp
  ultimately have m: "read_message body limit = Ok (encode_sum_request a b)"
    by (simp add: read_message_def assms(3))
  obtain reply where reply: "get_sum (encode_sum_request a b) = Ok reply"
    by (simp add: get_sum_def decode_encode)
  from read_reply_get_sum [OF reply decode_encode] have "read_reply reply = Some (a + b)" "length reply \<le> 11" by auto
  with m reply show "\<exists>reply. handle_get_sum H percent_encode body limit =
           grpc_reply H percent_encode (Some (grpc_frame reply)) GrpcOk None \<and>
         unframe (grpc_frame reply) = Ok reply \<and> read_reply reply = Some (a + b)"
    by (intro exI [of _ reply]) (simp add: handle_get_sum_def unframe_frame)
next
  assume e: "and_then (read_message bad limit) get_sum = Err e"
  have "grpc_header_value (grpc_status e) \<noteq> ''0''" by (cases e) simp_all
  with e show "\<exists>status trailers. rsp_body (handle_get_sum H percent_encode bad limit) =
      StreamBody [Crates.Trailers ((''grpc-status'', status) # trailers)] \<and> status \<noteq> ''0''"
    by (auto simp: handle_get_sum_def grpc_reply_def Let_def response_new_def)
qed

theorem get_sum_adds_witness:
  "\<exists>reply. handle_get_sum line_headers (\<lambda>m. m) [Frame (Data (text_of (grpc_frame (encode_sum_request 7 (- 9)))))] 4096 =
       grpc_reply line_headers (\<lambda>m. m) (Some (grpc_frame reply)) GrpcOk None \<and> read_reply reply = Some (- 2) \<and>
     (\<exists>status trailers. rsp_body (handle_get_sum line_headers (\<lambda>m. m) [Elapsed] 4096) =
        StreamBody [Crates.Trailers ((''grpc-status'', status) # trailers)] \<and> status \<noteq> ''0'')"
proof -
  let ?body = "[Frame (Data (text_of (grpc_frame (encode_sum_request 7 (- 9)))))]"
  have "length (grpc_frame (encode_sum_request 7 (- 9))) \<le> 4096"
    using length_write_varint_i32 [of 7] length_write_varint_i32 [of "- 9"]
    by (simp add: encode_sum_request_def grpc_frame_def put_u32_def)
  then have len: "length (body_data ?body) \<le> 4096" by (simp add: text_of_def)
  have bad: "and_then (read_message [Elapsed] 4096) get_sum = Err BodyTimedOut"
    by (simp add: read_message_def read_body_def collect_def)
  have "(4096 :: nat) < USIZE_MAX" by (simp add: USIZE_MAX_def)
  from get_sum_adds [OF this _ _ len, of 7 "- 9" line_headers "\<lambda>m. m" "[Elapsed]" BodyTimedOut] bad
  show ?thesis by auto
qed

end
