(* ===== verification/Pipeline.thy ===== *)
theory Pipeline
  imports Hook_Chain Grpc
begin

section \<open>The request pipeline (\<open>src/handlers/\<close>, \<open>src/handlers.rs\<close>, the upgrade of \<open>src/websocket.rs\<close>)\<close>

text \<open>
  What every serving path shares, and the paths: the main interpreter (\<open>gil.rs\<close>), the sub-interpreter
  pool (\<open>subinterp.rs\<close>), a TPC thread with its bridge (\<open>tpc.rs\<close>) and the WebSocket upgrade. Each is a
  function from a request and the engine's state to the response and the new state.

  The record \<open>services\<close> has what is outside the engine: the crates, the file system, whether a
  compression on the blocking pool finishes. The record \<open>backend\<close> has what the code that runs the
  handler answers: the reply of a task or a worker, or that none came in time, and whether a queue took
  the request. A wait for a reply ends with the reply, with the channel or task being lost, or with the
  budget running out: the type \<open>waited\<close>. An index out of range is a panic of the task: \<open>None\<close>.

  The results: every response, whatever the path, is finished exactly once (CORS, \<open>HEAD\<close>, access log);
  a failure is logged once and counted exactly when it is a refusal; the pool's permits are given back;
  and on a table built by registrations no request panics the engine.
\<close>

subsection \<open>Services and state\<close>

record ('m, 'r, 'e, 'h) services =
  sv_http :: "'h http_api"
  sv_router :: "('r, RouteId, 'e) router_api"
  sv_dash :: "('m, path, CachedFile) dash_api"
  sv_codecs :: codecs
  sv_fs :: "nat \<Rightarrow> fs_ops" \<comment> \<open>the file system, at each mount tried\<close>
  sv_path_decode :: "string \<Rightarrow> string"
  sv_param_decode :: "string \<Rightarrow> string"
  sv_percent_encode :: "string \<Rightarrow> string"
  sv_accept_key :: "string \<Rightarrow> string"
  sv_seed :: u64 \<comment> \<open>of the process's request ids\<close>
  sv_tid :: nat \<comment> \<open>the thread\<close>
  sv_compressed :: bool \<comment> \<open>a compression off the worker finishes\<close>

record access_line =
  ac_method :: string
  ac_path :: string
  ac_status :: nat
  ac_mode :: string

record ('m, 's) Engine =
  en_metrics :: bool \<comment> \<open>\<open>METRICS_ENABLED\<close>\<close>
  en_total :: u64 \<comment> \<open>\<open>TOTAL_REQUESTS\<close>\<close>
  en_dropped :: u64 \<comment> \<open>\<open>DROPPED_REQUESTS\<close>\<close>
  en_ids :: id_state
  en_cache :: "'m file_cache"
  en_zip :: compress_pool
  en_roll :: u64 \<comment> \<open>this thread's \<open>SAMPLE_ROLL\<close>\<close>
  en_permits :: 's \<comment> \<open>the pool's \<open>submit_semaphore\<close>\<close>
  en_ws_open :: nat
  en_access :: "access_line list" \<comment> \<open>the access log\<close>
  en_errors :: "log_line list" \<comment> \<open>the error log\<close>

text \<open>\<open>monitor::count_request\<close>.\<close>

definition count_request :: "('m, 's) Engine \<Rightarrow> ('m, 's) Engine" where
  "count_request en = (if en_metrics en then en\<lparr>en_total := en_total en + 1\<rparr> else en)"

subsection \<open>Finishing a response\<close>

datatype Served = ServedEngine | ServedMain | ServedPool | ServedInline | ServedBridge | ServedWebSocket

fun served_label :: "Served \<Rightarrow> string" where
  "served_label ServedEngine = ''rust''"
| "served_label ServedMain = ''gil''"
| "served_label ServedPool = ''subinterp''"
| "served_label ServedInline = ''tpc-inline''"
| "served_label ServedBridge = ''tpc-gil-bridge''"
| "served_label ServedWebSocket = ''websocket''"

record RequestLine =
  ln_method :: string
  ln_path :: string

definition line_of :: "RequestLabel \<Rightarrow> RequestLine" where
  "line_of label = \<lparr>ln_method = lab_method label, ln_path = lab_path label\<rparr>"

definition without_body :: "'h http_api \<Rightarrow> 'h http_response \<Rightarrow> 'h http_response" where
  "without_body H resp =
     (let headers = (case size_hint_exact H (rsp_body resp) of
                       Some len \<Rightarrow> hm_or_insert H (rsp_headers resp) CONTENT_LENGTH (hv_from_len H len)
                     | None \<Rightarrow> rsp_headers resp)
      in resp\<lparr>rsp_headers := headers, rsp_body := EmptyBody\<rparr>)"

definition finish ::
    "'h http_api \<Rightarrow> SiteConfig \<Rightarrow> 'h http_response \<Rightarrow> RequestLine \<Rightarrow> Served \<Rightarrow> ('m, 's) Engine \<Rightarrow>
     'h http_response \<times> ('m, 's) Engine" where
  "finish H config resp line served en =
     (let resp = (case sc_cors config of
                    Some cors \<Rightarrow> resp\<lparr>rsp_headers := cors_apply H cors (rsp_headers resp)\<rparr>
                  | None \<Rightarrow> resp);
          resp = (if ln_method line = ''HEAD'' then without_body H resp else resp);
          (logs, roll) = samples (sc_access_log config) (en_roll en) (rsp_status resp);
          en = en\<lparr>en_roll := roll\<rparr>
      in (resp, if logs
                then en\<lparr>en_access := en_access en @ [\<lparr>ac_method = ln_method line, ac_path = ln_path line,
                       ac_status = rsp_status resp, ac_mode = served_label served\<rparr>]\<rparr>
                else en))"

subsection \<open>Preprocessing\<close>

record 'h Prepared =
  pr_head :: "'h RequestHead"
  pr_body :: "arrival list"
  pr_call :: Call

datatype 'h Preprocessed = Respond "'h http_response" | Dispatched "'h Prepared"

datatype 'h Unrouted = UnroutedFallback Call | UnroutedRespond "'h http_response"

text \<open>The request's \<open>Accept-Encoding\<close>, and as text.\<close>

definition accept_encoding_of :: "'h http_api \<Rightarrow> 'h RequestHead \<Rightarrow> string option" where
  "accept_encoding_of H head = hm_get H (pt_headers (hd_parts head)) ACCEPT_ENCODING"

definition accept_encoding_str :: "'h http_api \<Rightarrow> string option \<Rightarrow> string option" where
  "accept_encoding_str H accept = Option.bind accept (hv_to_str H)"

definition unrouted ::
    "('m, 'r, 'e, 'h) services \<Rightarrow> ('r, 'py, 'h) Site \<Rightarrow> 'h Parts \<Rightarrow> ('m, 's) Engine \<Rightarrow>
     'h Unrouted \<times> ('m, 's) Engine" where
  "unrouted sv site parts en =
     (let H = sv_http sv; routes = site_routes site; path = pt_path parts;
          (static, cache) = (if pt_method parts = ''GET'' \<or> pt_method parts = ''HEAD''
                             then try_static_file (sv_dash sv) H (sv_path_decode sv) (sv_fs sv) (en_cache en) path
                                    (rt_static_dirs routes)
                             else (None, en_cache en));
          en = en\<lparr>en_cache := cache\<rparr>
      in case static of
           Some resp \<Rightarrow> (UnroutedRespond resp, en)
         | None \<Rightarrow>
             (case fallback_call routes of
                Some call \<Rightarrow> (UnroutedFallback call, en)
              | None \<Rightarrow>
                  (UnroutedRespond (case allowed_methods (sv_router sv) H routes path of
                                      Some allow \<Rightarrow> method_not_allowed_response H allow
                                    | None \<Rightarrow> not_found_response H), en)))"

definition grpc_get_sum ::
    "('m, 'r, 'e, 'h) services \<Rightarrow> ('r, 'py, 'h) Site \<Rightarrow> arrival list \<Rightarrow> ('m, 's) Engine \<Rightarrow>
     'h http_response \<times> ('m, 's) Engine" where
  "grpc_get_sum sv site body en =
     (let resp = handle_get_sum (sv_http sv) (sv_percent_encode sv) body (lim_max_body_bytes (sc_limits (site_config site)))
      in finish (sv_http sv) (site_config site) resp \<lparr>ln_method = ''POST'', ln_path = GET_SUM_PATH\<rparr> ServedEngine en)"

definition preprocess ::
    "('m, 'r, 'e, 'h) services \<Rightarrow> ('r, 'py, 'h) Site \<Rightarrow> string \<Rightarrow> 'h Parts \<Rightarrow> arrival list \<Rightarrow> ('m, 's) Engine \<Rightarrow>
     ('h Preprocessed \<times> ('m, 's) Engine) option" where
  "preprocess sv site client_ip parts body en =
     (let H = sv_http sv; routes = site_routes site; config = site_config site;
          line = \<lparr>ln_method = pt_method parts, ln_path = pt_path parts\<rparr>;
          respond = (\<lambda>resp en. apfst Respond (finish H config resp line ServedEngine en));
          dispatch = (\<lambda>call params en.
            let (request_id, ids) = request_id_of H (pt_headers parts) (sc_request_id_header config) (en_ids en) (sv_tid sv)
            in (Dispatched \<lparr>pr_head = \<lparr>hd_parts = parts, hd_params = params, hd_client_ip = client_ip,
                              hd_request_id = request_id\<rparr>, pr_body = body, pr_call = call\<rparr>,
                en\<lparr>en_ids := ids\<rparr>));
          en = count_request en
      in if sc_grpc_benchmark config \<and> is_get_sum_call H parts
         then Some (apfst Respond (grpc_get_sum sv site body en))
         else case fast_response routes (pt_method parts) (pt_path parts) of
                Some fast \<Rightarrow> Some (respond (fast_to_response H fast) en)
              | None \<Rightarrow>
                  (case resolve (sv_router sv) (sv_param_decode sv) routes (pt_method parts) (pt_path parts) of
                     None \<Rightarrow> None
                   | Some (Some (call, params)) \<Rightarrow> Some (dispatch call params en)
                   | Some None \<Rightarrow>
                       (case unrouted sv site parts en of
                          (UnroutedFallback call, en) \<Rightarrow> Some (dispatch call [] en)
                        | (UnroutedRespond resp, en) \<Rightarrow> Some (respond resp en))))"

subsection \<open>Replies and failures\<close>

datatype ('a, 'e) waited = Replied "('a, 'e) result" | BudgetSpent

datatype ('a, 'e) streamed_wait = RepliedFirst "('a, 'e) result" | BodyDone "('a, 'e) waited"

datatype JoinError = JoinPanic panic_payload | JoinCancelled

definition refuse_in :: "Refusal \<Rightarrow> ('m, 's) Engine \<Rightarrow> HandlerError \<times> ('m, 's) Engine" where
  "refuse_in r en = (let (e, dropped) = refuse (en_dropped en) r in (e, en\<lparr>en_dropped := dropped\<rparr>))"

definition fail ::
    "('m, 'r, 'e, 'h) services \<Rightarrow> RequestTag \<Rightarrow> HandlerError \<times> ('m, 's) Engine \<Rightarrow> 'h http_response \<times> ('m, 's) Engine" where
  "fail sv tag failure =
     (let (e, en) = failure; (logged, line) = error_log e tag
      in (logged_into_response (sv_http sv) (sv_seed sv) logged, en\<lparr>en_errors := en_errors en @ [line]\<rparr>))"

fun await_reply ::
    "('a, 'e) waited \<Rightarrow> ('e \<Rightarrow> ('m, 's) Engine \<Rightarrow> HandlerError \<times> ('m, 's) Engine) \<Rightarrow> ('m, 's) Engine \<Rightarrow>
     ('a, HandlerError \<times> ('m, 's) Engine) result" where
  "await_reply (Replied (Inr v)) lost en = Ok v"
| "await_reply (Replied (Inl e)) lost en = Err (lost e en)"
| "await_reply BudgetSpent lost en = Err (refuse_in Timeout en)"

fun await_streamed_reply ::
    "('a, 'e) streamed_wait \<Rightarrow> ('e \<Rightarrow> ('m, 's) Engine \<Rightarrow> HandlerError \<times> ('m, 's) Engine) \<Rightarrow> ('m, 's) Engine \<Rightarrow>
     ('a, HandlerError \<times> ('m, 's) Engine) result" where
  "await_streamed_reply (RepliedFirst (Inr v)) lost en = Ok v"
| "await_streamed_reply (RepliedFirst (Inl e)) lost en = Err (lost e en)"
| "await_streamed_reply (BodyDone reply) lost en = await_reply reply lost en"

fun task_lost :: "JoinError \<Rightarrow> ('m, 's) Engine \<Rightarrow> HandlerError \<times> ('m, 's) Engine" where
  "task_lost (JoinPanic payload) en = (handler_error_panic payload, en)"
| "task_lost JoinCancelled en = refuse_in (WorkerLost ''the handler's task was cancelled'') en"

text \<open>\<open>http_response\<close> and \<open>build_main_http_response\<close>.\<close>

definition http_response ::
    "('m, 'r, 'e, 'h) services \<Rightarrow> ('h ResponseData, Logged) result \<Rightarrow> string option \<Rightarrow> Settings option \<Rightarrow>
     ('m, 's) Engine \<Rightarrow> 'h http_response \<times> ('m, 's) Engine" where
  "http_response sv result accept compression en =
     (case result of
        Inr data \<Rightarrow>
          (let (data, zip) = (case accept_encoding_str (sv_http sv) accept of
                 Some accepted \<Rightarrow>
                   compress (sv_http sv) (sv_codecs sv) (sv_compressed sv) (en_zip en) data accepted compression
               | None \<Rightarrow> (data, en_zip en))
           in (build_response (sv_http sv) data, en\<lparr>en_zip := zip\<rparr>))
      | Inl logged \<Rightarrow> (logged_into_response (sv_http sv) (sv_seed sv) logged, en))"

fun build_main_http_response ::
    "('m, 'r, 'e, 'h) services \<Rightarrow> ('h StreamInfo \<Rightarrow> string list) \<Rightarrow> ('h MainReply, Logged) result \<Rightarrow> string option \<Rightarrow>
     Settings option \<Rightarrow> ('m, 's) Engine \<Rightarrow> 'h http_response \<times> ('m, 's) Engine" where
  "build_main_http_response sv chunks (Inr (ReplyResponse data)) accept compression en =
     http_response sv (Ok data) accept compression en"
| "build_main_http_response sv chunks (Inr (ReplyStream info)) accept compression en =
     (build_stream_response (sv_http sv) (chunks info) info, en)"
| "build_main_http_response sv chunks (Inl logged) accept compression en =
     http_response sv (Err logged) accept compression en"

subsection \<open>What runs the handler\<close>

datatype SubmitError = SubmitFull | SubmitClosed
datatype TryDispatchError = DispatchFull | DispatchClosed

datatype 'h Verdict = VerdictAccept | VerdictReject "('h ResponseData, Logged) result"

record 'h backend =
  bk_takes :: "nat \<Rightarrow> bool" \<comment> \<open>whether the handler takes the \<open>k\<close>-th chunk of a streamed body in time\<close>
  bk_main :: "Target \<Rightarrow> 'h PyronovaRequest \<Rightarrow> (('h MainReply, Logged) result, JoinError) waited"
  bk_main_streamed :: "Target \<Rightarrow> 'h PyronovaRequest \<Rightarrow> (('h MainReply, Logged) result, JoinError) streamed_wait"
  bk_chunks :: "'h StreamInfo \<Rightarrow> string list" \<comment> \<open>what a stream's receiver yields\<close>
  bk_submit :: "RouteId \<Rightarrow> HandlerKind \<Rightarrow> 'h PyronovaRequest \<Rightarrow> (unit, SubmitError) result"
  bk_pool_reply :: "RouteId \<Rightarrow> 'h PyronovaRequest \<Rightarrow> (('h ResponseData, Logged) result, unit) waited"
  bk_serve :: "RouteId \<Rightarrow> 'h PyronovaRequest \<Rightarrow> ('h ResponseData, HandlerError) result \<times> nat"
    \<comment> \<open>the TPC thread's own worker: its result and the time it took, in nanoseconds\<close>
  bk_async_pool :: bool
  bk_bridge :: bool
  bk_dispatch :: "Target \<Rightarrow> 'h PyronovaRequest \<Rightarrow> (unit, TryDispatchError) result"
  bk_bridge_reply :: "Target \<Rightarrow> 'h PyronovaRequest \<Rightarrow> (('h MainReply, Logged) result, unit) waited"
  bk_bridge_streamed :: "Target \<Rightarrow> 'h PyronovaRequest \<Rightarrow> (('h MainReply, Logged) result, unit) streamed_wait"
  bk_ws_spawn :: "'h PyronovaRequest \<Rightarrow> (unit, string) result"
  bk_ws_verdict :: "'h PyronovaRequest \<Rightarrow> ('h Verdict, unit) waited"

subsection \<open>The main interpreter (\<open>gil.rs\<close>)\<close>

definition main_request ::
    "'h backend \<Rightarrow> 'h RequestHead \<Rightarrow> arrival list \<Rightarrow> RequestBody \<Rightarrow> nat \<Rightarrow> ('h PyronovaRequest \<times> bool, HandlerError) result" where
  "main_request bk head incoming body max_body =
     (case body of
        Streamed \<Rightarrow> Ok (request_new head (BodyStreamed (stream_body_feeder (bk_takes bk) incoming max_body)), True)
      | Buffered \<Rightarrow>
          map_ok (\<lambda>bytes. (request_new head (BodyBuffered bytes), False)) (collect_body incoming max_body))"

definition run_on_main ::
    "('m, 'r, 'e, 'h) services \<Rightarrow> 'h backend \<Rightarrow> ('r, 'py, 'h) Site \<Rightarrow> 'h Prepared \<Rightarrow> Target \<Rightarrow> RequestBody \<Rightarrow> Served \<Rightarrow>
     ('m, 's) Engine \<Rightarrow> 'h http_response \<times> ('m, 's) Engine" where
  "run_on_main sv bk site prepared target body served en =
     (let head = pr_head prepared; config = site_config site; label = head_label head; tag = label_tag label;
          (resp, en) =
            (case main_request bk head (pr_body prepared) body (lim_max_body_bytes (sc_limits config)) of
               Inl e \<Rightarrow> fail sv tag (e, en)
             | Inr (sky_req, feeder) \<Rightarrow>
                 (case (if feeder then await_streamed_reply (bk_main_streamed bk target sky_req) task_lost en
                        else await_reply (bk_main bk target sky_req) task_lost en) of
                    Inr result \<Rightarrow> build_main_http_response sv (bk_chunks bk) result
                                    (accept_encoding_of (sv_http sv) head) (sc_compression config) en
                  | Inl failure \<Rightarrow> fail sv tag failure))
      in finish (sv_http sv) config resp (line_of label) served en)"

definition handle_request ::
    "('m, 'r, 'e, 'h) services \<Rightarrow> 'h backend \<Rightarrow> ('r, 'py, 'h) Site \<Rightarrow> string \<Rightarrow> 'h Parts \<Rightarrow> arrival list \<Rightarrow>
     ('m, 's) Engine \<Rightarrow> ('h http_response \<times> ('m, 's) Engine) option" where
  "handle_request sv bk site client_ip parts body en =
     (case preprocess sv site client_ip parts body en of
        None \<Rightarrow> None
      | Some (Respond r, en) \<Rightarrow> Some (r, en)
      | Some (Dispatched prepared, en) \<Rightarrow>
          (let (target, body) = (case pr_call prepared of
                                   CallWorker rid _ \<Rightarrow> (Route rid, Buffered)
                                 | CallMain target body \<Rightarrow> (target, body))
           in Some (run_on_main sv bk site prepared target body ServedMain en)))"

subsection \<open>The pool (\<open>subinterp.rs\<close>)\<close>

definition ADMISSION_SKIP_BYTES :: nat where "ADMISSION_SKIP_BYTES = 64 * 1024"

text \<open>The end of a permit's life.\<close>

definition drop_permit :: "'s sem_api \<Rightarrow> bool \<Rightarrow> ('m, 's) Engine \<Rightarrow> ('m, 's) Engine" where
  "drop_permit S permit en = (if permit then en\<lparr>en_permits := sem_release S (en_permits en) 1\<rparr> else en)"

definition declared_length :: "'h http_api \<Rightarrow> 'h RequestHead \<Rightarrow> nat" where
  "declared_length H head =
     (case Option.bind (Option.bind (hm_get H (pt_headers (hd_parts head)) CONTENT_LENGTH) (hv_to_str H))
             (parse_uint U64_MAX) of
        Some n \<Rightarrow> n | None \<Rightarrow> 0)"

definition submit_refusal :: "SubmitError \<Rightarrow> Refusal" where
  "submit_refusal e = (case e of SubmitFull \<Rightarrow> Overloaded ''sub-interpreter work queue''
                                | SubmitClosed \<Rightarrow> PoolClosed ''sub-interpreter pool'')"

text \<open>The parts of \<open>run_on_pool\<close> after the early returns: the upfront permit, the body, the work.\<close>

definition submit_and_wait ::
    "('m, 'r, 'e, 'h) services \<Rightarrow> 'h backend \<Rightarrow> 'h RequestHead \<Rightarrow> string \<Rightarrow> RouteId \<Rightarrow> HandlerKind \<Rightarrow>
     Settings option \<Rightarrow> RequestTag \<Rightarrow> ('m, 's) Engine \<Rightarrow> 'h http_response \<times> ('m, 's) Engine" where
  "submit_and_wait sv bk head bytes rid kind compression tag en =
     (let request = request_new head (BodyBuffered bytes)
      in case bk_submit bk rid kind request of
           Inl e \<Rightarrow> fail sv tag (refuse_in (submit_refusal e) en)
         | Inr _ \<Rightarrow>
             (case await_reply (bk_pool_reply bk rid request)
                     (\<lambda>_. refuse_in (WorkerLost ''the sub-interpreter worker dropped the request'')) en of
                Inr result \<Rightarrow> http_response sv result (accept_encoding_of (sv_http sv) head) compression en
              | Inl failure \<Rightarrow> fail sv tag failure))"

definition collect_and_run ::
    "('m, 'r, 'e, 'h) services \<Rightarrow> 's sem_api \<Rightarrow> 'h backend \<Rightarrow> 'h Prepared \<Rightarrow> RouteId \<Rightarrow> HandlerKind \<Rightarrow> nat \<Rightarrow>
     Settings option \<Rightarrow> RequestTag \<Rightarrow> bool \<Rightarrow> ('m, 's) Engine \<Rightarrow> 'h http_response \<times> ('m, 's) Engine" where
  "collect_and_run sv S bk prepared rid kind max_body compression tag upfront en =
     (let (collected, adm) =
            collect_body_with_admission S (pr_body prepared) max_body
              \<lparr>adm_semaphore = en_permits en, adm_skip_bytes = ADMISSION_SKIP_BYTES, adm_permit = upfront,
               adm_dropped = en_dropped en\<rparr>;
          en = en\<lparr>en_permits := adm_semaphore adm, en_dropped := adm_dropped adm\<rparr>
      in case collected of
           Inl e \<Rightarrow> apsnd (drop_permit S (adm_permit adm)) (fail sv tag (e, en))
         | Inr admitted \<Rightarrow>
             apsnd (drop_permit S (ad_permit admitted))
               (submit_and_wait sv bk (pr_head prepared) (ad_body admitted) rid kind compression tag en))"

definition run_on_pool ::
    "('m, 'r, 'e, 'h) services \<Rightarrow> 's sem_api \<Rightarrow> 'h backend \<Rightarrow> 'h Prepared \<Rightarrow> RouteId \<Rightarrow> HandlerKind \<Rightarrow> nat \<Rightarrow>
     Settings option \<Rightarrow> RequestTag \<Rightarrow> ('m, 's) Engine \<Rightarrow> 'h http_response \<times> ('m, 's) Engine" where
  "run_on_pool sv S bk prepared rid kind max_body compression tag en =
     (if ADMISSION_SKIP_BYTES < declared_length (sv_http sv) (pr_head prepared)
      then case sem_try_acquire S (en_permits en) 1 of
             None \<Rightarrow> fail sv tag (refuse_in (Overloaded ''admission permits'') en)
           | Some sem \<Rightarrow>
               collect_and_run sv S bk prepared rid kind max_body compression tag True (en\<lparr>en_permits := sem\<rparr>)
      else collect_and_run sv S bk prepared rid kind max_body compression tag False en)"

definition serve_on_pool ::
    "('m, 'r, 'e, 'h) services \<Rightarrow> 's sem_api \<Rightarrow> 'h backend \<Rightarrow> ('r, 'py, 'h) Site \<Rightarrow> 'h Prepared \<Rightarrow> RouteId \<Rightarrow> HandlerKind \<Rightarrow>
     ('m, 's) Engine \<Rightarrow> 'h http_response \<times> ('m, 's) Engine" where
  "serve_on_pool sv S bk site prepared rid kind en =
     (let label = head_label (pr_head prepared); config = site_config site;
          (resp, en) = run_on_pool sv S bk prepared rid kind (lim_max_body_bytes (sc_limits config))
                         (sc_compression config) (label_tag label) en
      in finish (sv_http sv) config resp (line_of label) ServedPool en)"

definition handle_request_subinterp ::
    "('m, 'r, 'e, 'h) services \<Rightarrow> 's sem_api \<Rightarrow> 'h backend \<Rightarrow> ('r, 'py, 'h) Site \<Rightarrow> string \<Rightarrow> 'h Parts \<Rightarrow> arrival list \<Rightarrow>
     ('m, 's) Engine \<Rightarrow> ('h http_response \<times> ('m, 's) Engine) option" where
  "handle_request_subinterp sv S bk site client_ip parts body en =
     (case preprocess sv site client_ip parts body en of
        None \<Rightarrow> None
      | Some (Respond r, en) \<Rightarrow> Some (r, en)
      | Some (Dispatched prepared, en) \<Rightarrow>
          Some (case pr_call prepared of
                  CallMain target body \<Rightarrow> run_on_main sv bk site prepared target body ServedMain en
                | CallWorker rid kind \<Rightarrow> serve_on_pool sv S bk site prepared rid kind en))"

subsection \<open>A TPC thread (\<open>tpc.rs\<close>)\<close>

definition call_inline ::
    "('m, 'r, 'e, 'h) services \<Rightarrow> 'h backend \<Rightarrow> ('r, 'py, 'h) Site \<Rightarrow> RouteId \<Rightarrow> 'h RequestHead \<Rightarrow> request_body \<Rightarrow>
     RequestLabel \<Rightarrow> ('m, 's) Engine \<Rightarrow> ('h http_response \<times> ('m, 's) Engine) option" where
  "call_inline sv bk site rid head body label en =
     (let (result, took) = bk_serve bk rid (request_new head body);
          overran = REQUEST_BUDGET * 10 ^ 9 < took
      in map_option (\<lambda>(result, en).
             let (result, en) = (case result of
                   Inr data \<Rightarrow> (Ok data, en)
                 | Inl e \<Rightarrow> (let (logged, line) = error_log e (label_tag label)
                             in (Err logged, en\<lparr>en_errors := en_errors en @ [line]\<rparr>)))
             in http_response sv result (accept_encoding_of (sv_http sv) head) (sc_compression (site_config site)) en)
           (if overran
            then map_option (\<lambda>r. apfst Err (refuse_in (Overran (r_name r) took
                     (case result of Inl e \<Rightarrow> Some e | Inr _ \<Rightarrow> None)) en))
                   (route (site_routes site) rid)
            else Some (result, en)))"

definition run_inline ::
    "('m, 'r, 'e, 'h) services \<Rightarrow> 'h backend \<Rightarrow> ('r, 'py, 'h) Site \<Rightarrow> 'h Prepared \<Rightarrow> RouteId \<Rightarrow>
     ('m, 's) Engine \<Rightarrow> ('h http_response \<times> ('m, 's) Engine) option" where
  "run_inline sv bk site prepared rid en =
     (let head = pr_head prepared; label = head_label head; config = site_config site
      in map_option (\<lambda>(resp, en). finish (sv_http sv) config resp (line_of label) ServedInline en)
           (case collect_body (pr_body prepared) (lim_max_body_bytes (sc_limits config)) of
              Inr bytes \<Rightarrow> call_inline sv bk site rid head (BodyBuffered bytes) label en
            | Inl e \<Rightarrow> Some (fail sv (label_tag label) (e, en))))"

definition no_async_pool ::
    "('m, 'r, 'e, 'h) services \<Rightarrow> ('r, 'py, 'h) Site \<Rightarrow> 'h Prepared \<Rightarrow> ('m, 's) Engine \<Rightarrow> 'h http_response \<times> ('m, 's) Engine" where
  "no_async_pool sv site prepared en =
     (let label = head_label (pr_head prepared);
          (resp, en) = fail sv (label_tag label) (refuse_in (WorkerLost ''the async worker pool is not running'') en)
      in finish (sv_http sv) (site_config site) resp (line_of label) ServedPool en)"

definition dispatch_refusal :: "TryDispatchError \<Rightarrow> Refusal" where
  "dispatch_refusal e = (case e of DispatchFull \<Rightarrow> Overloaded ''gil=True bridge queue''
                                  | DispatchClosed \<Rightarrow> PoolClosed ''gil=True bridge'')"

definition dispatch_to_bridge ::
    "('m, 'r, 'e, 'h) services \<Rightarrow> 'h backend \<Rightarrow> 'h RequestHead \<Rightarrow> arrival list \<Rightarrow> Target \<Rightarrow> RequestBody \<Rightarrow> nat \<Rightarrow>
     Settings option \<Rightarrow> RequestTag \<Rightarrow> ('m, 's) Engine \<Rightarrow> 'h http_response \<times> ('m, 's) Engine" where
  "dispatch_to_bridge sv bk head incoming target body max_body compression tag en =
     (case main_request bk head incoming body max_body of
        Inl e \<Rightarrow> fail sv tag (e, en)
      | Inr (request, feeder) \<Rightarrow>
          (case bk_dispatch bk target request of
             Inl e \<Rightarrow> fail sv tag (refuse_in (dispatch_refusal e) en)
           | Inr _ \<Rightarrow>
               (let lost = (\<lambda>_. refuse_in (WorkerLost ''the gil=True bridge dropped the request''))
                in case (if feeder then await_streamed_reply (bk_bridge_streamed bk target request) lost en
                         else await_reply (bk_bridge_reply bk target request) lost en) of
                     Inr result \<Rightarrow> build_main_http_response sv (bk_chunks bk) result
                                     (accept_encoding_of (sv_http sv) head) compression en
                   | Inl failure \<Rightarrow> fail sv tag failure)))"

definition run_on_bridge ::
    "('m, 'r, 'e, 'h) services \<Rightarrow> 'h backend \<Rightarrow> ('r, 'py, 'h) Site \<Rightarrow> 'h Prepared \<Rightarrow> Target \<Rightarrow> RequestBody \<Rightarrow>
     ('m, 's) Engine \<Rightarrow> 'h http_response \<times> ('m, 's) Engine" where
  "run_on_bridge sv bk site prepared target body en =
     (let head = pr_head prepared; label = head_label head; tag = label_tag label; config = site_config site;
          (resp, en) = (if bk_bridge bk
                        then dispatch_to_bridge sv bk head (pr_body prepared) target body
                               (lim_max_body_bytes (sc_limits config)) (sc_compression config) tag en
                        else fail sv tag (refuse_in (WorkerLost ''the main-interpreter bridge is not running'') en))
      in finish (sv_http sv) config resp (line_of label) ServedBridge en)"

definition handle_request_tpc_inline ::
    "('m, 'r, 'e, 'h) services \<Rightarrow> 's sem_api \<Rightarrow> 'h backend \<Rightarrow> ('r, 'py, 'h) Site \<Rightarrow> string \<Rightarrow> 'h Parts \<Rightarrow> arrival list \<Rightarrow>
     ('m, 's) Engine \<Rightarrow> ('h http_response \<times> ('m, 's) Engine) option" where
  "handle_request_tpc_inline sv S bk site client_ip parts body en =
     (case preprocess sv site client_ip parts body en of
        None \<Rightarrow> None
      | Some (Respond r, en) \<Rightarrow> Some (r, en)
      | Some (Dispatched prepared, en) \<Rightarrow>
          (case pr_call prepared of
             CallWorker rid Sync \<Rightarrow> run_inline sv bk site prepared rid en
           | CallWorker rid Async \<Rightarrow>
               Some (if bk_async_pool bk then serve_on_pool sv S bk site prepared rid Async en
                     else no_async_pool sv site prepared en)
           | CallMain target body \<Rightarrow> Some (run_on_bridge sv bk site prepared target body en)))"

subsection \<open>The WebSocket upgrade\<close>

definition wants_websocket :: "'h http_api \<Rightarrow> ('r, 'py, 'h) Site \<Rightarrow> 'h Parts \<Rightarrow> bool" where
  "wants_websocket H site parts \<longleftrightarrow>
     (case hm_get H (pt_headers parts) UPGRADE of Some v \<Rightarrow> eq_ignore_ascii_case v ''websocket'' | None \<Rightarrow> False) \<and>
     map_of (rt_ws_handlers (site_routes site)) (pt_path parts) \<noteq> None"

text \<open>
  \<open>answer_upgrade\<close>: the response, and whether the connection goes on. The slot is released when its
  thread has been joined: before the response when a hook refused the upgrade, and on a thread that did
  not start; otherwise when the connection ends, which is after this function.
\<close>

definition answer_upgrade ::
    "('m, 'r, 'e, 'h) services \<Rightarrow> 'h backend \<Rightarrow> ('r, 'py, 'h) Site \<Rightarrow> string \<Rightarrow> 'h RequestHead \<Rightarrow> RequestTag \<Rightarrow>
     ('m, 's) Engine \<Rightarrow> 'h http_response \<times> ('m, 's) Engine" where
  "answer_upgrade sv bk site key head tag en =
     (let config = site_config site;
          released = (\<lambda>en. en\<lparr>en_ws_open := slot_drop (en_ws_open en)\<rparr>)
      in case slot_try_acquire (en_ws_open en) (ws_max_connections (lim_ws (sc_limits config))) of
           None \<Rightarrow> fail sv tag (refuse_in (Overloaded ''websocket connections'') en)
         | Some opened \<Rightarrow>
             (let en = en\<lparr>en_ws_open := opened\<rparr>; request = request_new head (BodyBuffered [])
              in case bk_ws_spawn bk request of
                   Inl e \<Rightarrow> fail sv tag (ThreadSpawn e, released en)
                 | Inr _ \<Rightarrow>
                     (case await_reply (bk_ws_verdict bk request)
                             (\<lambda>_. refuse_in (WorkerLost ''the websocket handler thread exited before the upgrade'')) en of
                        Inr VerdictAccept \<Rightarrow> (ws_upgrade_response (sv_http sv) (sv_accept_key sv) key, en)
                      | Inr (VerdictReject response) \<Rightarrow>
                          http_response sv response (accept_encoding_of (sv_http sv) head) (sc_compression config) (released en)
                      | Inl failure \<Rightarrow> fail sv tag failure)))"

definition handle_websocket ::
    "('m, 'r, 'e, 'h) services \<Rightarrow> 'h backend \<Rightarrow> ('r, 'py, 'h) Site \<Rightarrow> string \<Rightarrow> 'h Parts \<Rightarrow>
     ('m, 's) Engine \<Rightarrow> 'h http_response \<times> ('m, 's) Engine" where
  "handle_websocket sv bk site client_ip parts en =
     (let H = sv_http sv; config = site_config site; en = count_request en;
          (request_id, ids) = request_id_of H (pt_headers parts) (sc_request_id_header config) (en_ids en) (sv_tid sv);
          en = en\<lparr>en_ids := ids\<rparr>;
          head = \<lparr>hd_parts = parts, hd_params = [], hd_client_ip = client_ip, hd_request_id = request_id\<rparr>;
          label = head_label head;
          (resp, en) = (case handshake_parse H parts of
                          Inr key \<Rightarrow> answer_upgrade sv bk site key head (label_tag label) en
                        | Inl e \<Rightarrow> (handshake_error_response H e, en))
      in finish H config resp (line_of label) ServedWebSocket en)"

subsection \<open>What a serving path does to the engine\<close>

text \<open>
  A failure before the response is finished: an error that is not a refusal, or a refusal counted once.
\<close>

definition failing :: "('m, 's) Engine \<Rightarrow> HandlerError \<times> ('m, 's) Engine \<Rightarrow> bool" where
  "failing en f \<longleftrightarrow> (\<exists>r. f = refuse_in r en) \<or> (\<exists>e. f = (e, en) \<and> (\<forall>r. e \<noteq> Refused r))"

text \<open>
  The responses of a request that the engine does not fail: its own answers (a fast response, a file, 404 and 405, the
  benchmark's, those of the handshake), and those made of what the code that ran the handler replied, which has logged the error it replies.
\<close>

fun is_refused :: "HandlerError \<Rightarrow> bool" where
  "is_refused (Refused _) = True"
| "is_refused _ = False"

definition replied :: "'h backend \<Rightarrow> ('h MainReply, Logged) result \<Rightarrow> bool" where
  "replied bk reply \<longleftrightarrow>
     (\<exists>target rq. bk_main bk target rq = Replied (Ok reply) \<or>
        bk_main_streamed bk target rq \<in> {RepliedFirst (Ok reply), BodyDone (Replied (Ok reply))} \<or>
        bk_bridge_reply bk target rq = Replied (Ok reply) \<or>
        bk_bridge_streamed bk target rq \<in> {RepliedFirst (Ok reply), BodyDone (Replied (Ok reply))}) \<or>
     (\<exists>r rid rq. reply = map_ok ReplyResponse r \<and>
        (bk_pool_reply bk rid rq = Replied (Ok r) \<or> bk_ws_verdict bk rq = Replied (Ok (VerdictReject r)))) \<or>
     (\<exists>data rid rq. reply = Ok (ReplyResponse data) \<and> fst (bk_serve bk rid rq) = Ok data)"

fun rendered ::
    "('m, 'r, 'e, 'h) services \<Rightarrow> ('h StreamInfo \<Rightarrow> string list) \<Rightarrow> ('h MainReply, Logged) result \<Rightarrow> 'h http_response \<Rightarrow> bool" where
  "rendered sv chunks (Inr (ReplyResponse data)) raw \<longleftrightarrow>
     raw = build_response (sv_http sv) data \<or>
     (\<exists>accepted compression zip.
        raw = build_response (sv_http sv)
                (fst (compress (sv_http sv) (sv_codecs sv) (sv_compressed sv) zip data accepted compression)))"
| "rendered sv chunks (Inr (ReplyStream info)) raw \<longleftrightarrow> raw = build_stream_response (sv_http sv) (chunks info) info"
| "rendered sv chunks (Inl logged) raw \<longleftrightarrow> raw = logged_into_response (sv_http sv) (sv_seed sv) logged"

definition answered ::
    "('m, 'r, 'e, 'h) services \<Rightarrow> 'h backend \<Rightarrow> ('r, 'py, 'h) Site \<Rightarrow> 'h Parts \<Rightarrow> arrival list \<Rightarrow> 'h http_response \<Rightarrow> bool" where
  "answered sv bk site parts body raw \<longleftrightarrow>
     (let H = sv_http sv; routes = site_routes site
      in (\<exists>reply. replied bk reply \<and> rendered sv (bk_chunks bk) reply raw) \<or>
         (\<exists>fast. fast_response routes (pt_method parts) (pt_path parts) = Some fast \<and> raw = fast_to_response H fast) \<or>
         (\<exists>cache. fst (try_static_file (sv_dash sv) H (sv_path_decode sv) (sv_fs sv) cache (pt_path parts)
                         (rt_static_dirs routes)) = Some raw) \<or>
         (\<exists>allow. allowed_methods (sv_router sv) H routes (pt_path parts) = Some allow \<and> raw = method_not_allowed_response H allow) \<or>
         allowed_methods (sv_router sv) H routes (pt_path parts) = None \<and> raw = not_found_response H \<or>
         is_get_sum_call H parts \<and>
           raw = handle_get_sum H (sv_percent_encode sv) body (lim_max_body_bytes (sc_limits (site_config site))) \<or>
         (case handshake_parse H parts of
            Inr key \<Rightarrow> raw = ws_upgrade_response H (sv_accept_key sv) key
          | Inl e \<Rightarrow> raw = handshake_error_response H e))"

text \<open>
  What the error log and the count of dropped requests say of a request that ends in the response \<open>raw\<close>: the request is not failed,
  nothing is logged and nothing counted; or there is one line, which names the request and the error that \<open>raw\<close>
  answers, and one more drop when that error is a refusal.
\<close>

definition logged_as ::
    "('m, 'r, 'e, 'h) services \<Rightarrow> ('h http_response \<Rightarrow> bool) \<Rightarrow> RequestLine \<Rightarrow> ('m, 's) Engine \<Rightarrow> 'h http_response \<Rightarrow>
     ('m, 's) Engine \<Rightarrow> bool" where
  "logged_as sv unfailed line en raw en' \<longleftrightarrow>
     (unfailed raw \<and> en_errors en' = en_errors en \<and> en_dropped en' = en_dropped en) \<or>
     (\<exists>l. en_errors en' = en_errors en @ [l] \<and> ll_method l = ln_method line \<and> ll_path l = ln_path line \<and>
        raw = handler_error_response (sv_http sv) (sv_seed sv) (ll_id l) (ll_error l) \<and>
        en_dropped en' = en_dropped en + (if is_refused (ll_error l) then 1 else 0))"

definition accounted ::
    "('m, 'r, 'e, 'h) services \<Rightarrow> 'h backend \<Rightarrow> ('r, 'py, 'h) Site \<Rightarrow> 'h Parts \<Rightarrow> arrival list \<Rightarrow> ('m, 's) Engine \<Rightarrow>
     'h http_response \<Rightarrow> ('m, 's) Engine \<Rightarrow> bool" where
  "accounted sv bk site parts body en resp en' \<longleftrightarrow>
     (let line = \<lparr>ln_method = pt_method parts, ln_path = pt_path parts\<rparr>
      in \<exists>raw served en1. finish (sv_http sv) (site_config site) raw line served en1 = (resp, en') \<and>
           logged_as sv (answered sv bk site parts body) line en raw en')"

text \<open>What a serving path does before \<open>finish\<close>: nothing to the access log, and what the error log says.\<close>

definition quiet ::
    "('m, 'r, 'e, 'h) services \<Rightarrow> ('h http_response \<Rightarrow> bool) \<Rightarrow> RequestLine \<Rightarrow> ('m, 's) Engine \<Rightarrow>
     'h http_response \<times> ('m, 's) Engine \<Rightarrow> bool" where
  "quiet sv ok line en r \<longleftrightarrow>
     en_access (snd r) = en_access en \<and> en_roll (snd r) = en_roll en \<and>
     logged_as sv ok line en (fst r) (snd r)"

lemma quiet_same:
  "en_access en' = en_access en \<Longrightarrow> en_roll en' = en_roll en \<Longrightarrow> en_errors en' = en_errors en \<Longrightarrow>
   en_dropped en' = en_dropped en \<Longrightarrow> ok resp \<Longrightarrow> quiet sv ok line en (resp, en')"
  by (simp add: quiet_def logged_as_def)

lemma quiet_fields [simp]:
  "quiet sv ok line (en\<lparr>en_permits := p\<rparr>) r = quiet sv ok line en r"
  "quiet sv ok line (en\<lparr>en_ws_open := n\<rparr>) r = quiet sv ok line en r"
  "quiet sv ok line (en\<lparr>en_ids := ids\<rparr>) r = quiet sv ok line en r"
  "quiet sv ok line (en\<lparr>en_cache := c\<rparr>) r = quiet sv ok line en r"
  "quiet sv ok line (count_request en) r = quiet sv ok line en r"
  by (simp_all add: quiet_def logged_as_def count_request_def)

lemma quiet_drop_permit [simp]: "quiet sv ok line en (apsnd (drop_permit S p) r) = quiet sv ok line en r"
  by (simp add: quiet_def logged_as_def drop_permit_def)

lemma not_refused: "(\<And>r. e \<noteq> Refused r) \<Longrightarrow> \<not> is_refused e" by (cases e) auto

lemma quiet_fail:
  assumes "failing en f"
  shows "quiet sv ok (line_of label) en (fail sv (label_tag label) f)"
proof -
  have "logged_as sv ok (line_of label) en (fst (fail sv (label_tag label) f)) (snd (fail sv (label_tag label) f))"
    unfolding logged_as_def using assms
    by (intro disjI2)
       (auto simp: failing_def fail_def refuse_in_def refuse_def error_log_def
          logged_into_response_def line_of_def label_tag_def not_refused split: prod.splits)
  moreover have "en_access (snd (fail sv (label_tag label) f)) = en_access en \<and>
      en_roll (snd (fail sv (label_tag label) f)) = en_roll en"
    using assms by (auto simp: failing_def fail_def refuse_in_def refuse_def error_log_def split: prod.splits)
  ultimately show ?thesis by (simp add: quiet_def)
qed

lemma failing_refuse [simp]: "failing en (refuse_in r en)" by (auto simp: failing_def)

lemma failing_other: "(\<And>r. e \<noteq> Refused r) \<Longrightarrow> failing en (e, en)" by (auto simp: failing_def)

lemma failing_task_lost [simp]: "failing en (task_lost e en)"
  by (cases e) (simp_all add: failing_other handler_error_panic_def)

lemma await_reply_failing:
  "await_reply reply lost en = Err f \<Longrightarrow> (\<And>e. failing en (lost e en)) \<Longrightarrow> failing en f"
  by (induction reply lost en rule: await_reply.induct) auto

lemma await_streamed_reply_failing:
  "await_streamed_reply reply lost en = Err f \<Longrightarrow> (\<And>e. failing en (lost e en)) \<Longrightarrow> failing en f"
  by (induction reply lost en rule: await_streamed_reply.induct) (auto intro: await_reply_failing)

lemma http_response_Err [simp]:
  "http_response sv (Err l) accept compression en = (logged_into_response (sv_http sv) (sv_seed sv) l, en)"
  by (simp add: http_response_def)

lemma http_response_quiet:
  assumes "\<And>raw. rendered sv chunks (map_ok ReplyResponse result) raw \<Longrightarrow> ok raw"
  shows "quiet sv ok line en (http_response sv result accept compression en)"
proof (cases result)
  case (Inl logged)
  with assms show ?thesis by (simp add: http_response_def quiet_same)
next
  case (Inr data)
  let ?zipped = "compress (sv_http sv) (sv_codecs sv) (sv_compressed sv) (en_zip en) data"
  have "ok (build_response (sv_http sv) data)" using Inr assms by simp
  moreover have "ok (build_response (sv_http sv) (fst (?zipped a compression)))" for a using Inr assms by auto
  ultimately show ?thesis using Inr
    by (cases "accept_encoding_str (sv_http sv) accept") (auto simp: http_response_def case_prod_unfold Let_def intro!: quiet_same)
qed

lemma answered_reply: "replied bk reply \<Longrightarrow> rendered sv (bk_chunks bk) reply raw \<Longrightarrow> answered sv bk site parts body raw"
  by (auto simp: answered_def Let_def)

lemma replied_quiet:
  assumes "replied bk (map_ok ReplyResponse result)"
  shows "quiet sv (answered sv bk site parts body) line en (http_response sv result accept compression en)"
  by (rule http_response_quiet [where chunks = "bk_chunks bk"]) (rule answered_reply [OF assms])

lemma build_main_quiet:
  assumes "replied bk reply"
  shows "quiet sv (answered sv bk site parts body) line en
     (build_main_http_response sv (bk_chunks bk) reply accept compression en)"
proof (cases reply)
  case (Inl logged)
  with assms replied_quiet [of bk "Err logged"] show ?thesis by simp
next
  case (Inr r)
  with assms replied_quiet [of bk "Ok data" for data] show ?thesis
    by (cases r) (auto intro!: quiet_same answered_reply [OF assms])
qed

lemma awaited:
  "await_reply reply lost en = Ok v \<Longrightarrow> reply = Replied (Ok v)"
  by (induction reply lost en rule: await_reply.induct) auto

lemma awaited_streamed:
  "await_streamed_reply reply lost en = Ok v \<Longrightarrow> reply \<in> {RepliedFirst (Ok v), BodyDone (Replied (Ok v))}"
  by (induction reply lost en rule: await_streamed_reply.induct) (auto dest: awaited)

lemma repliedI:
  "bk_main bk target rq = Replied (Ok reply) \<Longrightarrow> replied bk reply"
  "bk_main_streamed bk target rq \<in> {RepliedFirst (Ok reply), BodyDone (Replied (Ok reply))} \<Longrightarrow> replied bk reply"
  "bk_bridge_reply bk target rq = Replied (Ok reply) \<Longrightarrow> replied bk reply"
  "bk_bridge_streamed bk target rq \<in> {RepliedFirst (Ok reply), BodyDone (Replied (Ok reply))} \<Longrightarrow> replied bk reply"
  "bk_pool_reply bk rid rq = Replied (Ok r) \<Longrightarrow> replied bk (map_ok ReplyResponse r)"
  "bk_ws_verdict bk rq = Replied (Ok (VerdictReject r)) \<Longrightarrow> replied bk (map_ok ReplyResponse r)"
  "fst (bk_serve bk rid rq) = Ok data \<Longrightarrow> replied bk (Ok (ReplyResponse data))"
  unfolding replied_def by blast+

lemma collect_body_failing: "collect_body incoming mx = Err e \<Longrightarrow> failing en (e, en)"
  by (auto simp: collect_body_def map_err_def intro!: failing_other split: sum.splits)

subsection \<open>Every path ends in \<open>finish\<close>\<close>

definition parts_line :: "'h Parts \<Rightarrow> RequestLine" where
  "parts_line parts = \<lparr>ln_method = pt_method parts, ln_path = pt_path parts\<rparr>"

text \<open>A response that was finished once, after nothing but the quiet part of a serving path.\<close>

definition served_once ::
    "('m, 'r, 'e, 'h) services \<Rightarrow> ('h http_response \<Rightarrow> bool) \<Rightarrow> ('r, 'py, 'h) Site \<Rightarrow> RequestLine \<Rightarrow> ('m, 's) Engine \<Rightarrow>
     'h http_response \<times> ('m, 's) Engine \<Rightarrow> bool" where
  "served_once sv ok site line en r \<longleftrightarrow>
     (\<exists>raw served en1. r = finish (sv_http sv) (site_config site) raw line served en1 \<and> quiet sv ok line en (raw, en1))"

lemma served_once_finish:
  "quiet sv ok line en x \<Longrightarrow>
   served_once sv ok site line en (case x of (resp, en') \<Rightarrow> finish (sv_http sv) (site_config site) resp line served en')"
  unfolding served_once_def by (metis case_prod_unfold prod.collapse)

lemma served_once_fields [simp]:
  "served_once sv ok site line (en\<lparr>en_ids := ids\<rparr>) r = served_once sv ok site line en r"
  "served_once sv ok site line (en\<lparr>en_cache := c\<rparr>) r = served_once sv ok site line en r"
  "served_once sv ok site line (count_request en) r = served_once sv ok site line en r"
  by (simp_all add: served_once_def)

lemmas failures = quiet_fail await_reply_failing await_streamed_reply_failing collect_body_failing

lemma main_request_failing: "main_request bk head incoming body mx = Err e \<Longrightarrow> failing en (e, en)"
  by (auto simp: main_request_def map_ok_def intro: collect_body_failing split: RequestBody.splits sum.splits)

lemma run_on_main_once:
  "served_once sv (answered sv bk site' parts' body') site (line_of (head_label (pr_head prepared))) en
     (run_on_main sv bk site prepared target body served en)"
  unfolding run_on_main_def Let_def
  by (rule served_once_finish)
     (auto intro!: quiet_fail build_main_quiet intro: main_request_failing failures dest!: awaited awaited_streamed intro: repliedI
       split: sum.splits if_splits)

lemma submit_quiet [simp]:
  "quiet sv (answered sv bk site' parts' body') (line_of label) en (submit_and_wait sv bk head bytes rid kind compression (label_tag label) en)"
  by (auto simp: submit_and_wait_def Let_def intro!: quiet_fail replied_quiet intro: failures repliedI dest!: awaited split: sum.splits)

lemma collect_and_run_quiet:
  assumes S: "semaphore S" and mx: "max_body < USIZE_MAX"
  shows "quiet sv (answered sv bk site' parts' body') (line_of label) en
     (collect_and_run sv S bk prepared rid kind max_body compression (label_tag label) upfront en)"
proof -
  obtain out adm where c: "collect_body_with_admission S (pr_body prepared) max_body
      \<lparr>adm_semaphore = en_permits en, adm_skip_bytes = ADMISSION_SKIP_BYTES, adm_permit = upfront,
       adm_dropped = en_dropped en\<rparr> = (out, adm)" by force
  let ?en = "en\<lparr>en_permits := adm_semaphore adm, en_dropped := adm_dropped adm\<rparr>"
  show ?thesis
  proof (cases out)
    case (Inl e)
    then have "failing (en\<lparr>en_permits := adm_semaphore adm\<rparr>) (e, ?en)"
      using admission_outcome [OF S mx c]
      by (auto simp: failing_def refuse_in_def refuse_def intro!: exI [of _ "Overloaded ''admission permits''"])
    from quiet_fail [OF this] Inl c show ?thesis by (simp add: collect_and_run_def Let_def)
  next
    case (Inr ad)
    then have "?en = en\<lparr>en_permits := adm_semaphore adm\<rparr>"
      using admission_outcome [OF S mx c] by simp
    with Inr c submit_quiet [where en = "en\<lparr>en_permits := adm_semaphore adm\<rparr>"] show ?thesis
      by (simp add: collect_and_run_def Let_def del: submit_quiet)
  qed
qed

lemma run_on_pool_quiet:
  assumes "semaphore S" and "max_body < USIZE_MAX"
  shows "quiet sv (answered sv bk site' parts' body') (line_of label) en (run_on_pool sv S bk prepared rid kind max_body compression (label_tag label) en)"
  using collect_and_run_quiet [OF assms, where en = "en\<lparr>en_permits := p\<rparr>" for p] collect_and_run_quiet [OF assms]
  by (auto simp: run_on_pool_def quiet_fail split: option.splits)

lemma serve_on_pool_once:
  assumes "semaphore S" and "lim_max_body_bytes (sc_limits (site_config site)) < USIZE_MAX"
  shows "served_once sv (answered sv bk site' parts' body') site (line_of (head_label (pr_head prepared))) en
     (serve_on_pool sv S bk site prepared rid kind en)"
  unfolding serve_on_pool_def Let_def by (rule served_once_finish) (rule run_on_pool_quiet [OF assms])

text \<open>The TPC thread's own worker raises errors of the handler; only \<open>refuse\<close> makes a refusal.\<close>

definition plain_worker :: "'h backend \<Rightarrow> bool" where
  "plain_worker bk \<longleftrightarrow> (\<forall>rid rq e. fst (bk_serve bk rid rq) = Err e \<longrightarrow> \<not> is_refused e)"

lemma call_inline_cases:
  assumes "call_inline sv bk site rid head body label en = Some r"
  obtains (refused) rr where "r = fail sv (label_tag label) (refuse_in rr en)"
  | (replied) d where "fst (bk_serve bk rid (request_new head body)) = Ok d"
      "r = http_response sv (Ok d) (accept_encoding_of (sv_http sv) head) (sc_compression (site_config site)) en"
  | (failed) e where "fst (bk_serve bk rid (request_new head body)) = Err e" "r = fail sv (label_tag label) (e, en)"
proof -
  obtain result took where b: "bk_serve bk rid (request_new head body) = (result, took)" by force
  have "(\<exists>rr. r = fail sv (label_tag label) (refuse_in rr en)) \<or>
      (\<exists>d. result = Ok d \<and> r = http_response sv (Ok d) (accept_encoding_of (sv_http sv) head) (sc_compression (site_config site)) en) \<or>
      (\<exists>e. result = Err e \<and> r = fail sv (label_tag label) (e, en))"
    using assms b
    by (cases result)
       (auto simp: call_inline_def Let_def case_prod_unfold refuse_in_def refuse_def fail_def split: if_splits)
  with b that show thesis by auto
qed

lemma call_inline_quiet:
  assumes r: "call_inline sv bk site rid head body label en = Some r" and plain: "plain_worker bk"
  shows "quiet sv (answered sv bk site' parts' body') (line_of label) en r"
  using r
proof (cases rule: call_inline_cases)
  case (failed e)
  with plain have "failing en (e, en)" by (metis failing_other is_refused.simps(1) plain_worker_def)
  with failed quiet_fail show ?thesis by blast
next
  case (replied d)
  with repliedI(7) [OF replied(1)] replied_quiet [of bk "Ok d"] show ?thesis by simp
qed (simp add: quiet_fail)

lemma run_inline_once:
  assumes r: "run_inline sv bk site prepared rid en = Some r" and "plain_worker bk"
  shows "served_once sv (answered sv bk site' parts' body') site (line_of (head_label (pr_head prepared))) en r"
proof -
  let ?label = "head_label (pr_head prepared)"
  obtain x where x: "(case collect_body (pr_body prepared) (lim_max_body_bytes (sc_limits (site_config site))) of
        Inr bytes \<Rightarrow> call_inline sv bk site rid (pr_head prepared) (BodyBuffered bytes) ?label en
      | Inl e \<Rightarrow> Some (fail sv (label_tag ?label) (e, en))) = Some x"
    and "r = (case x of (resp, en') \<Rightarrow> finish (sv_http sv) (site_config site) resp (line_of ?label) ServedInline en')"
    using r by (auto simp: run_inline_def Let_def)
  moreover from x have "quiet sv (answered sv bk site' parts' body') (line_of ?label) en x"
    using call_inline_quiet [OF _ assms(2), of sv site rid "pr_head prepared" _ ?label en x]
    by (cases "collect_body (pr_body prepared) (lim_max_body_bytes (sc_limits (site_config site)))")
       (auto intro!: quiet_fail intro: failures)
  ultimately show ?thesis using served_once_finish by blast
qed

lemma no_async_pool_once:
  "served_once sv (answered sv bk site' parts' body') site (line_of (head_label (pr_head prepared))) en (no_async_pool sv site prepared en)"
  unfolding no_async_pool_def Let_def by (rule served_once_finish) (simp add: quiet_fail)

lemma run_on_bridge_once:
  "served_once sv (answered sv bk site' parts' body') site (line_of (head_label (pr_head prepared))) en
     (run_on_bridge sv bk site prepared target body en)"
  unfolding run_on_bridge_def Let_def
  by (rule served_once_finish)
     (auto simp: dispatch_to_bridge_def Let_def intro!: quiet_fail build_main_quiet intro: main_request_failing failures repliedI
       dest!: awaited awaited_streamed split: sum.splits if_splits)

lemma answer_upgrade_quiet:
  assumes "handshake_parse (sv_http sv) parts' = Ok key"
  shows "quiet sv (answered sv bk site' parts' body') (line_of label) en (answer_upgrade sv bk site key head (label_tag label) en)"
proof (cases "slot_try_acquire (en_ws_open en) (ws_max_connections (lim_ws (sc_limits (site_config site))))")
  case None
  then show ?thesis by (simp add: answer_upgrade_def Let_def quiet_fail)
next
  case (Some opened)
  have q: "quiet sv (answered sv bk site' parts' body') (line_of label) (en\<lparr>en_ws_open := n\<rparr>) x \<Longrightarrow> quiet sv (answered sv bk site' parts' body') (line_of label) en x" for n x by simp
  have thread: "failing (en\<lparr>en_ws_open := n\<rparr>) (ThreadSpawn e, en\<lparr>en_ws_open := n\<rparr>)" for e n
    by (rule failing_other) simp
  have reject: "quiet sv (answered sv bk site' parts' body') (line_of label) en (http_response sv reply accept z (en\<lparr>en_ws_open := n\<rparr>))"
    if "await_reply (bk_ws_verdict bk rq) lost en1 = Ok (VerdictReject reply)" for reply accept z n rq lost and en1 :: "('m, 's) Engine"
    by (rule q) (rule replied_quiet [OF repliedI(6) [OF awaited [OF that]]])
  have upgrade: "answered sv bk site' parts' body' (ws_upgrade_response (sv_http sv) (sv_accept_key sv) key)"
    using assms by (simp add: answered_def)
  from Some show ?thesis
    by (auto simp: answer_upgrade_def Let_def upgrade intro!: quiet_same q [OF quiet_fail] intro: failures thread reject
        split: sum.splits Verdict.splits)
qed

lemma finish_log:
  assumes "finish H config resp line served en = (resp', en')"
  shows "rsp_status resp' = rsp_status resp \<and>
     en_errors en' = en_errors en \<and> en_dropped en' = en_dropped en \<and>
     (ln_method line = ''HEAD'' \<longrightarrow> rsp_body resp' = EmptyBody) \<and>
     (ln_method line \<noteq> ''HEAD'' \<longrightarrow> rsp_body resp' = rsp_body resp) \<and>
     (let (logs, roll) = samples (sc_access_log config) (en_roll en) (rsp_status resp)
      in en_roll en' = roll \<and> en_access en' = en_access en @
           (if logs then [\<lparr>ac_method = ln_method line, ac_path = ln_path line, ac_status = rsp_status resp,
                           ac_mode = served_label served\<rparr>] else []))"
  using assms by (auto simp: finish_def without_body_def Let_def split: prod.splits option.splits if_splits)

lemma served_once_plain:
  "ok resp \<Longrightarrow> served_once sv ok site line en (finish (sv_http sv) (site_config site) resp line served en)"
  using served_once_finish [of sv ok line en "(resp, en)"] quiet_same [of en en] by force

lemma unrouted_cache: "unrouted sv site parts en = (u, en') \<Longrightarrow> \<exists>c. en' = en\<lparr>en_cache := c\<rparr>"
  by (auto simp: unrouted_def Let_def split: prod.splits option.splits)

lemma unrouted_answered:
  "unrouted sv site parts en = (u, en') \<Longrightarrow>
     \<forall>raw. u = UnroutedRespond raw \<longrightarrow> answered sv bk site parts body raw"
  by (auto simp: unrouted_def answered_def Let_def split: prod.splits option.splits if_splits) (metis fst_conv)+

lemma get_sum_call_line:
  "is_get_sum_call H parts \<Longrightarrow> \<lparr>ln_method = ''POST'', ln_path = GET_SUM_PATH\<rparr> = parts_line parts"
  by (simp add: is_get_sum_call_def parts_line_def)

lemma dispatched_line:
  "line_of (head_label \<lparr>hd_parts = parts, hd_params = ps, hd_client_ip = ip, hd_request_id = i\<rparr>) = parts_line parts"
  by (simp add: line_of_def head_label_def parts_line_def)

lemma preprocess_served:
  assumes "preprocess sv site ip parts body en = Some (out, en')"
  shows "case out of
      Respond resp \<Rightarrow> served_once sv (answered sv bk site parts body) site (parts_line parts) en (resp, en')
    | Dispatched prepared \<Rightarrow> line_of (head_label (pr_head prepared)) = parts_line parts \<and>
        (\<forall>r. served_once sv (answered sv bk site parts body) site (parts_line parts) en' r \<longrightarrow> served_once sv (answered sv bk site parts body) site (parts_line parts) en r)"
proof -
  have once: "finish (sv_http sv) (site_config site) raw (parts_line parts) served eng = (resp, en') \<Longrightarrow>
      answered sv bk site parts body raw \<Longrightarrow>
      served_once sv (answered sv bk site parts body) site (parts_line parts) eng (resp, en')" for raw served eng resp
    by (metis served_once_plain)
  have unrouted_both: "unrouted sv site parts eng = (u, eng') \<Longrightarrow> (\<exists>c. eng' = eng\<lparr>en_cache := c\<rparr>) \<and>
      (\<forall>raw. u = UnroutedRespond raw \<longrightarrow> answered sv bk site parts body raw)" for u eng eng'
    using unrouted_cache unrouted_answered by blast
  have own: "fast_response (site_routes site) (pt_method parts) (pt_path parts) = Some fast \<Longrightarrow>
        answered sv bk site parts body (fast_to_response (sv_http sv) fast)"
      "is_get_sum_call (sv_http sv) parts \<Longrightarrow> answered sv bk site parts body
        (handle_get_sum (sv_http sv) (sv_percent_encode sv) body (lim_max_body_bytes (sc_limits (site_config site))))" for fast
    by (auto simp: answered_def)
  show ?thesis
    using assms once [where eng = "count_request en"] once [where eng = "(count_request en)\<lparr>en_cache := c\<rparr>" for c]
    unfolding preprocess_def Let_def parts_line_def [symmetric]
    by (auto simp: grpc_get_sum_def Let_def get_sum_call_line dispatched_line apfst_def map_prod_def
       dest!: unrouted_both intro: own
       split: if_splits option.splits prod.splits Unrouted.splits Preprocessed.splits)
qed

lemma preprocessed_once:
  assumes "preprocess sv site ip parts body en = Some (out, en1)"
    and "\<And>resp. out = Respond resp \<Longrightarrow> r = (resp, en1)"
    and "\<And>prepared. out = Dispatched prepared \<Longrightarrow> served_once sv (answered sv bk site parts body) site (line_of (head_label (pr_head prepared))) en1 r"
  shows "served_once sv (answered sv bk site parts body) site (parts_line parts) en r"
  using preprocess_served [OF assms(1)] assms(2,3) by (cases r; cases out) auto

lemma handle_request_once:
  assumes "handle_request sv bk site ip parts body en = Some r"
  shows "served_once sv (answered sv bk site parts body) site (parts_line parts) en r"
proof (cases "preprocess sv site ip parts body en")
  case (Some p)
  obtain out en1 where "p = (out, en1)" by force
  with Some assms show ?thesis
    by (auto simp: handle_request_def Let_def case_prod_unfold run_on_main_once intro!: preprocessed_once)
qed (use assms in \<open>simp add: handle_request_def\<close>)

lemma handle_request_subinterp_once:
  assumes "handle_request_subinterp sv S bk site ip parts body en = Some r"
    and S: "semaphore S" "lim_max_body_bytes (sc_limits (site_config site)) < USIZE_MAX"
  shows "served_once sv (answered sv bk site parts body) site (parts_line parts) en r"
proof (cases "preprocess sv site ip parts body en")
  case (Some p)
  obtain out en1 where "p = (out, en1)" by force
  with Some assms(1) show ?thesis
    by (auto simp: handle_request_subinterp_def Let_def run_on_main_once serve_on_pool_once [OF S]
        intro!: preprocessed_once split: Call.splits)
qed (use assms in \<open>simp add: handle_request_subinterp_def\<close>)

lemma handle_request_tpc_inline_once:
  assumes "handle_request_tpc_inline sv S bk site ip parts body en = Some r"
    and S: "semaphore S" "lim_max_body_bytes (sc_limits (site_config site)) < USIZE_MAX" and plain: "plain_worker bk"
  shows "served_once sv (answered sv bk site parts body) site (parts_line parts) en r"
proof (cases "preprocess sv site ip parts body en")
  case (Some p)
  obtain out en1 where "p = (out, en1)" by force
  with Some assms(1) show ?thesis
    by (auto simp: handle_request_tpc_inline_def Let_def run_on_bridge_once no_async_pool_once serve_on_pool_once [OF S]
        intro!: preprocessed_once intro: run_inline_once [OF _ plain] split: Call.splits HandlerKind.splits if_splits)
qed (use assms in \<open>simp add: handle_request_tpc_inline_def\<close>)

lemma handle_websocket_once:
  "served_once sv (answered sv bk site parts body) site (parts_line parts) en (handle_websocket sv bk site ip parts en)"
proof -
  let ?H = "sv_http sv" and ?config = "site_config site" and ?en = "count_request en"
  obtain i ids where i: "request_id_of ?H (pt_headers parts) (sc_request_id_header ?config) (en_ids ?en) (sv_tid sv) = (i, ids)"
    by force
  let ?head = "\<lparr>hd_parts = parts, hd_params = [], hd_client_ip = ip, hd_request_id = i\<rparr>"
  let ?label = "head_label ?head"
  have "quiet sv (answered sv bk site parts body) (line_of ?label) (?en\<lparr>en_ids := ids\<rparr>)
      (case handshake_parse ?H parts of
         Inr key \<Rightarrow> answer_upgrade sv bk site key ?head (label_tag ?label) (?en\<lparr>en_ids := ids\<rparr>)
       | Inl e \<Rightarrow> (handshake_error_response ?H e, ?en\<lparr>en_ids := ids\<rparr>))"
  proof (cases "handshake_parse ?H parts")
    case (Inl e)
    then have "answered sv bk site parts body (handshake_error_response ?H e)" by (simp add: answered_def)
    with Inl show ?thesis by (simp add: quiet_same count_request_def)
  next
    case (Inr key)
    then show ?thesis using answer_upgrade_quiet [OF Inr] by (simp only: sum.case)
  qed
  then have "served_once sv (answered sv bk site parts body) site (line_of ?label) (?en\<lparr>en_ids := ids\<rparr>) (handle_websocket sv bk site ip parts en)"
    unfolding handle_websocket_def Let_def i prod.case by (rule served_once_finish)
  then show ?thesis by (simp add: dispatched_line)
qed

subsection \<open>Every response is finished\<close>

text \<open>What \<open>finish\<close> leaves on a response, and in the access log.\<close>

definition finished ::
    "('m, 'r, 'e, 'h) services \<Rightarrow> SiteConfig \<Rightarrow> 'h Parts \<Rightarrow> ('m, 's) Engine \<Rightarrow> 'h http_response \<Rightarrow> ('m, 's) Engine \<Rightarrow> bool" where
  "finished sv config parts en resp en' \<longleftrightarrow>
     (pt_method parts = ''HEAD'' \<longrightarrow> rsp_body resp = EmptyBody) \<and>
     (case sc_cors config of
        Some c \<Rightarrow> list_all (\<lambda>(n, v). hm_get_all (sv_http sv) (rsp_headers resp) n = [v]) (cors_headers c)
      | None \<Rightarrow> True) \<and>
     en_roll en' = snd (samples (sc_access_log config) (en_roll en) (rsp_status resp)) \<and>
     (if fst (samples (sc_access_log config) (en_roll en) (rsp_status resp))
      then \<exists>mode. en_access en' = en_access en @ [\<lparr>ac_method = pt_method parts, ac_path = pt_path parts,
             ac_status = rsp_status resp, ac_mode = mode\<rparr>]
      else en_access en' = en_access en)"

definition cors_parsed :: "'h http_api \<Rightarrow> SiteConfig \<Rightarrow> bool" where
  "cors_parsed H config \<longleftrightarrow> (\<forall>c. sc_cors config = Some c \<longrightarrow> (\<exists>spec. cors_parse H spec = Ok c))"

lemma finish_cors:
  assumes H: "http_crate H" and c: "cors_parse H spec = Ok c" "sc_cors config = Some c"
    and f: "finish H config resp line served en = (resp', en')" and p: "(n, v) \<in> set (cors_headers c)"
  shows "hm_get_all H (rsp_headers resp') n = [v]"
proof -
  have d: "distinct (map fst (cors_headers c))" by (rule cors_parse_names [OF c(1)])
  with p have "hm_get_all H (cors_apply H c hm) n = [v]" for hm
    using http_crate.foldl_insert_lines [OF H d, of hm n] by (simp add: cors_apply_def map_of_is_SomeI)
  then show ?thesis
    using f c(2) http_crate.get_all_or_insert [OF H]
    by (auto simp: finish_def without_body_def Let_def split: prod.splits option.splits if_splits)
qed

lemma served_once_finished:
  assumes "served_once sv ok site (parts_line parts) en (resp, en')" and "http_crate (sv_http sv)"
    and "cors_parsed (sv_http sv) (site_config site)"
  shows "finished sv (site_config site) parts en resp en'"
proof -
  obtain raw served en1 where f: "finish (sv_http sv) (site_config site) raw (parts_line parts) served en1 = (resp, en')"
    and q: "quiet sv ok (parts_line parts) en (raw, en1)"
    using assms(1) by (auto simp: served_once_def)
  have "list_all (\<lambda>(n, v). hm_get_all (sv_http sv) (rsp_headers resp) n = [v]) (cors_headers c)"
    if "sc_cors (site_config site) = Some c" for c
    using finish_cors [OF assms(2) _ that f] assms(3) that by (auto simp: cors_parsed_def list_all_iff)
  with finish_log [OF f] q show ?thesis
    by (auto simp: finished_def quiet_def parts_line_def case_prod_unfold Let_def split: option.splits)
qed

lemma served_once_accounted:
  assumes "served_once sv (answered sv bk site parts body) site (parts_line parts) en (resp, en')"
  shows "accounted sv bk site parts body en resp en'"
proof -
  obtain raw served en1 where f: "finish (sv_http sv) (site_config site) raw (parts_line parts) served en1 = (resp, en')"
    and "quiet sv (answered sv bk site parts body) (parts_line parts) en (raw, en1)"
    using assms by (auto simp: served_once_def)
  with finish_log [OF f] have "logged_as sv (answered sv bk site parts body) (parts_line parts) en raw en'"
    by (simp add: quiet_def logged_as_def)
  with f show ?thesis unfolding accounted_def Let_def parts_line_def by blast
qed

text \<open>The ways a request is served: on the main interpreter, the pool, a TPC thread, or as an upgrade.\<close>

definition serves ::
    "('m, 'r, 'e, 'h) services \<Rightarrow> 's sem_api \<Rightarrow> 'h backend \<Rightarrow> ('r, 'py, 'h) Site \<Rightarrow> string \<Rightarrow> 'h Parts \<Rightarrow> arrival list \<Rightarrow>
     ('m, 's) Engine \<Rightarrow> ('h http_response \<times> ('m, 's) Engine) option list" where
  "serves sv S bk site ip parts body en =
     [handle_request sv bk site ip parts body en, handle_request_subinterp sv S bk site ip parts body en,
      handle_request_tpc_inline sv S bk site ip parts body en, Some (handle_websocket sv bk site ip parts en)]"

lemma serves_once:
  assumes "Some r \<in> set (serves sv S bk site ip parts body en)" and "semaphore S"
    and "lim_max_body_bytes (sc_limits (site_config site)) < USIZE_MAX" and "plain_worker bk"
  shows "served_once sv (answered sv bk site parts body) site (parts_line parts) en r"
  using assms(1) handle_request_once [of sv bk site ip parts body en r]
    handle_request_subinterp_once [of sv S bk site ip parts body en r, OF _ assms(2,3)]
    handle_request_tpc_inline_once [of sv S bk site ip parts body en r, OF _ assms(2-4)]
    handle_websocket_once [of sv bk site parts body en ip]
  unfolding serves_def set_simps insert_iff empty_iff option.inject by metis

text \<open>
  C16. Whatever path serves a request, and whatever it ends in, an answer of the engine, a handler's, an
  error or an upgrade, its response has each configured CORS header exactly once and with the configured
  value, has no body when the request is a \<open>HEAD\<close>, and was offered to the access log exactly once: its
  line, when the log samples it, names the request and the status sent.
\<close>

theorem every_response_finished:
  assumes "Some (resp, en') \<in> set (serves sv S bk site ip parts body en)" and "semaphore S"
    and "lim_max_body_bytes (sc_limits (site_config site)) < USIZE_MAX" and "plain_worker bk"
    and "http_crate (sv_http sv)" and "cors_parsed (sv_http sv) (site_config site)"
  shows "finished sv (site_config site) parts en resp en'"
  using served_once_finished [OF serves_once [OF assms(1-4)] assms(5,6)] .

text \<open>
  C17. A request that the engine fails (a body it rejects, a queue that is full or closed, a worker that is lost, a budget that is spent, a
  permit or a slot it does not get, a handler's error on its own thread) is logged exactly once, with a line that names the request, and its
  response is the one of the error on that line. When nothing is logged, the response is the engine's own answer or made of what
  the interpreter that ran the handler replied, whose errors that one logged. The count of dropped requests grows by one exactly
  when the error of the line is a refusal: no refusal is missed, none is counted twice, and neither a rejected body nor a failing handler counts.
\<close>

theorem failures_accounted:
  assumes "Some (resp, en') \<in> set (serves sv S bk site ip parts body en)" and "semaphore S"
    and "lim_max_body_bytes (sc_limits (site_config site)) < USIZE_MAX" and "plain_worker bk"
  shows "accounted sv bk site parts body en resp en'"
  using served_once_accounted [OF serves_once [OF assms]] .

subsection \<open>No permit is lost, and every request is answered\<close>

lemma fail_permits [simp]: "en_permits (snd (fail sv tag f)) = en_permits (snd f)"
  by (simp add: fail_def case_prod_unfold Let_def)

lemma fail_permitsD: "fail sv tag f = (resp, en') \<Longrightarrow> en_permits en' = en_permits (snd f)"
  by (metis fail_permits snd_conv)

lemma refuse_in_permits [simp]: "en_permits (snd (refuse_in r en)) = en_permits en"
  by (simp add: refuse_in_def case_prod_unfold Let_def)

lemma failing_permits: "failing en f \<Longrightarrow> en_permits (snd f) = en_permits en"
  by (auto simp: failing_def)

lemma finish_permits [simp]: "en_permits (snd (finish H config resp line served en)) = en_permits en"
  by (simp add: finish_def Let_def case_prod_unfold)

lemma http_response_permits [simp]: "en_permits (snd (http_response sv result accept z en)) = en_permits en"
  by (cases result) (simp_all add: http_response_def case_prod_unfold Let_def)

lemma build_main_permits [simp]:
  "en_permits (snd (build_main_http_response sv chunks reply accept z en)) = en_permits en"
  by (induction sv chunks reply accept z en rule: build_main_http_response.induct) simp_all

lemma submit_permits [simp]:
  "en_permits (snd (submit_and_wait sv bk head bytes rid kind z tag en)) = en_permits en"
  by (auto simp: submit_and_wait_def Let_def failing_permits [OF await_reply_failing] split: sum.splits)

lemma collect_and_run_permits:
  assumes S: "semaphore S" and mx: "max_body < USIZE_MAX"
  shows "sem_available S (en_permits (snd (collect_and_run sv S bk prepared rid kind max_body z tag upfront en))) =
     sem_available S (en_permits en) + (if upfront then 1 else 0)"
proof -
  obtain out adm where c: "collect_body_with_admission S (pr_body prepared) max_body
      \<lparr>adm_semaphore = en_permits en, adm_skip_bytes = ADMISSION_SKIP_BYTES, adm_permit = upfront,
       adm_dropped = en_dropped en\<rparr> = (out, adm)" by force
  show ?thesis
    using admission_outcome [OF S mx c] c
    by (cases out) (auto simp: collect_and_run_def held_permits_def drop_permit_def semaphore.available_release [OF S] split: if_splits)
qed

lemma run_on_pool_permits:
  assumes S: "semaphore S" and mx: "max_body < USIZE_MAX"
  shows "sem_available S (en_permits (snd (run_on_pool sv S bk prepared rid kind max_body z tag en))) =
     sem_available S (en_permits en)"
  using semaphore.try_acquire_Some [OF S, of "en_permits en" 1]
  by (auto simp: run_on_pool_def collect_and_run_permits [OF assms] split: option.splits)

lemmas path_permits = case_prod_unfold run_on_pool_permits
  failing_permits [OF await_reply_failing] failing_permits [OF await_streamed_reply_failing]

lemma run_on_main_permits [simp]:
  "en_permits (snd (run_on_main sv bk site prepared target body served en)) = en_permits en"
  by (auto simp: run_on_main_def Let_def path_permits split: sum.splits)

lemma run_on_bridge_permits [simp]:
  "en_permits (snd (run_on_bridge sv bk site prepared target body en)) = en_permits en"
  by (auto simp: run_on_bridge_def dispatch_to_bridge_def Let_def path_permits split: sum.splits)

lemma call_inline_permits:
  "call_inline sv bk site rid head body label en = Some r \<Longrightarrow> en_permits (snd r) = en_permits en"
  by (erule call_inline_cases) simp_all

lemma run_inline_permits:
  "run_inline sv bk site prepared rid en = Some r \<Longrightarrow> en_permits (snd r) = en_permits en"
  by (auto simp: run_inline_def Let_def case_prod_unfold dest!: call_inline_permits fail_permitsD split: sum.splits)

lemma unrouted_permits [simp]: "en_permits (snd (unrouted sv site parts en)) = en_permits en"
  using unrouted_cache [of sv site parts en] by (cases "unrouted sv site parts en") auto

lemma preprocess_permits:
  assumes "preprocess sv site ip parts body en = Some p"
  shows "en_permits (snd p) = en_permits en"
  using assms
  by (auto simp: preprocess_def grpc_get_sum_def Let_def count_request_def case_prod_unfold
      split: if_splits option.splits Unrouted.splits)

lemma handle_websocket_permits [simp]:
  "en_permits (snd (handle_websocket sv bk site ip parts en)) = en_permits en"
  by (auto simp: handle_websocket_def answer_upgrade_def Let_def count_request_def path_permits
      split: sum.splits option.splits Verdict.splits)

lemma serve_on_pool_permits:
  assumes "semaphore S" and "lim_max_body_bytes (sc_limits (site_config site)) < USIZE_MAX"
  shows "sem_available S (en_permits (snd (serve_on_pool sv S bk site prepared rid kind en))) =
     sem_available S (en_permits en)"
  by (simp add: serve_on_pool_def Let_def run_on_pool_permits [OF assms] case_prod_unfold)

lemma no_async_pool_permits [simp]: "en_permits (snd (no_async_pool sv site prepared en)) = en_permits en"
  by (simp add: no_async_pool_def Let_def case_prod_unfold)

lemma handlers_permits:
  assumes p: "preprocess sv site ip parts body en = Some (out, en1)" and S: "semaphore S"
    and mx: "lim_max_body_bytes (sc_limits (site_config site)) < USIZE_MAX"
  shows "handle_request sv bk site ip parts body en = Some r \<Longrightarrow> en_permits (snd r) = en_permits en"
    and "handle_request_subinterp sv S bk site ip parts body en = Some r \<Longrightarrow>
      sem_available S (en_permits (snd r)) = sem_available S (en_permits en)"
    and "handle_request_tpc_inline sv S bk site ip parts body en = Some r \<Longrightarrow>
      sem_available S (en_permits (snd r)) = sem_available S (en_permits en)"
  using p preprocess_permits [OF p] serve_on_pool_permits [OF S mx, of sv bk _ _ _ en1]
  by (cases out; auto simp: handle_request_def handle_request_subinterp_def handle_request_tpc_inline_def Let_def
        case_prod_unfold dest: run_inline_permits split: Call.splits HandlerKind.splits if_splits)+

text \<open>
  C18. However a request ends, served, refused, rejected or timed out, and whatever length it declared,
  the pool's permits are all back when its response is ready.
\<close>

theorem permits_returned:
  assumes "Some (resp, en') \<in> set (serves sv S bk site ip parts body en)" and S: "semaphore S"
    and mx: "lim_max_body_bytes (sc_limits (site_config site)) < USIZE_MAX"
  shows "sem_available S (en_permits en') = sem_available S (en_permits en)"
proof -
  have ws: "(resp, en') = handle_websocket sv bk site ip parts en \<Longrightarrow> en_permits en' = en_permits en"
    by (metis handle_websocket_permits snd_conv)
  show ?thesis
  proof (cases "preprocess sv site ip parts body en")
    case None
    with assms(1) ws show ?thesis
      by (auto simp: serves_def handle_request_def handle_request_subinterp_def handle_request_tpc_inline_def)
  next
    case (Some p)
    then obtain out en1 where p: "preprocess sv site ip parts body en = Some (out, en1)" by (cases p) auto
    with assms(1) ws show ?thesis
      using handlers_permits [OF p S mx, where r = "(resp, en')" and bk = bk] by (auto simp: serves_def)
  qed
qed

lemma resolved_route:
  assumes "resolve (sv_router sv) (sv_param_decode sv) (site_routes site) m p = Some (Some (CallWorker rid kind, ps))"
  shows "route (site_routes site) rid \<noteq> None"
  using assms by (auto simp: resolve_def split: option.splits Dispatch.splits if_splits)

lemma preprocess_total:
  assumes R: "route_matcher (sv_router sv) vals" and inv: "table_inv vals (site_routes site)"
  shows "preprocess sv site ip parts body en \<noteq> None"
proof -
  obtain res where "resolve (sv_router sv) (sv_param_decode sv) (site_routes site) (pt_method parts) (pt_path parts) = Some res"
    by (simp add: resolve_eq [OF R inv] Let_def)
  then show ?thesis
    by (simp add: preprocess_def Let_def case_prod_unfold del: not_None_eq split: option.splits Unrouted.splits)
qed

lemma fallback_on_main: "unrouted sv site parts en = (UnroutedFallback call, en') \<Longrightarrow> \<exists>t b. call = CallMain t b"
  by (auto simp: unrouted_def fallback_call_def Let_def split: prod.splits option.splits)

lemma dispatched_route:
  assumes "preprocess sv site ip parts body en = Some (Dispatched prepared, en')" and "pr_call prepared = CallWorker rid kind"
  shows "route (site_routes site) rid \<noteq> None"
  using assms resolved_route [of sv site "pt_method parts" "pt_path parts"]
  by (auto simp: preprocess_def Let_def apfst_def map_prod_def dest!: fallback_on_main
      split: if_splits option.splits prod.splits Unrouted.splits)

text \<open>
  C19. On a table built by any registrations no request panics the engine: whichever path serves it,
  whatever the code that runs handlers answers, it gets a response.
\<close>

theorem every_request_answered:
  assumes R: "route_matcher (sv_router sv) vals" and uni: "\<And>s. \<not> list_ex is_ascii_lower (uni s)"
    and t: "site_routes site = fold (register (sv_router sv) (sv_http sv) uni) regs route_table_new"
  shows "\<exists>answers. serves sv S bk site ip parts body en = map Some answers"
proof -
  have "table_inv vals (site_routes site)" unfolding t by (rule register_inv [OF R uni table_inv_new])
  with preprocess_total [OF R this, of ip parts body en] obtain out en1 where
    p: "preprocess sv site ip parts body en = Some (out, en1)"
    and known: "\<And>prepared rid kind. out = Dispatched prepared \<Longrightarrow> pr_call prepared = CallWorker rid kind \<Longrightarrow>
        route (site_routes site) rid \<noteq> None" using dispatched_route by fastforce
  have "call_inline sv bk site rid head b label en1 \<noteq> None" if "route (site_routes site) rid \<noteq> None" for rid head b label
    using that by (simp add: call_inline_def Let_def case_prod_unfold del: not_None_eq)
  then have inline: "run_inline sv bk site prepared rid en1 \<noteq> None" if "route (site_routes site) rid \<noteq> None" for prepared rid
    using that by (simp add: run_inline_def Let_def del: not_None_eq split: sum.splits)
  have "\<exists>r. handle_request sv bk site ip parts body en = Some r" "\<exists>r. handle_request_subinterp sv S bk site ip parts body en = Some r"
    using p by (cases out; simp add: handle_request_def handle_request_subinterp_def case_prod_unfold Let_def)+
  moreover have "handle_request_tpc_inline sv S bk site ip parts body en \<noteq> None"
    using p known inline
    by (cases out) (auto simp: handle_request_tpc_inline_def simp del: not_None_eq split: Call.splits HandlerKind.splits)
  ultimately obtain a b c where "serves sv S bk site ip parts body en =
      map Some [a, b, c, handle_websocket sv bk site ip parts en]" by (auto simp: serves_def)
  then show ?thesis by blast
qed

subsection \<open>A run\<close>

definition demo_services ::
    "((path \<times> CachedFile) list, (string \<times> nat) list, string, (string \<times> string) list) services" where
  "demo_services =
     \<lparr>sv_http = line_headers, sv_router = literal_router, sv_dash = alist_dash, sv_codecs = demo_codecs,
      sv_fs = (\<lambda>_. demo_fs), sv_path_decode = (\<lambda>s. s), sv_param_decode = (\<lambda>s. s), sv_percent_encode = (\<lambda>s. s),
      sv_accept_key = (\<lambda>s. s), sv_seed = 7, sv_tid = 0, sv_compressed = True\<rparr>"

text \<open>A pool whose queue is full and a main interpreter that does not answer in time.\<close>

definition demo_backend :: "(string \<times> string) list backend" where
  "demo_backend =
     \<lparr>bk_takes = (\<lambda>_. True), bk_main = (\<lambda>_ _. BudgetSpent), bk_main_streamed = (\<lambda>_ _. BodyDone BudgetSpent),
      bk_chunks = (\<lambda>_. []), bk_submit = (\<lambda>_ _ _. Err SubmitFull), bk_pool_reply = (\<lambda>_ _. BudgetSpent),
      bk_serve = (\<lambda>_ _. (Err (Panic []), 1)), bk_async_pool = False, bk_bridge = True,
      bk_dispatch = (\<lambda>_ _. Ok ()), bk_bridge_reply = (\<lambda>_ _. BudgetSpent),
      bk_bridge_streamed = (\<lambda>_ _. BodyDone BudgetSpent), bk_ws_spawn = (\<lambda>_. Ok ()),
      bk_ws_verdict = (\<lambda>_. Replied (Ok VerdictAccept))\<rparr>"

definition demo_cors :: Cors where
  "demo_cors = \<lparr>cors_headers = [(ACCESS_CONTROL_ALLOW_ORIGIN, ''*''), (ACCESS_CONTROL_ALLOW_METHODS, ''GET''),
     (ACCESS_CONTROL_ALLOW_HEADERS, ''x'')]\<rparr>"

definition pool_site :: "((string \<times> nat) list, nat, (string \<times> string) list) Site" where
  "pool_site = \<lparr>site_routes = demo_table, site_config = (site_config demo_site)\<lparr>sc_cors := Some demo_cors,
      sc_access_log := \<lparr>al_enabled = True, al_sample_n = 1, al_always_status = None\<rparr>\<rparr>\<rparr>"

definition demo_engine :: "((path \<times> CachedFile) list, nat) Engine" where
  "demo_engine = \<lparr>en_metrics = True, en_total = 0, en_dropped = 0, en_ids = id_init, en_cache = cache_init alist_dash,
     en_zip = [], en_roll = 0, en_permits = 2, en_ws_open = 0, en_access = [], en_errors = []\<rparr>"

definition demo_parts :: "string \<Rightarrow> string \<Rightarrow> (string \<times> string) list Parts" where
  "demo_parts m p = \<lparr>pt_method = m, pt_path = p, pt_query = None, pt_version = ''HTTP/1.1'', pt_headers = []\<rparr>"

lemma demo_ok:
  "semaphore nat_sem" "lim_max_body_bytes (sc_limits (site_config pool_site)) < USIZE_MAX" "plain_worker demo_backend"
  "http_crate (sv_http demo_services)" "cors_parsed (sv_http demo_services) (site_config pool_site)"
proof -
  have "cors_parse line_headers \<lparr>cs_origin = ''*'', cs_methods = ''GET'', cs_headers = ''x'',
      cs_expose_headers = None, cs_allow_credentials = False\<rparr> = Ok demo_cors"
    by (simp add: cors_parse_def cors_value_def line_headers_def visible_ascii_def demo_cors_def)
  then show "cors_parsed (sv_http demo_services) (site_config pool_site)"
    by (auto simp: cors_parsed_def pool_site_def demo_services_def)
qed (simp_all add: free.semaphore_axioms line.http_crate_axioms plain_worker_def demo_backend_def demo_services_def
    pool_site_def demo_site_def limits_default_def DEFAULT_MAX_BODY_BYTES_def USIZE_MAX_def)

lemma demo_dispatched:
  "preprocess demo_services pool_site [] (demo_parts ''HEAD'' ''/u'') [] demo_engine =
     Some (Dispatched \<lparr>pr_head = \<lparr>hd_parts = demo_parts ''HEAD'' ''/u'', hd_params = [], hd_client_ip = [],
             hd_request_id = fst (mint id_init 0)\<rparr>, pr_body = [], pr_call = CallWorker 0 Sync\<rparr>,
           demo_engine\<lparr>en_total := 1, en_ids := snd (mint id_init 0)\<rparr>)"
proof -
  have "fast_response demo_table ''HEAD'' ''/u'' = None"
    unfolding demo_table_eq by (simp add: fast_response_def route_table_new_def)
  then show ?thesis
    by (simp add: preprocess_def Let_def pool_site_def demo_site_def demo_services_def demo_resolve demo_parts_def
        count_request_def demo_engine_def request_id_of_def case_prod_unfold)
qed

lemma demo_refused:
  "\<exists>resp en'. handle_request_subinterp demo_services nat_sem demo_backend pool_site [] (demo_parts ''HEAD'' ''/u'') [] demo_engine
     = Some (resp, en') \<and> en_dropped en' = 1 \<and> length (en_access en') = 1 \<and> en_permits en' = 2"
proof -
  have length0: "declared_length (sv_http demo_services) \<lparr>hd_parts = demo_parts m p, hd_params = ps, hd_client_ip = i, hd_request_id = r\<rparr> = 0"
    for m p ps i r by (simp add: declared_length_def demo_services_def demo_parts_def line_headers_def lines_all_def)
  show ?thesis
    unfolding handle_request_subinterp_def demo_dispatched
    by (simp add: serve_on_pool_def run_on_pool_def length0 collect_and_run_def collect_body_with_admission_def collect_def
        submit_and_wait_def demo_backend_def Let_def finish_def pool_site_def demo_site_def samples_def demo_engine_def
        fail_def refuse_in_def refuse_def error_log_def drop_permit_def case_prod_unfold)
qed

theorem every_response_finished_witness:
  "\<exists>resp en'. handle_request_subinterp demo_services nat_sem demo_backend pool_site [] (demo_parts ''HEAD'' ''/u'') [] demo_engine
       = Some (resp, en') \<and> rsp_body resp = EmptyBody \<and>
     hm_get_all line_headers (rsp_headers resp) ACCESS_CONTROL_ALLOW_ORIGIN = [''*'']"
proof -
  obtain resp en' where r: "handle_request_subinterp demo_services nat_sem demo_backend pool_site []
      (demo_parts ''HEAD'' ''/u'') [] demo_engine = Some (resp, en')" using demo_refused by blast
  then have "Some (resp, en') \<in> set (serves demo_services nat_sem demo_backend pool_site [] (demo_parts ''HEAD'' ''/u'') [] demo_engine)"
    by (simp add: serves_def)
  from every_response_finished [OF this demo_ok] r show ?thesis
    by (simp add: finished_def demo_parts_def pool_site_def demo_cors_def demo_services_def)
qed

theorem failures_accounted_witness:
  "\<exists>resp en' line. handle_request_subinterp demo_services nat_sem demo_backend pool_site [] (demo_parts ''HEAD'' ''/u'') [] demo_engine
       = Some (resp, en') \<and> en_errors en' = [line] \<and> is_refused (ll_error line) \<and> ll_path line = ''/u''"
proof -
  obtain resp en' where r: "handle_request_subinterp demo_services nat_sem demo_backend pool_site []
      (demo_parts ''HEAD'' ''/u'') [] demo_engine = Some (resp, en')" and one: "en_dropped en' = 1" using demo_refused by blast
  then have "Some (resp, en') \<in> set (serves demo_services nat_sem demo_backend pool_site [] (demo_parts ''HEAD'' ''/u'') [] demo_engine)"
    by (simp add: serves_def)
  from failures_accounted [OF this demo_ok(1-3)] one obtain line where
    "en_errors en' = [line]" "ll_path line = ''/u''" "is_refused (ll_error line)"
    by (auto simp: accounted_def logged_as_def demo_engine_def demo_parts_def split: if_splits)
  with r show ?thesis by blast
qed

theorem permits_returned_witness:
  "\<exists>resp en'. handle_request_subinterp demo_services nat_sem demo_backend pool_site [] (demo_parts ''HEAD'' ''/u'') [] demo_engine
       = Some (resp, en') \<and> sem_available nat_sem (en_permits en') = 2"
proof -
  obtain resp en' where r: "handle_request_subinterp demo_services nat_sem demo_backend pool_site []
      (demo_parts ''HEAD'' ''/u'') [] demo_engine = Some (resp, en')" using demo_refused by blast
  then have "Some (resp, en') \<in> set (serves demo_services nat_sem demo_backend pool_site [] (demo_parts ''HEAD'' ''/u'') [] demo_engine)"
    by (simp add: serves_def)
  from permits_returned [OF this demo_ok(1,2)] r show ?thesis by (simp add: demo_engine_def nat_sem_def)
qed

theorem every_request_answered_witness:
  "\<exists>answers. serves demo_services nat_sem demo_backend pool_site [] (demo_parts ''HEAD'' ''/u'') [] demo_engine = map Some answers"
proof -
  have t: "site_routes pool_site = fold (register (sv_router demo_services) (sv_http demo_services) (\<lambda>_. [])) demo_regs route_table_new"
    by (simp add: pool_site_def demo_services_def)
  have R: "route_matcher (sv_router demo_services) (\<lambda>r. snd ` set r)"
    unfolding demo_services_def using literal.route_matcher_axioms by simp
  show ?thesis by (rule every_request_answered [OF R demo_uni t])
qed

end
