(* ===== verification/Pool.thy ===== *)
theory Pool
  imports Pipeline "HOL-Library.Multiset"
begin

section \<open>The interpreter pool (\<open>src/python/pool.rs\<close>, \<open>src/python/worker_api.rs\<close>)\<close>

text \<open>
  Requests wait in two bounded channels, one for each kind of handler. A sync worker's thread takes one
  at a time and answers it; an async worker's engine takes many, each as a job it answers or drops. The
  threads, the callers that wait for replies and the shutdown interleave freely: the pool is a
  transition system, each of its steps one channel operation or one answer.

  A caller is a number, and its one-shot channel is a slot: waiting, with the reply, given up by the
  caller, or with its sender dropped. What handlers return, and when a caller gives up, is arbitrary.

  The results: a caller that still waits has its request in the pool, in exactly one place, so no
  request is lost or answered twice; the diagnostic counters agree with what is in the pool; the pool
  implements a table of calls that each end once; and a closed pool comes to an end, with every caller
  answered and every worker ended.
\<close>

subsection \<open>The workers and their split\<close>

record WorkerSplit =
  sync_workers :: nat
  async_workers :: nat

definition split_total :: "WorkerSplit \<Rightarrow> nat" where
  "split_total s = sync_workers s + async_workers s"

datatype SplitError = NoWorkers | OneWorkerForBothKinds

fun split_workers :: "nat \<Rightarrow> bool \<Rightarrow> bool \<Rightarrow> (WorkerSplit, SplitError) result" where
  "split_workers n has_sync has_async =
     (if \<not> has_sync \<and> \<not> has_async then Ok \<lparr>sync_workers = n, async_workers = 0\<rparr>
      else if n = 0 then Err NoWorkers
      else if has_sync \<and> has_async
           then if n = 1 then Err OneWorkerForBothKinds
                else Ok \<lparr>sync_workers = n - n div 2, async_workers = n div 2\<rparr>
      else if has_sync then Ok \<lparr>sync_workers = n, async_workers = 0\<rparr>
      else Ok \<lparr>sync_workers = 0, async_workers = n\<rparr>)"

declare split_workers.simps [simp del]

definition split_workers_for_routes :: "nat \<Rightarrow> bool list \<Rightarrow> bool list \<Rightarrow> (WorkerSplit, SplitError) result" where
  "split_workers_for_routes n requires_gil is_async =
     (let pooled_kinds = map snd (filter (\<lambda>(gil, _). \<not> gil) (zip requires_gil is_async))
      in split_workers n (list_ex (\<lambda>a. \<not> a) pooled_kinds) (list_ex (\<lambda>a. a) pooled_kinds))"

definition QUEUE_SLOTS_PER_WORKER :: nat where "QUEUE_SLOTS_PER_WORKER = 128"

subsection \<open>Starting and joining the workers\<close>

text \<open>
  Building the workers one by one; on a failure, the error and the workers built so far. What became of
  the workers of a start: running on their threads, ended, or dropped without an end.
\<close>

fun build_from :: "(nat \<Rightarrow> ('w, 'e) result) \<Rightarrow> nat list \<Rightarrow> 'w list \<Rightarrow> ('w list, 'e \<times> 'w list) result" where
  "build_from mk [] built = Ok built"
| "build_from mk (i # is) built =
     (case mk i of Inr w \<Rightarrow> build_from mk is (built @ [w]) | Inl e \<Rightarrow> Err (e, built))"

definition build_workers ::
    "(nat \<Rightarrow> ('w, 'e) result) \<Rightarrow> (nat \<Rightarrow> ('w, 'e) result) \<Rightarrow> WorkerSplit \<Rightarrow>
     ('w list \<times> 'w list, 'e) result \<times> 'w list" where
  "build_workers mk_sync mk_async split =
     (case build_from mk_sync [0..<sync_workers split] [] of
        Inl (e, built) \<Rightarrow> (Err e, built)
      | Inr syncs \<Rightarrow>
          (case build_from mk_async [sync_workers split..<split_total split] [] of
             Inl (e, built) \<Rightarrow> (Err e, syncs @ built)
           | Inr asyncs \<Rightarrow> (Ok (syncs, asyncs), [])))"

datatype 'e PoolError = PoolWorker 'e | PoolSpawn nat string

record 'w started =
  started_running :: "'w list"
  started_ended :: "'w list"
  started_leaked :: "'w list"

text \<open>
  Handing workers to their threads. The worker of a thread that could not be spawned was moved into the
  closure, which the failed spawn drops.
\<close>

fun spawn_from :: "(nat \<Rightarrow> (unit, string) result) \<Rightarrow> nat \<Rightarrow> 'w list \<Rightarrow> 'w list \<Rightarrow> ('w list, nat \<times> string \<times> 'w \<times> 'w list \<times> 'w list) result" where
  "spawn_from spawn i running [] = Ok running"
| "spawn_from spawn i running (w # ws) =
     (case spawn i of
        Inr _ \<Rightarrow> spawn_from spawn (Suc i) (running @ [w]) ws
      | Inl e \<Rightarrow> Err (i, e, w, running, ws))"

definition pool_start ::
    "(nat \<Rightarrow> ('w, 'e) result) \<Rightarrow> (nat \<Rightarrow> ('w, 'e) result) \<Rightarrow> (nat \<Rightarrow> (unit, string) result) \<Rightarrow> WorkerSplit \<Rightarrow>
     (unit, 'e PoolError) result \<times> 'w started" where
  "pool_start mk_sync mk_async spawn split =
     (case build_workers mk_sync mk_async split of
        (Inl e, built) \<Rightarrow> (Err (PoolWorker e), \<lparr>started_running = [], started_ended = built, started_leaked = []\<rparr>)
      | (Inr (syncs, asyncs), _) \<Rightarrow>
          (case spawn_from spawn 0 [] syncs of
             Inl (i, e, w, running, rest) \<Rightarrow>
               (Err (PoolSpawn i e), \<lparr>started_running = [], started_ended = rest @ asyncs @ running, started_leaked = [w]\<rparr>)
           | Inr running \<Rightarrow>
               (case spawn_from spawn (sync_workers split) running asyncs of
                  Inl (i, e, w, running, rest) \<Rightarrow>
                    (Err (PoolSpawn i e), \<lparr>started_running = [], started_ended = rest @ running, started_leaked = [w]\<rparr>)
                | Inr running \<Rightarrow> (Ok (), \<lparr>started_running = running, started_ended = [], started_leaked = []\<rparr>))))"

record AbandonedWorker =
  ab_thread :: string
  ab_route :: "string option"

definition abandoned_display :: "AbandonedWorker \<Rightarrow> string" where
  "abandoned_display a = (case ab_route a of Some r \<Rightarrow> ab_thread a @ '' (running '' @ r @ '')'' | None \<Rightarrow> ab_thread a)"

text \<open>A worker's thread as \<open>join_or_abandon\<close> finds it once it has finished or its time is up.\<close>

record WorkerThread =
  wt_name :: "string option"
  wt_running :: nat
  wt_finished :: bool

definition join_or_abandon :: "string list \<Rightarrow> WorkerThread \<Rightarrow> AbandonedWorker option" where
  "join_or_abandon route_names t =
     (if wt_finished t then None
      else Some \<lparr>ab_thread = (case wt_name t of Some n \<Rightarrow> n | None \<Rightarrow> ''worker''),
                 ab_route = (if wt_running t < length route_names then Some (route_names ! wt_running t) else None)\<rparr>)"

definition join_within :: "string list \<Rightarrow> WorkerThread list \<Rightarrow> AbandonedWorker list" where
  "join_within route_names threads = List.map_filter (join_or_abandon route_names) threads"

subsection \<open>The pool's state\<close>

text \<open>A caller's end of its one-shot channel.\<close>

datatype 'h reply_slot = Waiting | GotReply "('h ResponseData, Logged) result" | CallerGone | SenderGone

record 'h WorkRequest =
  wr_route :: RouteId
  wr_kind :: HandlerKind
  wr_request :: "'h PyronovaRequest"
  wr_caller :: nat \<comment> \<open>\<open>response_tx\<close>: whose slot it answers\<close>

datatype 'h sync_worker = SyncIdle | SyncRunning "'h WorkRequest" | SyncEnded

record Pending =
  pd_caller :: nat
  pd_label :: RequestLabel

record 'h AsyncJob =
  job_route :: nat
  job_request :: "'h PyronovaRequest"
  job_reply :: "Pending option"

record 'h async_worker =
  aw_jobs :: "'h AsyncJob list"
  aw_ended :: bool

record 'h InterpreterPool =
  pl_open :: bool \<comment> \<open>a sender is left\<close>
  pl_capacity :: nat
  pl_sync_queue :: "'h WorkRequest list"
  pl_async_queue :: "'h WorkRequest list option"
  pl_sync_workers :: "'h sync_worker list"
  pl_async_workers :: "'h async_worker list"
  pl_slots :: "nat \<Rightarrow> 'h reply_slot"
  pl_callers :: nat \<comment> \<open>callers so far\<close>
  pl_uncounted :: nat \<comment> \<open>callers between their \<open>submit\<close> and \<open>inc_created\<close>\<close>
  pl_created :: u64
  pl_completed :: u64
  pl_discarded :: nat \<comment> \<open>requests a channel dropped with its last receiver: counted here only\<close>
  pl_dropped :: u64 \<comment> \<open>\<open>DROPPED_REQUESTS\<close>\<close>
  pl_errors :: "log_line list"

text \<open>\<open>InterpreterPool::new\<close> once every worker is built and its thread runs.\<close>

definition pool_new :: "WorkerSplit \<Rightarrow> 'h InterpreterPool" where
  "pool_new split =
     \<lparr>pl_open = True, pl_capacity = split_total split * QUEUE_SLOTS_PER_WORKER, pl_sync_queue = [],
      pl_async_queue = (if 0 < async_workers split then Some [] else None),
      pl_sync_workers = replicate (sync_workers split) SyncIdle,
      pl_async_workers = replicate (async_workers split) \<lparr>aw_jobs = [], aw_ended = False\<rparr>,
      pl_slots = (\<lambda>_. SenderGone), pl_callers = 0, pl_uncounted = 0, pl_created = 0, pl_completed = 0,
      pl_discarded = 0, pl_dropped = 0, pl_errors = []\<rparr>"

definition pool_permits :: "WorkerSplit \<Rightarrow> nat" where
  "pool_permits split = split_total split * QUEUE_SLOTS_PER_WORKER * (if 0 < async_workers split then 2 else 1)"

subsection \<open>Submitting\<close>

text \<open>
  \<open>try_send\<close> on a channel: disconnected once its receivers are gone, full at its capacity.
\<close>

definition try_send :: "bool \<Rightarrow> nat \<Rightarrow> 'a list \<Rightarrow> 'a \<Rightarrow> ('a list, SubmitError) result" where
  "try_send gone capacity queue x =
     (if gone then Err SubmitClosed else if capacity \<le> length queue then Err SubmitFull else Ok (queue @ [x]))"

definition submit :: "'h InterpreterPool \<Rightarrow> RouteId \<Rightarrow> HandlerKind \<Rightarrow> 'h PyronovaRequest \<Rightarrow>
    (nat, SubmitError) result \<times> 'h InterpreterPool" where
  "submit pool rid kind request =
     (let caller = pl_callers pool;
          req = \<lparr>wr_route = rid, wr_kind = kind, wr_request = request, wr_caller = caller\<rparr>;
          pool' = pool\<lparr>pl_slots := (pl_slots pool)(caller := Waiting), pl_callers := caller + 1,
                       pl_uncounted := pl_uncounted pool + 1\<rparr>
      in case (kind, pl_async_queue pool) of
           (Async, Some queue) \<Rightarrow>
             (case try_send (list_all aw_ended (pl_async_workers pool)) (pl_capacity pool) queue req of
                Inl e \<Rightarrow> (Err e, pool)
              | Inr queue' \<Rightarrow> (Ok caller, pool'\<lparr>pl_async_queue := Some queue'\<rparr>))
         | _ \<Rightarrow>
             (case try_send (list_all (\<lambda>w. w = SyncEnded) (pl_sync_workers pool)) (pl_capacity pool)
                     (pl_sync_queue pool) req of
                Inl e \<Rightarrow> (Err e, pool)
              | Inr queue' \<Rightarrow> (Ok caller, pool'\<lparr>pl_sync_queue := queue'\<rparr>)))"

definition inc_created :: "'h InterpreterPool \<Rightarrow> 'h InterpreterPool" where
  "inc_created pool = pool\<lparr>pl_created := pl_created pool + 1, pl_uncounted := pl_uncounted pool - 1\<rparr>"

definition inc_completed :: "'h InterpreterPool \<Rightarrow> 'h InterpreterPool" where
  "inc_completed pool = pool\<lparr>pl_completed := pl_completed pool + 1\<rparr>"

text \<open>A caller that stops waiting (504) drops its receiver.\<close>

definition give_up :: "'h InterpreterPool \<Rightarrow> nat \<Rightarrow> 'h InterpreterPool" where
  "give_up pool caller = pool\<lparr>pl_slots := (pl_slots pool)(caller := CallerGone)\<rparr>"

subsection \<open>Answers\<close>

text \<open>The sender's side of a one-shot channel: a reply to a receiver that is gone is dropped.\<close>

definition is_closed :: "'h InterpreterPool \<Rightarrow> nat \<Rightarrow> bool" where
  "is_closed pool caller \<longleftrightarrow> pl_slots pool caller = CallerGone"

definition send_reply :: "'h InterpreterPool \<Rightarrow> nat \<Rightarrow> ('h ResponseData, Logged) result \<Rightarrow> 'h InterpreterPool" where
  "send_reply pool caller reply =
     (if is_closed pool caller then pool else pool\<lparr>pl_slots := (pl_slots pool)(caller := GotReply reply)\<rparr>)"

text \<open>\<open>Pending::answer\<close>; the same steps answer a sync worker's request.\<close>

definition pending_answer ::
    "'h InterpreterPool \<Rightarrow> Pending \<Rightarrow> ('h ResponseData, HandlerError) result \<Rightarrow> 'h InterpreterPool" where
  "pending_answer pool pend result =
     (let (reply, lines) = (case result of
            Inr data \<Rightarrow> (Ok data, [])
          | Inl e \<Rightarrow> (let (logged, line) = error_log e (label_tag (pd_label pend)) in (Err logged, [line])))
      in inc_completed (send_reply (pool\<lparr>pl_errors := pl_errors pool @ lines\<rparr>) (pd_caller pend) reply))"

subsection \<open>A sync worker (\<open>serve_sync\<close>)\<close>

definition set_sync :: "'h InterpreterPool \<Rightarrow> nat \<Rightarrow> 'h sync_worker \<Rightarrow> 'h InterpreterPool" where
  "set_sync pool w state = pool\<lparr>pl_sync_workers := (pl_sync_workers pool)[w := state]\<rparr>"

text \<open>Taking the next request, of a worker that is idle and a queue that is not empty.\<close>

definition sync_take :: "'h InterpreterPool \<Rightarrow> nat \<Rightarrow> 'h InterpreterPool option" where
  "sync_take pool w =
     (case pl_sync_queue pool of
        [] \<Rightarrow> None
      | req # rest \<Rightarrow>
          (let pool = pool\<lparr>pl_sync_queue := rest\<rparr>
           in Some (if is_closed pool (wr_caller req) then inc_completed pool
                    else set_sync pool w (SyncRunning req))))"

definition sync_finish ::
    "'h InterpreterPool \<Rightarrow> nat \<Rightarrow> 'h WorkRequest \<Rightarrow> ('h ResponseData, HandlerError) result \<Rightarrow> 'h InterpreterPool" where
  "sync_finish pool w req result =
     pending_answer (set_sync pool w SyncIdle) \<lparr>pd_caller = wr_caller req, pd_label = request_label (wr_request req)\<rparr> result"

subsection \<open>An async worker (\<open>AsyncInbox\<close>, \<open>AsyncJob\<close>)\<close>

definition set_jobs :: "'h InterpreterPool \<Rightarrow> nat \<Rightarrow> 'h AsyncJob list \<Rightarrow> 'h InterpreterPool" where
  "set_jobs pool w jobs = pool\<lparr>pl_async_workers := (pl_async_workers pool)[w := \<lparr>aw_jobs = jobs, aw_ended = False\<rparr>]\<rparr>"

text \<open>
  One turn of \<open>next_live\<close>, with the job \<open>_worker_recv\<close> makes of a live request; \<open>made\<close> is whether
  the \<open>Request\<close> object could be created.
\<close>

definition worker_recv :: "'h InterpreterPool \<Rightarrow> nat \<Rightarrow> (unit, PyErr) result \<Rightarrow> 'h InterpreterPool option" where
  "worker_recv pool w made =
     (case pl_async_queue pool of
        Some (req # rest) \<Rightarrow>
          (let pool = pool\<lparr>pl_async_queue := Some rest\<rparr>;
               pend = \<lparr>pd_caller = wr_caller req, pd_label = request_label (wr_request req)\<rparr>
           in Some (if is_closed pool (wr_caller req) then inc_completed pool
                    else case made of
                           Inr _ \<Rightarrow> set_jobs pool w (aw_jobs (pl_async_workers pool ! w) @
                             [\<lparr>job_route = wr_route req, job_request = wr_request req, job_reply = Some pend\<rparr>])
                         | Inl e \<Rightarrow> pending_answer pool pend (Err (handler_error_python Setup e))))
      | _ \<Rightarrow> None)"

text \<open>\<open>AsyncJob::answer\<close>: a second answer raises.\<close>

definition job_answer ::
    "'h InterpreterPool \<Rightarrow> nat \<Rightarrow> nat \<Rightarrow> ('h ResponseData, HandlerError) result \<Rightarrow>
     (unit, string) result \<times> 'h InterpreterPool" where
  "job_answer pool w j result =
     (let jobs = aw_jobs (pl_async_workers pool ! w); job = jobs ! j
      in case job_reply job of
           None \<Rightarrow> (Err ''this request was already answered'', pool)
         | Some pend \<Rightarrow>
             (Ok (), pending_answer (set_jobs pool w (jobs[j := job\<lparr>job_reply := None\<rparr>])) pend result))"

definition counted_refusal :: "'h InterpreterPool \<Rightarrow> Refusal \<Rightarrow> HandlerError \<times> 'h InterpreterPool" where
  "counted_refusal pool r = (let (e, dropped) = refuse (pl_dropped pool) r in (e, pool\<lparr>pl_dropped := dropped\<rparr>))"

text \<open>\<open>_worker_send\<close>, \<open>_worker_fail\<close> and \<open>_worker_timed_out\<close>.\<close>

definition worker_send ::
    "'h InterpreterPool \<Rightarrow> nat \<Rightarrow> nat \<Rightarrow> ('h ResponseData, ResponseError) result \<Rightarrow> (unit, string) result \<times> 'h InterpreterPool" where
  "worker_send pool w j response = job_answer pool w j (map_err ResponseErr response)"

definition worker_fail ::
    "'h InterpreterPool \<Rightarrow> nat \<Rightarrow> nat \<Rightarrow> (ResponseError, PyErr) result \<Rightarrow> (unit, string) result \<times> 'h InterpreterPool" where
  "worker_fail pool w j raised =
     job_answer pool w j (Err (case raised of Inr invalid \<Rightarrow> ResponseErr invalid
                                             | Inl e \<Rightarrow> handler_error_python AsyncTask e))"

definition worker_timed_out :: "'h InterpreterPool \<Rightarrow> nat \<Rightarrow> nat \<Rightarrow> (unit, string) result \<times> 'h InterpreterPool" where
  "worker_timed_out pool w j = (let (e, pool) = counted_refusal pool Timeout in job_answer pool w j (Err e))"

text \<open>The drop of a job: one that was not answered is answered now.\<close>

definition job_drop :: "'h InterpreterPool \<Rightarrow> nat \<Rightarrow> nat \<Rightarrow> 'h InterpreterPool" where
  "job_drop pool w j =
     (let jobs = aw_jobs (pl_async_workers pool ! w); gone = set_jobs pool w (take j jobs @ drop (Suc j) jobs)
      in case job_reply (jobs ! j) of
           None \<Rightarrow> gone
         | Some pend \<Rightarrow>
             (let (e, pool) = counted_refusal gone
                    (WorkerLost ''the async engine dropped the request without answering it'')
              in pending_answer pool pend (Err e)))"

text \<open>
  The end of an async worker, once its engine has let go of its jobs. The channel's last receiver takes
  the requests still queued with it: their senders are dropped.
\<close>

definition async_end :: "'h InterpreterPool \<Rightarrow> nat \<Rightarrow> 'h InterpreterPool" where
  "async_end pool w =
     (let workers = (pl_async_workers pool)[w := \<lparr>aw_jobs = [], aw_ended = True\<rparr>];
          pool = pool\<lparr>pl_async_workers := workers\<rparr>
      in case pl_async_queue pool of
           Some queue \<Rightarrow>
             if list_all aw_ended workers
             then pool\<lparr>pl_async_queue := Some [], pl_discarded := pl_discarded pool + length queue,
                       pl_slots := (\<lambda>c. if c \<in> wr_caller ` set queue \<and> pl_slots pool c = Waiting then SenderGone
                                        else pl_slots pool c)\<rparr>
             else pool
         | None \<Rightarrow> pool)"

subsection \<open>The pool as a transition system\<close>

definition async_live :: "'h InterpreterPool \<Rightarrow> nat \<Rightarrow> bool" where
  "async_live pool w \<longleftrightarrow> w < length (pl_async_workers pool) \<and> \<not> aw_ended (pl_async_workers pool ! w)"

definition has_job :: "'h InterpreterPool \<Rightarrow> nat \<Rightarrow> nat \<Rightarrow> bool" where
  "has_job pool w j \<longleftrightarrow> async_live pool w \<and> j < length (aw_jobs (pl_async_workers pool ! w))"

inductive pool_step :: "'h InterpreterPool \<Rightarrow> 'h InterpreterPool \<Rightarrow> bool" where
  Submit: "pl_open pool \<Longrightarrow> submit pool rid kind request = (Ok caller, pool') \<Longrightarrow> pool_step pool pool'"
| Count: "0 < pl_uncounted pool \<Longrightarrow> pool_step pool (inc_created pool)"
| GiveUp: "caller < pl_callers pool \<Longrightarrow> pl_slots pool caller = Waiting \<Longrightarrow> pool_step pool (give_up pool caller)"
| Close: "pl_open pool \<Longrightarrow> pool_step pool (pool\<lparr>pl_open := False\<rparr>)"
| SyncTake: "w < length (pl_sync_workers pool) \<Longrightarrow> pl_sync_workers pool ! w = SyncIdle \<Longrightarrow>
    sync_take pool w = Some pool' \<Longrightarrow> pool_step pool pool'"
| SyncFinish: "w < length (pl_sync_workers pool) \<Longrightarrow> pl_sync_workers pool ! w = SyncRunning req \<Longrightarrow>
    pool_step pool (sync_finish pool w req result)"
| SyncEnd: "w < length (pl_sync_workers pool) \<Longrightarrow> pl_sync_workers pool ! w = SyncIdle \<Longrightarrow>
    pl_sync_queue pool = [] \<Longrightarrow> \<not> pl_open pool \<Longrightarrow> pool_step pool (set_sync pool w SyncEnded)"
| AsyncRecv: "async_live pool w \<Longrightarrow> worker_recv pool w made = Some pool' \<Longrightarrow> pool_step pool pool'"
| AsyncSend: "has_job pool w j \<Longrightarrow> worker_send pool w j response = (Ok (), pool') \<Longrightarrow> pool_step pool pool'"
| AsyncFail: "has_job pool w j \<Longrightarrow> worker_fail pool w j raised = (Ok (), pool') \<Longrightarrow> pool_step pool pool'"
| AsyncTimedOut: "has_job pool w j \<Longrightarrow> worker_timed_out pool w j = (Ok (), pool') \<Longrightarrow> pool_step pool pool'"
| JobDrop: "has_job pool w j \<Longrightarrow> pool_step pool (job_drop pool w j)"
| AsyncEnd: "async_live pool w \<Longrightarrow> aw_jobs (pl_async_workers pool ! w) = [] \<Longrightarrow> pool_step pool (async_end pool w)"

text \<open>Where the callers' requests are.\<close>

fun sync_held :: "'h sync_worker \<Rightarrow> nat multiset" where
  "sync_held (SyncRunning req) = {#wr_caller req#}"
| "sync_held _ = {#}"

definition job_held :: "'h AsyncJob \<Rightarrow> nat multiset" where
  "job_held job = (case job_reply job of Some pend \<Rightarrow> {#pd_caller pend#} | None \<Rightarrow> {#})"

definition async_held :: "'h async_worker \<Rightarrow> nat multiset" where
  "async_held a = (\<Sum>job\<leftarrow>aw_jobs a. job_held job)"

definition queued :: "'h InterpreterPool \<Rightarrow> 'h WorkRequest list" where
  "queued pool = pl_sync_queue pool @ (case pl_async_queue pool of Some queue \<Rightarrow> queue | None \<Rightarrow> [])"

definition in_flight :: "'h InterpreterPool \<Rightarrow> nat multiset" where
  "in_flight pool = mset (map wr_caller (queued pool)) + (\<Sum>w\<leftarrow>pl_sync_workers pool. sync_held w) +
     (\<Sum>a\<leftarrow>pl_async_workers pool. async_held a)"

lemma sum_list_update:
  fixes f :: "'a \<Rightarrow> 'b::comm_monoid_add"
  shows "k < length xs \<Longrightarrow> (\<Sum>x\<leftarrow>xs[k := y]. f x) + f (xs ! k) = (\<Sum>x\<leftarrow>xs. f x) + f y"
  by (induction xs arbitrary: k) (auto simp: ac_simps split: nat.splits)

lemma sum_list_drop_nth:
  fixes f :: "'a \<Rightarrow> 'b::comm_monoid_add"
  assumes "k < length xs"
  shows "(\<Sum>x\<leftarrow>take k xs @ drop (Suc k) xs. f x) + f (xs ! k) = (\<Sum>x\<leftarrow>xs. f x)"
  using arg_cong [OF id_take_nth_drop [OF assms], of "\<lambda>xs. \<Sum>x\<leftarrow>xs. f x"] by (simp add: ac_simps)

text \<open>A step that completes a caller's request, and one that only moves requests.\<close>

definition same_counts :: "'h InterpreterPool \<Rightarrow> 'h InterpreterPool \<Rightarrow> bool" where
  "same_counts p p' \<longleftrightarrow> pl_callers p' = pl_callers p \<and> pl_created p' = pl_created p \<and>
     pl_uncounted p' = pl_uncounted p \<and> pl_discarded p' = pl_discarded p \<and> pl_capacity p' = pl_capacity p"

definition moves :: "'h InterpreterPool \<Rightarrow> 'h InterpreterPool \<Rightarrow> bool" where
  "moves p p' \<longleftrightarrow> same_counts p p' \<and> in_flight p' = in_flight p \<and> pl_slots p' = pl_slots p \<and>
     pl_completed p' = pl_completed p"

definition settles :: "'h InterpreterPool \<Rightarrow> nat \<Rightarrow> 'h InterpreterPool \<Rightarrow> bool" where
  "settles p c p' \<longleftrightarrow> same_counts p p' \<and> in_flight p = add_mset c (in_flight p') \<and>
     pl_completed p' = pl_completed p + 1 \<and>
     (if pl_slots p c = CallerGone then pl_slots p' = pl_slots p
      else \<exists>r. pl_slots p' = (pl_slots p)(c := GotReply r))"

lemma pending_answer_fields [simp]:
  "queued (pending_answer p pend r) = queued p" "in_flight (pending_answer p pend r) = in_flight p"
  "pl_completed (pending_answer p pend r) = pl_completed p + 1" "same_counts q (pending_answer p pend r) = same_counts q p"
  "pl_sync_queue (pending_answer p pend r) = pl_sync_queue p" "pl_async_queue (pending_answer p pend r) = pl_async_queue p"
  "pl_sync_workers (pending_answer p pend r) = pl_sync_workers p" "pl_async_workers (pending_answer p pend r) = pl_async_workers p"
  "pl_open (pending_answer p pend r) = pl_open p" "pl_callers (pending_answer p pend r) = pl_callers p"
  by (simp_all add: pending_answer_def send_reply_def inc_completed_def queued_def in_flight_def same_counts_def Let_def
      case_prod_unfold)

lemma pending_answer_slots:
  "if pl_slots p (pd_caller pend) = CallerGone then pl_slots (pending_answer p pend r) = pl_slots p
   else \<exists>x. pl_slots (pending_answer p pend r) = (pl_slots p)(pd_caller pend := GotReply x)"
  by (auto simp: pending_answer_def send_reply_def is_closed_def inc_completed_def Let_def case_prod_unfold)

lemma pending_answer_settles:
  assumes "same_counts p q" and "in_flight p = add_mset (pd_caller pend) (in_flight q)" and "pl_slots q = pl_slots p"
    and "pl_completed q = pl_completed p"
  shows "settles p (pd_caller pend) (pending_answer q pend r)"
  using assms pending_answer_slots [of q pend r] by (auto simp: settles_def split: if_splits)

lemma sync_finish_settles:
  assumes w: "w < length (pl_sync_workers p)" and run: "pl_sync_workers p ! w = SyncRunning req"
  shows "settles p (wr_caller req) (sync_finish p w req result)"
  using sum_list_update [OF w, where f = sync_held and y = SyncIdle] run
    pending_answer_settles [of p "set_sync p w SyncIdle" "\<lparr>pd_caller = wr_caller req, pd_label = request_label (wr_request req)\<rparr>" result]
  by (simp add: sync_finish_def set_sync_def same_counts_def in_flight_def queued_def)

lemma sync_take_step:
  assumes w: "w < length (pl_sync_workers p)" "pl_sync_workers p ! w = SyncIdle" and t: "sync_take p w = Some p'"
  shows "moves p p' \<or> (\<exists>c. settles p c p')"
proof -
  obtain req rest where q: "pl_sync_queue p = req # rest" using t by (auto simp: sync_take_def split: list.splits)
  have h: "(\<Sum>x\<leftarrow>(pl_sync_workers p)[w := SyncRunning req]. sync_held x) = add_mset (wr_caller req) (\<Sum>x\<leftarrow>pl_sync_workers p. sync_held x)"
    using sum_list_update [OF w(1), where f = sync_held and y = "SyncRunning req"] w(2) by simp
  show ?thesis
  proof (cases "pl_slots p (wr_caller req) = CallerGone")
    case True
    with t q have "settles p (wr_caller req) p'"
      by (auto simp: sync_take_def is_closed_def settles_def same_counts_def inc_completed_def in_flight_def queued_def)
    then show ?thesis by blast
  next
    case False
    with t q h have "moves p p'"
      by (auto simp: sync_take_def is_closed_def moves_def same_counts_def set_sync_def in_flight_def queued_def)
    then show ?thesis by blast
  qed
qed

lemma balance: "A + T = P + B \<Longrightarrow> B + h = T \<Longrightarrow> P = A + (h :: 'a multiset)"
  by (metis add.assoc add.commute add_right_cancel)

lemma async_update:
  assumes "async_live p w"
  shows "(\<Sum>a\<leftarrow>(pl_async_workers p)[w := y]. async_held a) + async_held (pl_async_workers p ! w) =
     (\<Sum>a\<leftarrow>pl_async_workers p. async_held a) + async_held y"
  using assms by (simp add: async_live_def sum_list_update)

lemma set_jobs_flight:
  assumes "async_live p w"
  shows "in_flight (set_jobs p w jobs) + async_held (pl_async_workers p ! w) = in_flight p + (\<Sum>job\<leftarrow>jobs. job_held job)"
  using async_update [OF assms, of "\<lparr>aw_jobs = jobs, aw_ended = False\<rparr>"]
  by (simp add: in_flight_def queued_def set_jobs_def async_held_def ac_simps)

lemma set_jobs_same [simp]:
  "same_counts p (set_jobs p w jobs)" "pl_slots (set_jobs p w jobs) = pl_slots p"
  "pl_completed (set_jobs p w jobs) = pl_completed p"
  by (simp_all add: set_jobs_def same_counts_def)

lemma worker_recv_step:
  assumes w: "async_live p w" and r: "worker_recv p w made = Some p'"
  shows "moves p p' \<or> (\<exists>c. settles p c p')"
proof -
  obtain req rest where q: "pl_async_queue p = Some (req # rest)"
    using r by (auto simp: worker_recv_def split: option.splits list.splits)
  let ?p = "p\<lparr>pl_async_queue := Some rest\<rparr>"
  let ?pend = "\<lparr>pd_caller = wr_caller req, pd_label = request_label (wr_request req)\<rparr>"
  let ?job = "\<lparr>job_route = wr_route req, job_request = wr_request req, job_reply = Some ?pend\<rparr>"
  have q': "in_flight p = add_mset (wr_caller req) (in_flight ?p)" by (simp add: in_flight_def queued_def q)
  have same: "same_counts p ?p" "pl_slots ?p = pl_slots p" "pl_completed ?p = pl_completed p"
    by (simp_all add: same_counts_def)
  show ?thesis
  proof (cases "pl_slots p (wr_caller req) = CallerGone")
    case True
    with r q q' same have "settles p (wr_caller req) p'"
      by (auto simp: worker_recv_def is_closed_def settles_def inc_completed_def same_counts_def in_flight_def queued_def)
    then show ?thesis by blast
  next
    case False
    show ?thesis
    proof (cases made)
      case (Inl e)
      with False r q have "p' = pending_answer ?p ?pend (Err (handler_error_python Setup e))"
        by (simp add: worker_recv_def is_closed_def)
      with pending_answer_settles [OF same(1), of ?pend "Err (handler_error_python Setup e)"] q' same show ?thesis by auto
    next
      case (Inr u)
      with False r q have p': "p' = set_jobs ?p w (aw_jobs (pl_async_workers p ! w) @ [?job])"
        by (simp add: worker_recv_def is_closed_def)
      have "async_live ?p w" using w by (simp add: async_live_def)
      from set_jobs_flight [OF this, of "aw_jobs (pl_async_workers p ! w) @ [?job]"] q'
      have "in_flight p' = in_flight p" unfolding p' by (simp add: async_held_def job_held_def)
      then have "moves p p'" unfolding p' moves_def by (simp add: set_jobs_def same_counts_def)
      then show ?thesis by blast
    qed
  qed
qed

lemma job_answer_settles:
  assumes j: "has_job p w j" and a: "job_answer p w j result = (Ok (), p')"
  shows "\<exists>c. settles p c p'"
proof -
  let ?jobs = "aw_jobs (pl_async_workers p ! w)" let ?job = "?jobs ! j"
  obtain pend where pend: "job_reply ?job = Some pend"
    and p': "p' = pending_answer (set_jobs p w (?jobs[j := ?job\<lparr>job_reply := None\<rparr>])) pend result"
    using a by (auto simp: job_answer_def Let_def split: option.splits)
  have live: "async_live p w" and len: "j < length ?jobs" using j by (auto simp: has_job_def)
  have held: "job_held ?job = {#pd_caller pend#}" "job_held (?job\<lparr>job_reply := None\<rparr>) = {#}"
    using pend by (simp_all add: job_held_def)
  have "in_flight p = add_mset (pd_caller pend) (in_flight (set_jobs p w (?jobs[j := ?job\<lparr>job_reply := None\<rparr>])))"
    using balance [OF set_jobs_flight [OF live, unfolded async_held_def]
        sum_list_update [OF len, where f = job_held and y = "?job\<lparr>job_reply := None\<rparr>", unfolded held add_0_right]]
    by simp
  from pending_answer_settles [OF _ this] show ?thesis unfolding p' by auto
qed

lemma job_drop_step:
  assumes j: "has_job p w j"
  shows "moves p (job_drop p w j) \<or> (\<exists>c. settles p c (job_drop p w j))"
proof -
  let ?jobs = "aw_jobs (pl_async_workers p ! w)" let ?gone = "set_jobs p w (take j ?jobs @ drop (Suc j) ?jobs)"
  have live: "async_live p w" and len: "j < length ?jobs" using j by (auto simp: has_job_def)
  have f: "in_flight p = in_flight ?gone + job_held (?jobs ! j)"
    by (rule balance [OF set_jobs_flight [OF live, unfolded async_held_def] sum_list_drop_nth [OF len]])
  show ?thesis
  proof (cases "job_reply (?jobs ! j)")
    case None
    with f show ?thesis by (simp add: job_drop_def Let_def moves_def job_held_def)
  next
    case (Some pend)
    let ?q = "?gone\<lparr>pl_dropped := pl_dropped p + 1\<rparr>"
    have "same_counts p ?q" "in_flight p = add_mset (pd_caller pend) (in_flight ?q)"
      using f Some by (simp_all add: same_counts_def set_jobs_def in_flight_def queued_def job_held_def)
    from pending_answer_settles [OF this] Some show ?thesis
      by (auto simp: job_drop_def Let_def counted_refusal_def refuse_def set_jobs_def)
  qed
qed

text \<open>The other steps.\<close>

definition submits :: "'h InterpreterPool \<Rightarrow> 'h InterpreterPool \<Rightarrow> bool" where
  "submits p p' \<longleftrightarrow> pl_open p \<and> in_flight p' = add_mset (pl_callers p) (in_flight p) \<and>
     pl_slots p' = (pl_slots p)(pl_callers p := Waiting) \<and> pl_callers p' = Suc (pl_callers p) \<and>
     pl_uncounted p' = Suc (pl_uncounted p) \<and> pl_created p' = pl_created p \<and> pl_completed p' = pl_completed p \<and>
     pl_discarded p' = pl_discarded p \<and> pl_capacity p' = pl_capacity p"

definition discards :: "'h InterpreterPool \<Rightarrow> nat list \<Rightarrow> 'h InterpreterPool \<Rightarrow> bool" where
  "discards p cs p' \<longleftrightarrow> in_flight p = mset cs + in_flight p' \<and> pl_callers p' = pl_callers p \<and>
     pl_slots p' = (\<lambda>c. if c \<in> set cs \<and> pl_slots p c = Waiting then SenderGone else pl_slots p c) \<and>
     pl_uncounted p' = pl_uncounted p \<and> pl_created p' = pl_created p \<and> pl_completed p' = pl_completed p \<and>
     pl_discarded p' = pl_discarded p + length cs \<and> pl_capacity p' = pl_capacity p"

lemma submit_submits:
  "pl_open p \<Longrightarrow> submit p rid kind request = (Ok caller, p') \<Longrightarrow> submits p p'"
  by (auto simp: submit_def try_send_def Let_def submits_def in_flight_def queued_def
      split: HandlerKind.splits option.splits if_splits sum.splits)

lemma async_end_step:
  assumes w: "async_live p w" "aw_jobs (pl_async_workers p ! w) = []"
  shows "moves p (async_end p w) \<or> (\<exists>cs. discards p cs (async_end p w))"
proof -
  have h: "(\<Sum>a\<leftarrow>(pl_async_workers p)[w := \<lparr>aw_jobs = [], aw_ended = True\<rparr>]. async_held a) = (\<Sum>a\<leftarrow>pl_async_workers p. async_held a)"
    using async_update [OF w(1), of "\<lparr>aw_jobs = [], aw_ended = True\<rparr>"] w(2) by (simp add: async_held_def)
  show ?thesis
  proof (cases "pl_async_queue p")
    case None
    with h show ?thesis by (simp add: async_end_def moves_def same_counts_def in_flight_def queued_def)
  next
    case (Some queue)
    show ?thesis
    proof (cases "list_all aw_ended ((pl_async_workers p)[w := \<lparr>aw_jobs = [], aw_ended = True\<rparr>])")
      case True
      with Some h have "discards p (map wr_caller queue) (async_end p w)"
        by (simp add: async_end_def discards_def in_flight_def queued_def fun_eq_iff Let_def)
      then show ?thesis by blast
    next
      case False
      with Some h show ?thesis by (simp add: async_end_def moves_def same_counts_def in_flight_def queued_def Let_def)
    qed
  qed
qed

lemma worker_timed_out_settles:
  assumes "has_job p w j" and "worker_timed_out p w j = (Ok (), p')"
  shows "\<exists>c. settles p c p'"
proof -
  let ?q = "p\<lparr>pl_dropped := pl_dropped p + 1\<rparr>"
  have "has_job ?q w j" "job_answer ?q w j (Err (Refused Timeout)) = (Ok (), p')"
    using assms by (simp_all add: has_job_def async_live_def worker_timed_out_def counted_refusal_def refuse_def)
  from job_answer_settles [OF this] obtain c where "settles ?q c p'" ..
  then have "settles p c p'" by (auto simp: settles_def same_counts_def in_flight_def queued_def split: if_splits)
  then show ?thesis ..
qed

text \<open>Every step is of one of these sorts.\<close>

lemma pool_step_sorts:
  assumes "pool_step p p'"
  obtains (moved) "moves p p'"
  | (settled) c where "settles p c p'"
  | (submitted) "submits p p'"
  | (discarded) cs where "discards p cs p'"
  | (counted) "0 < pl_uncounted p" "p' = inc_created p"
  | (gave_up) c where "c < pl_callers p" "pl_slots p c = Waiting" "p' = give_up p c"
  using assms
proof cases
  case (Submit rid kind request caller)
  with submit_submits submitted show thesis by blast
next
  case Close
  then have "moves p p'" by (simp add: moves_def same_counts_def in_flight_def queued_def)
  then show thesis by (rule moved)
next
  case (SyncTake w)
  with sync_take_step moved settled show thesis by blast
next
  case (SyncFinish w req result)
  with sync_finish_settles settled show thesis by blast
next
  case (SyncEnd w)
  then have "moves p p'"
    using sum_list_update [of w "pl_sync_workers p" sync_held SyncEnded]
    by (simp add: moves_def same_counts_def in_flight_def queued_def set_sync_def)
  then show thesis by (rule moved)
next
  case (AsyncRecv w made)
  with worker_recv_step moved settled show thesis by blast
next
  case (AsyncSend w j response)
  with job_answer_settles settled show thesis unfolding worker_send_def by blast
next
  case (AsyncFail w j raised)
  with job_answer_settles settled show thesis unfolding worker_fail_def by blast
next
  case (AsyncTimedOut w j)
  with worker_timed_out_settles settled show thesis by blast
next
  case (JobDrop w j)
  with job_drop_step moved settled show thesis by blast
next
  case (AsyncEnd w)
  with async_end_step moved discarded show thesis by blast
qed (use counted gave_up in blast)+

subsection \<open>No request is lost\<close>

definition flight_inv :: "'h InterpreterPool \<Rightarrow> bool" where
  "flight_inv p \<longleftrightarrow>
     (\<forall>c. count (in_flight p) c \<le> 1) \<and>
     (\<forall>c. c \<in># in_flight p \<longrightarrow> c < pl_callers p \<and> pl_slots p c \<in> {Waiting, CallerGone}) \<and>
     (\<forall>c < pl_callers p. pl_slots p c = Waiting \<longrightarrow> c \<in># in_flight p) \<and>
     pl_created p + of_nat (pl_uncounted p) =
       pl_completed p + of_nat (size (in_flight p)) + of_nat (pl_discarded p)"

lemma sum_list_nothing [simp]: "sum_list (replicate n {#}) = {#}"
  by (induction n) simp_all

lemma flight_inv_new: "flight_inv (pool_new split)"
  by (simp add: flight_inv_def pool_new_def in_flight_def queued_def async_held_def)

lemma count_once_plus:
  "(\<forall>c. count (A + B) c \<le> 1) \<Longrightarrow> (\<forall>c. count B c \<le> 1) \<and> (\<forall>c. c \<in># A \<longrightarrow> c \<notin># B)"
proof -
  assume once: "\<forall>c. count (A + B) c \<le> 1"
  have "count A c + count B c \<le> 1" for c using once by simp
  then show ?thesis by (metis add_le_same_cancel2 add_leD2 count_greater_eq_one_iff dual_order.trans le_zero_eq nat_le_iff_add not_in_iff)
qed

lemma inv_settles: "flight_inv p \<Longrightarrow> settles p c p' \<Longrightarrow> flight_inv p'"
  using count_once_plus [of "{#c#}" "in_flight p'"]
  by (auto simp: flight_inv_def settles_def same_counts_def split: if_splits)

lemma inv_moves: "flight_inv p \<Longrightarrow> moves p p' \<Longrightarrow> flight_inv p'"
  by (simp add: flight_inv_def moves_def same_counts_def)

lemma inv_submits: "flight_inv p \<Longrightarrow> submits p p' \<Longrightarrow> flight_inv p'"
  by (auto simp: flight_inv_def submits_def not_in_iff [symmetric] less_Suc_eq algebra_simps)

lemma inv_discards: "flight_inv p \<Longrightarrow> discards p cs p' \<Longrightarrow> flight_inv p'"
  using count_once_plus [of "mset cs" "in_flight p'"]
  by (auto simp: flight_inv_def discards_def algebra_simps)

lemma pool_step_inv:
  assumes "pool_step p p'" and inv: "flight_inv p"
  shows "flight_inv p'"
  using assms(1)
proof (cases rule: pool_step_sorts)
  case counted
  with inv show ?thesis
    by (cases "pl_uncounted p") (auto simp: flight_inv_def inc_created_def in_flight_def queued_def algebra_simps)
next
  case (gave_up c)
  with inv show ?thesis by (auto simp: flight_inv_def give_up_def in_flight_def queued_def)
qed (use inv inv_settles inv_moves inv_submits inv_discards in blast)+


text \<open>
  The channels keep their bound and each kind of request its own workers; a worker that has ended left
  an empty queue behind.
\<close>

definition pool_shape :: "'h InterpreterPool \<Rightarrow> bool" where
  "pool_shape p \<longleftrightarrow>
     length (pl_sync_queue p) \<le> pl_capacity p \<and>
     (\<forall>queue. pl_async_queue p = Some queue \<longrightarrow> length queue \<le> pl_capacity p \<and> list_all (\<lambda>r. wr_kind r = Async) queue) \<and>
     (pl_async_queue p \<noteq> None \<longrightarrow> list_all (\<lambda>r. wr_kind r = Sync) (pl_sync_queue p) \<and>
        list_all (\<lambda>w. case w of SyncRunning r \<Rightarrow> wr_kind r = Sync | _ \<Rightarrow> True) (pl_sync_workers p)) \<and>
     (SyncEnded \<in> set (pl_sync_workers p) \<longrightarrow> pl_sync_queue p = [] \<and> \<not> pl_open p) \<and>
     (pl_sync_workers p = [] \<longrightarrow> pl_sync_queue p = []) \<and>
     list_all (\<lambda>a. aw_ended a \<longrightarrow> aw_jobs a = []) (pl_async_workers p) \<and>
     (list_all aw_ended (pl_async_workers p) \<longrightarrow> pl_async_queue p = None \<or> pl_async_queue p = Some [])"

lemma pool_shape_new: "pool_shape (pool_new split)"
  by (simp add: pool_shape_def pool_new_def list_all_iff)

lemma pending_answer_shape [simp]: "pool_shape (pending_answer p pend r) = pool_shape p"
  by (simp add: pool_shape_def pending_answer_def send_reply_def inc_completed_def Let_def case_prod_unfold)

lemma counted_refusal_eq: "counted_refusal p r = (Refused r, p\<lparr>pl_dropped := pl_dropped p + 1\<rparr>)"
  by (simp add: counted_refusal_def refuse_def)

lemma shape_counts [simp]:
  "pool_shape (p\<lparr>pl_dropped := n\<rparr>) = pool_shape p" "pool_shape (inc_completed p) = pool_shape p"
  "pool_shape (inc_created p) = pool_shape p" "pool_shape (give_up p c) = pool_shape p"
  by (simp_all add: pool_shape_def inc_completed_def inc_created_def give_up_def)

lemma set_jobs_shape:
  assumes "async_live p w" and "pool_shape p"
  shows "pool_shape (set_jobs p w jobs)"
proof -
  have "\<not> list_all aw_ended ((pl_async_workers p)[w := \<lparr>aw_jobs = jobs, aw_ended = False\<rparr>])"
    using assms(1) set_update_memI [of w "pl_async_workers p" "\<lparr>aw_jobs = jobs, aw_ended = False\<rparr>"]
    by (force simp: async_live_def list_all_iff)
  with assms(2) show ?thesis by (simp add: pool_shape_def set_jobs_def list_all_update)
qed

lemma job_answer_shape:
  "has_job p w j \<Longrightarrow> pool_shape p \<Longrightarrow> job_answer p w j result = (Ok (), p') \<Longrightarrow> pool_shape p'"
  by (auto simp: job_answer_def has_job_def Let_def set_jobs_shape split: option.splits)

lemma submit_shape:
  "pl_open p \<Longrightarrow> pool_shape p \<Longrightarrow> submit p rid kind request = (Ok caller, p') \<Longrightarrow> pool_shape p'"
  by (auto simp: submit_def try_send_def Let_def pool_shape_def
      split: HandlerKind.splits option.splits if_splits sum.splits)

lemma set_sync_shape:
  assumes "pool_shape p" and "\<And>r. s = SyncRunning r \<Longrightarrow> pl_async_queue p = None \<or> wr_kind r = Sync"
    and "s = SyncEnded \<Longrightarrow> pl_sync_queue p = [] \<and> \<not> pl_open p"
  shows "pool_shape (set_sync p w s)"
proof -
  have "set ((pl_sync_workers p)[w := s]) \<subseteq> insert s (set (pl_sync_workers p))" by (rule set_update_subset_insert)
  with assms show ?thesis
    by (cases s) (auto simp: pool_shape_def set_sync_def intro!: list_all_update)
qed

lemma async_end_shape:
  assumes "async_live p w" and "pool_shape p"
  shows "pool_shape (async_end p w)"
  using assms by (auto simp: async_end_def pool_shape_def Let_def list_all_update split: option.splits)

lemma pool_step_shape:
  assumes "pool_step p p'" and s: "pool_shape p"
  shows "pool_shape p'"
  using assms(1)
proof cases
  case (Submit rid kind request caller)
  with s submit_shape show ?thesis by blast
next
  case (SyncTake w)
  obtain req rest where q: "pl_sync_queue p = req # rest"
    using SyncTake by (auto simp: sync_take_def split: list.splits)
  have rest: "pool_shape (p\<lparr>pl_sync_queue := rest\<rparr>)" using s q by (auto simp: pool_shape_def)
  have kind: "pl_async_queue p = None \<or> wr_kind req = Sync" using s q by (auto simp: pool_shape_def)
  have "pool_shape (set_sync (p\<lparr>pl_sync_queue := rest\<rparr>) w (SyncRunning req))"
    by (rule set_sync_shape [OF rest]) (use kind in auto)
  with SyncTake q rest show ?thesis
    by (auto simp: sync_take_def Let_def)
next
  case (SyncFinish w req result)
  with set_sync_shape [OF s, of SyncIdle w] show ?thesis by (simp add: sync_finish_def)
next
  case (SyncEnd w)
  with set_sync_shape [OF s, of SyncEnded w] show ?thesis by simp
next
  case (AsyncRecv w made)
  obtain req rest where q: "pl_async_queue p = Some (req # rest)"
    using AsyncRecv by (auto simp: worker_recv_def split: option.splits list.splits)
  have rest: "pool_shape (p\<lparr>pl_async_queue := Some rest\<rparr>)" using s q by (auto simp: pool_shape_def)
  have "pool_shape (set_jobs (p\<lparr>pl_async_queue := Some rest\<rparr>) w jobs)" for jobs
    by (rule set_jobs_shape [OF _ rest]) (use AsyncRecv(1) in \<open>simp add: async_live_def\<close>)
  with AsyncRecv q rest show ?thesis
    by (auto simp: worker_recv_def Let_def split: if_splits sum.splits)
next
  case (AsyncTimedOut w j)
  then show ?thesis
    using job_answer_shape [of "p\<lparr>pl_dropped := pl_dropped p + 1\<rparr>" w j] s
    by (simp add: worker_timed_out_def counted_refusal_eq has_job_def async_live_def)
next
  case (JobDrop w j)
  then show ?thesis using s
    by (auto simp: job_drop_def counted_refusal_eq Let_def has_job_def set_jobs_shape split: option.splits)
next
  case Close
  with s show ?thesis by (simp add: pool_shape_def)
qed (use s in \<open>auto simp: worker_send_def worker_fail_def intro: job_answer_shape async_end_shape\<close>)

lemma pool_step_capacity: "pool_step p p' \<Longrightarrow> pl_capacity p' = pl_capacity p"
  by (erule pool_step_sorts)
     (auto simp: moves_def settles_def same_counts_def submits_def discards_def inc_created_def give_up_def)

definition pool_reachable :: "WorkerSplit \<Rightarrow> 'h InterpreterPool \<Rightarrow> bool" where
  "pool_reachable split p \<longleftrightarrow> pool_step\<^sup>*\<^sup>* (pool_new split) p"

lemma reachable_inv:
  assumes "pool_reachable split p"
  shows "flight_inv p \<and> pool_shape p \<and> pl_capacity p = split_total split * QUEUE_SLOTS_PER_WORKER"
  using assms unfolding pool_reachable_def
proof (induction rule: rtranclp_induct)
  case base
  then show ?case by (simp add: flight_inv_new pool_shape_new) (simp add: pool_new_def)
next
  case (step q r)
  then show ?case using pool_step_inv pool_step_shape pool_step_capacity by metis
qed

text \<open>
  C26. In every state the pool can reach, however its threads, its callers and its shutdown interleave:
  a caller that waits for a reply has its request in the pool, in exactly one place (a queue, a sync
  worker or an unanswered job); no request is in two places, and none is there whose caller was answered.
  The queues keep their bound. The requests counted as created and those about to be are those counted as
  completed, those in the pool, and those discarded with a channel.
\<close>

theorem pool_loses_no_request:
  fixes p :: "'h InterpreterPool"
  assumes "pool_reachable split p"
  shows "(\<forall>c < pl_callers p. pl_slots p c = Waiting \<longrightarrow> count (in_flight p) c = 1) \<and>
     (\<forall>c. count (in_flight p) c \<le> 1) \<and>
     (\<forall>c. c \<in># in_flight p \<longrightarrow> pl_slots p c = Waiting \<or> pl_slots p c = CallerGone) \<and>
     length (queued p) \<le> 2 * (split_total split * QUEUE_SLOTS_PER_WORKER) \<and>
     pl_created p + of_nat (pl_uncounted p) =
       pl_completed p + of_nat (size (in_flight p)) + of_nat (pl_discarded p)"
proof -
  have inv: "flight_inv p" and shape: "pool_shape p" and cap: "pl_capacity p = split_total split * QUEUE_SLOTS_PER_WORKER"
    using reachable_inv [OF assms] by auto
  have "count (in_flight p) c = 1" if "c < pl_callers p" "pl_slots p c = Waiting" for c
    using inv that by (auto simp: flight_inv_def le_Suc_eq not_in_iff [symmetric])
  moreover have "length (queued p) \<le> 2 * (split_total split * QUEUE_SLOTS_PER_WORKER)"
    using shape cap by (cases "pl_async_queue p") (auto simp: pool_shape_def queued_def)
  ultimately show ?thesis using inv by (auto simp: flight_inv_def)
qed

subsection \<open>A table of calls\<close>

text \<open>
  What a pool promises its callers: a call begins waiting and ends once, with a reply, with the caller
  giving up, or with its sender gone; a call that has ended stays as it is.
\<close>

type_synonym 'h calls = "nat \<times> (nat \<Rightarrow> 'h reply_slot)"

inductive call_step :: "'h calls \<Rightarrow> 'h calls \<Rightarrow> bool" where
  Begin: "call_step (n, s) (Suc n, s(n := Waiting))"
| Reply: "c < n \<Longrightarrow> s c = Waiting \<Longrightarrow> call_step (n, s) (n, s(c := GotReply r))"
| Leave: "c < n \<Longrightarrow> s c = Waiting \<Longrightarrow> call_step (n, s) (n, s(c := CallerGone))"
| Lose: "(\<And>c. s' c \<noteq> s c \<Longrightarrow> c < n \<and> s c = Waiting \<and> s' c = SenderGone) \<Longrightarrow> call_step (n, s) (n, s')"

definition calls_of :: "'h InterpreterPool \<Rightarrow> 'h calls" where
  "calls_of p = (pl_callers p, pl_slots p)"

lemma settles_call:
  assumes "flight_inv p" and "settles p c p'"
  shows "calls_of p' = calls_of p \<or> call_step (calls_of p) (calls_of p')"
  using assms
  by (auto simp: flight_inv_def settles_def same_counts_def calls_of_def split: if_splits intro!: Reply)

lemma discards_call:
  assumes "flight_inv p" and "discards p cs p'"
  shows "call_step (calls_of p) (calls_of p')"
  using assms by (auto simp: flight_inv_def discards_def calls_of_def intro!: Lose split: if_splits)

text \<open>
  C27. The pool implements the table of calls: each of its steps is a step of the table, or none. So each
  call is answered at most once, and what its caller has received never changes.
\<close>

theorem pool_refines_calls:
  assumes "pool_reachable split p" and "pool_step p p'"
  shows "(calls_of p' = calls_of p \<or> call_step (calls_of p) (calls_of p')) \<and>
     (\<forall>c < pl_callers p. pl_slots p c \<noteq> Waiting \<longrightarrow> pl_slots p' c = pl_slots p c)"
proof -
  have inv: "flight_inv p" using reachable_inv [OF assms(1)] by simp
  have "calls_of p' = calls_of p \<or> call_step (calls_of p) (calls_of p')"
    using assms(2)
  proof (cases rule: pool_step_sorts)
    case moved
    then show ?thesis by (simp add: moves_def same_counts_def calls_of_def)
  next
    case submitted
    then show ?thesis using Begin [of "pl_callers p" "pl_slots p"] by (simp add: submits_def calls_of_def)
  next
    case (gave_up c)
    then show ?thesis using Leave [of c "pl_callers p" "pl_slots p"] by (simp add: give_up_def calls_of_def)
  next
    case (discarded cs)
    then show ?thesis using discards_call [OF inv] by blast
  next
    case (settled c)
    then show ?thesis by (rule settles_call [OF inv])
  qed (simp add: inc_created_def calls_of_def)
  moreover have "s' c = s c" if "call_step (n, s) (n', s')" "c < n" "s c \<noteq> Waiting" for n n' c and s s' :: "nat \<Rightarrow> 'a reply_slot"
    using that by (cases rule: call_step.cases) auto
  ultimately show ?thesis by (auto simp: calls_of_def)
qed

subsection \<open>Shutdown\<close>

text \<open>What is left to do in a pool.\<close>

fun sync_work :: "'h sync_worker \<Rightarrow> nat" where
  "sync_work SyncIdle = 1"
| "sync_work (SyncRunning _) = 3"
| "sync_work SyncEnded = 0"

definition job_work :: "'h AsyncJob \<Rightarrow> nat" where
  "job_work job = (if job_reply job = None then 1 else 2)"

definition async_work :: "'h async_worker \<Rightarrow> nat" where
  "async_work a = (if aw_ended a then 0 else 1 + (\<Sum>job\<leftarrow>aw_jobs a. job_work job))"

definition still_waiting :: "'h InterpreterPool \<Rightarrow> nat set" where
  "still_waiting p = {c. c < pl_callers p \<and> pl_slots p c = Waiting}"

definition queue_work :: "'h InterpreterPool \<Rightarrow> nat" where
  "queue_work p = 4 * length (queued p) + (\<Sum>w\<leftarrow>pl_sync_workers p. sync_work w) +
     (\<Sum>a\<leftarrow>pl_async_workers p. async_work a)"

definition pool_work :: "'h InterpreterPool \<Rightarrow> nat" where
  "pool_work p = queue_work p + card (still_waiting p) + pl_uncounted p"

lemma finite_waiting [simp]: "finite (still_waiting p)"
  by (simp add: still_waiting_def)

lemma pending_answer_work [simp]: "queue_work (pending_answer p pend r) = queue_work p"
  by (simp add: queue_work_def)

lemma set_sync_work:
  "w < length (pl_sync_workers p) \<Longrightarrow>
     queue_work (set_sync p w s) + sync_work (pl_sync_workers p ! w) = queue_work p + sync_work s"
  using sum_list_update [of w "pl_sync_workers p" sync_work s]
  by (simp add: queue_work_def set_sync_def queued_def)

lemma set_jobs_work:
  assumes "async_live p w"
  shows "queue_work (set_jobs p w jobs) + (\<Sum>job\<leftarrow>aw_jobs (pl_async_workers p ! w). job_work job) =
     queue_work p + (\<Sum>job\<leftarrow>jobs. job_work job)"
  using assms sum_list_update [of w "pl_async_workers p" async_work "\<lparr>aw_jobs = jobs, aw_ended = False\<rparr>"]
  by (simp add: queue_work_def set_jobs_def queued_def async_live_def async_work_def)

lemma job_answer_work:
  assumes "has_job p w j" and "job_answer p w j result = (Ok (), p')"
  shows "queue_work p' < queue_work p"
proof -
  let ?jobs = "aw_jobs (pl_async_workers p ! w)" let ?job = "?jobs ! j"
  have live: "async_live p w" and len: "j < length ?jobs" using assms(1) by (auto simp: has_job_def)
  obtain pend where "job_reply ?job = Some pend"
    and p': "p' = pending_answer (set_jobs p w (?jobs[j := ?job\<lparr>job_reply := None\<rparr>])) pend result"
    using assms(2) by (auto simp: job_answer_def Let_def split: option.splits)
  then have "job_work ?job = 2" "job_work (?job\<lparr>job_reply := None\<rparr>) = 1" by (simp_all add: job_work_def)
  then show ?thesis
    using set_jobs_work [OF live, of "?jobs[j := ?job\<lparr>job_reply := None\<rparr>]"]
      sum_list_update [OF len, where f = job_work and y = "?job\<lparr>job_reply := None\<rparr>"]
    unfolding p' by simp
qed

lemma job_drop_work:
  assumes "has_job p w j"
  shows "queue_work (job_drop p w j) < queue_work p"
proof -
  let ?jobs = "aw_jobs (pl_async_workers p ! w)"
  have live: "async_live p w" and len: "j < length ?jobs" using assms(1) by (auto simp: has_job_def)
  have "queue_work (set_jobs p w (take j ?jobs @ drop (Suc j) ?jobs)) < queue_work p"
    using set_jobs_work [OF live, of "take j ?jobs @ drop (Suc j) ?jobs"] sum_list_drop_nth [OF len, where f = job_work]
    by (simp add: job_work_def split: if_splits)
  moreover have "queue_work (q\<lparr>pl_dropped := n\<rparr>) = queue_work q" for q :: "'h InterpreterPool" and n
    by (simp add: queue_work_def queued_def)
  ultimately show ?thesis
    by (auto simp: job_drop_def counted_refusal_eq Let_def queue_work_def queued_def split: option.splits)
qed

lemma sync_take_work:
  assumes "w < length (pl_sync_workers p)" "pl_sync_workers p ! w = SyncIdle" "sync_take p w = Some p'"
  shows "queue_work p' < queue_work p"
proof -
  obtain req rest where q: "pl_sync_queue p = req # rest" using assms(3) by (auto simp: sync_take_def split: list.splits)
  let ?p = "p\<lparr>pl_sync_queue := rest\<rparr>"
  have "queue_work p = queue_work ?p + 4" "queue_work (inc_completed ?p) = queue_work ?p"
    using q by (simp_all add: queue_work_def queued_def inc_completed_def)
  with set_sync_work [of w ?p "SyncRunning req"] assms q show ?thesis
    by (auto simp: sync_take_def Let_def split: if_splits)
qed

lemma worker_recv_work:
  assumes "async_live p w" and "worker_recv p w made = Some p'"
  shows "queue_work p' < queue_work p"
proof -
  obtain req rest where q: "pl_async_queue p = Some (req # rest)"
    using assms(2) by (auto simp: worker_recv_def split: option.splits list.splits)
  let ?p = "p\<lparr>pl_async_queue := Some rest\<rparr>"
  have "queue_work p = queue_work ?p + 4" "queue_work (inc_completed ?p) = queue_work ?p"
    using q by (simp_all add: queue_work_def queued_def inc_completed_def)
  moreover have "queue_work (set_jobs ?p w (aw_jobs (pl_async_workers p ! w) @ [job])) = queue_work ?p + job_work job" for job
    using set_jobs_work [of ?p w "aw_jobs (pl_async_workers p ! w) @ [job]"] assms(1) by (simp add: async_live_def)
  ultimately show ?thesis
    using assms(2) q by (auto simp: worker_recv_def Let_def job_work_def split: if_splits sum.splits)
qed

lemma async_end_work:
  assumes "async_live p w"
  shows "queue_work (async_end p w) < queue_work p"
  using assms sum_list_update [of w "pl_async_workers p" async_work "\<lparr>aw_jobs = [], aw_ended = True\<rparr>"]
  by (auto simp: async_end_def queue_work_def queued_def async_live_def async_work_def Let_def split: option.splits)

lemma closed_step_others:
  assumes "pool_step p p'" and "\<not> pl_open p"
  shows "pl_uncounted p' \<le> pl_uncounted p \<and> still_waiting p' \<subseteq> still_waiting p"
  using assms
  by (cases rule: pool_step_sorts)
     (auto simp: moves_def settles_def same_counts_def submits_def discards_def inc_created_def give_up_def
       still_waiting_def split: if_splits)

lemma closed_step_work:
  assumes step: "pool_step p p'" and closed: "\<not> pl_open p"
  shows "pool_work p' < pool_work p"
proof -
  have le: "pl_uncounted p' \<le> pl_uncounted p" "card (still_waiting p') \<le> card (still_waiting p)"
    using closed_step_others [OF assms] by (auto intro: card_mono)
  from step show ?thesis
  proof cases
    case Count
    then show ?thesis by (simp add: pool_work_def inc_created_def queue_work_def queued_def still_waiting_def)
  next
    case (GiveUp c)
    then have "still_waiting p' = still_waiting p - {c}" "c \<in> still_waiting p"
      by (auto simp: still_waiting_def give_up_def)
    then have "card (still_waiting p') < card (still_waiting p)" by (metis card_Diff1_less finite_waiting)
    with GiveUp show ?thesis by (simp add: pool_work_def give_up_def queue_work_def queued_def)
  next
    case (SyncFinish w req result)
    then have "queue_work p' < queue_work p" using set_sync_work [of w p SyncIdle] by (simp add: sync_finish_def)
    with le show ?thesis by (simp add: pool_work_def)
  next
    case (SyncEnd w)
    then have "queue_work p' < queue_work p" using set_sync_work [of w p SyncEnded] by simp
    with le show ?thesis by (simp add: pool_work_def)
  next
    case (AsyncTimedOut w j)
    then have "queue_work p' < queue_work (p\<lparr>pl_dropped := pl_dropped p + 1\<rparr>)"
      using job_answer_work [of "p\<lparr>pl_dropped := pl_dropped p + 1\<rparr>" w j _ p']
      by (auto simp: worker_timed_out_def counted_refusal_eq has_job_def async_live_def)
    with le show ?thesis by (simp add: pool_work_def queue_work_def queued_def)
  qed (use closed le sync_take_work [of _ p p'] worker_recv_work [of p _ _ p'] job_answer_work [of p _ _ _ p']
      job_drop_work [of p] async_end_work [of p] in
      \<open>fastforce simp: pool_work_def worker_send_def worker_fail_def\<close>)+
qed

text \<open>Where nothing can happen any more.\<close>

definition drained :: "'h InterpreterPool \<Rightarrow> bool" where
  "drained p \<longleftrightarrow> list_all (\<lambda>w. w = SyncEnded) (pl_sync_workers p) \<and> list_all aw_ended (pl_async_workers p) \<and>
     in_flight p = {#} \<and> still_waiting p = {} \<and> pl_uncounted p = 0"

lemma closed_step_closed:
  assumes "pool_step p p'" and "\<not> pl_open p"
  shows "\<not> pl_open p'"
  using assms
  by cases (auto simp: inc_created_def give_up_def sync_take_def sync_finish_def set_sync_def inc_completed_def
      worker_recv_def set_jobs_def worker_send_def worker_fail_def worker_timed_out_def counted_refusal_eq job_answer_def
      job_drop_def async_end_def Let_def split: list.splits option.splits if_splits sum.splits)

lemma sum_list_neutral:
  fixes f :: "'a \<Rightarrow> 'b::comm_monoid_add"
  shows "(\<And>x. x \<in> set xs \<Longrightarrow> f x = 0) \<Longrightarrow> (\<Sum>x\<leftarrow>xs. f x) = 0"
  by (induction xs) simp_all

lemma stuck_drained:
  assumes stuck: "\<And>p'. \<not> pool_step p p'" and closed: "\<not> pl_open p" and inv: "flight_inv p" and shape: "pool_shape p"
  shows "drained p"
proof -
  have sync: "pl_sync_workers p ! w = SyncEnded" if w: "w < length (pl_sync_workers p)" for w
  proof (cases "pl_sync_workers p ! w")
    case SyncIdle
    with stuck SyncEnd [OF w SyncIdle _ closed] SyncTake [OF w SyncIdle] show ?thesis
      by (cases "pl_sync_queue p") (auto simp: sync_take_def Let_def)
  next
    case (SyncRunning req)
    with stuck SyncFinish [OF w SyncRunning] show ?thesis by blast
  qed
  have async: "aw_ended (pl_async_workers p ! w)" if w: "w < length (pl_async_workers p)" for w
  proof (rule ccontr)
    assume "\<not> aw_ended (pl_async_workers p ! w)"
    with w have live: "async_live p w" by (simp add: async_live_def)
    with stuck AsyncEnd [OF live] JobDrop [of p w 0] show False by (cases "aw_jobs (pl_async_workers p ! w)") (auto simp: has_job_def)
  qed
  have all: "list_all (\<lambda>w. w = SyncEnded) (pl_sync_workers p)" "list_all aw_ended (pl_async_workers p)"
    using sync async by (simp_all add: list_all_length)
  have "sync_held w = {#}" if "w \<in> set (pl_sync_workers p)" for w using all(1) that by (auto simp: list_all_iff)
  moreover have "async_held a = {#}" if "a \<in> set (pl_async_workers p)" for a
    using all(2) that shape by (auto simp: list_all_iff pool_shape_def async_held_def)
  moreover have "pl_sync_queue p = []"
    using all(1) shape by (cases "pl_sync_workers p") (auto simp: pool_shape_def)
  moreover have "pl_async_queue p = None \<or> pl_async_queue p = Some []" using all(2) shape by (simp add: pool_shape_def)
  ultimately have "in_flight p = {#}" by (auto simp: in_flight_def queued_def sum_list_neutral)
  with inv all stuck Count [of p] show ?thesis by (auto simp: drained_def flight_inv_def still_waiting_def)
qed

lemma closed_reaches:
  assumes "pool_step\<^sup>*\<^sup>* p q" and "\<not> pl_open p" and "flight_inv p" and "pool_shape p"
  shows "\<not> pl_open q \<and> flight_inv q \<and> pool_shape q"
  using assms(1)
  by (induction rule: rtranclp_induct)
     (use assms closed_step_closed pool_step_inv pool_step_shape in metis)+

text \<open>
  C28. A closed pool comes to an end: no run of it is infinite, whatever its handlers answer and
  whichever callers give up, and where a run cannot go on, every worker has ended, no request is left
  and no caller waits.
\<close>

theorem closed_pool_drains:
  fixes p :: "'h InterpreterPool"
  assumes "pool_reachable split p" and closed: "\<not> pl_open p"
  shows "(\<nexists>run. run 0 = p \<and> (\<forall>i. pool_step (run i) (run (Suc i)))) \<and>
     (\<forall>q. pool_step\<^sup>*\<^sup>* p q \<longrightarrow> (\<forall>q'. \<not> pool_step q q') \<longrightarrow> drained q)"
proof -
  have inv: "flight_inv p" "pool_shape p" using reachable_inv [OF assms(1)] by auto
  have "False" if run: "run 0 = p" "\<And>i. pool_step (run i) (run (Suc i))" for run
  proof -
    have reached: "pool_step\<^sup>*\<^sup>* p (run i)" for i
      by (induction i) (use run in \<open>auto intro: rtranclp.rtrancl_into_rtrancl\<close>)
    have "pool_work (run (Suc i)) < pool_work (run i)" for i
      using closed_step_work [OF run(2)] closed_reaches [OF reached closed inv] by blast
    then show False
      using wf_iff_no_infinite_down_chain [of "measure pool_work"] by auto
  qed
  then show ?thesis using stuck_drained closed_reaches [OF _ closed inv] by blast
qed

subsection \<open>The split\<close>

lemma split_workers_kinds:
  "split_workers n has_sync has_async = Ok split \<Longrightarrow>
     split_total split = n \<and> (has_sync \<longrightarrow> 0 < sync_workers split) \<and> (has_async \<longrightarrow> 0 < async_workers split)"
  by (auto simp: split_workers.simps split_total_def split: if_splits)

text \<open>
  For every route table the split serves, every worker is used, and each handler kind the pool must
  run has a worker of its own: a sync or async route that does not run on the main interpreter is never
  left without one.
\<close>

theorem split_serves_routes:
  assumes "split_workers_for_routes n (shape_gil shape) (shape_is_async shape) = Ok split" and "shape = route_shape_of t"
  shows "split_total split = n \<and>
     (\<forall>r \<in> set (rt_routes t). case r_dispatch r of
        Worker Sync \<Rightarrow> 0 < sync_workers split | Worker Async \<Rightarrow> 0 < async_workers split | Main _ \<Rightarrow> True)"
proof -
  define ds where ds: "ds = map r_dispatch (rt_routes t)"
  have pooled: "list_ex P (map snd (filter (\<lambda>(gil, _). \<not> gil) (zip (map f ds) (map g ds)))) = list_ex (\<lambda>d. \<not> f d \<and> P (g d)) ds"
    for P f g and ds :: "Dispatch list" by (induction ds) auto
  have kinds: "split_workers n (list_ex (\<lambda>d. \<not> is_main d \<and> d \<noteq> Worker Async) ds) (list_ex (\<lambda>d. \<not> is_main d \<and> d = Worker Async) ds) = Ok split"
    using assms unfolding split_workers_for_routes_def route_shape_of_def Let_def ds by (simp only: RouteShape.select_convs pooled)
  note split = split_workers_kinds [OF kinds]
  have "case d of Worker Sync \<Rightarrow> 0 < sync_workers split | Worker Async \<Rightarrow> 0 < async_workers split | Main _ \<Rightarrow> True"
    if "d \<in> set ds" for d
    using split that by (cases d rule: is_main.cases) (force simp: list_ex_iff split: HandlerKind.splits)+
  then show ?thesis using split by (simp add: ds)
qed

subsection \<open>Witnesses\<close>

definition one_worker :: WorkerSplit where "one_worker = \<lparr>sync_workers = 1, async_workers = 0\<rparr>"

lemma one_submitted:
  "\<exists>p'. submit (pool_new one_worker :: (string \<times> string) list InterpreterPool) 0 Sync demo_request = (Ok 0, p') \<and>
     pl_callers p' = 1 \<and> pl_slots p' 0 = Waiting \<and> \<not> pl_open (p'\<lparr>pl_open := False\<rparr>)"
  by (simp add: submit_def try_send_def pool_new_def one_worker_def split_total_def QUEUE_SLOTS_PER_WORKER_def)

lemma one_submitted_reachable:
  assumes "submit (pool_new one_worker) 0 Sync demo_request = (Ok 0, p')"
  shows "pool_reachable one_worker p'" "pool_reachable one_worker (p'\<lparr>pl_open := False\<rparr>)"
proof -
  have "pool_step (pool_new one_worker) p'" by (rule Submit [OF _ assms]) (simp add: pool_new_def)
  then show r: "pool_reachable one_worker p'" by (simp add: pool_reachable_def)
  have "pl_open p'" using assms by (auto simp: submit_def try_send_def pool_new_def Let_def split: if_splits sum.splits)
  then show "pool_reachable one_worker (p'\<lparr>pl_open := False\<rparr>)"
    using r Close unfolding pool_reachable_def by (metis rtranclp.rtrancl_into_rtrancl)
qed

theorem pool_loses_no_request_witness:
  "\<exists>p. submit (pool_new one_worker) 0 Sync demo_request = (Ok 0, p) \<and> count (in_flight p) 0 = 1"
proof -
  obtain p where p: "submit (pool_new one_worker) 0 Sync demo_request = (Ok 0, p)" "pl_callers p = 1" "pl_slots p 0 = Waiting"
    using one_submitted by blast
  from pool_loses_no_request [OF one_submitted_reachable(1) [OF p(1)]] p show ?thesis by simp
qed

theorem pool_refines_calls_witness:
  "\<exists>p'. submit (pool_new one_worker) 0 Sync demo_request = (Ok 0, p') \<and> call_step (calls_of (pool_new one_worker)) (calls_of p')"
proof -
  obtain p' where p': "submit (pool_new one_worker) 0 Sync demo_request = (Ok 0, p')" "pl_callers p' = 1"
    using one_submitted by blast
  have "pool_reachable one_worker (pool_new one_worker :: (string \<times> string) list InterpreterPool)"
    by (simp add: pool_reachable_def)
  moreover have "pool_step (pool_new one_worker) p'" by (rule Submit [OF _ p'(1)]) (simp add: pool_new_def)
  ultimately have "calls_of p' = calls_of (pool_new one_worker) \<or> call_step (calls_of (pool_new one_worker)) (calls_of p')"
    using pool_refines_calls by blast
  with p' show ?thesis by (auto simp: calls_of_def pool_new_def)
qed

theorem closed_pool_drains_witness:
  "\<exists>p. submit (pool_new one_worker) 0 Sync demo_request = (Ok 0, p) \<and>
     (\<nexists>run. run 0 = p\<lparr>pl_open := False\<rparr> \<and> (\<forall>i. pool_step (run i) (run (Suc i))))"
proof -
  obtain p where p: "submit (pool_new one_worker) 0 Sync demo_request = (Ok 0, p)" using one_submitted by blast
  from closed_pool_drains [OF one_submitted_reachable(2) [OF p]] p show ?thesis by simp
qed

theorem split_serves_routes_witness:
  "split_workers_for_routes 3 (shape_gil (route_shape_of demo_table)) (shape_is_async (route_shape_of demo_table)) =
     Ok \<lparr>sync_workers = 3, async_workers = 0\<rparr> \<and> 0 < sync_workers \<lparr>sync_workers = 3, async_workers = 0\<rparr>"
proof -
  have s: "split_workers_for_routes 3 (shape_gil (route_shape_of demo_table)) (shape_is_async (route_shape_of demo_table)) =
     Ok \<lparr>sync_workers = 3, async_workers = 0\<rparr>"
    unfolding demo_table_eq by (simp add: split_workers_for_routes_def route_shape_of_def split_workers.simps)
  from split_serves_routes [OF s refl] s show ?thesis by (simp add: demo_table_eq)
qed

subsection \<open>A failed start\<close>

lemma spawn_from_partition:
  "spawn_from spawn i running ws = Err (k, e, w, running', rest) \<Longrightarrow> running @ ws = running' @ w # rest \<and> spawn k = Err e"
  by (induction spawn i running ws rule: spawn_from.induct) (auto split: sum.splits)

lemma spawn_from_ok: "spawn_from spawn i running ws = Ok running' \<Longrightarrow> running' = running @ ws"
  by (induction spawn i running ws rule: spawn_from.induct) (auto split: sum.splits)

text \<open>
  A start that fails ends the workers it built, except that one whose own thread could not be spawned:
  its interpreter is leaked.
\<close>

lemma failed_spawn_leaks:
  assumes "pool_start mk_sync mk_async spawn split = (Err (PoolSpawn i e), s)"
    and "build_workers mk_sync mk_async split = (Ok (syncs, asyncs), [])"
  shows "\<exists>w. started_leaked s = [w] \<and> started_running s = [] \<and>
     add_mset w (mset (started_ended s)) = mset (syncs @ asyncs)"
  using assms
  by (auto simp: pool_start_def simp flip: mset_append split: sum.splits prod.splits dest!: spawn_from_partition spawn_from_ok)
     (simp_all add: ac_simps)

lemma spawn_from_never_fails: "\<forall>i. \<not> isl (spawn i) \<Longrightarrow> spawn_from spawn i running ws = Ok (running @ ws)"
proof (induction spawn i running ws rule: spawn_from.induct)
  case (2 spawn i running w ws)
  then obtain u where "spawn i = Ok u" by (metis old.sum.exhaust sum.disc(1))
  with 2 show ?case by simp
qed simp

lemma failed_start:
  assumes "pool_start mk_sync mk_async spawn split = (Err e, s)"
  shows "started_running s = []" and "length (started_leaked s) = (case e of PoolSpawn i source \<Rightarrow> 1 | PoolWorker _ \<Rightarrow> 0)"
    and "\<forall>i. \<not> isl (spawn i) \<Longrightarrow> started_leaked s = []"
  using assms by (auto simp: pool_start_def spawn_from_never_fails split: sum.splits prod.splits)

end
