(* ===== verification/Config.thy ===== *)
theory Config
  imports Prelude
begin

section \<open>Server configuration (\<open>src/config.rs\<close>)\<close>

text \<open>
  The serving mode, the GC schedule, the environment variables the engine reads, and the topology
  they resolve to. The environment is the argument \<open>lookup\<close> of \<open>parse\<close>, as in the source: \<open>None\<close>
  for an unset variable, an error holding the lossy text for one that is not UTF-8. What the source
  decides by \<open>#[cfg(target_os = ..)]\<close> is decided here by an argument of type \<open>target_os\<close>;
  the \<open>Fanout\<close> variants exist in the model on every system and are reachable on macOS only.
\<close>

datatype target_os = Linux | MacOs | OtherOs

datatype Mode = Gil | Subinterp

definition uses_workers :: "Mode \<Rightarrow> bool" where
  "uses_workers m \<longleftrightarrow> m = Subinterp"

fun mode_as_str :: "Mode \<Rightarrow> string" where
  "mode_as_str Gil = ''gil''"
| "mode_as_str Subinterp = ''subinterp''"

datatype UnknownMode = UnknownMode string

definition mode_from_str :: "string \<Rightarrow> (Mode, UnknownMode) result" where
  "mode_from_str name =
     (if name = ''gil'' \<or> name = ''default'' then Ok Gil
      else if name = ''subinterp'' \<or> name = ''auto'' then Ok Subinterp
      else Err (UnknownMode name))"

subsection \<open>Environment variables and defaults\<close>

definition TPC_ENV :: string where "TPC_ENV = ''PYRONOVA_TPC''"
definition TPC_DARWIN_ENV :: string where "TPC_DARWIN_ENV = ''PYRONOVA_TPC_DARWIN''"
definition GC_MODE_ENV :: string where "GC_MODE_ENV = ''PYRONOVA_GC_MODE''"
definition GC_THRESHOLD_ENV :: string where "GC_THRESHOLD_ENV = ''PYRONOVA_GC_THRESHOLD''"
definition GC_OOM_FAILSAFE_ENV :: string where "GC_OOM_FAILSAFE_ENV = ''PYRONOVA_GC_OOM_FAILSAFE''"
definition GC_IDLE_MS_ENV :: string where "GC_IDLE_MS_ENV = ''PYRONOVA_GC_IDLE_MS''"
definition BRIDGE_WORKERS_ENV :: string where "BRIDGE_WORKERS_ENV = ''PYRONOVA_GIL_BRIDGE_WORKERS''"
definition BRIDGE_CAPACITY_ENV :: string where "BRIDGE_CAPACITY_ENV = ''PYRONOVA_GIL_BRIDGE_CAPACITY''"
definition METRICS_ENV :: string where "METRICS_ENV = ''PYRONOVA_METRICS''"

lemmas env_var_defs =
  TPC_ENV_def TPC_DARWIN_ENV_def GC_MODE_ENV_def GC_THRESHOLD_ENV_def GC_OOM_FAILSAFE_ENV_def
  GC_IDLE_MS_ENV_def BRIDGE_WORKERS_ENV_def BRIDGE_CAPACITY_ENV_def METRICS_ENV_def

definition DEFAULT_GC_THRESHOLD :: nat where "DEFAULT_GC_THRESHOLD = 100000"
definition DEFAULT_GC_OOM_FAILSAFE :: nat where "DEFAULT_GC_OOM_FAILSAFE = 50000"
definition DEFAULT_GC_IDLE_MS :: nat where "DEFAULT_GC_IDLE_MS = 100"
definition DEFAULT_BRIDGE_WORKERS :: nat where "DEFAULT_BRIDGE_WORKERS = 4"
definition BRIDGE_QUEUE_PER_WORKER :: nat where "BRIDGE_QUEUE_PER_WORKER = 16"

lemmas env_default_defs =
  DEFAULT_GC_THRESHOLD_def DEFAULT_GC_OOM_FAILSAFE_def DEFAULT_GC_IDLE_MS_def
  DEFAULT_BRIDGE_WORKERS_def BRIDGE_QUEUE_PER_WORKER_def

record EnvError =
  ee_var :: string
  ee_raw :: string
  ee_expected :: string

datatype DarwinTopology = PerThreadListener | Fanout

datatype GcMode = Count | Idle | Off

fun gc_mode_display :: "GcMode \<Rightarrow> string" where
  "gc_mode_display Count = ''count''"
| "gc_mode_display Idle = ''idle''"
| "gc_mode_display Off = ''off''"

text \<open>\<open>Sizing\<close>, \<open>Topology\<close> and \<open>Cpus\<close> (the last from \<open>src/server/cpu.rs\<close>); counts are non-zero.\<close>

record Sizing =
  sz_workers :: "nat option"
  sz_io_workers :: "nat option"

record Cpus =
  cpu_logical :: nat
  cpu_physical :: nat

datatype Topology =
    TpcGil (tp_threads: nat)
  | TpcWorkers (tp_threads: nat)
  | TpcFanout (tp_threads: nat)
  | MultiThreadGil (tp_io_threads: nat) (tp_accept_loops: nat)
  | Pool (tp_workers: nat) (tp_io_threads: nat) (tp_accept_loops: nat)

datatype GcModeError = Unknown string | Unsupported GcMode Topology

datatype ConfigError = Env EnvError | Gc GcModeError

definition gc_mode_from_str :: "string \<Rightarrow> (GcMode, GcModeError) result" where
  "gc_mode_from_str raw =
     (if raw = ''count'' then Ok Count
      else if raw = ''idle'' then Ok Idle
      else if raw = ''off'' then Ok Off
      else Err (Unknown raw))"

record GcConfig =
  gc_mode :: GcMode
  gc_threshold :: nat
  gc_oom_failsafe :: nat
  gc_idle_tick :: nat \<comment> \<open>milliseconds\<close>

fun gc_mode_trigger :: "GcMode \<Rightarrow> GcConfig \<Rightarrow> nat" where
  "gc_mode_trigger Count c = gc_threshold c"
| "gc_mode_trigger Idle c = gc_oom_failsafe c"
| "gc_mode_trigger Off c = 0"

definition count_trigger :: "GcConfig \<Rightarrow> nat" where
  "count_trigger c = gc_mode_trigger (gc_mode c) c"

record BridgeConfig =
  br_workers :: nat
  br_capacity :: nat

record EnvConfig =
  env_tpc :: bool
  env_darwin_topology :: DarwinTopology
  env_gc :: GcConfig
  env_bridge :: BridgeConfig
  env_metrics :: bool

subsection \<open>Parsing the environment\<close>

type_synonym env_lookup = "string \<Rightarrow> (string, string) result option"

definition parse_bool :: "string \<Rightarrow> bool option" where
  "parse_bool raw =
     (let r = to_ascii_lowercase raw
      in if r = ''1'' \<or> r = ''true'' \<or> r = ''yes'' \<or> r = ''on'' then Some True
         else if r = ''0'' \<or> r = ''false'' \<or> r = ''no'' \<or> r = ''off'' then Some False
         else None)"

text \<open>The texts of the \<open>expected\<close> field.\<close>

definition EXPECTED_BOOL :: string where
  "EXPECTED_BOOL = ''expected 1/true/yes/on or 0/false/no/off''"

definition EXPECTED_TOPOLOGY :: string where
  "EXPECTED_TOPOLOGY = ''expected \"fanout\" or \"listener\"''"

definition EXPECTED_MACOS :: string where
  "EXPECTED_MACOS = ''the fanout topology exists on macOS only''"

definition EXPECTED_COUNT :: string where
  "EXPECTED_COUNT = ''expected a request count (0 or more)''"

definition EXPECTED_MILLIS :: string where
  "EXPECTED_MILLIS = ''expected a positive number of milliseconds''"

definition EXPECTED_POSITIVE :: string where
  "EXPECTED_POSITIVE = ''expected a positive integer''"

definition EXPECTED_FLAG :: string where
  "EXPECTED_FLAG = ''expected 1 or 0''"

text \<open>The closures \<open>get\<close>, \<open>invalid\<close>, \<open>count\<close> and \<open>positive\<close> of \<open>EnvConfig::parse\<close>.\<close>

definition env_invalid :: "string \<Rightarrow> string \<Rightarrow> string \<Rightarrow> EnvError" where
  "env_invalid var raw expected = \<lparr>ee_var = var, ee_raw = raw, ee_expected = expected\<rparr>"

definition env_get :: "env_lookup \<Rightarrow> string \<Rightarrow> string \<Rightarrow> (string option, EnvError) result" where
  "env_get lookup var expected =
     (case lookup var of
        None \<Rightarrow> Ok None
      | Some (Inr raw) \<Rightarrow> Ok (Some raw)
      | Some (Inl raw) \<Rightarrow> Err (env_invalid var raw expected))"

text \<open>
  A variable with a parser: its default when unset, an error naming it and its raw text when it
  does not parse. The source writes this out for each of \<open>count\<close>, \<open>positive\<close>, \<open>idle_ms\<close> and \<open>tpc\<close>.
\<close>

definition env_value ::
    "env_lookup \<Rightarrow> string \<Rightarrow> string \<Rightarrow> 'a \<Rightarrow> (string \<Rightarrow> 'a option) \<Rightarrow> ('a, EnvError) result" where
  "env_value lookup var expected dflt parser =
     and_then (env_get lookup var expected)
       (\<lambda>r. case r of
              None \<Rightarrow> Ok dflt
            | Some raw \<Rightarrow> ok_or (env_invalid var raw expected) (parser raw))"

definition env_count :: "env_lookup \<Rightarrow> string \<Rightarrow> nat \<Rightarrow> (nat, EnvError) result" where
  "env_count lookup var dflt =
     env_value lookup var EXPECTED_COUNT dflt (parse_uint U64_MAX)"

definition env_positive :: "env_lookup \<Rightarrow> string \<Rightarrow> (nat option, EnvError) result" where
  "env_positive lookup var =
     env_value lookup var EXPECTED_POSITIVE None
       (\<lambda>raw. map_option Some (parse_nonzero USIZE_MAX raw))"

definition env_tpc_value :: "env_lookup \<Rightarrow> (bool, EnvError) result" where
  "env_tpc_value lookup =
     env_value lookup TPC_ENV EXPECTED_BOOL True parse_bool"

definition env_darwin_value :: "target_os \<Rightarrow> env_lookup \<Rightarrow> (DarwinTopology, EnvError) result" where
  "env_darwin_value os lookup =
     and_then (env_get lookup TPC_DARWIN_ENV EXPECTED_TOPOLOGY)
       (\<lambda>r. case r of
              None \<Rightarrow> Ok PerThreadListener
            | Some raw \<Rightarrow>
                if raw = ''listener'' then Ok PerThreadListener
                else if raw = ''fanout'' then
                  (if os = MacOs then Ok Fanout
                   else Err (env_invalid TPC_DARWIN_ENV ''fanout''
                          EXPECTED_MACOS))
                else Err (env_invalid TPC_DARWIN_ENV raw EXPECTED_TOPOLOGY))"

definition env_gc_mode_value :: "env_lookup \<Rightarrow> (GcMode, GcModeError) result" where
  "env_gc_mode_value lookup =
     (case lookup GC_MODE_ENV of
        None \<Rightarrow> Ok Count
      | Some (Inr raw) \<Rightarrow> gc_mode_from_str raw
      | Some (Inl raw) \<Rightarrow> Err (Unknown raw))"

definition env_idle_ms_value :: "env_lookup \<Rightarrow> (nat, EnvError) result" where
  "env_idle_ms_value lookup =
     env_value lookup GC_IDLE_MS_ENV EXPECTED_MILLIS
       DEFAULT_GC_IDLE_MS (parse_nonzero U64_MAX)"

definition parse_flag :: "string \<Rightarrow> bool option" where
  "parse_flag raw = (if raw = ''0'' then Some False else if raw = ''1'' then Some True else None)"

definition env_metrics_value :: "env_lookup \<Rightarrow> (bool, EnvError) result" where
  "env_metrics_value lookup =
     env_value lookup METRICS_ENV EXPECTED_FLAG False
       parse_flag"

text \<open>\<open>EnvConfig::parse\<close>, in the source's order: the first variable that does not parse is the error.\<close>

definition env_parse :: "target_os \<Rightarrow> env_lookup \<Rightarrow> (EnvConfig, ConfigError) result" where
  "env_parse os lookup =
     and_then (map_err Env (env_tpc_value lookup)) (\<lambda>tpc.
     and_then (map_err Env (env_darwin_value os lookup)) (\<lambda>darwin.
     and_then (map_err Gc (env_gc_mode_value lookup)) (\<lambda>mode.
     and_then (map_err Env (env_idle_ms_value lookup)) (\<lambda>idle_ms.
     and_then (map_err Env (env_count lookup GC_THRESHOLD_ENV DEFAULT_GC_THRESHOLD)) (\<lambda>threshold.
     and_then (map_err Env (env_count lookup GC_OOM_FAILSAFE_ENV DEFAULT_GC_OOM_FAILSAFE)) (\<lambda>failsafe.
     and_then (map_err Env (env_positive lookup BRIDGE_WORKERS_ENV)) (\<lambda>w.
     let workers = (case w of Some n \<Rightarrow> n | None \<Rightarrow> DEFAULT_BRIDGE_WORKERS) in
     and_then (map_err Env (env_positive lookup BRIDGE_CAPACITY_ENV)) (\<lambda>c.
     let capacity = (case c of Some n \<Rightarrow> n
                             | None \<Rightarrow> saturating_mul workers BRIDGE_QUEUE_PER_WORKER) in
     and_then (map_err Env (env_metrics_value lookup)) (\<lambda>metrics.
     Ok \<lparr>env_tpc = tpc, env_darwin_topology = darwin,
         env_gc = \<lparr>gc_mode = mode, gc_threshold = threshold, gc_oom_failsafe = failsafe,
                   gc_idle_tick = idle_ms\<rparr>,
         env_bridge = \<lparr>br_workers = workers, br_capacity = capacity\<rparr>,
         env_metrics = metrics\<rparr>)))))))))"

subsection \<open>Topology\<close>

fun multi_thread_accept_loops :: "target_os \<Rightarrow> nat \<Rightarrow> nat \<Rightarrow> nat" where
  "multi_thread_accept_loops Linux io_threads logical = min io_threads logical"
| "multi_thread_accept_loops _ io_threads logical = 1"

fun accept_loops :: "Topology \<Rightarrow> nat" where
  "accept_loops (TpcGil threads) = threads"
| "accept_loops (TpcWorkers threads) = threads"
| "accept_loops (TpcFanout threads) = 1"
| "accept_loops (MultiThreadGil io_threads loops) = loops"
| "accept_loops (Pool workers io_threads loops) = loops"

fun supports :: "Topology \<Rightarrow> GcMode \<Rightarrow> bool" where
  "supports (TpcGil _) m = True"
| "supports (TpcWorkers _) m = True"
| "supports (MultiThreadGil _ _) m = True"
| "supports (TpcFanout _) m = (m = Count \<or> m = Off)"
| "supports (Pool _ _ _) m = (m = Count)"

definition unwrap_or :: "'a option \<Rightarrow> 'a \<Rightarrow> 'a" where
  "unwrap_or v d = (case v of Some x \<Rightarrow> x | None \<Rightarrow> d)"

text \<open>The topology of the mode, the environment and the sizes, before the GC mode is checked.\<close>

definition select_topology :: "target_os \<Rightarrow> Mode \<Rightarrow> EnvConfig \<Rightarrow> Sizing \<Rightarrow> Cpus \<Rightarrow> Topology" where
  "select_topology os mode env sizing cpus =
     (if env_tpc env then
        (let threads = unwrap_or (sz_workers sizing) (cpu_physical cpus)
         in case mode of
              Gil \<Rightarrow> TpcGil threads
            | Subinterp \<Rightarrow>
                (case env_darwin_topology env of
                   PerThreadListener \<Rightarrow> TpcWorkers threads
                 | Fanout \<Rightarrow> TpcFanout threads))
      else
        (let io_threads = unwrap_or (sz_io_workers sizing) (cpu_logical cpus);
             loops = multi_thread_accept_loops os io_threads (cpu_logical cpus)
         in case mode of
              Gil \<Rightarrow> MultiThreadGil io_threads loops
            | Subinterp \<Rightarrow>
                Pool (unwrap_or (sz_workers sizing) (cpu_logical cpus)) io_threads loops))"

definition topology_resolve ::
    "target_os \<Rightarrow> Mode \<Rightarrow> EnvConfig \<Rightarrow> Sizing \<Rightarrow> Cpus \<Rightarrow> (Topology, GcModeError) result" where
  "topology_resolve os mode env sizing cpus =
     (let topology = select_topology os mode env sizing cpus
      in if supports topology (gc_mode (env_gc env)) then Ok topology
         else Err (Unsupported (gc_mode (env_gc env)) topology))"

definition tpc_async_workers :: "nat \<Rightarrow> bool \<Rightarrow> nat" where
  "tpc_async_workers threads has_sync =
     (if has_sync then (let half = threads div 2 in if half = 0 then 1 else half) else threads)"

subsection \<open>The specification of the environment\<close>

text \<open>
  What a variable means, whatever code reads it: unset it is the default, set it is what its text
  parses to; text that does not parse, or is not UTF-8, has no meaning.
\<close>

definition env_means :: "env_lookup \<Rightarrow> string \<Rightarrow> 'a \<Rightarrow> (string \<Rightarrow> 'a option) \<Rightarrow> 'a \<Rightarrow> bool" where
  "env_means lookup var dflt parser v \<longleftrightarrow>
     (case lookup var of
        None \<Rightarrow> v = dflt
      | Some (Inl lossy) \<Rightarrow> False
      | Some (Inr raw) \<Rightarrow> parser raw = Some v)"

definition darwin_parser :: "target_os \<Rightarrow> string \<Rightarrow> DarwinTopology option" where
  "darwin_parser os raw =
     (if raw = ''listener'' then Some PerThreadListener
      else if raw = ''fanout'' \<and> os = MacOs then Some Fanout
      else None)"

definition engine_vars :: "string list" where
  "engine_vars =
     [TPC_ENV, TPC_DARWIN_ENV, GC_MODE_ENV, GC_IDLE_MS_ENV, GC_THRESHOLD_ENV,
      GC_OOM_FAILSAFE_ENV, BRIDGE_WORKERS_ENV, BRIDGE_CAPACITY_ENV, METRICS_ENV]"

definition config_meant :: "target_os \<Rightarrow> env_lookup \<Rightarrow> EnvConfig \<Rightarrow> bool" where
  "config_meant os lookup c \<longleftrightarrow>
     env_means lookup TPC_ENV True parse_bool (env_tpc c) \<and>
     env_means lookup TPC_DARWIN_ENV PerThreadListener (darwin_parser os) (env_darwin_topology c) \<and>
     env_means lookup GC_MODE_ENV Count (\<lambda>raw. res_ok (gc_mode_from_str raw)) (gc_mode (env_gc c)) \<and>
     env_means lookup GC_IDLE_MS_ENV DEFAULT_GC_IDLE_MS (parse_nonzero U64_MAX)
       (gc_idle_tick (env_gc c)) \<and>
     env_means lookup GC_THRESHOLD_ENV DEFAULT_GC_THRESHOLD (parse_uint U64_MAX)
       (gc_threshold (env_gc c)) \<and>
     env_means lookup GC_OOM_FAILSAFE_ENV DEFAULT_GC_OOM_FAILSAFE (parse_uint U64_MAX)
       (gc_oom_failsafe (env_gc c)) \<and>
     env_means lookup BRIDGE_WORKERS_ENV DEFAULT_BRIDGE_WORKERS (parse_nonzero USIZE_MAX)
       (br_workers (env_bridge c)) \<and>
     env_means lookup BRIDGE_CAPACITY_ENV
       (saturating_mul (br_workers (env_bridge c)) BRIDGE_QUEUE_PER_WORKER)
       (parse_nonzero USIZE_MAX) (br_capacity (env_bridge c)) \<and>
     env_means lookup METRICS_ENV False parse_flag (env_metrics c)"

text \<open>An error blames a variable the engine reads: it is set, and the error carries its text.\<close>

definition blames :: "env_lookup \<Rightarrow> ConfigError \<Rightarrow> bool" where
  "blames lookup e \<longleftrightarrow>
     (\<exists>var raw. var \<in> set engine_vars \<and>
        (lookup var = Some (Inl raw) \<or> lookup var = Some (Inr raw)) \<and>
        (case e of Env ee \<Rightarrow> ee_var ee = var \<and> ee_raw ee = raw
                 | Gc ge \<Rightarrow> var = GC_MODE_ENV \<and> ge = Unknown raw))"

definition sized :: "Sizing \<Rightarrow> Cpus \<Rightarrow> bool" where
  "sized sizing cpus \<longleftrightarrow>
     0 < cpu_logical cpus \<and> 0 < cpu_physical cpus \<and>
     sz_workers sizing \<noteq> Some 0 \<and> sz_io_workers sizing \<noteq> Some 0"

text \<open>
  How a topology is sized: from what the caller asks for, or else thread-per-core servers from the physical cores and multi-thread ones from the
  logical ones; on Linux there are as many accept loops as I/O threads, one for each logical core at most, and elsewhere one.
\<close>

definition given_or :: "nat option \<Rightarrow> nat \<Rightarrow> nat \<Rightarrow> bool" where
  "given_or asked cores n \<longleftrightarrow> asked = Some n \<or> asked = None \<and> n = cores"

definition loops_for :: "target_os \<Rightarrow> nat \<Rightarrow> Cpus \<Rightarrow> nat \<Rightarrow> bool" where
  "loops_for os io_threads cpus loops \<longleftrightarrow>
     (if os = Linux then loops \<le> io_threads \<and> loops \<le> cpu_logical cpus \<and> (loops = io_threads \<or> loops = cpu_logical cpus) else loops = 1)"

fun sized_from :: "target_os \<Rightarrow> Sizing \<Rightarrow> Cpus \<Rightarrow> Topology \<Rightarrow> bool" where
  "sized_from os sizing cpus (TpcGil threads) = given_or (sz_workers sizing) (cpu_physical cpus) threads"
| "sized_from os sizing cpus (TpcWorkers threads) = given_or (sz_workers sizing) (cpu_physical cpus) threads"
| "sized_from os sizing cpus (TpcFanout threads) = given_or (sz_workers sizing) (cpu_physical cpus) threads"
| "sized_from os sizing cpus (MultiThreadGil io_threads loops) =
     (given_or (sz_io_workers sizing) (cpu_logical cpus) io_threads \<and> loops_for os io_threads cpus loops)"
| "sized_from os sizing cpus (Pool workers io_threads loops) =
     (given_or (sz_workers sizing) (cpu_logical cpus) workers \<and> given_or (sz_io_workers sizing) (cpu_logical cpus) io_threads \<and>
      loops_for os io_threads cpus loops)"

fun thread_per_core :: "Topology \<Rightarrow> bool" where
  "thread_per_core (MultiThreadGil io_threads loops) = False"
| "thread_per_core (Pool workers io_threads loops) = False"
| "thread_per_core _ = True"

fun topology_threads :: "Topology \<Rightarrow> nat" where
  "topology_threads (TpcGil threads) = threads"
| "topology_threads (TpcWorkers threads) = threads"
| "topology_threads (TpcFanout threads) = threads"
| "topology_threads (MultiThreadGil io_threads loops) = io_threads"
| "topology_threads (Pool workers io_threads loops) = min workers io_threads"

fun topology_runs_workers :: "Topology \<Rightarrow> bool" where
  "topology_runs_workers (TpcGil threads) = False"
| "topology_runs_workers (TpcWorkers threads) = True"
| "topology_runs_workers (TpcFanout threads) = True"
| "topology_runs_workers (MultiThreadGil io_threads loops) = False"
| "topology_runs_workers (Pool workers io_threads loops) = True"

subsection \<open>Lemmas\<close>

lemma mode_from_as_str: "mode_from_str (mode_as_str m) = Ok m"
  by (cases m) (simp_all add: mode_from_str_def)

lemma gc_mode_from_display: "gc_mode_from_str (gc_mode_display m) = Ok m"
  by (cases m) (simp_all add: gc_mode_from_str_def)

lemma env_value_Ok:
  "env_value lookup var expected dflt parser = Ok v \<longleftrightarrow> env_means lookup var dflt parser v"
  by (cases "lookup var" rule: option_result_cases)
     (auto simp: env_value_def env_get_def env_means_def result_iffs)

lemma env_value_Err:
  "env_value lookup var expected dflt parser = Err e \<Longrightarrow>
   ee_var e = var \<and>
   (lookup var = Some (Inl (ee_raw e)) \<or> lookup var = Some (Inr (ee_raw e)) \<and> parser (ee_raw e) = None)"
  by (cases "lookup var" rule: option_result_cases)
     (auto simp: env_value_def env_get_def env_invalid_def result_iffs)

lemma env_darwin_Ok:
  "env_darwin_value os lookup = Ok v \<longleftrightarrow>
   env_means lookup TPC_DARWIN_ENV PerThreadListener (darwin_parser os) v"
  by (cases "lookup TPC_DARWIN_ENV" rule: option_result_cases)
     (simp_all add: env_darwin_value_def env_get_def env_means_def darwin_parser_def eq_commute [of v])

lemma env_darwin_Err:
  "env_darwin_value os lookup = Err e \<Longrightarrow>
   ee_var e = TPC_DARWIN_ENV \<and>
   (lookup TPC_DARWIN_ENV = Some (Inl (ee_raw e)) \<or> lookup TPC_DARWIN_ENV = Some (Inr (ee_raw e)))"
  by (cases "lookup TPC_DARWIN_ENV" rule: option_result_cases)
     (auto simp: env_darwin_value_def env_get_def env_invalid_def split: if_split_asm)

lemma env_gc_mode_Ok:
  "env_gc_mode_value lookup = Ok v \<longleftrightarrow>
   env_means lookup GC_MODE_ENV Count (\<lambda>raw. res_ok (gc_mode_from_str raw)) v"
  by (cases "lookup GC_MODE_ENV" rule: option_result_cases)
     (simp_all add: env_gc_mode_value_def env_means_def res_ok_eq_Some eq_commute [of v])

lemma env_gc_mode_Err:
  "env_gc_mode_value lookup = Err e \<Longrightarrow>
   \<exists>raw. e = Unknown raw \<and> (lookup GC_MODE_ENV = Some (Inl raw) \<or> lookup GC_MODE_ENV = Some (Inr raw))"
  by (cases "lookup GC_MODE_ENV" rule: option_result_cases)
     (auto simp: env_gc_mode_value_def gc_mode_from_str_def split: if_split_asm)

lemma env_positive_Ok:
  "env_positive lookup var = Ok v \<Longrightarrow>
   env_means lookup var d (parse_nonzero USIZE_MAX) (case v of Some n \<Rightarrow> n | None \<Rightarrow> d)"
  by (cases "lookup var" rule: option_result_cases) (auto simp: env_positive_def env_value_Ok env_means_def)

lemma env_positive_means:
  "env_means lookup var d (parse_nonzero USIZE_MAX) n \<Longrightarrow>
   \<exists>v. env_positive lookup var = Ok v \<and> n = (case v of Some m \<Rightarrow> m | None \<Rightarrow> d)"
  by (cases "lookup var" rule: option_result_cases) (auto simp: env_positive_def env_value_Ok env_means_def)

lemma engine_vars_members:
  "TPC_ENV \<in> set engine_vars" "GC_IDLE_MS_ENV \<in> set engine_vars" "GC_THRESHOLD_ENV \<in> set engine_vars"
  "GC_OOM_FAILSAFE_ENV \<in> set engine_vars" "BRIDGE_WORKERS_ENV \<in> set engine_vars"
  "BRIDGE_CAPACITY_ENV \<in> set engine_vars" "METRICS_ENV \<in> set engine_vars"
  "TPC_DARWIN_ENV \<in> set engine_vars" "GC_MODE_ENV \<in> set engine_vars"
  by (simp_all add: engine_vars_def)

lemma env_value_blames:
  assumes "map_err Env (env_value lookup var expected dflt parser) = Err e"
    and "var \<in> set engine_vars"
  shows "blames lookup e"
  using assms unfolding blames_def
  by (auto simp: map_err_eq_Inl dest!: env_value_Err)

lemma env_darwin_blames: "map_err Env (env_darwin_value os lookup) = Err e \<Longrightarrow> blames lookup e"
  using engine_vars_members(8) unfolding blames_def
  by (fastforce simp: map_err_eq_Inl dest!: env_darwin_Err)

lemma env_gc_mode_blames: "map_err Gc (env_gc_mode_value lookup) = Err e \<Longrightarrow> blames lookup e"
  using engine_vars_members(9) unfolding blames_def
  by (fastforce simp: map_err_eq_Inl dest!: env_gc_mode_Err)

lemmas env_value_defs =
  env_tpc_value_def env_idle_ms_value_def env_count_def env_metrics_value_def

lemma env_means_pos:
  "env_means lookup var d (parse_nonzero mx) n \<Longrightarrow> 0 < d \<Longrightarrow> 0 < n"
  by (cases "lookup var" rule: option_result_cases) (auto simp: env_means_def dest: parse_nonzero_pos)

lemma multi_thread_accept_loops_pos:
  "0 < io \<Longrightarrow> 0 < logical \<Longrightarrow> 0 < multi_thread_accept_loops os io logical"
  by (cases os) simp_all

lemma select_topology_threads:
  "sized sizing cpus \<Longrightarrow> 0 < topology_threads (select_topology os mode env sizing cpus)"
  by (auto simp: select_topology_def sized_def unwrap_or_def Let_def
           split: Mode.splits DarwinTopology.splits option.splits)

lemma select_topology_loops:
  "sized sizing cpus \<Longrightarrow> 0 < accept_loops (select_topology os mode env sizing cpus)"
  by (auto simp: select_topology_def sized_def unwrap_or_def Let_def
           intro: multi_thread_accept_loops_pos
           split: Mode.splits DarwinTopology.splits option.splits)

lemma env_darwin_fanout_macos:
  "env_means lookup TPC_DARWIN_ENV PerThreadListener (darwin_parser os) Fanout \<Longrightarrow> os = MacOs"
  by (cases "lookup TPC_DARWIN_ENV" rule: option_result_cases)
     (auto simp: env_means_def darwin_parser_def split: if_split_asm)

lemma env_parse_meant: "env_parse os lookup = Ok c \<Longrightarrow> config_meant os lookup c"
  by (auto simp: env_parse_def config_meant_def env_value_defs env_value_Ok env_darwin_Ok
        env_gc_mode_Ok result_iffs Let_def intro: env_positive_Ok)

lemma select_topology_sized: "sized_from os sizing cpus (select_topology os mode env sizing cpus)"
proof -
  have "given_or asked cores (unwrap_or asked cores)" for asked cores by (cases asked) (simp_all add: given_or_def unwrap_or_def)
  moreover have "loops_for os io cpus (multi_thread_accept_loops os io (cpu_logical cpus))" for io
    by (cases os) (simp_all add: loops_for_def min_def)
  ultimately show ?thesis
    by (auto simp: select_topology_def Let_def split: Mode.splits DarwinTopology.splits)
qed

subsection \<open>Properties\<close>

text \<open>
  C14. The environment parser accepts an environment exactly when every variable it reads is unset
  or parses, and the configuration it returns then holds, for each variable, the default or the
  parsed value (the bridge capacity's default being sixteen slots per bridge thread, saturated):
  no variable is ever replaced by a silent default.
\<close>

theorem env_parse_Ok_iff: "env_parse os lookup = Ok c \<longleftrightarrow> config_meant os lookup c"
proof
  assume "env_parse os lookup = Ok c"
  then show "config_meant os lookup c" by (rule env_parse_meant)
next
  assume m: "config_meant os lookup c"
  then obtain w where w: "env_positive lookup BRIDGE_WORKERS_ENV = Ok w"
    "br_workers (env_bridge c) = (case w of Some m \<Rightarrow> m | None \<Rightarrow> DEFAULT_BRIDGE_WORKERS)"
    using env_positive_means unfolding config_meant_def by blast
  from m obtain k where k: "env_positive lookup BRIDGE_CAPACITY_ENV = Ok k"
    "br_capacity (env_bridge c) = (case k of Some m \<Rightarrow> m
       | None \<Rightarrow> saturating_mul (br_workers (env_bridge c)) BRIDGE_QUEUE_PER_WORKER)"
    using env_positive_means unfolding config_meant_def by blast
  from m have vals: "env_tpc_value lookup = Ok (env_tpc c)"
    "env_darwin_value os lookup = Ok (env_darwin_topology c)"
    "env_gc_mode_value lookup = Ok (gc_mode (env_gc c))"
    "env_idle_ms_value lookup = Ok (gc_idle_tick (env_gc c))"
    "env_count lookup GC_THRESHOLD_ENV DEFAULT_GC_THRESHOLD = Ok (gc_threshold (env_gc c))"
    "env_count lookup GC_OOM_FAILSAFE_ENV DEFAULT_GC_OOM_FAILSAFE = Ok (gc_oom_failsafe (env_gc c))"
    "env_metrics_value lookup = Ok (env_metrics c)"
    unfolding config_meant_def env_value_defs env_value_Ok env_darwin_Ok env_gc_mode_Ok by blast+
  show "env_parse os lookup = Ok c"
    unfolding env_parse_def vals w(1) k(1) w(2) [symmetric] k(2) [symmetric]
      map_err_simps and_then_simps Let_def
    by simp
qed

text \<open>
  When the environment is refused, the error names one of the variables the engine reads, that
  variable is set, and the error carries its text; an unset environment is never refused.
\<close>

theorem env_parse_Err_blames:
  assumes "env_parse os lookup = Err e"
  shows "blames lookup e"
  using assms unfolding env_parse_def Let_def env_value_defs env_positive_def
  by (elim and_then_ErrE env_value_blames env_darwin_blames env_gc_mode_blames)
     (simp_all add: engine_vars_members)

theorem env_parse_Err_blames_witness:
  "env_parse Linux (\<lambda>v. if v = TPC_ENV then Some (Inr ''maybe'') else None) =
     Err (Env (env_invalid TPC_ENV ''maybe'' EXPECTED_BOOL)) \<and>
   blames (\<lambda>v. if v = TPC_ENV then Some (Inr ''maybe'') else None)
     (Env (env_invalid TPC_ENV ''maybe'' EXPECTED_BOOL))"
proof -
  have h: "env_parse Linux (\<lambda>v. if v = TPC_ENV then Some (Inr ''maybe'') else None) =
     Err (Env (env_invalid TPC_ENV ''maybe'' EXPECTED_BOOL))"
    by (simp add: env_parse_def env_tpc_value_def env_value_def env_get_def parse_bool_def ascii_defs)
  show ?thesis using h env_parse_Err_blames [OF h] by blast
qed



end
