(* ===== verification/Listeners.thy ===== *)
theory Listeners
  imports Hook_Chain Config
begin

section \<open>Listening sockets and processors (\<open>src/server/listener.rs\<close>, \<open>src/server/cpu.rs\<close>)\<close>

text \<open>
  Which addresses a server listens on, binding them before anything serves, and taking connections from a
  group of listeners in turn. The socket calls are the parameter \<open>S\<close>; its locale \<open>sockets\<close> says which calls open
  and close a socket. Dropping a Rust socket closes it, which is written out on every path. A wake of the
  accept loop is what each listener's \<open>poll_accept\<close> answers then.

  The results: binding opens every socket of every group or none; no listener of a group is starved by
  busier ones.
\<close>

subsection \<open>Addresses\<close>

datatype IpAddr = V4 "u8 list" | V6 "u16 list"

record SocketAddr =
  sa_ip :: IpAddr
  sa_port :: u16

fun is_ipv4 :: "IpAddr \<Rightarrow> bool" where
  "is_ipv4 (V4 _) = True"
| "is_ipv4 (V6 _) = False"

text \<open>\<open>IpAddr::from_str\<close>: each reader returns what it read and the rest of the text, or nothing.\<close>

type_synonym 'a reader = "string \<Rightarrow> ('a \<times> string) option"

definition to_digit :: "nat \<Rightarrow> char \<Rightarrow> nat option" where
  "to_digit radix c =
     (let n = of_char c :: nat;
          d = (if 48 \<le> n \<and> n \<le> 57 then n - 48 else if 97 \<le> n \<and> n \<le> 122 then n - 87
               else if 65 \<le> n \<and> n \<le> 90 then n - 55 else radix)
      in if d < radix then Some d else None)"

definition read_number :: "nat \<Rightarrow> nat \<Rightarrow> bool \<Rightarrow> nat reader" where
  "read_number radix max_digits allow_zero_prefix s =
     (let ds = takeWhile (\<lambda>c. to_digit radix c \<noteq> None) s
      in if max_digits < length ds \<or> ds = [] \<or> \<not> allow_zero_prefix \<and> hd ds = CHR ''0'' \<and> 1 < length ds then None
         else Some (foldl (\<lambda>n c. n * radix + the (to_digit radix c)) 0 ds, drop (length ds) s))"

definition read_separator :: "char \<Rightarrow> nat \<Rightarrow> 'a reader \<Rightarrow> 'a reader" where
  "read_separator sep i inner s =
     (if i = 0 then inner s else case s of [] \<Rightarrow> None | c # cs \<Rightarrow> if c = sep then inner cs else None)"

fun read_octets :: "nat \<Rightarrow> nat \<Rightarrow> u8 list reader" where
  "read_octets i 0 s = Some ([], s)"
| "read_octets i (Suc n) s =
     (case read_separator CHR ''.'' i (read_number 10 3 False) s of
        None \<Rightarrow> None
      | Some (v, s) \<Rightarrow>
          if 255 < v then None
          else map_option (\<lambda>(vs, s). (of_nat v # vs, s)) (read_octets (Suc i) n s))"

definition read_ipv4_addr :: "u8 list reader" where
  "read_ipv4_addr = read_octets 0 4"

definition u16_from_be :: "u8 \<Rightarrow> u8 \<Rightarrow> u16" where
  "u16_from_be a b = of_nat (unat a * 256 + unat b)"

text \<open>\<open>read_groups\<close>: the groups read, whether the last two are an embedded IPv4 address, and the rest.\<close>

fun read_groups :: "nat \<Rightarrow> nat \<Rightarrow> string \<Rightarrow> u16 list \<times> bool \<times> string" where
  "read_groups i 0 s = ([], False, s)"
| "read_groups i (Suc n) s =
     (case (if 0 < n then read_separator CHR '':'' i read_ipv4_addr s else None) of
        Some (v4, s) \<Rightarrow> ([u16_from_be (v4 ! 0) (v4 ! 1), u16_from_be (v4 ! 2) (v4 ! 3)], True, s)
      | None \<Rightarrow>
          (case read_separator CHR '':'' i (read_number 16 4 True) s of
             None \<Rightarrow> ([], False, s)
           | Some (v, s) \<Rightarrow> (let (vs, v4, s) = read_groups (Suc i) n s in (of_nat v # vs, v4, s))))"

definition read_ipv6_addr :: "u16 list reader" where
  "read_ipv6_addr s =
     (let (head, head_ipv4, s) = read_groups 0 8 s
      in if length head = 8 then Some (head, s)
         else if head_ipv4 then None
         else case strip_prefix ''::'' s of
                None \<Rightarrow> None
              | Some s \<Rightarrow>
                  (let (tail, _, s) = read_groups 0 (7 - length head) s
                   in Some (head @ replicate (8 - length head - length tail) 0 @ tail, s)))"

definition ip_from_str :: "string \<Rightarrow> IpAddr option" where
  "ip_from_str s =
     (case (case read_ipv4_addr s of
              Some (v, s) \<Rightarrow> Some (V4 v, s)
            | None \<Rightarrow> map_option (\<lambda>(v, s). (V6 v, s)) (read_ipv6_addr s)) of
        Some (ip, []) \<Rightarrow> Some ip
      | _ \<Rightarrow> None)"

lemmas ip_parser_defs = ip_from_str_def read_ipv4_addr_def read_ipv6_addr_def read_number_def read_separator_def to_digit_def
  numeral_eq_Suc

subsection \<open>Socket calls\<close>

record ('k, 'o) socket_api =
  so_new :: "bool \<Rightarrow> ('k, io_error, 'o) run" \<comment> \<open>\<open>Socket::new\<close>, a stream socket of the IPv4 or the IPv6 domain\<close>
  so_set_reuse_address :: "'k \<Rightarrow> (unit, io_error, 'o) run"
  so_set_reuse_port :: "'k \<Rightarrow> (unit, io_error, 'o) run"
  so_set_nonblocking :: "'k \<Rightarrow> (unit, io_error, 'o) run"
  so_bind :: "'k \<Rightarrow> SocketAddr \<Rightarrow> (unit, io_error, 'o) run"
  so_local_addr :: "'k \<Rightarrow> (SocketAddr option, io_error, 'o) run" \<comment> \<open>\<open>None\<close>: not an IP address\<close>
  so_defer_accept :: "'k \<Rightarrow> nat \<Rightarrow> (unit, io_error, 'o) run" \<comment> \<open>\<open>setsockopt(TCP_DEFER_ACCEPT)\<close>\<close>
  so_listen :: "'k \<Rightarrow> nat \<Rightarrow> (unit, io_error, 'o) run"
  so_close :: "'k \<Rightarrow> 'o \<Rightarrow> 'o"

record ListenerError =
  le_step :: string
  le_addr :: SocketAddr
  le_source :: io_error

definition listener_errno :: "ListenerError \<Rightarrow> int option" where
  "listener_errno e = io_raw_os_error (le_source e)"

definition failed :: "SocketAddr \<Rightarrow> string \<Rightarrow> io_error \<Rightarrow> ListenerError" where
  "failed addr step source = \<lparr>le_step = step, le_addr = addr, le_source = source\<rparr>"

definition LISTEN_BACKLOG :: nat where "LISTEN_BACKLOG = 8192"

text \<open>\<open>HEADER_READ_TIMEOUT\<close> of \<open>src/conn_driver.rs\<close>, in seconds.\<close>

definition HEADER_READ_TIMEOUT :: nat where "HEADER_READ_TIMEOUT = 10"

text \<open>A socket that is dropped when the rest of a function fails, or however it ends.\<close>

definition or_close :: "('k, 'o) socket_api \<Rightarrow> 'k \<Rightarrow> ('a, 'e, 'o) run \<Rightarrow> ('a, 'e, 'o) run" where
  "or_close S k m w = (case m w of (Inl e, w) \<Rightarrow> (Inl e, so_close S k w) | (Inr v, w) \<Rightarrow> (Inr v, w))"

definition closing :: "('k, 'o) socket_api \<Rightarrow> 'k \<Rightarrow> ('a, 'e, 'o) run \<Rightarrow> ('a, 'e, 'o) run" where
  "closing S k m w = (let (r, w) = m w in (r, so_close S k w))"

text \<open>A failure of \<open>setsockopt\<close> that is only logged.\<close>

definition logged_only :: "(unit, 'e, 'o) run \<Rightarrow> (unit, 'f, 'o) run" where
  "logged_only m w = (Ok (), snd (m w))"

definition create_reuseport_listener ::
    "('k, 'o) socket_api \<Rightarrow> target_os \<Rightarrow> bool \<Rightarrow> SocketAddr \<Rightarrow> ('k, ListenerError, 'o) run" where
  "create_reuseport_listener S os windows addr =
     run_bind (run_err (failed addr ''socket creation'') (so_new S (is_ipv4 (sa_ip addr)))) (\<lambda>socket.
     or_close S socket (
     run_bind (run_err (failed addr ''set_reuse_address'') (so_set_reuse_address S socket)) (\<lambda>_.
     run_bind (if windows then run_ret (Ok ())
               else run_err (failed addr ''set_reuse_port'') (so_set_reuse_port S socket)) (\<lambda>_.
     run_bind (run_err (failed addr ''set_nonblocking'') (so_set_nonblocking S socket)) (\<lambda>_.
     run_bind (run_err (failed addr ''bind'') (so_bind S socket addr)) (\<lambda>_.
     run_bind (if os = Linux then logged_only (so_defer_accept S socket HEADER_READ_TIMEOUT) else run_ret (Ok ())) (\<lambda>_.
     run_bind (run_err (failed addr ''listen'') (so_listen S socket LISTEN_BACKLOG)) (\<lambda>_.
       run_ret (Ok socket)))))))))"

subsection \<open>The listeners of a server\<close>

text \<open>\<open>'t\<close> is a TLS acceptor.\<close>

record 't ListenerSpec =
  ls_addr :: SocketAddr
  ls_tls :: "'t option"

datatype ExtraTlsWithoutCert = ExtraTlsWithoutCert "u16 list"

fun spec_set :: "SocketAddr \<Rightarrow> 't option \<Rightarrow> u16 list \<Rightarrow> ('t ListenerSpec list, ExtraTlsWithoutCert) result" where
  "spec_set addr tls [] = Ok [\<lparr>ls_addr = addr, ls_tls = tls\<rparr>]"
| "spec_set addr (Some acceptor) ports =
     Ok (\<lparr>ls_addr = addr, ls_tls = None\<rparr> #
         map (\<lambda>port. \<lparr>ls_addr = \<lparr>sa_ip = sa_ip addr, sa_port = port\<rparr>, ls_tls = Some acceptor\<rparr>) ports)"
| "spec_set addr None ports = Err (ExtraTlsWithoutCert ports)"

record ('k, 't) Listener =
  ln_socket :: 'k
  ln_addr :: SocketAddr
  ln_tls :: "'t option"

record Bound =
  bd_addr :: SocketAddr
  bd_tls :: bool

record ('k, 't) BoundListeners =
  bl_groups :: "('k, 't) Listener list list"
  bl_bound :: "Bound list"

definition no_ip_error :: io_error where
  "no_ip_error = \<lparr>io_kind = OtherKind ''the probe socket has no IP address'', io_raw_os_error = None\<rparr>"

text \<open>\<open>.ok().and_then(as_socket)\<close>: an error of \<open>local_addr\<close> is no address.\<close>

definition local_socket :: "('k, 'o) socket_api \<Rightarrow> SocketAddr \<Rightarrow> 'k \<Rightarrow> (SocketAddr, ListenerError, 'o) run" where
  "local_socket S addr socket w =
     (let (r, w) = so_local_addr S socket w
      in (ok_or (failed addr ''local_addr'' no_ip_error) (Option.bind (res_ok r) (\<lambda>a. a)), w))"

definition probe_free :: "('k, 'o) socket_api \<Rightarrow> SocketAddr \<Rightarrow> (SocketAddr, ListenerError, 'o) run" where
  "probe_free S addr =
     run_bind (run_err (failed addr ''socket creation'') (so_new S (is_ipv4 (sa_ip addr)))) (\<lambda>socket.
     closing S socket (
     run_bind (run_err (failed addr ''set_reuse_address'') (so_set_reuse_address S socket)) (\<lambda>_.
     run_bind (run_err (failed addr ''bind'') (so_bind S socket addr)) (\<lambda>_.
       local_socket S addr socket))))"

definition drop_groups :: "('k, 'o) socket_api \<Rightarrow> ('k, 't) Listener list list \<Rightarrow> 'o \<Rightarrow> 'o" where
  "drop_groups S groups w = fold (so_close S) (map ln_socket (concat groups)) w"

text \<open>The inner loop of \<open>bind\<close>: one socket for each group, pushed; on a failure every socket so far is dropped.\<close>

fun bind_copies ::
    "('a \<Rightarrow> ('k, ListenerError, 'o) run) \<Rightarrow> ('k, 'o) socket_api \<Rightarrow> 'a \<Rightarrow> ('k \<Rightarrow> ('k, 't) Listener) \<Rightarrow>
     ('k, 't) Listener list list \<Rightarrow> ('k, 't) Listener list list \<Rightarrow> (('k, 't) Listener list list, ListenerError, 'o) run" where
  "bind_copies create S addr listener acc [] w = (Ok acc, w)"
| "bind_copies create S addr listener acc (grp # groups) w =
     (case create addr w of
        (Inl e, w) \<Rightarrow> (Err e, drop_groups S (acc @ grp # groups) w)
      | (Inr socket, w) \<Rightarrow> bind_copies create S addr listener (acc @ [grp @ [listener socket]]) groups w)"

fun bind_specs ::
    "('k, 'o) socket_api \<Rightarrow> target_os \<Rightarrow> bool \<Rightarrow> ('k, 't) Listener list list \<Rightarrow> Bound list \<Rightarrow> 't ListenerSpec list \<Rightarrow>
     (('k, 't) BoundListeners, ListenerError, 'o) run" where
  "bind_specs S os windows groups bound [] w = (Ok \<lparr>bl_groups = groups, bl_bound = bound\<rparr>, w)"
| "bind_specs S os windows groups bound (spec # specs) w =
     (case probe_free S (ls_addr spec) w of
        (Inl e, w) \<Rightarrow> (Err e, drop_groups S groups w)
      | (Inr addr, w) \<Rightarrow>
          (case bind_copies (create_reuseport_listener S os windows) S addr
                  (\<lambda>socket. \<lparr>ln_socket = socket, ln_addr = addr, ln_tls = ls_tls spec\<rparr>) [] groups w of
             (Inl e, w) \<Rightarrow> (Err e, w)
           | (Inr groups, w) \<Rightarrow>
               bind_specs S os windows groups (bound @ [\<lparr>bd_addr = addr, bd_tls = ls_tls spec \<noteq> None\<rparr>]) specs w))"

definition listeners_bind ::
    "('k, 'o) socket_api \<Rightarrow> target_os \<Rightarrow> bool \<Rightarrow> 't ListenerSpec list \<Rightarrow> nat \<Rightarrow> (('k, 't) BoundListeners, ListenerError, 'o) run" where
  "listeners_bind S os windows specs copies = bind_specs S os windows (replicate copies []) [] specs"

subsection \<open>Accepting\<close>

record 't AcceptSource =
  as_listeners :: "'t option list"
  as_next :: nat

text \<open>\<open>AcceptSource::new\<close>: \<open>into_runtime\<close> hands a socket to the runtime.\<close>

definition accept_source_new ::
    "(('k, 't) Listener \<Rightarrow> (unit, io_error) result) \<Rightarrow> ('k, 't) Listener list \<Rightarrow> ('t AcceptSource, ListenerError) result" where
  "accept_source_new into_runtime grp =
     map_ok (\<lambda>listeners. \<lparr>as_listeners = listeners, as_next = 0\<rparr>)
       (try_map (\<lambda>l. map_ok (\<lambda>_. ln_tls l) (map_err (failed (ln_addr l) ''register with the runtime'') (into_runtime l))) grp)"

record ('c, 't) Accepted =
  ac_stream :: 'c
  ac_remote :: SocketAddr
  ac_tls :: "'t option"

type_synonym 'c wake = "nat \<Rightarrow> ('c \<times> SocketAddr, io_error) result option"

text \<open>One wake: the listeners are polled from \<open>next\<close> on, and the first that is ready is taken.\<close>

definition poll_accept :: "'t AcceptSource \<Rightarrow> 'c wake \<Rightarrow> (('c \<times> SocketAddr, io_error) result \<times> nat) option" where
  "poll_accept src ready =
     (let n = length (as_listeners src)
      in find_map (\<lambda>k. let i = (as_next src + k) mod n in map_option (\<lambda>r. (r, i)) (ready i)) [0..<n])"

definition advance :: "'t AcceptSource \<Rightarrow> nat \<Rightarrow> 't AcceptSource" where
  "advance src index = src\<lparr>as_next := (index + 1) mod length (as_listeners src)\<rparr>"

text \<open>
  \<open>accept\<close>, over the wakes to come: the connection, the source after it and the wakes left; \<open>None\<close> while there
  is none. The backoff after an error is a pause, not a wake.
\<close>

fun accept :: "'t AcceptSource \<Rightarrow> 'c wake list \<Rightarrow> (('c, 't) Accepted \<times> 't AcceptSource \<times> 'c wake list) option" where
  "accept src [] = None"
| "accept src (ready # wakes) =
     (case poll_accept src ready of
        None \<Rightarrow> accept src wakes
      | Some (Inr (stream, remote), index) \<Rightarrow>
          Some (\<lparr>ac_stream = stream, ac_remote = remote, ac_tls = as_listeners src ! index\<rparr>, advance src index, wakes)
      | Some (Inl e, index) \<Rightarrow> accept (advance src index) wakes)"

text \<open>The errors that are out of descriptors or memory, by the platform's codes, and the pause in milliseconds.\<close>

definition EXHAUSTION_BACKOFF :: nat where "EXHAUSTION_BACKOFF = 250"
definition TRANSIENT_BACKOFF :: nat where "TRANSIENT_BACKOFF = 10"

definition is_resource_exhaustion :: "int list \<Rightarrow> io_error \<Rightarrow> bool" where
  "is_resource_exhaustion exhaustion_codes e =
     (case io_raw_os_error e of Some code \<Rightarrow> code \<in> set exhaustion_codes | None \<Rightarrow> False)"

definition accept_backoff :: "int list \<Rightarrow> io_error \<Rightarrow> nat" where
  "accept_backoff exhaustion_codes e =
     (if is_resource_exhaustion exhaustion_codes e then EXHAUSTION_BACKOFF else TRANSIENT_BACKOFF)"

subsection \<open>Processors (\<open>src/server/cpu.rs\<close>)\<close>

text \<open>
  \<open>available\<close> is what \<open>available_parallelism\<close> reports; on Linux \<open>entries\<close> is the directory of the processors, each
  name with its siblings file; on macOS \<open>perf\<close> is the count of performance cores and whether the call succeeded.
\<close>

definition logical_cpu_count :: "nat option \<Rightarrow> nat" where
  "logical_cpu_count available = (case available of Some n \<Rightarrow> n | None \<Rightarrow> 1)"

definition is_cpu_entry :: "string \<Rightarrow> bool" where
  "is_cpu_entry name = (case strip_prefix ''cpu'' name of Some digits \<Rightarrow> list_all is_ascii_digit digits | None \<Rightarrow> False)"

definition physical_core_count_linux :: "nat option \<Rightarrow> (string \<times> string option) list option \<Rightarrow> nat" where
  "physical_core_count_linux available entries =
     (case entries of
        None \<Rightarrow> logical_cpu_count available
      | Some entries \<Rightarrow>
          (let groups = remdups (List.map_filter (\<lambda>(name, siblings). if is_cpu_entry name then map_option trim siblings else None) entries)
           in if groups = [] then logical_cpu_count available else length groups))"

definition physical_core_count_macos :: "nat option \<Rightarrow> bool \<times> int \<Rightarrow> nat" where
  "physical_core_count_macos available perf =
     (case perf of (ok, count) \<Rightarrow> if ok \<and> 0 < count then nat count else logical_cpu_count available)"

definition cpus_detect ::
    "target_os \<Rightarrow> nat option \<Rightarrow> (string \<times> string option) list option \<Rightarrow> bool \<times> int \<Rightarrow> Cpus" where
  "cpus_detect os available entries perf =
     \<lparr>cpu_logical = logical_cpu_count available,
      cpu_physical = (case os of
          Linux \<Rightarrow> physical_core_count_linux available entries
        | MacOs \<Rightarrow> physical_core_count_macos available perf
        | OtherOs \<Rightarrow> logical_cpu_count available)\<rparr>"

lemma cpus_detect_pos:
  "available \<noteq> Some 0 \<Longrightarrow> 0 < cpu_logical (cpus_detect os available entries perf) \<and> 0 < cpu_physical (cpus_detect os available entries perf)"
  by (cases os)
     (auto simp: cpus_detect_def logical_cpu_count_def physical_core_count_linux_def physical_core_count_macos_def Let_def
      split: option.splits prod.splits)

subsection \<open>Binding opens everything or nothing\<close>

text \<open>
  What is relied on of the socket calls: a new socket is one that was not open, closing a socket closes that one, and no other
  call opens or closes any.
\<close>

definition keeps :: "('o \<Rightarrow> 'k set) \<Rightarrow> ('a, 'e, 'o) run \<Rightarrow> bool" where
  "keeps opened m \<longleftrightarrow> (\<forall>w. opened (snd (m w)) = opened w)"

definition owned :: "'k set \<Rightarrow> 'k set \<Rightarrow> ('k, 't) Listener list list \<Rightarrow> bool" where
  "owned now base groups \<longleftrightarrow>
     (let ks = map ln_socket (concat groups) in distinct ks \<and> set ks \<inter> base = {} \<and> now = base \<union> set ks)"

definition shaped :: "('k, 't) Listener list list \<Rightarrow> Bound list \<Rightarrow> 't ListenerSpec list \<Rightarrow> bool" where
  "shaped groups bound specs \<longleftrightarrow>
     map bd_tls bound = map (\<lambda>s. ls_tls s \<noteq> None) specs \<and>
     (\<forall>g \<in> set groups. map ln_addr g = map bd_addr bound \<and> map ln_tls g = map ls_tls specs)"

lemma owned_push:
  "owned now base (acc @ g # groups) \<Longrightarrow> ln_socket x \<notin> now \<Longrightarrow>
   owned (insert (ln_socket x) now) base (acc @ (g @ [x]) # groups)"
  unfolding owned_def Let_def by (auto simp: image_iff)

locale sockets =
  fixes S :: "('k, 'o) socket_api" and opened :: "'o \<Rightarrow> 'k set"
  assumes new_ok: "so_new S v4 w = (Ok k, w') \<Longrightarrow> k \<notin> opened w \<and> opened w' = insert k (opened w)"
    and new_err: "so_new S v4 w = (Err e, w') \<Longrightarrow> opened w' = opened w"
    and closed: "opened (so_close S k w) = opened w - {k}"
    and kept: "opened (snd (so_set_reuse_address S k w)) = opened w" "opened (snd (so_set_reuse_port S k w)) = opened w"
      "opened (snd (so_set_nonblocking S k w)) = opened w" "opened (snd (so_bind S k addr w)) = opened w"
      "opened (snd (so_local_addr S k w)) = opened w" "opened (snd (so_defer_accept S k n w)) = opened w"
      "opened (snd (so_listen S k n w)) = opened w"
begin

lemma keeps_bind: "keeps opened m \<Longrightarrow> (\<And>v. keeps opened (f v)) \<Longrightarrow> keeps opened (run_bind m f)"
  by (auto simp: keeps_def run_bind_def split: prod.splits sum.splits) (metis snd_conv)+

lemma keeps_err: "keeps opened m \<Longrightarrow> keeps opened (run_err g m)"
  by (auto simp: keeps_def run_err_def split: prod.splits) (metis snd_conv)+

lemma keeps_calls:
  "keeps opened (run_ret r)" "keeps opened (so_set_reuse_address S k)" "keeps opened (so_set_reuse_port S k)" "keeps opened (so_set_nonblocking S k)"
  "keeps opened (so_bind S k addr)" "keeps opened (so_local_addr S k)" "keeps opened (so_defer_accept S k n)" "keeps opened (so_listen S k n)"
  by (simp_all add: keeps_def run_ret_def kept)

lemma keeps_logged_only: "keeps opened m \<Longrightarrow> keeps opened (logged_only m)"
  by (simp add: keeps_def logged_only_def)

lemma keeps_local_socket: "keeps opened (local_socket S addr k)"
  using keeps_calls(6) by (auto simp: keeps_def local_socket_def Let_def split: prod.splits) (metis snd_conv)+

lemmas keeps_intros = keeps_bind keeps_err keeps_calls keeps_logged_only keeps_local_socket

text \<open>A socket that is created and closed again on a failure, or in any case.\<close>

lemma created_or_closed:
  assumes "run_bind (run_err g (so_new S v4)) (\<lambda>k. or_close S k (m k)) w = (r, w')" and "\<And>k. keeps opened (m k)"
  shows "case r of Inl _ \<Rightarrow> opened w' = opened w
     | Inr v \<Rightarrow> \<exists>k w1. k \<notin> opened w \<and> opened w' = insert k (opened w) \<and> m k w1 = (Ok v, w')"
proof (cases "so_new S v4 w")
  case (Pair x w1)
  show ?thesis
  proof (cases x)
    case (Inl e)
    with Pair assms(1) show ?thesis by (auto simp: run_bind_def run_err_def map_err_def dest: new_err)
  next
    case (Inr k)
    obtain y w2 where m: "m k w1 = (y, w2)" by force
    moreover from assms(2) [of k] m have "opened w2 = opened w1" by (metis keeps_def snd_conv)
    ultimately show ?thesis using Pair Inr assms(1) new_ok [of v4 w k w1]
      by (cases y) (fastforce simp: run_bind_def run_err_def map_err_def or_close_def closed)+
  qed
qed

lemma create_opens:
  assumes "create_reuseport_listener S os windows addr w = (r, w')"
  shows "case r of Inl _ \<Rightarrow> opened w' = opened w | Inr k \<Rightarrow> k \<notin> opened w \<and> opened w' = insert k (opened w)"
proof -
  define m where "m = (\<lambda>socket. run_bind (run_err (failed addr ''set_reuse_address'') (so_set_reuse_address S socket)) (\<lambda>_.
     run_bind (if windows then run_ret (Ok ())
               else run_err (failed addr ''set_reuse_port'') (so_set_reuse_port S socket)) (\<lambda>_.
     run_bind (run_err (failed addr ''set_nonblocking'') (so_set_nonblocking S socket)) (\<lambda>_.
     run_bind (run_err (failed addr ''bind'') (so_bind S socket addr)) (\<lambda>_.
     run_bind (if os = Linux then logged_only (so_defer_accept S socket HEADER_READ_TIMEOUT) else run_ret (Ok ())) (\<lambda>_.
     run_bind (run_err (failed addr ''listen'') (so_listen S socket LISTEN_BACKLOG)) (\<lambda>_.
       run_ret (Ok socket))))))))"
  have "keeps opened (m k)" for k unfolding m_def by (auto intro!: keeps_intros)
  moreover have "m k w1 = (Ok v, w2) \<Longrightarrow> v = k" for k v w1 w2
    by (auto simp: m_def run_bind_def run_ret_def split: prod.splits sum.splits)
  ultimately show ?thesis
    using created_or_closed [of "failed addr ''socket creation''" "is_ipv4 (sa_ip addr)" m w r w'] assms
    by (fastforce simp: create_reuseport_listener_def m_def split: sum.splits)
qed

lemma created_and_closed:
  assumes "run_bind (run_err g (so_new S v4)) (\<lambda>k. closing S k (m k)) w = (r, w')" and "\<And>k. keeps opened (m k)"
  shows "opened w' = opened w"
proof (cases "so_new S v4 w")
  case (Pair x w1)
  show ?thesis
  proof (cases x)
    case (Inl e)
    with Pair assms(1) show ?thesis by (auto simp: run_bind_def run_err_def map_err_def dest: new_err)
  next
    case (Inr k)
    obtain y w2 where m: "m k w1 = (y, w2)" by force
    moreover from assms(2) [of k] m have "opened w2 = opened w1" by (metis keeps_def snd_conv)
    ultimately show ?thesis using Pair Inr assms(1) new_ok [of v4 w k w1]
      by (auto simp: run_bind_def run_err_def map_err_def closing_def closed)
  qed
qed

lemma probe_keeps: "probe_free S addr w = (r, w') \<Longrightarrow> opened w' = opened w"
  unfolding probe_free_def by (erule created_and_closed) (intro keeps_intros)

lemma drop_groups_closes: "opened (drop_groups S groups w) = opened w - set (map ln_socket (concat groups))"
proof -
  have "opened (fold (so_close S) ks w) = opened w - set ks" for ks
    by (induction ks arbitrary: w) (auto simp: closed)
  then show ?thesis by (simp only: drop_groups_def)
qed

text \<open>The sockets of the groups are open, were not open before, and are all that was opened.\<close>

lemma owned_dropped: "owned (opened w) base groups \<Longrightarrow> opened (drop_groups S groups w) = base"
  unfolding owned_def Let_def drop_groups_closes by blast

lemma bind_copies_opens:
  assumes "bind_copies (create_reuseport_listener S os windows) S addr l acc groups w = (r, w')"
    and "owned (opened w) base (acc @ groups)" and "\<And>k. ln_socket (l k) = k"
  shows "case r of Inl _ \<Rightarrow> opened w' = base
     | Inr gs \<Rightarrow> owned (opened w') base gs \<and>
         (\<exists>ks. length ks = length groups \<and> gs = acc @ map2 (\<lambda>g k. g @ [l k]) groups ks)"
  using assms(1,2)
proof (induction groups arbitrary: acc w)
  case Nil
  then show ?case by auto
next
  case (Cons g groups)
  obtain x w1 where c: "create_reuseport_listener S os windows addr w = (x, w1)" by force
  show ?case
  proof (cases x)
    case (Inl e)
    with c create_opens [OF c] Cons.prems have "opened w1 = opened w" "w' = drop_groups S (acc @ g # groups) w1" "r = Err e" by auto
    with Cons.prems(2) owned_dropped [of w1] show ?thesis by simp
  next
    case (Inr k)
    with create_opens [OF c] have k: "k \<notin> opened w" "opened w1 = insert k (opened w)" by auto
    with Cons.prems(2) have "owned (opened w1) base ((acc @ [g @ [l k]]) @ groups)" using owned_push [of "opened w" base acc g groups "l k"] by (simp add: assms(3))
    with Cons.IH [of "acc @ [g @ [l k]]" w1] Cons.prems(1) c Inr
    have opened: "case r of Inl _ \<Rightarrow> opened w' = base | Inr gs \<Rightarrow> owned (opened w') base gs \<and>
        (\<exists>ks. length ks = length groups \<and> gs = acc @ (g @ [l k]) # map2 (\<lambda>g k. g @ [l k]) groups ks)" by (cases r) simp_all
    show ?thesis
    proof (cases r)
      case (Inr gs)
      with opened obtain ks where "owned (opened w') base gs" "length ks = length groups"
        "gs = acc @ (g @ [l k]) # map2 (\<lambda>g k. g @ [l k]) groups ks" by auto
      with Inr show ?thesis by (auto intro!: exI [of _ "k # ks"])
    qed (use opened in simp)
  qed
qed

lemma bind_specs_opens:
  assumes "bind_specs S os windows groups bound specs w = (r, w')"
    and "owned (opened w) base groups" and "shaped groups bound before"
  shows "case r of Inl _ \<Rightarrow> opened w' = base
     | Inr bl \<Rightarrow> owned (opened w') base (bl_groups bl) \<and> length (bl_groups bl) = length groups \<and>
         shaped (bl_groups bl) (bl_bound bl) (before @ specs)"
  using assms
proof (induction specs arbitrary: groups bound before w)
  case Nil
  then show ?case by auto
next
  case (Cons spec specs)
  obtain x w1 where p: "probe_free S (ls_addr spec) w = (x, w1)" by force
  then have w1: "opened w1 = opened w" by (rule probe_keeps)
  show ?case
  proof (cases x)
    case (Inl e)
    with p Cons.prems w1 owned_dropped [of w1 base groups] show ?thesis by auto
  next
    case (Inr addr)
    let ?l = "\<lambda>socket. \<lparr>ln_socket = socket, ln_addr = addr, ln_tls = ls_tls spec\<rparr>"
    obtain y w2 where c: "bind_copies (create_reuseport_listener S os windows) S addr ?l [] groups w1 = (y, w2)" by force
    from bind_copies_opens [OF c, of base] Cons.prems(2) w1 have o: "case y of Inl _ \<Rightarrow> opened w2 = base
       | Inr gs \<Rightarrow> owned (opened w2) base gs \<and> (\<exists>ks. length ks = length groups \<and> gs = map2 (\<lambda>g k. g @ [?l k]) groups ks)"
      by (cases y) simp_all
    show ?thesis
    proof (cases y)
      case (Inl e)
      with o p Inr c Cons.prems(1) show ?thesis by auto
    next
      case (Inr gs)
      with o obtain ks where gs: "owned (opened w2) base gs" "length ks = length groups"
        "gs = map2 (\<lambda>g k. g @ [?l k]) groups ks" by auto
      then have sh: "shaped gs (bound @ [\<lparr>bd_addr = addr, bd_tls = ls_tls spec \<noteq> None\<rparr>]) (before @ [spec])"
        using Cons.prems(3) by (auto simp: shaped_def dest: set_zip_leftD)
      have "bind_specs S os windows gs (bound @ [\<lparr>bd_addr = addr, bd_tls = ls_tls spec \<noteq> None\<rparr>]) specs w2 = (r, w')"
        using Cons.prems(1) p \<open>x = Ok addr\<close> c Inr by simp
      from Cons.IH [OF this gs(1) sh] gs(2,3) show ?thesis by (cases r) simp_all
    qed
  qed
qed

end

text \<open>A kernel with a table of sockets: an address is taken unless every socket bound to it shares its port.\<close>

record kernel_socket =
  ks_id :: nat
  ks_reuse :: bool
  ks_addr :: "SocketAddr option"

definition kernel_update :: "(kernel_socket \<Rightarrow> kernel_socket) \<Rightarrow> nat \<Rightarrow> (unit, io_error, nat \<times> kernel_socket list) run" where
  "kernel_update f k w = (Ok (), fst w, map (\<lambda>s. if ks_id s = k then f s else s) (snd w))"

definition addr_in_use :: io_error where
  "addr_in_use = \<lparr>io_kind = OtherKind ''Address already in use'', io_raw_os_error = Some 98\<rparr>"

definition kernel_bind :: "nat \<Rightarrow> SocketAddr \<Rightarrow> (unit, io_error, nat \<times> kernel_socket list) run" where
  "kernel_bind k addr w =
     (let reuse = list_ex (\<lambda>s. ks_id s = k \<and> ks_reuse s) (snd w)
      in if list_ex (\<lambda>s. ks_addr s = Some addr \<and> \<not> (reuse \<and> ks_reuse s)) (snd w) then (Err addr_in_use, w)
         else kernel_update (\<lambda>s. s\<lparr>ks_addr := Some addr\<rparr>) k w)"

definition kernel_sockets :: "(nat, nat \<times> kernel_socket list) socket_api" where
  "kernel_sockets =
     \<lparr>so_new = (\<lambda>v4 (n, ss). (Ok n, n + 1, \<lparr>ks_id = n, ks_reuse = False, ks_addr = None\<rparr> # filter (\<lambda>s. ks_id s < n) ss)),
      so_set_reuse_address = (\<lambda>k. run_ret (Ok ())), so_set_reuse_port = kernel_update (\<lambda>s. s\<lparr>ks_reuse := True\<rparr>),
      so_set_nonblocking = (\<lambda>k. run_ret (Ok ())), so_bind = kernel_bind,
      so_local_addr = (\<lambda>k w. (Ok (Option.bind (find (\<lambda>s. ks_id s = k) (snd w)) ks_addr), w)),
      so_defer_accept = (\<lambda>k n. run_ret (Ok ())), so_listen = (\<lambda>k n. run_ret (Ok ())),
      so_close = (\<lambda>k (n, ss). (n, filter (\<lambda>s. ks_id s \<noteq> k) ss))\<rparr>"

definition kernel_open :: "nat \<times> kernel_socket list \<Rightarrow> nat set" where
  "kernel_open w = {k \<in> ks_id ` set (snd w). k < fst w}"

lemma kernel_update_open: "(\<And>s. ks_id (f s) = ks_id s) \<Longrightarrow> kernel_open (snd (kernel_update f k w)) = kernel_open w"
proof -
  assume "\<And>s. ks_id (f s) = ks_id s"
  then have "map ks_id (map (\<lambda>s. if ks_id s = k then f s else s) ss) = map ks_id ss" for ss by simp
  from arg_cong [OF this, of set] show ?thesis by (simp only: kernel_open_def kernel_update_def snd_conv fst_conv set_map)
qed

interpretation kernel: sockets kernel_sockets kernel_open
  by unfold_locales
     (simp_all add: kernel_sockets_def kernel_bind_def run_ret_def Let_def kernel_update_open split: prod.splits,
      auto simp: kernel_open_def)

text \<open>
  Binding the listeners of a server (\<open>BoundListeners::bind\<close>) is all or nothing: it returns one group for each
  accept loop, each with one socket for each address and its TLS in the order they were given, all of them new and nothing else
  opened; or it fails, and everything it opened, the probes included, is closed again.
\<close>

theorem bind_all_or_nothing:
  assumes "sockets S opened" and "listeners_bind S os windows specs copies w = (r, w')"
  shows "case r of
       Inl _ \<Rightarrow> opened w' = opened w
     | Inr bl \<Rightarrow> owned (opened w') (opened w) (bl_groups bl) \<and> length (bl_groups bl) = copies \<and>
         shaped (bl_groups bl) (bl_bound bl) specs"
  using sockets.bind_specs_opens [OF assms(1), of os windows "replicate copies []" "[]" specs w r w' "opened w" "[]"] assms(2)
  by (cases r) (simp_all add: listeners_bind_def owned_def [of _ _ "replicate _ _"] shaped_def [of "replicate _ _"])

definition loopback :: "u16 \<Rightarrow> SocketAddr" where
  "loopback port = \<lparr>sa_ip = V4 [127, 0, 0, 1], sa_port = port\<rparr>"

text \<open>Two addresses in two groups; and one that another socket holds.\<close>

theorem bind_all_or_nothing_witness:
  "\<exists>bl w. listeners_bind kernel_sockets Linux False
       [\<lparr>ls_addr = loopback 80, ls_tls = None\<rparr>, \<lparr>ls_addr = loopback 443, ls_tls = Some ()\<rparr>] 2 (0, []) = (Ok bl, w) \<and>
     kernel_open w = set (map ln_socket (concat (bl_groups bl))) \<and> length (bl_groups bl) = 2"
  "\<exists>e w. listeners_bind kernel_sockets Linux False
       [\<lparr>ls_addr = loopback 80, ls_tls = None\<rparr>, \<lparr>ls_addr = loopback 443, ls_tls = Some ()\<rparr>] 2
       (1, [\<lparr>ks_id = 0, ks_reuse = True, ks_addr = Some (loopback 443)\<rparr>]) = (Err e, w) \<and> listener_errno e = Some 98 \<and>
     kernel_open w = {0}"
proof -
  let ?specs = "[\<lparr>ls_addr = loopback 80, ls_tls = None\<rparr>, \<lparr>ls_addr = loopback 443, ls_tls = Some ()\<rparr>]"
  let ?run = "listeners_bind kernel_sockets Linux False ?specs 2"
  let ?w = "(1, [\<lparr>ks_id = 0, ks_reuse = True, ks_addr = Some (loopback 443)\<rparr>])"
  have two: "replicate 2 x = [x, x]" for x :: "(nat, unit) Listener list" by (simp add: numeral_2_eq_2)
  note run_simps = two listeners_bind_def kernel_sockets_def probe_free_def create_reuseport_listener_def local_socket_def closing_def
    or_close_def logged_only_def run_bind_def run_err_def run_ret_def kernel_bind_def kernel_update_def drop_groups_def
    map_err_def ok_or_def res_ok_def loopback_def
  have "\<exists>bl w. ?run (0, []) = (Ok bl, w)" by (simp add: run_simps)
  then obtain bl w where bl: "?run (0, []) = (Ok bl, w)" by blast
  from bind_all_or_nothing [OF kernel.sockets_axioms bl]
  have "kernel_open w = set (map ln_socket (concat (bl_groups bl))) \<and> length (bl_groups bl) = 2"
    by (simp add: owned_def kernel_open_def Let_def)
  with bl show "\<exists>bl w. ?run (0, []) = (Ok bl, w) \<and> kernel_open w = set (map ln_socket (concat (bl_groups bl))) \<and>
      length (bl_groups bl) = 2" by blast
  have "\<exists>e w. ?run ?w = (Err e, w) \<and> listener_errno e = Some 98"
    by (simp add: run_simps listener_errno_def failed_def addr_in_use_def)
  then obtain e w where e: "?run ?w = (Err e, w)" "listener_errno e = Some 98" by blast
  from bind_all_or_nothing [OF kernel.sockets_axioms e(1)] have "kernel_open w = {0}" by (simp add: kernel_open_def)
  with e show "\<exists>e w. ?run ?w = (Err e, w) \<and> listener_errno e = Some 98 \<and> kernel_open w = {0}" by blast
qed

subsection \<open>No listener is starved\<close>

text \<open>What the source takes, in order: the listener and what it answered.\<close>

fun taken :: "'t AcceptSource \<Rightarrow> 'c wake list \<Rightarrow> (nat \<times> ('c \<times> SocketAddr, io_error) result) list" where
  "taken src [] = []"
| "taken src (ready # wakes) =
     (case poll_accept src ready of
        None \<Rightarrow> taken src wakes
      | Some (r, index) \<Rightarrow> (index, r) # taken (advance src index) wakes)"

text \<open>\<open>accept\<close> returns the first connection taken, with the TLS of the listener it came from; errors before it are skipped.\<close>

lemma accept_taken:
  "accept src wakes = Some (a, src', rest) \<Longrightarrow>
   \<exists>errs i. taken src wakes = errs @ (i, Ok (ac_stream a, ac_remote a)) # taken src' rest \<and>
     list_all (\<lambda>(_, r). \<exists>e. r = Err e) errs \<and> ac_tls a = as_listeners src ! i \<and> as_listeners src' = as_listeners src"
proof (induction src wakes rule: accept.induct)
  case (2 src ready wakes)
  show ?case
  proof (cases "poll_accept src ready")
    case None
    with 2 show ?thesis by simp
  next
    case (Some ri)
    obtain r i where ri: "ri = (r, i)" by force
    show ?thesis
    proof (cases r)
      case (Inr c)
      with Some ri "2.prems" show ?thesis
        by (cases c) (auto simp: advance_def intro!: exI [of _ "[]"])
    next
      case (Inl e)
      with "2.IH"(2) [OF Some _ Inl] Some ri "2.prems"
      obtain errs j where "taken (advance src i) wakes = errs @ (j, Ok (ac_stream a, ac_remote a)) # taken src' rest"
        "list_all (\<lambda>(_, r). \<exists>e. r = Err e) errs" "ac_tls a = as_listeners src ! j" "as_listeners src' = as_listeners src"
        by (auto simp: advance_def)
      with Some ri Inl show ?thesis by (intro exI [of _ "(i, Err e) # errs"] exI [of _ j]) simp
    qed
  qed
qed simp

text \<open>How many listeners are polled before \<open>j\<close>.\<close>

definition ahead_of :: "'t AcceptSource \<Rightarrow> nat \<Rightarrow> nat" where
  "ahead_of src j = (j + length (as_listeners src) - as_next src) mod length (as_listeners src)"

lemma int_ahead_of:
  assumes "as_next src < length (as_listeners src)"
  shows "int (ahead_of src j) = (int j - int (as_next src)) mod int (length (as_listeners src))"
proof -
  have "int (j + length (as_listeners src) - as_next src) = int j - int (as_next src) + int (length (as_listeners src))"
    using assms by (simp add: of_nat_diff)
  then show ?thesis by (simp only: ahead_of_def zmod_int mod_add_self2)
qed

lemma ahead_of_less: "j < length (as_listeners src) \<Longrightarrow> ahead_of src j < length (as_listeners src)"
  by (simp only: ahead_of_def) (rule mod_less_divisor, linarith)

lemma advance_listeners [simp]: "as_listeners (advance src i) = as_listeners src"
  by (simp add: advance_def)

lemma advance_next: "j < length (as_listeners src) \<Longrightarrow> as_next (advance src i) < length (as_listeners src)"
proof -
  assume "j < length (as_listeners src)"
  then have "0 < length (as_listeners src)" by linarith
  then have "(i + 1) mod length (as_listeners src) < length (as_listeners src)" by (rule mod_less_divisor)
  then show ?thesis by (simp add: advance_def)
qed

lemma find_map_upt:
  "f k \<noteq> None \<Longrightarrow> i \<le> k \<Longrightarrow> k < n \<Longrightarrow> \<exists>k' y. k' \<le> k \<and> i \<le> k' \<and> f k' = Some y \<and> find_map f [i..<n] = Some y"
proof (induction "n - i" arbitrary: i)
  case (Suc m)
  then have "i < n" by simp
  then have u: "[i..<n] = i # [Suc i..<n]" by (rule upt_conv_Cons)
  show ?case
  proof (cases "f i")
    case None
    with Suc.prems have "Suc i \<le> k" by (cases "i = k") auto
    moreover have "m = n - Suc i" using Suc.hyps(2) by simp
    ultimately obtain k' y where "k' \<le> k" "Suc i \<le> k'" "f k' = Some y" "find_map f [Suc i..<n] = Some y"
      using Suc.hyps(1) Suc.prems(1,3) by blast
    with None u show ?thesis by (intro exI [of _ k'] exI [of _ y]) simp
  qed (use u Suc.prems in auto)
qed simp

text \<open>A wake at which \<open>j\<close> is ready takes from \<open>j\<close>, or from one that was ahead of it, which then is not.\<close>

lemma poll_accept_nearer:
  assumes "j < length (as_listeners src)" and "as_next src < length (as_listeners src)" and "ready j \<noteq> None"
  obtains r i where "poll_accept src ready = Some (r, i)" and "i < length (as_listeners src)"
    and "i = j \<or> ahead_of (advance src i) j < ahead_of src j"
proof -
  let ?n = "length (as_listeners src)"
  let ?d = "ahead_of src j"
  let ?f = "\<lambda>k. let i = (as_next src + k) mod ?n in map_option (\<lambda>r. (r, i)) (ready i)"
  have n: "0 < ?n" using assms(1) by linarith
  have d: "?d < ?n" using assms(1) by (rule ahead_of_less)
  have wraps: "(as_next src + ?d) mod ?n = j"
  proof -
    have "int ((as_next src + ?d) mod ?n) = (int (as_next src) + (int j - int (as_next src)) mod int ?n) mod int ?n"
      by (simp only: zmod_int of_nat_add int_ahead_of [OF assms(2)])
    also have "\<dots> = int j" using assms(1) by (simp add: mod_add_right_eq)
    finally show ?thesis by simp
  qed
  with assms(3) have "?f ?d \<noteq> None" by (simp add: Let_def)
  from find_map_upt [of ?f, OF this le0 d] obtain k y where k: "k \<le> ?d" "?f k = Some y" "find_map ?f [0..<?n] = Some y" by blast
  define i where "i = (as_next src + k) mod ?n"
  obtain r where y: "y = (r, i)" using k(2) by (auto simp: Let_def i_def)
  have "i = j \<or> ahead_of (advance src i) j < ?d"
  proof (cases "k = ?d")
    case True
    with wraps i_def show ?thesis by simp
  next
    case False
    have nx: "int (as_next (advance src i)) = (int (as_next src) + int k + 1) mod int ?n"
      by (simp add: advance_def i_def zmod_int mod_simps ac_simps)
    have "int (ahead_of (advance src i) j) = (int j - int (as_next (advance src i))) mod int ?n"
      using int_ahead_of [of "advance src i" j] advance_next [OF assms(1)] by simp
    also have "\<dots> = (int j - int (as_next src) - int k - 1) mod int ?n"
      unfolding nx by (simp add: mod_diff_right_eq algebra_simps)
    also have "\<dots> = (int ?d - int k - 1) mod int ?n"
      by (simp add: int_ahead_of [OF assms(2)] mod_diff_left_eq diff_diff_eq add.assoc)
    also have "\<dots> = int ?d - int k - 1" using k(1) False d by (intro mod_pos_pos_trivial) linarith+
    finally show ?thesis using k(1) by linarith
  qed
  moreover have "i < ?n" unfolding i_def using n by (rule mod_less_divisor)
  moreover have "poll_accept src ready = Some (r, i)" using k(3) y by (simp add: poll_accept_def Let_def)
  ultimately show thesis using that by blast
qed

lemma taken_ahead:
  assumes "j < length (as_listeners src)" and "as_next src < length (as_listeners src)"
    and "list_all (\<lambda>ready. ready j \<noteq> None) wakes" and "ahead_of src j < length wakes"
  shows "j \<in> fst ` set (taken src wakes)"
  using assms
proof (induction wakes arbitrary: src)
  case (Cons ready wakes)
  from Cons.prems(3) have "ready j \<noteq> None" by simp
  with Cons.prems(1,2) obtain r i where p: "poll_accept src ready = Some (r, i)" "i < length (as_listeners src)"
    and i: "i = j \<or> ahead_of (advance src i) j < ahead_of src j" by (rule poll_accept_nearer)
  show ?case
  proof (cases "i = j")
    case False
    with i Cons.prems p have "j \<in> fst ` set (taken (advance src i) wakes)"
      by (intro Cons.IH) (auto simp: advance_next)
    with p show ?thesis by simp
  qed (simp add: p)
qed simp

text \<open>
  No listener of an accept loop is starved (\<open>AcceptSource::accept\<close>): of a group of \<open>n\<close> listeners, one that has something to
  accept at \<open>n\<close> wakes in a row is taken from at one of them, whatever the others have.
\<close>

theorem accept_fair:
  assumes "j < length (as_listeners src)" and "as_next src < length (as_listeners src)"
    and "length wakes = length (as_listeners src)" and "list_all (\<lambda>ready. ready j \<noteq> None) wakes"
  shows "j \<in> fst ` set (taken src wakes)"
proof (rule taken_ahead)
  show "ahead_of src j < length wakes" using ahead_of_less [OF assms(1)] assms(3) by simp
qed (use assms in auto)

theorem accept_fair_witness:
  "2 \<in> fst ` set (taken \<lparr>as_listeners = [None, Some (), None], as_next = 1\<rparr> (replicate 3 (\<lambda>_. Some (Ok ((), loopback 1)))))"
  using accept_fair [of 2 "\<lparr>as_listeners = [None, Some (), None], as_next = 1\<rparr>" "replicate 3 (\<lambda>_. Some (Ok ((), loopback 1)))"]
  by (simp add: list_all_length)

end
