(* ===== verification/App.thy ===== *)
theory App
  imports Worker_Start Pipeline Pool Listeners
begin

section \<open>The application object (\<open>src/app.rs\<close>)\<close>

text \<open>
  \<open>PyronovaApp\<close>: what a script registers and configures, where a route with given flags runs, the seal that
  ends the script's registrations, the site a server run serves, and \<open>start\<close>, which resolves a run's arguments and binds
  its listeners. A call is made in an interpreter: on the main one, or in a worker that records the app its script registers on.

  Parameters are the crates, the file system, what the interpreter says of a handler object (its \<open>__name__\<close>, whether
  \<open>inspect\<close> calls it a coroutine function) and the socket calls.

  The results: whatever calls are made in whatever order, the site of the app is well-formed as the pipeline
  assumes; once sealed nothing a worker must know changes; so every worker route a request resolves to
  is one each of the workers has.
\<close>

subsection \<open>Where a route runs\<close>

record RouteFlags =
  rf_gil :: bool
  rf_stream :: bool

datatype UnservableRoute = StreamOffMain | StreamAsync

fun route_dispatch :: "bool \<Rightarrow> bool \<Rightarrow> bool \<Rightarrow> (Dispatch, UnservableRoute) result" where
  "route_dispatch gil True True = Err StreamAsync"
| "route_dispatch False True False = Err StreamOffMain"
| "route_dispatch True True False = Ok (Main Streamed)"
| "route_dispatch True False is_async = Ok (Main Buffered)"
| "route_dispatch False False False = Ok (Worker Sync)"
| "route_dispatch False False True = Ok (Worker Async)"

subsection \<open>The app\<close>

record ('r, 'py, 'h) PyronovaApp =
  app_routes :: "('r, 'py, 'h) RouteTable"
  app_script_path :: "string option"
  app_shared_state :: handle
  app_cors :: "Cors option"
  app_access_log :: AccessLog
  app_grpc_benchmark :: bool
  app_request_id_header :: "string option"
  app_limits :: Limits
  app_compression :: "Settings option"
  app_isolated :: "string list"
  app_abandoned :: "AbandonedWorker list"

definition app_new ::
    "('m, key, string) dash_api \<Rightarrow> nat \<Rightarrow> 'm SharedMaps \<Rightarrow> ('r, 'py, 'h) PyronovaApp \<times> 'm SharedMaps" where
  "app_new D py shared =
     (let (shared_state, shared) = map_for_new D py shared
      in (\<lparr>app_routes = route_table_new, app_script_path = None, app_shared_state = shared_state, app_cors = None,
           app_access_log = access_log_disabled, app_grpc_benchmark = False, app_request_id_header = None,
           app_limits = limits_default, app_compression = None, app_isolated = [], app_abandoned = []\<rparr>, shared))"

text \<open>What a call raises.\<close>

datatype 'e AppError =
    IsolatesPyronova
  | BadCors CorsError
  | BadHeaderName string
  | SampleZero
  | BadAlwaysStatus nat
  | BadWsLimit WsLimitError
  | BadFastResponse AddFastError
  | Unservable string string UnservableRoute
  | SealedRoute string string
  | SealedHook string
  | BadRoute "'e RouteError"
  | WebsocketTaken string
  | BadMount StaticMountError
  | OtherApp RecordError
  | SealsOffMain
  | HandlerRaised PyErr

datatype exception_class = ValueErrorClass | RuntimeErrorOf | RegistrationSealedClass | OwnClass PyErr

fun app_error_class :: "'e AppError \<Rightarrow> exception_class" where
  "app_error_class (SealedRoute m p) = RegistrationSealedClass"
| "app_error_class (SealedHook what) = RegistrationSealedClass"
| "app_error_class (OtherApp e) = RuntimeErrorOf"
| "app_error_class SealsOffMain = RuntimeErrorOf"
| "app_error_class (HandlerRaised e) = OwnClass e"
| "app_error_class _ = ValueErrorClass"

subsection \<open>Settings\<close>

definition isolate :: "string list \<Rightarrow> (unit, 'e AppError, ('r, 'py, 'h) PyronovaApp) run" where
  "isolate libraries app =
     (if list_ex (\<lambda>lib. lib = ''pyronova'') libraries then (Err IsolatesPyronova, app)
      else (Ok (), app\<lparr>app_isolated :=
          foldl (\<lambda>isolated lib. if lib \<in> set isolated then isolated else isolated @ [lib]) (app_isolated app) libraries\<rparr>))"

definition take_abandoned_workers :: "('r, 'py, 'h) PyronovaApp \<Rightarrow> AbandonedWorker list \<times> ('r, 'py, 'h) PyronovaApp" where
  "take_abandoned_workers app = (app_abandoned app, app\<lparr>app_abandoned := []\<rparr>)"

text \<open>The warning about a wildcard origin with credentials is a log line.\<close>

definition set_cors_config ::
    "'h http_api \<Rightarrow> string \<Rightarrow> string \<Rightarrow> string \<Rightarrow> string option \<Rightarrow> bool \<Rightarrow> (unit, 'e AppError, ('r, 'py, 'h) PyronovaApp) run" where
  "set_cors_config H origin methods headers expose_headers allow_credentials app =
     (case cors_parse H \<lparr>cs_origin = origin, cs_methods = methods, cs_headers = headers,
             cs_expose_headers = Option.bind expose_headers (\<lambda>s. if s = [] then None else Some s),
             cs_allow_credentials = allow_credentials\<rparr> of
        Inl e \<Rightarrow> (Err (BadCors e), app)
      | Inr cors \<Rightarrow> (Ok (), app\<lparr>app_cors := Some cors\<rparr>))"

definition enable_grpc_benchmark :: "('r, 'py, 'h) PyronovaApp \<Rightarrow> ('r, 'py, 'h) PyronovaApp" where
  "enable_grpc_benchmark app = app\<lparr>app_grpc_benchmark := True\<rparr>"

definition set_request_id_header :: "'h http_api \<Rightarrow> string \<Rightarrow> (unit, 'e AppError, ('r, 'py, 'h) PyronovaApp) run" where
  "set_request_id_header H header app =
     (case hn_from_bytes H header of
        None \<Rightarrow> (Err (BadHeaderName header), app)
      | Some name \<Rightarrow> (Ok (), app\<lparr>app_request_id_header := Some name\<rparr>))"

definition enable_request_logging :: "bool \<Rightarrow> ('r, 'py, 'h) PyronovaApp \<Rightarrow> ('r, 'py, 'h) PyronovaApp" where
  "enable_request_logging enabled app = app\<lparr>app_access_log := (app_access_log app)\<lparr>al_enabled := enabled\<rparr>\<rparr>"

definition set_request_log_sampling ::
    "'h http_api \<Rightarrow> nat \<Rightarrow> nat option \<Rightarrow> (unit, 'e AppError, ('r, 'py, 'h) PyronovaApp) run" where
  "set_request_log_sampling H sample_n always_status app =
     (if sample_n = 0 then (Err SampleZero, app)
      else case (case always_status of
                   None \<Rightarrow> Ok None
                 | Some code \<Rightarrow> map_ok Some (ok_or (BadAlwaysStatus code) (status_from_u16 H code))) of
          Inl e \<Rightarrow> (Err e, app)
        | Inr always \<Rightarrow>
            (Ok (), app\<lparr>app_access_log := (app_access_log app)\<lparr>al_sample_n := sample_n, al_always_status := always\<rparr>\<rparr>))"

definition set_max_body_size :: "nat \<Rightarrow> ('r, 'py, 'h) PyronovaApp \<Rightarrow> ('r, 'py, 'h) PyronovaApp" where
  "set_max_body_size bytes app = app\<lparr>app_limits := (app_limits app)\<lparr>lim_max_body_bytes := bytes\<rparr>\<rparr>"

definition set_ws_limits ::
    "(WsLimits, WsLimitError) result \<Rightarrow> (unit, 'e AppError, ('r, 'py, 'h) PyronovaApp) run" where
  "set_ws_limits limits app =
     (case limits of
        Inl e \<Rightarrow> (Err (BadWsLimit e), app)
      | Inr ws \<Rightarrow> (Ok (), app\<lparr>app_limits := (app_limits app)\<lparr>lim_ws := ws\<rparr>\<rparr>))"

definition set_max_websocket_message_size :: "int \<Rightarrow> (unit, 'e AppError, ('r, 'py, 'h) PyronovaApp) run" where
  "set_max_websocket_message_size bytes app = set_ws_limits (with_max_message_bytes (lim_ws (app_limits app)) bytes) app"

definition set_max_websocket_connections :: "int \<Rightarrow> (unit, 'e AppError, ('r, 'py, 'h) PyronovaApp) run" where
  "set_max_websocket_connections limit app = set_ws_limits (with_max_connections (lim_ws (app_limits app)) limit) app"

definition configure_compression :: "Settings option \<Rightarrow> ('r, 'py, 'h) PyronovaApp \<Rightarrow> ('r, 'py, 'h) PyronovaApp" where
  "configure_compression settings app = app\<lparr>app_compression := settings\<rparr>"

definition set_script_path :: "string \<Rightarrow> ('r, 'py, 'h) PyronovaApp \<Rightarrow> ('r, 'py, 'h) PyronovaApp" where
  "set_script_path path app = app\<lparr>app_script_path := Some path\<rparr>"

definition app_state :: "('r, 'py, 'h) PyronovaApp \<Rightarrow> SharedState" where
  "app_state app = with_inner (app_shared_state app)"

subsection \<open>Registrations\<close>

definition seal_if_unsealed :: "('r, 'py, 'h) PyronovaApp \<Rightarrow> ('r, 'py, 'h) PyronovaApp" where
  "seal_if_unsealed app =
     (let routes = app_routes app
      in if rt_sealed routes = None
         then app\<lparr>app_routes := routes\<lparr>rt_sealed :=
                Some \<lparr>sealed_routes = length (rt_routes routes), sealed_before_hooks = length (rt_before_hooks routes),
                      sealed_after_hooks = length (rt_after_hooks routes)\<rparr>\<rparr>\<rparr>
         else app)"

text \<open>What the interpreter says of a handler object, and where the call is made: \<open>sc_app\<close> is this app's identity.\<close>

record 'py handler_api =
  ha_name :: "'py \<Rightarrow> (string, PyErr) result" \<comment> \<open>\<open>__name__\<close>, as text\<close>
  ha_inspect :: "(unit, PyErr) result" \<comment> \<open>importing \<open>inspect\<close>\<close>
  ha_is_coroutine :: "'py \<Rightarrow> (bool, PyErr) result" \<comment> \<open>\<open>inspect.iscoroutinefunction\<close>\<close>
  ha_call :: "'py \<Rightarrow> ('py, PyErr) result" \<comment> \<open>\<open>__call__\<close>\<close>
  ha_is_attribute_error :: "PyErr \<Rightarrow> bool"

record ('r, 'py, 'h, 'e) registrar =
  rg_router :: "('r, RouteId, 'e) router_api"
  rg_unicode :: "string \<Rightarrow> string"
  rg_http :: "'h http_api"
  rg_handlers :: "'py handler_api"
  rg_fs :: fs_ops
  rg_on_main :: bool
  rg_app :: nat

type_synonym ('r, 'py, 'h) scope = "nat option \<times> ('r, 'py, 'h) PyronovaApp"

definition is_async_handler :: "'py handler_api \<Rightarrow> 'py \<Rightarrow> (bool, PyErr) result" where
  "is_async_handler A func =
     and_then (ha_inspect A) (\<lambda>_.
     and_then (ha_is_coroutine A func) (\<lambda>coroutine.
       if coroutine then Ok True
       else case ha_call A func of
              Inr call \<Rightarrow> ha_is_coroutine A call
            | Inl e \<Rightarrow> if ha_is_attribute_error A e then Ok False else Err e))"

definition dispatch_of ::
    "('r, 'py, 'h, 'e) registrar \<Rightarrow> string \<Rightarrow> string \<Rightarrow> 'py \<Rightarrow> RouteFlags \<Rightarrow> (Dispatch, 'e AppError) result" where
  "dispatch_of G verb path func flags =
     and_then (map_err HandlerRaised (is_async_handler (rg_handlers G) func)) (\<lambda>is_async.
       map_err (Unservable (to_uppercase (rg_unicode G) verb) path) (route_dispatch (rf_gil flags) (rf_stream flags) is_async))"

definition add_route ::
    "('r, 'py, 'h, 'e) registrar \<Rightarrow> string \<Rightarrow> string \<Rightarrow> 'py \<Rightarrow> string \<Rightarrow> RouteFlags \<Rightarrow>
     (unit, 'e AppError, ('r, 'py, 'h) PyronovaApp) run" where
  "add_route G verb path func name flags app =
     (case dispatch_of G verb path func flags of
        Inl e \<Rightarrow> (Err e, app)
      | Inr dispatch \<Rightarrow>
          if rt_sealed (app_routes app) \<noteq> None \<and> \<not> rf_gil flags
          then (Err (SealedRoute (to_uppercase (rg_unicode G) verb) path), app)
          else (let (r, routes) = route_insert (rg_router G) (rg_unicode G) (app_routes app) verb path func name dispatch
                in (map_err BadRoute r, app\<lparr>app_routes := routes\<rparr>)))"

text \<open>\<open>serve_in_worker\<close>: the first registration in a worker records its app.\<close>

definition serve_in_worker :: "('r, 'py, 'h, 'e) registrar \<Rightarrow> (unit, 'e AppError, ('r, 'py, 'h) scope) run" where
  "serve_in_worker G sc =
     (case record_app (rg_on_main G) (rg_app G) (fst sc) of (r, recorded) \<Rightarrow> (map_err OtherApp r, recorded, snd sc))"

definition on_app :: "(unit, 'e AppError, ('r, 'py, 'h) PyronovaApp) run \<Rightarrow> (unit, 'e AppError, ('r, 'py, 'h) scope) run" where
  "on_app m sc = (case m (snd sc) of (r, app) \<Rightarrow> (r, fst sc, app))"

definition register_route ::
    "('r, 'py, 'h, 'e) registrar \<Rightarrow> string \<Rightarrow> string \<Rightarrow> 'py \<Rightarrow> RouteFlags \<Rightarrow> (unit, 'e AppError, ('r, 'py, 'h) scope) run" where
  "register_route G verb path func flags =
     run_bind (run_ret (map_err HandlerRaised (ha_name (rg_handlers G) func))) (\<lambda>name.
     run_bind (serve_in_worker G) (\<lambda>_. on_app (add_route G verb path func name flags)))"

definition app_get :: "('r, 'py, 'h, 'e) registrar \<Rightarrow> string \<Rightarrow> 'py \<Rightarrow> bool \<Rightarrow> (unit, 'e AppError, ('r, 'py, 'h) scope) run" where
  "app_get G path func gil = register_route G ''GET'' path func \<lparr>rf_gil = gil, rf_stream = False\<rparr>"

definition app_post :: "('r, 'py, 'h, 'e) registrar \<Rightarrow> string \<Rightarrow> 'py \<Rightarrow> bool \<Rightarrow> bool \<Rightarrow> (unit, 'e AppError, ('r, 'py, 'h) scope) run" where
  "app_post G path func gil stream = register_route G ''POST'' path func \<lparr>rf_gil = gil, rf_stream = stream\<rparr>"

definition app_put :: "('r, 'py, 'h, 'e) registrar \<Rightarrow> string \<Rightarrow> 'py \<Rightarrow> bool \<Rightarrow> bool \<Rightarrow> (unit, 'e AppError, ('r, 'py, 'h) scope) run" where
  "app_put G path func gil stream = register_route G ''PUT'' path func \<lparr>rf_gil = gil, rf_stream = stream\<rparr>"

definition app_delete :: "('r, 'py, 'h, 'e) registrar \<Rightarrow> string \<Rightarrow> 'py \<Rightarrow> bool \<Rightarrow> (unit, 'e AppError, ('r, 'py, 'h) scope) run" where
  "app_delete G path func gil = register_route G ''DELETE'' path func \<lparr>rf_gil = gil, rf_stream = False\<rparr>"

definition app_route ::
    "('r, 'py, 'h, 'e) registrar \<Rightarrow> string \<Rightarrow> string \<Rightarrow> 'py \<Rightarrow> bool \<Rightarrow> bool \<Rightarrow> (unit, 'e AppError, ('r, 'py, 'h) scope) run" where
  "app_route G verb path func gil stream = register_route G verb path func \<lparr>rf_gil = gil, rf_stream = stream\<rparr>"

definition refuse_sealed_hook :: "('r, 'py, 'h) RouteTable \<Rightarrow> string \<Rightarrow> (unit, 'e AppError) result" where
  "refuse_sealed_hook routes what = (case rt_sealed routes of None \<Rightarrow> Ok () | Some _ \<Rightarrow> Err (SealedHook what))"

text \<open>The body the three hook registrations share: the recorded app, the seal, the change.\<close>

definition register_hook ::
    "('r, 'py, 'h, 'e) registrar \<Rightarrow> string \<Rightarrow> (('r, 'py, 'h) RouteTable \<Rightarrow> ('r, 'py, 'h) RouteTable) \<Rightarrow>
     (unit, 'e AppError, ('r, 'py, 'h) scope) run" where
  "register_hook G what change =
     run_bind (serve_in_worker G) (\<lambda>_. on_app (\<lambda>app.
       case refuse_sealed_hook (app_routes app) what of
         Inl e \<Rightarrow> (Err e, app)
       | Inr _ \<Rightarrow> (Ok (), app\<lparr>app_routes := change (app_routes app)\<rparr>)))"

definition before_request :: "('r, 'py, 'h, 'e) registrar \<Rightarrow> 'py \<Rightarrow> (unit, 'e AppError, ('r, 'py, 'h) scope) run" where
  "before_request G func =
     register_hook G ''a before_request hook'' (\<lambda>routes. routes\<lparr>rt_before_hooks := rt_before_hooks routes @ [func]\<rparr>)"

definition after_request :: "('r, 'py, 'h, 'e) registrar \<Rightarrow> 'py \<Rightarrow> (unit, 'e AppError, ('r, 'py, 'h) scope) run" where
  "after_request G func =
     register_hook G ''an after_request hook'' (\<lambda>routes. routes\<lparr>rt_after_hooks := rt_after_hooks routes @ [func]\<rparr>)"

definition app_fallback :: "('r, 'py, 'h, 'e) registrar \<Rightarrow> 'py \<Rightarrow> (unit, 'e AppError, ('r, 'py, 'h) scope) run" where
  "app_fallback G func = register_hook G ''a fallback handler'' (\<lambda>routes. set_fallback routes func)"

definition app_websocket :: "string \<Rightarrow> 'py \<Rightarrow> (unit, 'e AppError, ('r, 'py, 'h) PyronovaApp) run" where
  "app_websocket path func app =
     (let routes = app_routes app
      in if map_of (rt_ws_handlers routes) path \<noteq> None then (Err (WebsocketTaken path), app)
         else (Ok (), app\<lparr>app_routes := routes\<lparr>rt_ws_handlers := AList.update path func (rt_ws_handlers routes)\<rparr>\<rparr>))"

definition static_dir :: "fs_ops \<Rightarrow> string \<Rightarrow> string \<Rightarrow> (unit, 'e AppError, ('r, 'py, 'h) PyronovaApp) run" where
  "static_dir fs mount_at directory app =
     (case static_mount_new fs mount_at directory of
        Inl e \<Rightarrow> (Err (BadMount e), app)
      | Inr mount \<Rightarrow>
          (let routes = app_routes app
           in (Ok (), app\<lparr>app_routes := routes\<lparr>rt_static_dirs := rt_static_dirs routes @ [mount]\<rparr>\<rparr>)))"

definition app_add_fast_response ::
    "'h http_api \<Rightarrow> string \<Rightarrow> string \<Rightarrow> string \<Rightarrow> string \<Rightarrow> nat \<Rightarrow> (string \<times> string) list \<Rightarrow>
     (unit, 'e AppError, ('r, 'py, 'h) PyronovaApp) run" where
  "app_add_fast_response H verb path body ctype status headers app =
     (let (r, routes) = add_fast_response H (app_routes app) verb path body ctype status headers
      in (map_err BadFastResponse r, app\<lparr>app_routes := routes\<rparr>))"

definition seal_registrations :: "('r, 'py, 'h, 'e) registrar \<Rightarrow> (unit, 'e AppError, ('r, 'py, 'h) PyronovaApp) run" where
  "seal_registrations G app = (if \<not> rg_on_main G then (Err SealsOffMain, app) else (Ok (), seal_if_unsealed app))"

subsection \<open>What a run serves\<close>

definition snapshot :: "('py \<Rightarrow> 'py) \<Rightarrow> ('r, 'py, 'h) PyronovaApp \<Rightarrow> ('r, 'py, 'h) Site" where
  "snapshot clone app =
     \<lparr>site_routes = clone_ref clone (app_routes app),
      site_config = \<lparr>sc_cors = app_cors app, sc_access_log = app_access_log app, sc_grpc_benchmark = app_grpc_benchmark app,
                     sc_request_id_header = app_request_id_header app, sc_limits = app_limits app,
                     sc_compression = app_compression app, sc_ws_connections = 0\<rparr>\<rparr>"

text \<open>What every worker of a run is built from.\<close>

definition worker_spec :: "WorkerProgram \<Rightarrow> RouteSignature \<Rightarrow> ('r, 'py, 'h) Site \<Rightarrow> u64 \<Rightarrow> handle \<Rightarrow> WorkerSpec" where
  "worker_spec program expected site gc shared_state =
     \<lparr>ws_program = program, ws_expected = expected, ws_shared_state = shared_state, ws_gc_threshold = gc,
      ws_limits = sc_limits (site_config site)\<rparr>"

subsection \<open>Starting a server\<close>

definition DEFAULT_HOST :: string where "DEFAULT_HOST = ''127.0.0.1''"
definition DEFAULT_PORT :: u16 where "DEFAULT_PORT = 8000"

datatype ModeArg = IsMode Mode | ModeName string | NotAMode

datatype StartError =
    StartedInWorker
  | NoJson PyErr
  | CountZero string
  | BadHost string
  | BadConfig ConfigError
  | ModeType
  | BadMode UnknownMode
  | TlsUnpaired
  | BadTls string
  | ExtraTls ExtraTlsWithoutCert
  | NotBound ListenerError
  | NoListener

fun mode_from_arg :: "ModeArg \<Rightarrow> (Mode, StartError) result" where
  "mode_from_arg (IsMode mode) = Ok mode"
| "mode_from_arg (ModeName name) = map_err BadMode (mode_from_str name)"
| "mode_from_arg NotAMode = Err ModeType"

definition positive :: "string \<Rightarrow> nat option \<Rightarrow> (nat option, StartError) result" where
  "positive name value = (if value = Some 0 then Err (CountZero name) else Ok value)"

definition strip_brackets :: "string \<Rightarrow> string" where
  "strip_brackets host =
     (case strip_prefix ''['' host of
        Some h \<Rightarrow> if h \<noteq> [] \<and> last h = CHR '']'' then butlast h else host
      | None \<Rightarrow> host)"

definition socket_addr :: "string \<Rightarrow> u16 \<Rightarrow> (SocketAddr, StartError) result" where
  "socket_addr host port =
     (case ip_from_str (strip_brackets host) of
        Some ip \<Rightarrow> Ok \<lparr>sa_ip = ip, sa_port = port\<rparr>
      | None \<Rightarrow> Err (BadHost host))"

record StartArgs =
  arg_host :: "string option"
  arg_port :: "u16 option"
  arg_workers :: "nat option"
  arg_mode :: "ModeArg option"
  arg_io_workers :: "nat option"
  arg_tls_cert :: "string option"
  arg_tls_key :: "string option"
  arg_extra_tls_ports :: "u16 list option"

text \<open>What \<open>start\<close> finds outside: the interpreter, the JSON module, the environment, the processors, the certificates.\<close>

record 't host =
  ho_on_main :: bool
  ho_json :: "(unit, PyErr) result"
  ho_os :: target_os
  ho_windows :: bool
  ho_env :: env_lookup
  ho_cpus :: Cpus
  ho_acceptor :: "string \<Rightarrow> string \<Rightarrow> ('t, string) result"

text \<open>Everything a run takes from its arguments and the environment, in the order of the source.\<close>

record 't resolved =
  re_specs :: "'t ListenerSpec list"
  re_topology :: Topology
  re_env :: EnvConfig

fun tls_acceptor :: "'t host \<Rightarrow> string option \<Rightarrow> string option \<Rightarrow> ('t option, StartError) result" where
  "tls_acceptor ho (Some cert) (Some key) = map_ok Some (map_err BadTls (ho_acceptor ho cert key))"
| "tls_acceptor ho None None = Ok None"
| "tls_acceptor ho _ _ = Err TlsUnpaired"

definition resolve_start :: "'t host \<Rightarrow> StartArgs \<Rightarrow> ('t resolved, StartError) result" where
  "resolve_start ho a =
     (if \<not> ho_on_main ho then Err StartedInWorker
      else
     and_then (map_err NoJson (ho_json ho)) (\<lambda>_.
     and_then (positive ''workers'' (arg_workers a)) (\<lambda>workers.
     and_then (positive ''io_workers'' (arg_io_workers a)) (\<lambda>io_workers.
     and_then (socket_addr (unwrap_or (arg_host a) DEFAULT_HOST) (unwrap_or (arg_port a) DEFAULT_PORT)) (\<lambda>addr.
     and_then (map_err BadConfig (env_parse (ho_os ho) (ho_env ho))) (\<lambda>env.
     and_then (case arg_mode a of None \<Rightarrow> Ok Gil | Some m \<Rightarrow> mode_from_arg m) (\<lambda>mode.
     and_then (map_err (\<lambda>e. BadConfig (Gc e))
        (topology_resolve (ho_os ho) mode env \<lparr>sz_workers = workers, sz_io_workers = io_workers\<rparr> (ho_cpus ho))) (\<lambda>topology.
     and_then (tls_acceptor ho (arg_tls_cert a) (arg_tls_key a)) (\<lambda>tls.
     and_then (map_err ExtraTls (spec_set addr tls (unwrap_or (arg_extra_tls_ports a) []))) (\<lambda>specs.
       Ok \<lparr>re_specs = specs, re_topology = topology, re_env = env\<rparr>))))))))))"

record AppSource =
  as_script_path :: "string option"
  as_shared_state :: handle
  as_isolated :: "string list"

definition app_source :: "('r, 'py, 'h) PyronovaApp \<Rightarrow> AppSource" where
  "app_source app = \<lparr>as_script_path = app_script_path app, as_shared_state = app_shared_state app, as_isolated = app_isolated app\<rparr>"

record ('r, 'py, 'h, 'k, 't) ServerRun =
  sr_listeners :: "('k, 't) BoundListeners"
  sr_site :: "('r, 'py, 'h) Site"
  sr_topology :: Topology
  sr_env :: EnvConfig
  sr_app :: AppSource

record ('r, 'py, 'h, 'k, 't) Server =
  srv_stopped :: bool \<comment> \<open>the stop token is cancelled\<close>
  srv_port :: u16
  srv_run :: "('r, 'py, 'h, 'k, 't) ServerRun option"

text \<open>
  \<open>start\<close> changes the app (the seal), the metrics switch and the open sockets: \<open>(app, metrics, w)\<close>.
\<close>

definition app_start ::
    "('k, 'o) socket_api \<Rightarrow> 't host \<Rightarrow> ('py \<Rightarrow> 'py) \<Rightarrow> StartArgs \<Rightarrow>
     (('r, 'py, 'h, 'k, 't) Server, StartError, ('r, 'py, 'h) PyronovaApp \<times> bool \<times> 'o) run" where
  "app_start S ho clone a st =
     (case resolve_start ho a of
        Inl e \<Rightarrow> (Err e, st)
      | Inr re \<Rightarrow>
          (let (app, _, w) = st;
               metrics = env_metrics (re_env re);
               app = seal_if_unsealed app;
               site = snapshot clone app
           in case listeners_bind S (ho_os ho) (ho_windows ho) (re_specs re) (accept_loops (re_topology re)) w of
                (Inl e, w) \<Rightarrow> (Err (NotBound e), app, metrics, w)
              | (Inr listeners, w) \<Rightarrow>
                  (case bl_bound listeners of
                     [] \<Rightarrow> (Err NoListener, app, metrics, drop_groups S (bl_groups listeners) w)
                   | bound # _ \<Rightarrow>
                       (Ok \<lparr>srv_stopped = False, srv_port = sa_port (bd_addr bound),
                             srv_run = Some \<lparr>sr_listeners = listeners, sr_site = site, sr_topology = re_topology re,
                                             sr_env = re_env re, sr_app = app_source app\<rparr>\<rparr>, app, metrics, w))))"

definition shutdown :: "('r, 'py, 'h, 'k, 't) Server \<Rightarrow> ('r, 'py, 'h, 'k, 't) Server" where
  "shutdown server = server\<lparr>srv_stopped := True\<rparr>"

text \<open>\<open>Server::serve\<close>: the run is taken; \<open>serve\<close> runs it unless it was stopped before, and then only drops its listeners.\<close>

datatype ServeOutcome = AlreadyServed | StoppedBefore | Served

definition server_serve ::
    "('k, 'o) socket_api \<Rightarrow> (('r, 'py, 'h, 'k, 't) ServerRun \<Rightarrow> 'o \<Rightarrow> 'o) \<Rightarrow> ('r, 'py, 'h, 'k, 't) Server \<Rightarrow> 'o \<Rightarrow>
     ServeOutcome \<times> ('r, 'py, 'h, 'k, 't) Server \<times> 'o" where
  "server_serve S run_server server w =
     (case srv_run server of
        None \<Rightarrow> (AlreadyServed, server, w)
      | Some run \<Rightarrow>
          if srv_stopped server
          then (StoppedBefore, server\<lparr>srv_run := None\<rparr>, drop_groups S (bl_groups (sr_listeners run)) w)
          else (Served, server\<lparr>srv_run := None\<rparr>, run_server run w))"

subsection \<open>Sequences of calls\<close>

datatype 'py AppCall =
    Isolate "string list"
  | TakeAbandoned
  | SetCors string string string "string option" bool
  | EnableGrpc
  | SetRequestIdHeader string
  | EnableLogging bool
  | SetSampling nat "nat option"
  | SetMaxBody nat
  | SetMaxWsMessage int
  | SetMaxWsConnections int
  | AddFast string string string string nat "(string \<times> string) list"
  | ConfigureCompression "Settings option"
  | SealRegistrations
  | SetScriptPath string
  | AddRoute string string 'py RouteFlags
  | BeforeRequest 'py
  | AfterRequest 'py
  | AddFallback 'py
  | AddWebsocket string 'py
  | AddStaticDir string string

definition silently :: "(('r, 'py, 'h) PyronovaApp \<Rightarrow> ('r, 'py, 'h) PyronovaApp) \<Rightarrow> (unit, 'e AppError, ('r, 'py, 'h) PyronovaApp) run" where
  "silently f app = (Ok (), f app)"

fun app_call :: "('r, 'py, 'h, 'e) registrar \<Rightarrow> 'py AppCall \<Rightarrow> (unit, 'e AppError, ('r, 'py, 'h) scope) run" where
  "app_call G (Isolate libraries) = on_app (isolate libraries)"
| "app_call G TakeAbandoned = on_app (silently (\<lambda>app. snd (take_abandoned_workers app)))"
| "app_call G (SetCors origin methods headers expose credentials) =
     on_app (set_cors_config (rg_http G) origin methods headers expose credentials)"
| "app_call G EnableGrpc = on_app (silently enable_grpc_benchmark)"
| "app_call G (SetRequestIdHeader header) = on_app (set_request_id_header (rg_http G) header)"
| "app_call G (EnableLogging enabled) = on_app (silently (enable_request_logging enabled))"
| "app_call G (SetSampling n always) = on_app (set_request_log_sampling (rg_http G) n always)"
| "app_call G (SetMaxBody bytes) = on_app (silently (set_max_body_size bytes))"
| "app_call G (SetMaxWsMessage bytes) = on_app (set_max_websocket_message_size bytes)"
| "app_call G (SetMaxWsConnections n) = on_app (set_max_websocket_connections n)"
| "app_call G (AddFast verb path body ctype status headers) = on_app (app_add_fast_response (rg_http G) verb path body ctype status headers)"
| "app_call G (ConfigureCompression settings) = on_app (silently (configure_compression settings))"
| "app_call G SealRegistrations = on_app (seal_registrations G)"
| "app_call G (SetScriptPath path) = on_app (silently (set_script_path path))"
| "app_call G (AddRoute verb path func flags) = register_route G verb path func flags"
| "app_call G (BeforeRequest func) = before_request G func"
| "app_call G (AfterRequest func) = after_request G func"
| "app_call G (AddFallback func) = app_fallback G func"
| "app_call G (AddWebsocket path func) = on_app (app_websocket path func)"
| "app_call G (AddStaticDir mount_at directory) = on_app (static_dir (rg_fs G) mount_at directory)"

definition app_calls :: "('r, 'py, 'h, 'e) registrar \<Rightarrow> 'py AppCall list \<Rightarrow> ('r, 'py, 'h) scope \<Rightarrow> ('r, 'py, 'h) scope" where
  "app_calls G calls sc = fold (\<lambda>c sc. snd (app_call G c sc)) calls sc"

subsection \<open>The site of an app is well-formed\<close>

text \<open>
  The seal: as many hooks as there are, and every route after it runs on the main interpreter.
\<close>

definition sealed_inv :: "('r, 'py, 'h) RouteTable \<Rightarrow> bool" where
  "sealed_inv t \<longleftrightarrow>
     (\<forall>s. rt_sealed t = Some s \<longrightarrow>
        sealed_routes s \<le> length (rt_routes t) \<and> sealed_before_hooks s = length (rt_before_hooks t) \<and>
        sealed_after_hooks s = length (rt_after_hooks t) \<and>
        list_all (\<lambda>r. is_main (r_dispatch r)) (drop (sealed_routes s) (rt_routes t)))"

definition site_inv :: "('r \<Rightarrow> RouteId set) \<Rightarrow> 'h http_api \<Rightarrow> ('r, 'py, 'h) Site \<Rightarrow> bool" where
  "site_inv vals H site \<longleftrightarrow>
     table_inv vals (site_routes site) \<and> sealed_inv (site_routes site) \<and> cors_parsed H (site_config site) \<and>
     0 < al_sample_n (sc_access_log (site_config site)) \<and> limits_ok (lim_ws (sc_limits (site_config site)))"

lemma sealed_inv_new: "sealed_inv route_table_new"
  by (simp add: sealed_inv_def route_table_new_def)

lemma sealed_inv_cong:
  "rt_sealed t' = rt_sealed t \<Longrightarrow> rt_routes t' = rt_routes t \<Longrightarrow> rt_before_hooks t' = rt_before_hooks t \<Longrightarrow>
   rt_after_hooks t' = rt_after_hooks t \<Longrightarrow> sealed_inv t' = sealed_inv t"
  by (simp add: sealed_inv_def)

lemma clone_ref_sealed: "sealed_inv (clone_ref clone t) = sealed_inv t"
  by (simp add: sealed_inv_def clone_ref_def drop_map list_all_iff)

lemma table_inv_cong:
  "rt_routers t' = rt_routers t \<Longrightarrow> rt_routes t' = rt_routes t \<Longrightarrow> rt_fast_responses t' = rt_fast_responses t \<Longrightarrow>
   table_inv vals t' = table_inv vals t"
  by (simp add: table_inv_def)

text \<open>The table after a route is inserted: one more route with that dispatch, or the same routes.\<close>

lemma route_insert_frame:
  assumes "route_insert R uni t m p h n d = (r, t')"
  shows "rt_sealed t' = rt_sealed t" "rt_before_hooks t' = rt_before_hooks t" "rt_after_hooks t' = rt_after_hooks t"
    "rt_fallback t' = rt_fallback t"
    "rt_routes t' = rt_routes t \<or> (\<exists>new. rt_routes t' = rt_routes t @ [new] \<and> r_dispatch new = d)"
  using assms by (auto simp: route_insert_def Let_def split: sum.splits prod.splits)

lemma add_fast_frame:
  assumes "add_fast_response H t m p b ct st hs = (r, t')"
  shows "rt_sealed t' = rt_sealed t" "rt_before_hooks t' = rt_before_hooks t" "rt_after_hooks t' = rt_after_hooks t"
    "rt_fallback t' = rt_fallback t" "rt_routes t' = rt_routes t"
  using assms by (auto simp: add_fast_response_def Let_def split: sum.splits if_splits)

lemma route_dispatch_main: "route_dispatch gil stream is_async = Ok d \<Longrightarrow> is_main d = gil"
  by (cases "(gil, stream, is_async)" rule: route_dispatch.cases) auto

text \<open>What any call makes of the table.\<close>

inductive table_change :: "('r, 'py, 'h, 'e) registrar \<Rightarrow> ('r, 'py, 'h) RouteTable \<Rightarrow> ('r, 'py, 'h) RouteTable \<Rightarrow> bool" for G t where
  same: "table_change G t t"
| route_added: "rt_sealed t = None \<or> is_main d \<Longrightarrow>
    table_change G t (snd (route_insert (rg_router G) (rg_unicode G) t verb path func name d))"
| fast_added: "table_change G t (snd (add_fast_response (rg_http G) t verb path body ctype status headers))"
| sealed_now: "rt_sealed t = None \<Longrightarrow>
    table_change G t (t\<lparr>rt_sealed := Some \<lparr>sealed_routes = length (rt_routes t), sealed_before_hooks = length (rt_before_hooks t),
                      sealed_after_hooks = length (rt_after_hooks t)\<rparr>\<rparr>)"
| before_added: "rt_sealed t = None \<Longrightarrow> table_change G t (t\<lparr>rt_before_hooks := rt_before_hooks t @ [func]\<rparr>)"
| after_added: "rt_sealed t = None \<Longrightarrow> table_change G t (t\<lparr>rt_after_hooks := rt_after_hooks t @ [func]\<rparr>)"
| fallback_set: "rt_sealed t = None \<Longrightarrow> table_change G t (set_fallback t func)"
| websocket_added: "table_change G t (t\<lparr>rt_ws_handlers := wss\<rparr>)"
| mount_added: "table_change G t (t\<lparr>rt_static_dirs := dirs\<rparr>)"

lemma on_app_snd: "snd (snd (on_app m sc)) = snd (m (snd sc))"
  by (simp add: on_app_def split: prod.splits)

lemma add_route_table: "table_change G (app_routes app) (app_routes (snd (add_route G verb path func name flags app)))"
proof (cases "dispatch_of G verb path func flags")
  case (Inl e)
  then show ?thesis by (simp add: add_route_def same)
next
  case (Inr d)
  then obtain is_async where "route_dispatch (rf_gil flags) (rf_stream flags) is_async = Ok d"
    by (auto simp: dispatch_of_def and_then_def map_err_def split: sum.splits)
  then have "is_main d = rf_gil flags" by (rule route_dispatch_main)
  then have "rt_sealed (app_routes app) \<noteq> None \<and> \<not> rf_gil flags \<or> (rt_sealed (app_routes app) = None \<or> is_main d)" by auto
  then show ?thesis
    using Inr route_added [of "app_routes app" d G verb path func name]
    by (auto simp: add_route_def same case_prod_unfold Let_def)
qed

lemma run_bind_scope:
  assumes "\<And>v. P (snd (f v (snd (m sc))))" and "P (snd (m sc))"
  shows "P (snd (run_bind m f sc))"
  using assms by (auto simp: run_bind_def split: prod.splits sum.splits)

lemma serve_in_worker_app: "snd (snd (serve_in_worker G sc)) = snd sc"
  by (simp add: serve_in_worker_def split: prod.splits)

lemma register_route_table:
  "table_change G (app_routes (snd sc)) (app_routes (snd (snd (register_route G verb path func flags sc))))"
  unfolding register_route_def
  by (rule run_bind_scope, rule run_bind_scope)
     (simp_all add: on_app_snd serve_in_worker_app add_route_table run_ret_def same)

lemma register_hook_table:
  assumes "rt_sealed (app_routes (snd sc)) = None \<Longrightarrow> table_change G (app_routes (snd sc)) (change (app_routes (snd sc)))"
  shows "table_change G (app_routes (snd sc)) (app_routes (snd (snd (register_hook G what change sc))))"
  unfolding register_hook_def
  by (rule run_bind_scope)
     (use assms in \<open>auto simp: on_app_snd serve_in_worker_app refuse_sealed_hook_def same split: option.splits\<close>)

lemmas setting_defs = isolate_def take_abandoned_workers_def set_cors_config_def enable_grpc_benchmark_def set_request_id_header_def
  enable_request_logging_def set_request_log_sampling_def set_max_body_size_def set_ws_limits_def
  set_max_websocket_message_size_def set_max_websocket_connections_def configure_compression_def set_script_path_def silently_def

lemma app_call_table: "table_change G (app_routes (snd sc)) (app_routes (snd (snd (app_call G c sc))))"
proof (cases c)
  case (AddFast verb path body ctype status headers)
  then show ?thesis
    using fast_added [of G "app_routes (snd sc)" verb path body ctype status headers]
    by (simp add: on_app_snd app_add_fast_response_def case_prod_unfold Let_def)
next
  case SealRegistrations
  then show ?thesis
    using sealed_now [of "app_routes (snd sc)" G]
    by (auto simp: on_app_snd seal_registrations_def seal_if_unsealed_def Let_def same)
next
  case (AddWebsocket path func)
  then show ?thesis by (auto simp: on_app_snd app_websocket_def Let_def same intro: websocket_added)
next
  case (AddStaticDir mount_at directory)
  then show ?thesis by (auto simp: on_app_snd static_dir_def Let_def same intro: mount_added split: sum.splits)
qed (auto simp: on_app_snd setting_defs same register_route_table before_request_def after_request_def app_fallback_def
     intro!: register_hook_table before_added after_added fallback_set split: sum.splits option.splits)

lemma table_change_sealed:
  assumes "table_change G t t'" and "sealed_inv t"
  shows "sealed_inv t'"
  using assms(1)
proof cases
  case (route_added d verb path func name)
  obtain r t1 where i: "route_insert (rg_router G) (rg_unicode G) t verb path func name d = (r, t1)" by force
  with route_added route_insert_frame [OF i] assms(2) show ?thesis by (auto simp: sealed_inv_def)
next
  case (fast_added verb path body ctype status headers)
  obtain r t1 where i: "add_fast_response (rg_http G) t verb path body ctype status headers = (r, t1)" by force
  with fast_added add_fast_frame [OF i] assms(2) show ?thesis by (simp add: sealed_inv_def)
qed (use assms(2) in \<open>auto simp: sealed_inv_def set_fallback_def\<close>)

lemma table_change_inv:
  assumes "table_change G t t'" and "table_inv vals t"
    and "route_matcher (rg_router G) vals" and "\<And>s. \<not> list_ex is_ascii_lower (rg_unicode G s)"
  shows "table_inv vals t'"
  using assms(1)
proof cases
  case (route_added d verb path func name)
  with route_insert_inv [OF assms(3,4,2)] show ?thesis by simp
next
  case (fast_added verb path body ctype status headers)
  with add_fast_response_inv [OF assms(2)] show ?thesis by simp
qed (use assms(2) in \<open>auto simp: table_inv_def set_fallback_def\<close>)

text \<open>The settings a site is made of.\<close>

definition settings_inv :: "'h http_api \<Rightarrow> ('r, 'py, 'h) PyronovaApp \<Rightarrow> bool" where
  "settings_inv H app \<longleftrightarrow>
     (\<forall>c. app_cors app = Some c \<longrightarrow> (\<exists>spec. cors_parse H spec = Ok c)) \<and>
     0 < al_sample_n (app_access_log app) \<and> limits_ok (lim_ws (app_limits app))"

lemma settings_inv_fields [simp]:
  "settings_inv H (app\<lparr>app_routes := t\<rparr>) = settings_inv H app"
  "settings_inv H (app\<lparr>app_isolated := l\<rparr>) = settings_inv H app"
  "settings_inv H (app\<lparr>app_abandoned := ab\<rparr>) = settings_inv H app"
  "settings_inv H (app\<lparr>app_grpc_benchmark := b\<rparr>) = settings_inv H app"
  "settings_inv H (app\<lparr>app_request_id_header := h\<rparr>) = settings_inv H app"
  "settings_inv H (app\<lparr>app_compression := c\<rparr>) = settings_inv H app"
  "settings_inv H (app\<lparr>app_script_path := p\<rparr>) = settings_inv H app"
  "settings_inv H (app\<lparr>app_access_log := (app_access_log app)\<lparr>al_enabled := e\<rparr>\<rparr>) = settings_inv H app"
  "settings_inv H (app\<lparr>app_limits := (app_limits app)\<lparr>lim_max_body_bytes := n\<rparr>\<rparr>) = settings_inv H app"
  by (simp_all add: settings_inv_def)

lemma add_route_settings: "settings_inv H app \<Longrightarrow> settings_inv H (snd (add_route G verb path func name flags app))"
  by (simp add: add_route_def Let_def case_prod_unfold split: sum.splits)

lemma register_route_settings:
  "settings_inv H (snd sc) \<Longrightarrow> settings_inv H (snd (snd (register_route G verb path func flags sc)))"
  unfolding register_route_def
  by (rule run_bind_scope, rule run_bind_scope)
     (simp_all add: on_app_snd serve_in_worker_app add_route_settings run_ret_def)

lemma register_hook_settings:
  "settings_inv H (snd sc) \<Longrightarrow> settings_inv H (snd (snd (register_hook G what change sc)))"
  unfolding register_hook_def
  by (rule run_bind_scope) (auto simp: on_app_snd serve_in_worker_app split: sum.splits)

lemma app_call_settings:
  assumes "settings_inv (rg_http G) (snd sc)"
  shows "settings_inv (rg_http G) (snd (snd (app_call G c sc)))"
proof (cases c)
  case (SetMaxWsMessage n)
  with assms show ?thesis
    by (cases "with_max_message_bytes (lim_ws (app_limits (snd sc))) n")
       (auto simp: on_app_snd set_max_websocket_message_size_def set_ws_limits_def settings_inv_def dest: limits_ok_set)
next
  case (SetMaxWsConnections n)
  with assms show ?thesis
    by (cases "with_max_connections (lim_ws (app_limits (snd sc))) n")
       (auto simp: on_app_snd set_max_websocket_connections_def set_ws_limits_def settings_inv_def dest: limits_ok_set)
next
  case (SetCors origin methods headers expose credentials)
  with assms show ?thesis by (auto simp: on_app_snd setting_defs settings_inv_def split: sum.splits)
next
  case (SetSampling n always)
  with assms show ?thesis by (auto simp: on_app_snd setting_defs settings_inv_def split: sum.splits)
next
  case (AddRoute verb path func flags)
  with assms show ?thesis by (simp add: register_route_settings)
next
  case SealRegistrations
  with assms show ?thesis by (simp add: on_app_snd seal_registrations_def seal_if_unsealed_def Let_def)
next
  case (AddFast verb path body ctype status headers)
  with assms show ?thesis by (simp add: on_app_snd app_add_fast_response_def Let_def case_prod_unfold)
next
  case (AddWebsocket path func)
  with assms show ?thesis by (simp add: on_app_snd app_websocket_def Let_def)
next
  case (AddStaticDir mount_at directory)
  with assms show ?thesis by (simp add: on_app_snd static_dir_def Let_def split: sum.splits)
qed (use assms in \<open>auto simp: on_app_snd setting_defs before_request_def after_request_def app_fallback_def
      intro: register_hook_settings split: option.splits\<close>)

text \<open>An app that any calls made of a new one.\<close>

definition app_made ::
    "('r, 'py, 'h, 'e) registrar \<Rightarrow> ('m, key, string) dash_api \<Rightarrow> nat \<Rightarrow> 'm SharedMaps \<Rightarrow> nat option \<Rightarrow> 'py AppCall list \<Rightarrow>
     ('r, 'py, 'h) scope" where
  "app_made G D py shared recorded calls = app_calls G calls (recorded, fst (app_new D py shared))"

lemma app_calls_induct [consumes 0, case_names init call]:
  assumes "P sc" and "\<And>c sc. P sc \<Longrightarrow> P (snd (app_call G c sc))"
  shows "P (app_calls G calls sc)"
  unfolding app_calls_def using assms(1) by (induction calls arbitrary: sc) (simp_all add: assms(2))

lemma app_made_inv:
  assumes "route_matcher (rg_router G) vals" and "\<And>s. \<not> list_ex is_ascii_lower (rg_unicode G s)"
    and "app = snd (app_made G D py shared recorded calls)"
  shows "table_inv vals (app_routes app)" "sealed_inv (app_routes app)" "settings_inv (rg_http G) app"
proof -
  let ?P = "\<lambda>sc. table_inv vals (app_routes (snd sc)) \<and> sealed_inv (app_routes (snd sc)) \<and> settings_inv (rg_http G) (snd sc)"
  have "?P (app_made G D py shared recorded calls)"
    unfolding app_made_def
  proof (induction rule: app_calls_induct)
    case init
    show ?case
      by (simp add: app_new_def table_inv_new sealed_inv_new settings_inv_def access_log_disabled_def limits_default_def
          limits_ok_default Let_def case_prod_unfold)
  next
    case (call c sc)
    then show ?case
      using table_change_inv [OF app_call_table _ assms(1,2)] table_change_sealed [OF app_call_table] app_call_settings by blast
  qed
  then show "table_inv vals (app_routes app)" "sealed_inv (app_routes app)" "settings_inv (rg_http G) app"
    by (simp_all add: assms(3))
qed

lemma seal_table: "app_routes (seal_if_unsealed app) = app_routes app \<or>
    rt_sealed (app_routes app) = None \<and> app_routes (seal_if_unsealed app) = (app_routes app)\<lparr>rt_sealed :=
       Some \<lparr>sealed_routes = length (rt_routes (app_routes app)), sealed_before_hooks = length (rt_before_hooks (app_routes app)),
             sealed_after_hooks = length (rt_after_hooks (app_routes app))\<rparr>\<rparr>"
  by (auto simp: seal_if_unsealed_def Let_def)

lemma seal_inv:
  "table_inv vals (app_routes app) \<Longrightarrow> table_inv vals (app_routes (seal_if_unsealed app))"
  "sealed_inv (app_routes app) \<Longrightarrow> sealed_inv (app_routes (seal_if_unsealed app))"
  "settings_inv H app \<Longrightarrow> settings_inv H (seal_if_unsealed app)"
  "rt_sealed (app_routes (seal_if_unsealed app)) \<noteq> None"
  by (auto simp: seal_if_unsealed_def Let_def table_inv_def sealed_inv_def settings_inv_def)

lemma snapshot_site_inv:
  "table_inv vals (app_routes app) \<Longrightarrow> sealed_inv (app_routes app) \<Longrightarrow> settings_inv H app \<Longrightarrow>
   site_inv vals H (snapshot clone app)"
  by (simp add: site_inv_def snapshot_def clone_ref_inv clone_ref_sealed settings_inv_def cors_parsed_def)

text \<open>
  C22. The site a server of an app serves (\<open>PyronovaApp\<close>, \<open>snapshot\<close>) is well-formed as the pipeline assumes it, whatever calls were
  made on the app, in whatever order and whether they were refused: the ids its matchers hold are routes
  of their method, its CORS headers were parsed, it samples at least one request in a positive number, its WebSocket limits are in
  range, and every route registered after the seal runs on the main interpreter.
\<close>

theorem app_site_well_formed:
  assumes "route_matcher (rg_router G) vals" and "\<And>s. \<not> list_ex is_ascii_lower (rg_unicode G s)"
  shows "site_inv vals (rg_http G) (snapshot clone (seal_if_unsealed (snd (app_made G D py shared recorded calls))))"
  using app_made_inv [OF assms refl, where D = D and py = py and shared = shared and recorded = recorded and calls = calls]
  by (intro snapshot_site_inv seal_inv) auto

text \<open>
  C23. Once an app is sealed, the part of it the workers rebuild is fixed, whatever is called after
  (\<open>refuse_sealed_hook\<close>, \<open>add_route\<close>): the seal and the signature workers are compared with stay, no hook and no fallback is
  added, and routes are only added at the end, on the main interpreter.
\<close>

theorem sealed_app_frozen:
  assumes "route_matcher (rg_router G) vals" and "\<And>s. \<not> list_ex is_ascii_lower (rg_unicode G s)"
    and "sc = app_made G D py shared recorded calls" and "rt_sealed (app_routes (snd sc)) \<noteq> None"
  shows "let before = app_routes (snd sc); after = app_routes (snd (app_calls G later sc)) in
     rt_sealed after = rt_sealed before \<and> route_signature_of after = route_signature_of before \<and>
     rt_before_hooks after = rt_before_hooks before \<and> rt_after_hooks after = rt_after_hooks before \<and>
     rt_fallback after = rt_fallback before \<and>
     (\<exists>extra. rt_routes after = rt_routes before @ extra \<and> list_all (\<lambda>r. is_main (r_dispatch r)) extra)"
proof -
  define before where "before = app_routes (snd sc)"
  define after where "after = app_routes (snd (app_calls G later sc))"
  let ?same = "\<lambda>t. rt_sealed t = rt_sealed before \<and> rt_before_hooks t = rt_before_hooks before \<and>
      rt_after_hooks t = rt_after_hooks before \<and> rt_fallback t = rt_fallback before \<and>
      (\<exists>extra. rt_routes t = rt_routes before @ extra \<and> list_all (\<lambda>r. is_main (r_dispatch r)) extra)"
  have step: "?same t'" if "table_change G t t'" and t: "?same t" for t t'
    using that(1)
  proof cases
    case (route_added d verb path func name)
    obtain r t1 where i: "route_insert (rg_router G) (rg_unicode G) t verb path func name d = (r, t1)" by force
    have "is_main d" using route_added t assms(4) by (auto simp: before_def)
    with route_added route_insert_frame [OF i] t i show ?thesis by (auto simp: list_all_append)
  next
    case (fast_added verb path body ctype status headers)
    obtain r t1 where i: "add_fast_response (rg_http G) t verb path body ctype status headers = (r, t1)" by force
    with fast_added add_fast_frame [OF i] t show ?thesis by simp
  qed (use t assms(4) in \<open>auto simp: before_def\<close>)
  have "?same (app_routes (snd (app_calls G later sc)))"
  proof (induction rule: app_calls_induct)
    case (call c sc)
    with step [OF app_call_table] show ?case .
  qed (simp add: before_def)
  then have same: "?same after" by (simp add: after_def)
  have "sealed_inv before" using app_made_inv(2) [OF assms(1,2) refl] assms(3) by (simp add: before_def)
  with assms(4) obtain s where s: "rt_sealed before = Some s" "sealed_routes s \<le> length (rt_routes before)"
    by (auto simp: sealed_inv_def before_def)
  with same have "route_signature_of after = route_signature_of before"
    by (auto simp: route_signature_of_def)
  with same have "?same after \<and> route_signature_of after = route_signature_of before" by blast
  then show ?thesis unfolding Let_def before_def after_def by blast
qed

text \<open>
  C31. Every worker route a request can resolve to is one the workers of the run have. The site is that of an app made by
  any calls; the request resolves to a worker route; the worker started with the signature of the site's
  table. Then it has a handler at that id, which its script registered for the same method and path: \<open>Inline::run\<close>
  never indexes past its handlers, nor runs another route's.
\<close>

theorem app_workers_have_routes:
  assumes "route_matcher (rg_router G) vals" and "\<And>s. \<not> list_ex is_ascii_lower (rg_unicode G s)"
    and site: "site = snapshot clone (seal_if_unsealed (snd (app_made G D py shared recorded calls)))"
    and found: "resolve (rg_router G) decode (site_routes site) verb path = Some (Some (CallWorker rid kind, ps))"
    and start: "worker_new C interp_id I (inline_build I worker) worker
        (worker_spec program (route_signature_of (site_routes site)) site gc state) sm s = Some (Ok wk, sm', s')"
  shows "\<exists>s1 table limits. py_worker_app I s1 = Some (Ok (table, limits)) \<and>
     rid < length (il_handlers (wk_role wk)) \<and> il_handlers (wk_role wk) ! rid = r_handler (rt_routes table ! rid) \<and>
     r_key (rt_routes table ! rid) = r_key (rt_routes (site_routes site) ! rid)"
proof -
  note made = app_made_inv [OF assms(1,2) refl, where D = D and py = py and shared = shared and recorded = recorded and calls = calls]
  have inv: "table_inv vals (site_routes site)" "sealed_inv (site_routes site)"
    using clone_ref_inv [OF seal_inv(1) [OF made(1)], of clone] seal_inv(2) [OF made(2)]
    by (simp_all add: site snapshot_def clone_ref_sealed)
  obtain sl where sl: "rt_sealed (site_routes site) = Some sl"
    using seal_inv(4) by (auto simp: site snapshot_def clone_ref_def)
  have r: "rid < length (rt_routes (site_routes site))" "\<not> is_main (r_dispatch (rt_routes (site_routes site) ! rid))"
    using found by (auto simp: resolve_def route_def split: option.splits Dispatch.splits if_splits)
  have "rid < sealed_routes sl"
  proof (rule ccontr)
    assume "\<not> rid < sealed_routes sl"
    then have "rt_routes (site_routes site) ! rid \<in> set (drop (sealed_routes sl) (rt_routes (site_routes site)))"
      using r(1) by (auto simp: in_set_conv_nth intro!: exI [of _ "rid - sealed_routes sl"])
    with inv(2) sl r(2) show False by (auto simp: sealed_inv_def list_all_iff)
  qed
  with r(1) sl have "rid < length (sig_routes (route_signature_of (site_routes site)))" by (simp add: route_signature_of_def)
  with worker_has_handlers [OF start, of "site_routes site" rid] show ?thesis by (auto simp: worker_spec_def)
qed

text \<open>
  C21. Starting a server (\<open>PyronovaApp::start\<close>) opens every listening socket of the run or none: when it raises, whatever for,
  the sockets are as they were, and an argument or variable that is wrong is raised before the app is touched; when it
  returns, what is open is one socket for each address and accept loop, at least one, the app is sealed, and the server
  reports the port of its first listener.
\<close>

theorem start_all_or_nothing:
  assumes "sockets S opened" and "app_start S ho clone a (app, metrics, w) = (r, app', metrics', w')"
  shows "case r of
      Inl e \<Rightarrow> opened w' = opened w \<and> (resolve_start ho a = Err e \<longrightarrow> app' = app \<and> metrics' = metrics)
    | Inr server \<Rightarrow> rt_sealed (app_routes app') \<noteq> None \<and>
        (\<exists>run re. srv_run server = Some run \<and> resolve_start ho a = Ok re \<and> \<not> srv_stopped server \<and>
           owned (opened w') (opened w) (bl_groups (sr_listeners run)) \<and>
           length (bl_groups (sr_listeners run)) = accept_loops (sr_topology run) \<and>
           shaped (bl_groups (sr_listeners run)) (bl_bound (sr_listeners run)) (re_specs re) \<and>
           srv_port server = sa_port (bd_addr (hd (bl_bound (sr_listeners run)))))"
proof (cases "resolve_start ho a")
  case (Inl e)
  with assms(2) show ?thesis by (auto simp: app_start_def)
next
  case (Inr re)
  obtain x w1 where b: "listeners_bind S (ho_os ho) (ho_windows ho) (re_specs re) (accept_loops (re_topology re)) w = (x, w1)" by force
  note opens = bind_all_or_nothing [OF assms(1) b]
  show ?thesis
  proof (cases x)
    case (Inl e)
    with Inr b opens assms(2) show ?thesis by (auto simp: app_start_def Let_def)
  next
    case (Inr bl)
    then show ?thesis
      using \<open>resolve_start ho a = Inr re\<close> b opens assms(2) sockets.owned_dropped [OF assms(1), of w1 "opened w" "bl_groups bl"]
      by (cases "bl_bound bl") (auto simp: app_start_def Let_def seal_inv(4))
  qed
qed

lemma bound_not_empty: "spec_set addr tls ports = Ok specs \<Longrightarrow> specs \<noteq> []"
  by (cases "(addr, tls, ports)" rule: spec_set.cases) auto

text \<open>A server serves once: the second call raises, however the first one ended.\<close>

lemma server_serves_once: "server_serve S run_server server w = (out, server', w') \<Longrightarrow> fst (server_serve S run_server server' w'') = AlreadyServed"
  by (auto simp: server_serve_def split: option.splits if_splits)

subsection \<open>An app\<close>

definition demo_registrar :: "((string \<times> nat) list, nat, (string \<times> string) list, string) registrar" where
  "demo_registrar =
     \<lparr>rg_router = literal_router, rg_unicode = (\<lambda>_. []), rg_http = line_headers,
      rg_handlers = \<lparr>ha_name = (\<lambda>_. Ok ''view''), ha_inspect = Ok (), ha_is_coroutine = (\<lambda>_. Ok False),
                     ha_call = (\<lambda>f. Ok f), ha_is_attribute_error = (\<lambda>_. False)\<rparr>,
      rg_fs = demo_fs, rg_on_main = True, rg_app = 0\<rparr>"

abbreviation demo_made :: "nat AppCall list \<Rightarrow> ((string \<times> nat) list, nat, (string \<times> string) list) scope" where
  "demo_made \<equiv> app_made demo_registrar alist_dash 0 threads_shared None"

lemma demo_registrar_ok: "route_matcher (rg_router demo_registrar) (\<lambda>r. snd ` set r)" "\<not> list_ex is_ascii_lower (rg_unicode demo_registrar s)"
  by (simp_all add: demo_registrar_def literal.route_matcher_axioms)

lemma demo_registrar_parts: "rg_router demo_registrar = literal_router" "rg_http demo_registrar = line_headers"
  by (simp_all add: demo_registrar_def)

lemma demo_paths: "template_params ''/'' = Ok []" "template_params ''/late'' = Ok []"
  by (simp_all add: template_params_def colon_param_def ascii_defs template_names.simps)

lemmas demo_app_defs = app_made_def app_calls_def app_new_def demo_registrar_def register_route_def run_bind_def run_ret_def
  serve_in_worker_def record_app_def on_app_def add_route_def dispatch_of_def is_async_handler_def route_insert_def get_upper demo_paths
  literal_router_def route_table_new_def map_for_new_def threads_shared_def before_request_def register_hook_def
  refuse_sealed_hook_def seal_registrations_def seal_if_unsealed_def and_then_def map_err_def Let_def

text \<open>One worker route; then the seal; then a route on the main interpreter, and a hook that is refused.\<close>

abbreviation view_call :: "nat AppCall" where
  "view_call \<equiv> AddRoute ''GET'' ''/'' 10 \<lparr>rf_gil = False, rf_stream = False\<rparr>"

lemma demo_made_view:
  "app_routes (seal_if_unsealed (snd (demo_made [view_call]))) =
     route_table_new\<lparr>rt_routers := [(''GET'', [(''/'', 0)])], rt_routes := rt_routes threads_table,
       rt_sealed := Some \<lparr>sealed_routes = 1, sealed_before_hooks = 0, sealed_after_hooks = 0\<rparr>\<rparr>"
  by (simp add: demo_app_defs threads_table_def)

theorem app_site_well_formed_witness:
  "site_inv (\<lambda>r. snd ` set r) line_headers (snapshot (\<lambda>f. f) (seal_if_unsealed (snd (demo_made [view_call]))))"
  using app_site_well_formed [OF demo_registrar_ok, of "\<lambda>f. f" alist_dash 0 threads_shared None "[view_call]"]
  by (simp only: demo_registrar_parts)

theorem sealed_app_frozen_witness:
  "rt_sealed (app_routes (snd (demo_made [view_call, SealRegistrations]))) \<noteq> None \<and>
   (let sc = app_calls demo_registrar [BeforeRequest 5, AddRoute ''GET'' ''/late'' 11 \<lparr>rf_gil = True, rf_stream = False\<rparr>]
          (demo_made [view_call, SealRegistrations])
    in rt_before_hooks (app_routes (snd sc)) = [] \<and> length (rt_routes (app_routes (snd sc))) = 2 \<and>
       is_main (r_dispatch (rt_routes (app_routes (snd sc)) ! 1)))"
proof -
  let ?sc = "demo_made [view_call, SealRegistrations]"
  let ?later = "[BeforeRequest 5, AddRoute ''GET'' ''/late'' 11 \<lparr>rf_gil = True, rf_stream = False\<rparr>]"
  have s: "rt_sealed (app_routes (snd ?sc)) \<noteq> None" and b: "rt_before_hooks (app_routes (snd ?sc)) = []"
    and n: "length (rt_routes (app_routes (snd ?sc))) = 1"
    and l: "length (rt_routes (app_routes (snd (app_calls demo_registrar ?later ?sc)))) = 2"
    by (simp_all add: demo_app_defs)
  with sealed_app_frozen [OF demo_registrar_ok refl s, of ?later]
  obtain extra where "rt_routes (app_routes (snd (app_calls demo_registrar ?later ?sc))) = rt_routes (app_routes (snd ?sc)) @ extra"
    "list_all (\<lambda>r. is_main (r_dispatch r)) extra" "rt_before_hooks (app_routes (snd (app_calls demo_registrar ?later ?sc))) = []"
    by (auto simp: Let_def)
  with s n l show ?thesis by (auto simp: Let_def nth_append list_all_length)
qed

theorem app_workers_have_routes_witness:
  "\<exists>wk shared' s'.
     worker_new threads_cpython (\<lambda>_. 1) threads_init (inline_build threads_init 3) 3 (threads_spec ''app'')
       threads_shared (put_threads (Some 0) [Some 0] threads_start) = Some (Ok wk, shared', s') \<and>
     il_handlers (wk_role wk) ! 0 = 10"
proof -
  let ?site = "snapshot (\<lambda>f. f) (seal_if_unsealed (snd (demo_made [view_call])))"
  have "worker_spec (ws_program (threads_spec ''app'')) (route_signature_of (site_routes ?site)) ?site 100 0 = threads_spec ''app''"
    by (simp add: worker_spec_def threads_spec_def snapshot_def clone_ref_def demo_made_view route_signature_of_def threads_table_def
        route_table_new_def) (simp add: demo_app_defs)
  then obtain prog where spec: "worker_spec prog (route_signature_of (site_routes ?site)) ?site 100 0 = threads_spec ''app''" by blast
  have found: "resolve (rg_router demo_registrar) (\<lambda>s. s) (site_routes ?site) ''GET'' ''/'' = Some (Some (CallWorker 0 Sync, []))"
    by (simp add: snapshot_def clone_ref_def demo_made_view resolve_def lookup_def demo_registrar_parts literal_router_def route_def
        route_table_new_def threads_table_def is_ascii_lower_def)
  obtain wk shared' s' where run: "worker_new threads_cpython (\<lambda>_. 1) threads_init (inline_build threads_init 3) 3 (threads_spec ''app'')
       threads_shared (put_threads (Some 0) [Some 0] threads_start) = Some (Ok wk, shared', s')" using threads_started by blast
  have "py_worker_app threads_init v = Some (Ok (t, l)) \<Longrightarrow> r_handler (rt_routes t ! 0) = 10" for v t l
    by (auto simp: threads_init_def threads_table_def)
  with app_workers_have_routes [OF demo_registrar_ok refl found run [folded spec]] run show ?thesis by auto
qed

definition demo_host :: "unit host" where
  "demo_host =
     \<lparr>ho_on_main = True, ho_json = Ok (), ho_os = Linux, ho_windows = False, ho_env = (\<lambda>_. None),
      ho_cpus = \<lparr>cpu_logical = 2, cpu_physical = 2\<rparr>, ho_acceptor = (\<lambda>_ _. Err [])\<rparr>"

definition demo_args :: "string \<Rightarrow> StartArgs" where
  "demo_args address =
     \<lparr>arg_host = Some address, arg_port = Some 80, arg_workers = None, arg_mode = Some (ModeName ''gil''), arg_io_workers = None,
      arg_tls_cert = None, arg_tls_key = None, arg_extra_tls_ports = None\<rparr>"

lemma demo_env:
  "env_parse Linux (\<lambda>_. None) = Ok \<lparr>env_tpc = True, env_darwin_topology = PerThreadListener,
      env_gc = \<lparr>gc_mode = Count, gc_threshold = DEFAULT_GC_THRESHOLD, gc_oom_failsafe = DEFAULT_GC_OOM_FAILSAFE,
        gc_idle_tick = DEFAULT_GC_IDLE_MS\<rparr>,
      env_bridge = \<lparr>br_workers = DEFAULT_BRIDGE_WORKERS, br_capacity = saturating_mul DEFAULT_BRIDGE_WORKERS BRIDGE_QUEUE_PER_WORKER\<rparr>,
      env_metrics = False\<rparr>"
  by (simp add: env_parse_def env_tpc_value_def env_darwin_value_def env_gc_mode_value_def env_idle_ms_value_def env_count_def
      env_positive_def env_metrics_value_def env_value_def env_get_def and_then_def map_err_def Let_def)

lemma demo_ips: "ip_from_str ''127.0.0.1'' = Some (V4 [127, 0, 0, 1])" "ip_from_str ''localhost'' = None"
  by (simp add: ip_parser_defs, simp add: ip_parser_defs)

lemmas resolve_simps = resolve_start_def demo_host_def demo_args_def positive_def socket_addr_def strip_brackets_def unwrap_or_def
  demo_ips demo_env mode_from_str_def topology_resolve_def select_topology_def and_then_def map_err_def Let_def

lemma demo_binds:
  "\<exists>bl bound rest w. listeners_bind kernel_sockets Linux False
      [\<lparr>ls_addr = \<lparr>sa_ip = V4 [127, 0, 0, 1], sa_port = 80\<rparr>, ls_tls = None :: unit option\<rparr>] 2 (0, []) = (Ok bl, w) \<and> bl_bound bl = bound # rest"
proof -
  have two: "replicate 2 x = [x, x]" for x :: "(nat, unit) Listener list" by (simp add: numeral_2_eq_2)
  show ?thesis
    by (simp add: two listeners_bind_def kernel_sockets_def probe_free_def create_reuseport_listener_def
        local_socket_def closing_def or_close_def logged_only_def run_bind_def run_err_def run_ret_def kernel_bind_def kernel_update_def
        map_err_def ok_or_def res_ok_def)
qed

theorem start_all_or_nothing_witness:
  "(\<exists>server run app m w. app_start kernel_sockets demo_host (\<lambda>f. f) (demo_args ''[127.0.0.1]'')
       (snd (demo_made [view_call]), False, 0, []) = (Ok server, app, m, w) \<and> srv_run server = Some run \<and>
     length (bl_groups (sr_listeners run)) = accept_loops (sr_topology run) \<and>
     kernel_open w = set (map ln_socket (concat (bl_groups (sr_listeners run))))) \<and>
   (\<exists>e w. app_start kernel_sockets demo_host (\<lambda>f. f) (demo_args ''localhost'')
       (snd (demo_made [view_call]), False, 0, []) = (Err e, snd (demo_made [view_call]), False, w) \<and> kernel_open w = {})"
proof (rule conjI)
  let ?start = "\<lambda>address. app_start kernel_sockets demo_host (\<lambda>f. f) (demo_args address) (snd (demo_made [view_call]), False, 0, [])"
  have ok: "resolve_start demo_host (demo_args ''[127.0.0.1]'') =
      Ok \<lparr>re_specs = [\<lparr>ls_addr = \<lparr>sa_ip = V4 [127, 0, 0, 1], sa_port = 80\<rparr>, ls_tls = None\<rparr>], re_topology = TpcGil 2, re_env = the (res_ok (env_parse Linux (\<lambda>_. None)))\<rparr>"
    by (simp add: resolve_simps res_ok_def)
  note demo_binds
  moreover have "ho_os demo_host = Linux" "ho_windows demo_host = False" by (simp_all add: demo_host_def)
  ultimately have "\<exists>server app m w. ?start ''[127.0.0.1]'' = (Ok server, app, m, w)"
    by (auto simp: app_start_def ok Let_def)
  then obtain server app m w where start: "?start ''[127.0.0.1]'' = (Ok server, app, m, w)" by blast
  from start_all_or_nothing [OF kernel.sockets_axioms start] obtain run where "srv_run server = Some run"
    "length (bl_groups (sr_listeners run)) = accept_loops (sr_topology run)"
    "kernel_open w = set (map ln_socket (concat (bl_groups (sr_listeners run))))"
    by (auto simp: owned_def kernel_open_def Let_def)
  with start show "\<exists>server run app m w. ?start ''[127.0.0.1]'' = (Ok server, app, m, w) \<and> srv_run server = Some run \<and>
      length (bl_groups (sr_listeners run)) = accept_loops (sr_topology run) \<and>
      kernel_open w = set (map ln_socket (concat (bl_groups (sr_listeners run))))" by blast
  have bad: "resolve_start demo_host (demo_args ''localhost'') = Err (BadHost ''localhost'')" by (simp add: resolve_simps)
  then have start: "?start ''localhost'' = (Err (BadHost ''localhost''), snd (demo_made [view_call]), False, 0, [])"
    by (simp add: app_start_def)
  from start_all_or_nothing [OF kernel.sockets_axioms start] bad start
  show "\<exists>e w. ?start ''localhost'' = (Err e, snd (demo_made [view_call]), False, w) \<and> kernel_open w = {}"
    by (auto simp: kernel_open_def)
qed

end
