(* ===== verification/Bridge.thy ===== *)
theory Bridge
  imports Pipeline Config "HOL-Library.Multiset"
begin

section \<open>The bridge to the main interpreter (\<open>src/bridge/main_bridge.rs\<close>)\<close>

text \<open>
  Under thread-per-core serving, the routes that need the main interpreter are handed to a few bridge threads
  through one bounded channel. The channel, its threads and the callers' one-shot channels are one state; what a
  thread, a caller or an owner of the bridge does is a step of \<open>bridge_step\<close>. What \<open>call_handler_with_hooks\<close>
  may return for a request is the parameter \<open>answers\<close>. A caller's id is its place in the order of the accepted dispatches.

  The results: the queue stays within its capacity, no accepted request is lost, doubled or answered with another's reply, and the
  requests are taken from the queue in the order of dispatch (the threads that took them race for the interpreter); once its owners are gone, the bridge answers what is left and its threads end.
\<close>

subsection \<open>State\<close>

record 'h GilWorkItem =
  gw_target :: Target
  gw_request :: "'h PyronovaRequest"
  gw_response_tx :: nat \<comment> \<open>whose one-shot channel it is\<close>

type_synonym 'h main_result = "('h MainReply, Logged) result"

datatype 'h caller_end = CallerWaiting | CallerGot "'h main_result" | CallerLeft

record 'h bridge_caller =
  bc_target :: Target
  bc_request :: "'h PyronovaRequest"
  bc_end :: "'h caller_end"

text \<open>What a bridge thread is at: waiting for an item, having received one, running its handler.\<close>

datatype 'h bridge_thread = ThreadIdle | ThreadHas "'h GilWorkItem" | ThreadRuns "'h GilWorkItem" | ThreadEnded

record 'h MainInterpBridge =
  mb_capacity :: nat
  mb_queue :: "'h GilWorkItem list"
  mb_threads :: "'h bridge_thread list"
  mb_owners :: nat \<comment> \<open>references to the bridge, which holds the only sender\<close>
  mb_callers :: "'h bridge_caller list"
  mb_taken :: "nat list" \<comment> \<open>whose items were received, in order\<close>
  mb_started :: "nat list" \<comment> \<open>whose handlers started, in order\<close>

record BridgeSpawnError =
  bse_worker :: nat
  bse_requested :: nat
  bse_source :: io_error

subsection \<open>Operations\<close>

text \<open>
  \<open>spawn\<close>: a thread that does not start fails the whole; the threads started so far, whose number is the second component, are stopped and joined.
\<close>

fun spawn_bridge_threads :: "(nat \<Rightarrow> (unit, io_error) result) \<Rightarrow> nat \<Rightarrow> nat \<Rightarrow> (nat, nat \<times> io_error) result" where
  "spawn_bridge_threads spawn i 0 = Ok i"
| "spawn_bridge_threads spawn i (Suc n) =
     (case spawn i of Inr _ \<Rightarrow> spawn_bridge_threads spawn (Suc i) n | Inl e \<Rightarrow> Err (i, e))"

definition bridge_spawn ::
    "(nat \<Rightarrow> (unit, io_error) result) \<Rightarrow> BridgeConfig \<Rightarrow> ('h MainInterpBridge, BridgeSpawnError) result \<times> nat" where
  "bridge_spawn spawn config =
     (case spawn_bridge_threads spawn 0 (br_workers config) of
        Inl (i, e) \<Rightarrow> (Err \<lparr>bse_worker = i, bse_requested = br_workers config, bse_source = e\<rparr>, i)
      | Inr n \<Rightarrow> (Ok \<lparr>mb_capacity = br_capacity config, mb_queue = [], mb_threads = replicate n ThreadIdle, mb_owners = 1,
                       mb_callers = [], mb_taken = [], mb_started = []\<rparr>, 0))"

text \<open>\<open>try_send\<close> on a bounded channel: disconnected once every receiver is gone, else full at its capacity.\<close>

definition try_dispatch :: "Target \<Rightarrow> 'h PyronovaRequest \<Rightarrow> 'h MainInterpBridge \<Rightarrow> (unit, TryDispatchError) result \<times> 'h MainInterpBridge" where
  "try_dispatch target request b =
     (if list_all (\<lambda>t. t = ThreadEnded) (mb_threads b) then (Err DispatchClosed, b)
      else if mb_capacity b \<le> length (mb_queue b) then (Err DispatchFull, b)
      else (Ok (), b\<lparr>mb_queue := mb_queue b @ [\<lparr>gw_target = target, gw_request = request, gw_response_tx = length (mb_callers b)\<rparr>],
                     mb_callers := mb_callers b @ [\<lparr>bc_target = target, bc_request = request, bc_end = CallerWaiting\<rparr>]\<rparr>))"

definition bc_is_closed :: "'h MainInterpBridge \<Rightarrow> nat \<Rightarrow> bool" where
  "bc_is_closed b c \<longleftrightarrow> bc_end (mb_callers b ! c) \<noteq> CallerWaiting"

text \<open>The head of \<open>serve\<close>'s loop: an item is received.\<close>

definition bridge_recv :: "nat \<Rightarrow> 'h MainInterpBridge \<Rightarrow> 'h MainInterpBridge" where
  "bridge_recv i b =
     (case mb_queue b of
        [] \<Rightarrow> b
      | item # queue \<Rightarrow> b\<lparr>mb_queue := queue, mb_threads := (mb_threads b)[i := ThreadHas item], mb_taken := mb_taken b @ [gw_response_tx item]\<rparr>)"

text \<open>The first half of \<open>dispatch_one\<close>: an item whose caller gave up is dropped, else its handler is called.\<close>

definition bridge_start :: "nat \<Rightarrow> 'h GilWorkItem \<Rightarrow> 'h MainInterpBridge \<Rightarrow> 'h MainInterpBridge" where
  "bridge_start i item b =
     (if bc_is_closed b (gw_response_tx item) then b\<lparr>mb_threads := (mb_threads b)[i := ThreadIdle]\<rparr>
      else b\<lparr>mb_threads := (mb_threads b)[i := ThreadRuns item], mb_started := mb_started b @ [gw_response_tx item]\<rparr>)"

text \<open>Its second half: the result is sent, unless the caller is gone.\<close>

definition bridge_reply :: "nat \<Rightarrow> 'h GilWorkItem \<Rightarrow> 'h main_result \<Rightarrow> 'h MainInterpBridge \<Rightarrow> 'h MainInterpBridge" where
  "bridge_reply i item result b =
     (let c = gw_response_tx item
      in b\<lparr>mb_threads := (mb_threads b)[i := ThreadIdle],
           mb_callers := (if bc_is_closed b c then mb_callers b
                          else (mb_callers b)[c := (mb_callers b ! c)\<lparr>bc_end := CallerGot result\<rparr>])\<rparr>)"

text \<open>The end of \<open>serve\<close>: \<open>recv\<close> fails once the sender is gone and the queue is empty.\<close>

definition bridge_end :: "nat \<Rightarrow> 'h MainInterpBridge \<Rightarrow> 'h MainInterpBridge" where
  "bridge_end i b = b\<lparr>mb_threads := (mb_threads b)[i := ThreadEnded]\<rparr>"

text \<open>
  \<open>shutdown_join\<close>: the last owner drops the sender and waits; while there are others it is only logged, with their number.
\<close>

datatype ShutdownJoin = JoinsAll | StillShared nat

definition shutdown_join :: "'h MainInterpBridge \<Rightarrow> ShutdownJoin \<times> 'h MainInterpBridge" where
  "shutdown_join b =
     (if mb_owners b = 1 then (JoinsAll, b\<lparr>mb_owners := 0\<rparr>) else (StillShared (mb_owners b - 1), b\<lparr>mb_owners := mb_owners b - 1\<rparr>))"

subsection \<open>Steps\<close>

inductive bridge_step :: "(Target \<Rightarrow> 'h PyronovaRequest \<Rightarrow> 'h main_result \<Rightarrow> bool) \<Rightarrow> 'h MainInterpBridge \<Rightarrow> 'h MainInterpBridge \<Rightarrow> bool"
  for answers where
  Dispatch: "0 < mb_owners b \<Longrightarrow> try_dispatch target request b = (Ok (), b') \<Longrightarrow> bridge_step answers b b'"
| GiveUp: "c < length (mb_callers b) \<Longrightarrow> bc_end (mb_callers b ! c) = CallerWaiting \<Longrightarrow>
    bridge_step answers b (b\<lparr>mb_callers := (mb_callers b)[c := (mb_callers b ! c)\<lparr>bc_end := CallerLeft\<rparr>]\<rparr>)"
| Recv: "i < length (mb_threads b) \<Longrightarrow> mb_threads b ! i = ThreadIdle \<Longrightarrow> mb_queue b \<noteq> [] \<Longrightarrow> bridge_step answers b (bridge_recv i b)"
| Start: "i < length (mb_threads b) \<Longrightarrow> mb_threads b ! i = ThreadHas item \<Longrightarrow> bridge_step answers b (bridge_start i item b)"
| Reply: "i < length (mb_threads b) \<Longrightarrow> mb_threads b ! i = ThreadRuns item \<Longrightarrow> answers (gw_target item) (gw_request item) result \<Longrightarrow>
    bridge_step answers b (bridge_reply i item result b)"
| End: "i < length (mb_threads b) \<Longrightarrow> mb_threads b ! i = ThreadIdle \<Longrightarrow> mb_queue b = [] \<Longrightarrow> mb_owners b = 0 \<Longrightarrow>
    bridge_step answers b (bridge_end i b)"
| CloneRef: "0 < mb_owners b \<Longrightarrow> bridge_step answers b (b\<lparr>mb_owners := Suc (mb_owners b)\<rparr>)"
| DropRef: "0 < mb_owners b \<Longrightarrow> bridge_step answers b (b\<lparr>mb_owners := mb_owners b - 1\<rparr>)"

definition bridge_reachable ::
    "(Target \<Rightarrow> 'h PyronovaRequest \<Rightarrow> 'h main_result \<Rightarrow> bool) \<Rightarrow> BridgeConfig \<Rightarrow> 'h MainInterpBridge \<Rightarrow> bool" where
  "bridge_reachable answers config b \<longleftrightarrow>
     (\<exists>spawn b0. bridge_spawn spawn config = (Ok b0, 0) \<and> (bridge_step answers)\<^sup>*\<^sup>* b0 b)"

subsection \<open>Nothing is lost, doubled or mixed up\<close>

fun thread_item :: "'h bridge_thread \<Rightarrow> 'h GilWorkItem list" where
  "thread_item (ThreadHas item) = [item]"
| "thread_item (ThreadRuns item) = [item]"
| "thread_item _ = []"

definition in_flight :: "'h MainInterpBridge \<Rightarrow> 'h GilWorkItem list" where
  "in_flight b = concat (map thread_item (mb_threads b)) @ mb_queue b"

definition item_ok :: "'h bridge_caller list \<Rightarrow> 'h GilWorkItem \<Rightarrow> bool" where
  "item_ok cs item \<longleftrightarrow>
     gw_response_tx item < length cs \<and> gw_target item = bc_target (cs ! gw_response_tx item) \<and>
     gw_request item = bc_request (cs ! gw_response_tx item) \<and>
     (\<forall>r. bc_end (cs ! gw_response_tx item) \<noteq> CallerGot r)"

definition caller_ok :: "(Target \<Rightarrow> 'h PyronovaRequest \<Rightarrow> 'h main_result \<Rightarrow> bool) \<Rightarrow> 'h bridge_caller \<Rightarrow> bool" where
  "caller_ok answers c \<longleftrightarrow> (\<forall>r. bc_end c = CallerGot r \<longrightarrow> answers (bc_target c) (bc_request c) r)"

definition flight_ok :: "'h bridge_caller list \<Rightarrow> 'h GilWorkItem list \<Rightarrow> bool" where
  "flight_ok cs fl \<longleftrightarrow>
     distinct (map gw_response_tx fl) \<and> list_all (item_ok cs) fl \<and>
     (\<forall>c < length cs. bc_end (cs ! c) = CallerWaiting \<longrightarrow> c \<in> gw_response_tx ` set fl)"

definition bridge_inv :: "(Target \<Rightarrow> 'h PyronovaRequest \<Rightarrow> 'h main_result \<Rightarrow> bool) \<Rightarrow> 'h MainInterpBridge \<Rightarrow> bool" where
  "bridge_inv answers b \<longleftrightarrow>
     length (mb_queue b) \<le> mb_capacity b \<and>
     flight_ok (mb_callers b) (in_flight b) \<and> list_all (caller_ok answers) (mb_callers b) \<and>
     list_all (\<lambda>c. c < length (mb_callers b)) (mb_taken b) \<and>
     sorted_wrt (<) (mb_taken b @ map gw_response_tx (mb_queue b)) \<and>
     (ThreadEnded \<in> set (mb_threads b) \<longrightarrow> mb_owners b = 0 \<and> mb_queue b = [])"

text \<open>What a thread holds, when another takes its place.\<close>

lemma concat_update:
  "i < length ts \<Longrightarrow> mset (concat (map thread_item (ts[i := t]))) + mset (thread_item (ts ! i)) =
     mset (concat (map thread_item ts)) + mset (thread_item t)"
proof (induction ts arbitrary: i)
  case (Cons x ts)
  then show ?case by (cases i) (auto simp: ac_simps)
qed simp

lemma in_flight_replaced:
  assumes "i < length (mb_threads b)"
  shows "mset (in_flight (b\<lparr>mb_threads := (mb_threads b)[i := t]\<rparr>)) + mset (thread_item (mb_threads b ! i)) =
     mset (in_flight b) + mset (thread_item t)"
  using concat_update [OF assms, of t] by (simp add: in_flight_def ac_simps)

lemma flight_perm:
  assumes "mset fl' = mset fl" and "flight_ok cs fl"
  shows "flight_ok cs fl'"
proof -
  have "set fl' = set fl" using mset_eq_setD [OF assms(1)] .
  moreover have "distinct (map gw_response_tx fl') = distinct (map gw_response_tx fl)"
    by (rule mset_eq_imp_distinct_iff) (simp add: assms(1))
  ultimately show ?thesis using assms(2) by (simp add: flight_ok_def list_all_iff)
qed

text \<open>One item leaves: its caller has gone, or is answered.\<close>

lemma flight_without:
  assumes "mset fl = add_mset item (mset fl')" and "flight_ok cs fl"
  shows "distinct (map gw_response_tx fl')" "list_all (item_ok cs) fl'" "item_ok cs item"
    "gw_response_tx item \<notin> gw_response_tx ` set fl'" "set fl = insert item (set fl')"
proof -
  have fl: "flight_ok cs (item # fl')" by (rule flight_perm [OF _ assms(2)]) (simp add: assms(1))
  then show "distinct (map gw_response_tx fl')" "list_all (item_ok cs) fl'" "item_ok cs item"
    "gw_response_tx item \<notin> gw_response_tx ` set fl'" by (auto simp: flight_ok_def)
  show "set fl = insert item (set fl')" using arg_cong [OF assms(1), of set_mset] by simp
qed

lemma flight_dropped:
  assumes "mset fl = add_mset item (mset fl')" and "flight_ok cs fl" and "bc_end (cs ! gw_response_tx item) \<noteq> CallerWaiting"
  shows "flight_ok cs fl'"
  using flight_without [OF assms(1,2)] assms(2,3) by (auto simp: flight_ok_def)

lemma item_ok_other:
  "item_ok cs item \<Longrightarrow> gw_response_tx item \<noteq> c \<Longrightarrow> item_ok (cs[c := x]) item"
  by (simp add: item_ok_def)

lemma flight_answered:
  assumes "mset fl = add_mset item (mset fl')" and "flight_ok cs fl"
  shows "flight_ok (cs[gw_response_tx item := (cs ! gw_response_tx item)\<lparr>bc_end := CallerGot r\<rparr>]) fl'"
  using flight_without [OF assms] assms(2)
  by (auto simp: flight_ok_def list_all_iff nth_list_update image_iff item_ok_def [of _ item] intro!: item_ok_other split: if_splits)

lemma item_ok_left: "item_ok cs item \<Longrightarrow> item_ok (cs[c := (cs ! c)\<lparr>bc_end := CallerLeft\<rparr>]) item"
  by (cases "c = gw_response_tx item") (auto simp: item_ok_def)

lemma still_waiting:
  "bc_end x \<noteq> CallerWaiting \<Longrightarrow> i < length cs \<Longrightarrow> bc_end (cs[c := x] ! i) = CallerWaiting \<Longrightarrow> c \<noteq> i \<and> bc_end (cs ! i) = CallerWaiting"
  by (cases "c = i") auto

lemma flight_left:
  "flight_ok cs fl \<Longrightarrow> flight_ok (cs[c := (cs ! c)\<lparr>bc_end := CallerLeft\<rparr>]) fl"
  unfolding flight_ok_def list_all_iff by (auto simp: item_ok_left dest: still_waiting [rotated 2])

lemma flight_new:
  assumes "flight_ok cs fl"
  shows "flight_ok (cs @ [\<lparr>bc_target = t, bc_request = r, bc_end = CallerWaiting\<rparr>])
     (fl @ [\<lparr>gw_target = t, gw_request = r, gw_response_tx = length cs\<rparr>])"
  using assms by (auto simp: flight_ok_def list_all_iff item_ok_def nth_append less_Suc_eq)

subsection \<open>Every step keeps the invariant\<close>

lemma dispatch_inv:
  assumes "bridge_inv answers b" and "0 < mb_owners b" and "try_dispatch target request b = (Ok (), b')"
  shows "bridge_inv answers b'"
proof -
  let ?c = "length (mb_callers b)"
  have b': "length (mb_queue b) < mb_capacity b"
    "b' = b\<lparr>mb_queue := mb_queue b @ [\<lparr>gw_target = target, gw_request = request, gw_response_tx = ?c\<rparr>],
            mb_callers := mb_callers b @ [\<lparr>bc_target = target, bc_request = request, bc_end = CallerWaiting\<rparr>]\<rparr>"
    using assms(3) by (auto simp: try_dispatch_def split: if_splits)
  have "x < ?c" if "x \<in> set (mb_taken b @ map gw_response_tx (mb_queue b))" for x
    using assms(1) that by (auto simp: bridge_inv_def flight_ok_def in_flight_def list_all_iff item_ok_def)
  then show ?thesis
    using assms(1,2) b' flight_new [of "mb_callers b" "in_flight b" target request]
    by (auto simp: bridge_inv_def in_flight_def caller_ok_def sorted_wrt_append list_all_iff less_SucI)
qed

lemma caller_changed_inv:
  "list_all (caller_ok answers) cs \<Longrightarrow> caller_ok answers x \<Longrightarrow> list_all (caller_ok answers) (cs[c := x])"
  by (rule list_all_update)

lemma give_up_inv:
  assumes "bridge_inv answers b" and "bc_end (mb_callers b ! c) = CallerWaiting"
  shows "bridge_inv answers (b\<lparr>mb_callers := (mb_callers b)[c := (mb_callers b ! c)\<lparr>bc_end := CallerLeft\<rparr>]\<rparr>)"
  using assms flight_left [of "mb_callers b" "in_flight b" c]
  by (auto simp: bridge_inv_def in_flight_def caller_ok_def intro!: list_all_update)

lemma set_threads: "ThreadEnded \<in> set (ts[i := t]) \<Longrightarrow> t \<noteq> ThreadEnded \<Longrightarrow> ThreadEnded \<in> set ts"
  using set_update_subset_insert [of ts i t] by auto

lemma recv_inv:
  assumes "bridge_inv answers b" and "i < length (mb_threads b)" and "mb_threads b ! i = ThreadIdle"
  shows "bridge_inv answers (bridge_recv i b)"
proof (cases "mb_queue b")
  case Nil
  with assms(1) show ?thesis by (simp add: bridge_recv_def)
next
  case (Cons item queue)
  have ended: "ThreadEnded \<notin> set (mb_threads b)" using assms(1) Cons by (auto simp: bridge_inv_def)
  let ?b = "b\<lparr>mb_queue := queue, mb_threads := (mb_threads b)[i := ThreadHas item], mb_taken := mb_taken b @ [gw_response_tx item]\<rparr>"
  have "mset (in_flight ?b) = mset (in_flight b)"
    using in_flight_replaced [OF assms(2), of "ThreadHas item"] assms(3) Cons by (simp add: in_flight_def)
  then have "flight_ok (mb_callers b) (in_flight ?b)"
    by (rule flight_perm) (use assms(1) in \<open>simp add: bridge_inv_def\<close>)
  moreover have "gw_response_tx item < length (mb_callers b)"
    using assms(1) Cons by (auto simp: bridge_inv_def flight_ok_def in_flight_def item_ok_def list_all_iff)
  ultimately show ?thesis using Cons assms(1) ended
    by (auto simp: bridge_inv_def bridge_recv_def sorted_wrt_append dest: set_threads)
qed

lemma start_inv:
  assumes "bridge_inv answers b" and "i < length (mb_threads b)" and "mb_threads b ! i = ThreadHas item"
  shows "bridge_inv answers (bridge_start i item b)"
proof (cases "bc_is_closed b (gw_response_tx item)")
  case True
  let ?b = "b\<lparr>mb_threads := (mb_threads b)[i := ThreadIdle]\<rparr>"
  have "mset (in_flight b) = add_mset item (mset (in_flight ?b))"
    using in_flight_replaced [OF assms(2), of ThreadIdle] assms(3) by simp
  then have "flight_ok (mb_callers b) (in_flight ?b)"
    by (rule flight_dropped) (use assms(1) True in \<open>auto simp: bc_is_closed_def bridge_inv_def\<close>)
  with True assms(1) show ?thesis by (auto simp: bridge_inv_def bridge_start_def dest: set_threads)
next
  case False
  let ?b = "b\<lparr>mb_threads := (mb_threads b)[i := ThreadRuns item], mb_started := mb_started b @ [gw_response_tx item]\<rparr>"
  have "mset (in_flight ?b) = mset (in_flight b)"
    using in_flight_replaced [OF assms(2), of "ThreadRuns item"] assms(3) by (simp add: in_flight_def)
  then have "flight_ok (mb_callers b) (in_flight ?b)"
    by (rule flight_perm) (use assms(1) in \<open>simp add: bridge_inv_def\<close>)
  with False assms(1) show ?thesis by (auto simp: bridge_inv_def bridge_start_def dest: set_threads)
qed

lemma reply_inv:
  assumes "bridge_inv answers b" and "i < length (mb_threads b)" and "mb_threads b ! i = ThreadRuns item"
    and "answers (gw_target item) (gw_request item) result"
  shows "bridge_inv answers (bridge_reply i item result b)"
proof -
  let ?c = "gw_response_tx item"
  let ?b = "b\<lparr>mb_threads := (mb_threads b)[i := ThreadIdle]\<rparr>"
  have m: "mset (in_flight b) = add_mset item (mset (in_flight ?b))"
    using in_flight_replaced [OF assms(2), of ThreadIdle] assms(3) by simp
  have fl: "flight_ok (mb_callers b) (in_flight b)" using assms(1) by (simp add: bridge_inv_def)
  note out = flight_without [OF m fl]
  let ?cs = "if bc_is_closed b ?c then mb_callers b else (mb_callers b)[?c := (mb_callers b ! ?c)\<lparr>bc_end := CallerGot result\<rparr>]"
  have "flight_ok ?cs (in_flight ?b)"
    using flight_dropped [OF m fl] flight_answered [OF m fl, of result] by (auto simp: bc_is_closed_def)
  moreover have "list_all (caller_ok answers) ?cs"
    using assms(1,4) out(3) by (auto simp: bridge_inv_def caller_ok_def item_ok_def intro!: list_all_update)
  moreover have "in_flight (bridge_reply i item result b) = in_flight ?b" by (simp add: in_flight_def bridge_reply_def Let_def)
  ultimately show ?thesis
    using assms(1) by (auto simp: bridge_inv_def bridge_reply_def Let_def dest: set_threads)
qed

lemma end_inv:
  assumes "bridge_inv answers b" and "i < length (mb_threads b)" and "mb_threads b ! i = ThreadIdle"
    and "mb_queue b = []" and "mb_owners b = 0"
  shows "bridge_inv answers (bridge_end i b)"
proof -
  have "flight_ok (mb_callers b) (in_flight (bridge_end i b))"
    by (rule flight_perm [of _ "in_flight b"])
       (use assms in_flight_replaced [OF assms(2), of ThreadEnded] in \<open>auto simp: bridge_end_def bridge_inv_def\<close>)
  with assms show ?thesis by (simp add: bridge_inv_def bridge_end_def)
qed

lemma bridge_step_inv:
  assumes "bridge_step answers b b'" and "bridge_inv answers b"
  shows "bridge_inv answers b'"
  using assms(1)
proof cases
  case (CloneRef)
  with assms(2) show ?thesis by (auto simp: bridge_inv_def in_flight_def)
next
  case (DropRef)
  with assms(2) show ?thesis by (auto simp: bridge_inv_def in_flight_def)
next
  case (Dispatch target request)
  then show ?thesis using dispatch_inv [OF assms(2)] by simp
next
  case (GiveUp c)
  then show ?thesis using give_up_inv [OF assms(2)] by simp
next
  case (Recv i)
  then show ?thesis using recv_inv [OF assms(2)] by simp
next
  case (Start i item)
  then show ?thesis using start_inv [OF assms(2)] by simp
next
  case (Reply i item result)
  then show ?thesis using reply_inv [OF assms(2)] by simp
next
  case (End i)
  then show ?thesis using end_inv [OF assms(2)] by simp
qed

text \<open>
  The handlers that started: each at most once, of an item that was received, and every reply is of one of them.
\<close>

definition answered_in :: "nat set \<Rightarrow> 'h bridge_caller list \<Rightarrow> bool" where
  "answered_in S cs \<longleftrightarrow> (\<forall>c < length cs. \<forall>r. bc_end (cs ! c) = CallerGot r \<longrightarrow> c \<in> S)"

definition starts_inv :: "'h MainInterpBridge \<Rightarrow> bool" where
  "starts_inv b \<longleftrightarrow>
     distinct (mb_started b) \<and> set (mb_started b) \<subseteq> set (mb_taken b) \<and>
     (\<forall>item. ThreadHas item \<in> set (mb_threads b) \<longrightarrow> gw_response_tx item \<in> set (mb_taken b) - set (mb_started b)) \<and>
     (\<forall>item. ThreadRuns item \<in> set (mb_threads b) \<longrightarrow> gw_response_tx item \<in> set (mb_started b)) \<and>
     answered_in (set (mb_started b)) (mb_callers b)"

lemma held_apart:
  assumes "distinct (map f (concat (map thread_item ts)))" and "ThreadHas a \<in> set ts" and "ThreadRuns c \<in> set ts"
  shows "f a \<noteq> f c"
  using assms
proof (induction ts)
  case (Cons t ts)
  have held: "f x \<in> f ` set (concat (map thread_item ts))" if "ThreadHas x \<in> set ts \<or> ThreadRuns x \<in> set ts" for x
    using that by (force intro!: imageI)
  from Cons.prems(1) have "distinct (map f (concat (map thread_item ts)))" by (cases t) auto
  note IH = Cons.IH [OF this]
  show ?case
  proof (cases "ThreadHas a \<in> set ts \<and> ThreadRuns c \<in> set ts")
    case True
    with IH show ?thesis by blast
  next
    case False
    with Cons.prems held [of a] held [of c] show ?thesis by (cases t) auto
  qed
qed simp

lemma updated_thread: "x \<in> set (ts[i := t]) \<Longrightarrow> x = t \<or> x \<in> set ts"
  using set_update_subset_insert [of ts i t] by auto

lemma answered_update:
  assumes "answered_in S cs" and "(\<exists>r. bc_end x = CallerGot r) \<Longrightarrow> k \<in> S"
  shows "answered_in S (cs[k := x])"
  unfolding answered_in_def
proof (intro allI impI)
  fix c r
  assume "c < length (cs[k := x])" "bc_end (cs[k := x] ! c) = CallerGot r"
  with assms show "c \<in> S" by (cases "c = k") (auto simp: answered_in_def)
qed

lemma answered_new: "answered_in S cs \<Longrightarrow> \<forall>r. bc_end x \<noteq> CallerGot r \<Longrightarrow> answered_in S (cs @ [x])"
  by (auto simp: answered_in_def nth_append)

lemma answered_mono: "answered_in S cs \<Longrightarrow> S \<subseteq> S' \<Longrightarrow> answered_in S' cs"
  by (auto simp: answered_in_def)

lemma recv_starts:
  assumes "starts_inv b" and "bridge_inv answers b"
  shows "starts_inv (bridge_recv i b)"
proof (cases "mb_queue b")
  case (Cons item queue)
  then have "gw_response_tx item \<notin> set (mb_taken b)"
    using assms(2) by (auto simp: bridge_inv_def sorted_wrt_append)
  with Cons assms(1) show ?thesis
    by (auto simp: starts_inv_def bridge_recv_def dest!: updated_thread)
qed (use assms in \<open>simp add: bridge_recv_def\<close>)

lemma start_starts:
  assumes "starts_inv b" and inv: "bridge_inv answers b" and i: "i < length (mb_threads b)" "mb_threads b ! i = ThreadHas item"
  shows "starts_inv (bridge_start i item b)"
proof (cases "bc_is_closed b (gw_response_tx item)")
  case True
  with assms(1) show ?thesis by (auto simp: starts_inv_def bridge_start_def dest!: updated_thread)
next
  case False
  let ?ts = "(mb_threads b)[i := ThreadRuns item]"
  have item: "gw_response_tx item \<in> set (mb_taken b) - set (mb_started b)" using assms(1) i by (metis nth_mem starts_inv_def)
  have "bridge_inv answers (bridge_start i item b)" by (rule start_inv [OF inv i])
  with False have "distinct (map gw_response_tx (concat (map thread_item ?ts)))"
    by (simp add: bridge_inv_def flight_ok_def in_flight_def bridge_start_def)
  then have "gw_response_tx it \<noteq> gw_response_tx item" if "ThreadHas it \<in> set ?ts" for it
    using held_apart [OF _ that] i(1) by (metis set_update_memI)
  with False item assms(1) show ?thesis
    by (auto simp: starts_inv_def bridge_start_def intro: answered_mono dest: updated_thread)
qed

lemma reply_starts:
  assumes "starts_inv b" and "i < length (mb_threads b)" and "mb_threads b ! i = ThreadRuns item"
  shows "starts_inv (bridge_reply i item result b)"
proof -
  have "gw_response_tx item \<in> set (mb_started b)" using assms by (metis nth_mem starts_inv_def)
  with assms(1) show ?thesis
    by (auto simp: starts_inv_def bridge_reply_def Let_def intro!: answered_update dest!: updated_thread)
qed

lemma bridge_step_starts:
  assumes "bridge_step answers b b'" and "bridge_inv answers b" and "starts_inv b"
  shows "starts_inv b'"
  using assms(1)
proof cases
  case (Dispatch target request)
  with assms(3) show ?thesis by (auto simp: starts_inv_def try_dispatch_def intro!: answered_new split: if_splits)
next
  case (GiveUp c)
  with assms(3) show ?thesis by (auto simp: starts_inv_def intro!: answered_update)
next
  case (End i)
  with assms(3) show ?thesis by (auto simp: starts_inv_def bridge_end_def dest!: updated_thread)
next
  case CloneRef
  with assms(3) show ?thesis by (simp add: starts_inv_def)
next
  case DropRef
  with assms(3) show ?thesis by (simp add: starts_inv_def)
next
  case (Recv i)
  then show ?thesis using recv_starts [OF assms(3,2)] by simp
next
  case (Start i item)
  then show ?thesis using start_starts [OF assms(3,2)] by simp
next
  case (Reply i item result)
  then show ?thesis using reply_starts [OF assms(3)] by simp
qed

lemma spawned_inv: "bridge_spawn spawn config = (Ok b, n) \<Longrightarrow> bridge_inv answers b"
  by (auto simp: bridge_spawn_def bridge_inv_def flight_ok_def in_flight_def split: sum.splits)

lemma spawned_starts: "bridge_spawn spawn config = (Ok b, n) \<Longrightarrow> starts_inv b"
  by (auto simp: bridge_spawn_def starts_inv_def answered_in_def split: sum.splits)

lemma bridge_reachable_invs: "bridge_reachable answers config b \<Longrightarrow> bridge_inv answers b \<and> starts_inv b"
proof -
  assume "bridge_reachable answers config b"
  then obtain spawn b0 where "bridge_spawn spawn config = (Ok b0, 0)" "(bridge_step answers)\<^sup>*\<^sup>* b0 b"
    by (auto simp: bridge_reachable_def)
  from this(2) spawned_inv [OF this(1)] spawned_starts [OF this(1)] show ?thesis
    by (induction rule: rtranclp_induct) (auto intro: bridge_step_inv bridge_step_starts)
qed

lemmas bridge_reachable_inv = bridge_reachable_invs [THEN conjunct1]

lemma filter_once:
  assumes "distinct (map f xs)"
  shows "filter (\<lambda>x. f x = c) xs = [] \<or> (\<exists>x. filter (\<lambda>x. f x = c) xs = [x] \<and> x \<in> set xs \<and> f x = c)"
  using assms
proof (induction xs)
  case (Cons y ys)
  then have "f y = c \<Longrightarrow> filter (\<lambda>x. f x = c) ys = []" by (auto simp: filter_empty_conv simp del: Cons) (metis imageI)
  with Cons show ?case by auto
qed simp

text \<open>
  C24. Under every interleaving of callers, bridge threads and the bridge's owners (\<open>try_dispatch\<close>, \<open>serve\<close>, \<open>dispatch_one\<close>) the queue
  stays within its capacity; a caller that waits has its request in the bridge exactly once, queued, received or running,
  with the target and request it dispatched; one that was answered has a reply its own handler made for its own request,
  and is not in the bridge any more. The bridge threads receive the requests in the order these were accepted; each handler is started at most once, of
  a request that was received, and every reply is of a handler that was started. (Two threads that have received their requests race for the
  interpreter, so handlers may start in another order.)
\<close>

theorem bridge_loses_nothing:
  assumes "bridge_reachable answers config b"
  shows "length (mb_queue b) \<le> mb_capacity b \<and> sorted_wrt (<) (mb_taken b) \<and>
     distinct (mb_started b) \<and> set (mb_started b) \<subseteq> set (mb_taken b) \<and>
     (\<forall>c < length (mb_callers b).
        (case bc_end (mb_callers b ! c) of
           CallerWaiting \<Rightarrow> \<exists>item. filter (\<lambda>it. gw_response_tx it = c) (in_flight b) = [item] \<and>
             gw_target item = bc_target (mb_callers b ! c) \<and> gw_request item = bc_request (mb_callers b ! c)
         | CallerGot r \<Rightarrow> answers (bc_target (mb_callers b ! c)) (bc_request (mb_callers b ! c)) r \<and> c \<in> set (mb_started b) \<and>
             filter (\<lambda>it. gw_response_tx it = c) (in_flight b) = []
         | CallerLeft \<Rightarrow> length (filter (\<lambda>it. gw_response_tx it = c) (in_flight b)) \<le> 1))"
proof -
  have inv: "bridge_inv answers b" and starts: "starts_inv b" using bridge_reachable_invs [OF assms] by auto
  from inv have fl: "distinct (map gw_response_tx (in_flight b))" "list_all (item_ok (mb_callers b)) (in_flight b)"
    and waiting: "\<And>c. c < length (mb_callers b) \<Longrightarrow> bc_end (mb_callers b ! c) = CallerWaiting \<Longrightarrow> c \<in> gw_response_tx ` set (in_flight b)"
    by (auto simp: bridge_inv_def flight_ok_def)
  have once: "filter (\<lambda>it. gw_response_tx it = c) (in_flight b) = [] \<or>
      (\<exists>item. filter (\<lambda>it. gw_response_tx it = c) (in_flight b) = [item] \<and> item \<in> set (in_flight b) \<and> gw_response_tx item = c)" for c
    using fl(1) by (rule filter_once)
  have "case bc_end (mb_callers b ! c) of
           CallerWaiting \<Rightarrow> \<exists>item. filter (\<lambda>it. gw_response_tx it = c) (in_flight b) = [item] \<and>
             gw_target item = bc_target (mb_callers b ! c) \<and> gw_request item = bc_request (mb_callers b ! c)
         | CallerGot r \<Rightarrow> answers (bc_target (mb_callers b ! c)) (bc_request (mb_callers b ! c)) r \<and> c \<in> set (mb_started b) \<and>
             filter (\<lambda>it. gw_response_tx it = c) (in_flight b) = []
         | CallerLeft \<Rightarrow> length (filter (\<lambda>it. gw_response_tx it = c) (in_flight b)) \<le> 1"
    if "c < length (mb_callers b)" for c
    using once [of c] fl(2) waiting [OF that] inv starts that
    by (auto simp: starts_inv_def answered_in_def list_all_iff item_ok_def bridge_inv_def caller_ok_def filter_empty_conv split: caller_end.splits)
  with inv starts show ?thesis by (auto simp: bridge_inv_def starts_inv_def sorted_wrt_append)
qed

subsection \<open>A bridge without owners drains\<close>

fun thread_work :: "'h bridge_thread \<Rightarrow> nat" where
  "thread_work ThreadEnded = 0"
| "thread_work ThreadIdle = 1"
| "thread_work (ThreadRuns _) = 2"
| "thread_work (ThreadHas _) = 3"

definition waiting_callers :: "'h bridge_caller list \<Rightarrow> nat" where
  "waiting_callers cs = length (filter (\<lambda>c. bc_end c = CallerWaiting) cs)"

definition bridge_work :: "'h MainInterpBridge \<Rightarrow> nat" where
  "bridge_work b = 3 * length (mb_queue b) + sum_list (map thread_work (mb_threads b)) + waiting_callers (mb_callers b)"

lemma thread_work_update:
  "i < length ts \<Longrightarrow> sum_list (map thread_work (ts[i := t])) + thread_work (ts ! i) = sum_list (map thread_work ts) + thread_work t"
  by (rule sum_list_update_nat)

lemma waiting_callers_update:
  "bc_end x \<noteq> CallerWaiting \<Longrightarrow> c < length cs \<Longrightarrow>
   waiting_callers (cs[c := x]) + (if bc_end (cs ! c) = CallerWaiting then 1 else 0) = waiting_callers cs"
  unfolding waiting_callers_def
proof (induction cs arbitrary: c)
  case (Cons y cs)
  then show ?case by (cases c) auto
qed simp

lemma ownerless_step_work:
  assumes "bridge_step answers b b'" and "mb_owners b = 0" and "bridge_inv answers b"
  shows "bridge_work b' < bridge_work b \<and> mb_owners b' = 0"
  using assms(1)
proof cases
  case (GiveUp c)
  then show ?thesis using waiting_callers_update [of "(mb_callers b ! c)\<lparr>bc_end := CallerLeft\<rparr>" c "mb_callers b"] assms(2)
    by (simp add: bridge_work_def)
next
  case (Recv i)
  then obtain item queue where "mb_queue b = item # queue" by (cases "mb_queue b") auto
  with Recv thread_work_update [OF Recv(2), of "ThreadHas item"] assms(2) show ?thesis
    by (auto simp: bridge_work_def bridge_recv_def)
next
  case (Start i item)
  with thread_work_update [OF Start(2), of "ThreadRuns item"] thread_work_update [OF Start(2), of ThreadIdle] assms(2) show ?thesis
    by (auto simp: bridge_work_def bridge_start_def)
next
  case (Reply i item result)
  let ?x = "(mb_callers b ! gw_response_tx item)\<lparr>bc_end := CallerGot result\<rparr>"
  have "item \<in> set (in_flight b)" using Reply by (force simp: in_flight_def in_set_conv_nth)
  then have "gw_response_tx item < length (mb_callers b)"
    using assms(3) by (auto simp: bridge_inv_def flight_ok_def list_all_iff item_ok_def)
  with waiting_callers_update [of ?x "gw_response_tx item" "mb_callers b"] thread_work_update [OF Reply(2), of ThreadIdle] Reply assms(2)
  show ?thesis by (auto simp: bridge_work_def bridge_reply_def Let_def bc_is_closed_def)
next
  case (End i)
  with thread_work_update [OF End(2), of ThreadEnded] assms(2) show ?thesis by (simp add: bridge_work_def bridge_end_def)
qed (use assms(2) in auto)

definition bridge_drained :: "'h MainInterpBridge \<Rightarrow> bool" where
  "bridge_drained b \<longleftrightarrow>
     list_all (\<lambda>t. t = ThreadEnded) (mb_threads b) \<and> mb_queue b = [] \<and> list_all (\<lambda>c. bc_end c \<noteq> CallerWaiting) (mb_callers b)"

lemma stuck_bridge_drained:
  assumes stuck: "\<And>b'. \<not> bridge_step answers b b'" and "mb_owners b = 0" and inv: "bridge_inv answers b"
    and total: "\<And>t rq. \<exists>r. answers t rq r" and "mb_threads b \<noteq> []"
  shows "bridge_drained b"
proof -
  have ended: "t = ThreadEnded" if t: "t \<in> set (mb_threads b)" for t
  proof (cases t)
    case ThreadIdle
    with t obtain i where "i < length (mb_threads b)" "mb_threads b ! i = ThreadIdle" by (auto simp: in_set_conv_nth)
    with stuck Recv [of i b answers] End [of i b answers] assms(2) show ?thesis by blast
  next
    case (ThreadHas item)
    with t obtain i where "i < length (mb_threads b)" "mb_threads b ! i = ThreadHas item" by (auto simp: in_set_conv_nth)
    with stuck Start [of i b item answers] show ?thesis by blast
  next
    case (ThreadRuns item)
    with t obtain i where "i < length (mb_threads b)" "mb_threads b ! i = ThreadRuns item" by (auto simp: in_set_conv_nth)
    with stuck Reply [of i b item answers] total show ?thesis by blast
  qed
  then have "mb_queue b = []" using assms(5) inv by (cases "mb_threads b") (auto simp: bridge_inv_def)
  moreover have "concat (map thread_item (mb_threads b)) = []" using ended by auto (metis thread_item.simps(4))
  ultimately have "in_flight b = []" by (simp add: in_flight_def)
  with inv have "list_all (\<lambda>c. bc_end c \<noteq> CallerWaiting) (mb_callers b)"
    by (auto simp: bridge_inv_def flight_ok_def list_all_length)
  with ended \<open>mb_queue b = []\<close> show ?thesis by (auto simp: bridge_drained_def list_all_iff)
qed

lemma threads_kept: "bridge_step answers b b' \<Longrightarrow> length (mb_threads b') = length (mb_threads b)"
  by (induction rule: bridge_step.induct)
     (auto simp: try_dispatch_def bridge_recv_def bridge_start_def bridge_reply_def bridge_end_def Let_def split: if_splits list.splits)

lemma threads_spawned: "spawn_bridge_threads spawn i n = Ok m \<Longrightarrow> m = i + n"
  by (induction spawn i n rule: spawn_bridge_threads.induct) (auto split: sum.splits)

lemma reachable_threads: "bridge_reachable answers config b \<Longrightarrow> length (mb_threads b) = br_workers config"
proof -
  assume "bridge_reachable answers config b"
  then obtain spawn b0 where "bridge_spawn spawn config = (Ok b0, 0)" "(bridge_step answers)\<^sup>*\<^sup>* b0 b"
    by (auto simp: bridge_reachable_def)
  moreover from this(1) have "length (mb_threads b0) = br_workers config"
    by (auto simp: bridge_spawn_def dest: threads_spawned split: sum.splits)
  ultimately show ?thesis by (induction rule: rtranclp_induct [OF \<open>(bridge_step answers)\<^sup>*\<^sup>* b0 b\<close>]) (auto simp: threads_kept)
qed

lemma ownerless_reaches:
  assumes "(bridge_step answers)\<^sup>*\<^sup>* b q" and "mb_owners b = 0" and "bridge_inv answers b"
  shows "mb_owners q = 0 \<and> bridge_inv answers q \<and> length (mb_threads q) = length (mb_threads b)"
  using assms(1)
  by (induction rule: rtranclp_induct) (use assms ownerless_step_work bridge_step_inv threads_kept in metis)+

text \<open>
  C25. Once the last owner of the bridge is gone (\<open>join_all\<close>, \<open>serve\<close>), it comes to an end: no run of it is infinite, and
  where a run stops every bridge thread has ended, nothing is queued and no caller waits: what was
  accepted was answered or given up, so joining the threads returns and abandons nobody.
\<close>

theorem ownerless_bridge_drains:
  assumes "bridge_reachable answers config b" and "mb_owners b = 0" and "0 < br_workers config"
    and "\<And>target request. \<exists>r. answers target request r"
  shows "(\<nexists>run. run 0 = b \<and> (\<forall>i. bridge_step answers (run i) (run (Suc i)))) \<and>
     (\<forall>q. (bridge_step answers)\<^sup>*\<^sup>* b q \<longrightarrow> (\<forall>q'. \<not> bridge_step answers q q') \<longrightarrow> bridge_drained q)"
proof -
  have inv: "bridge_inv answers b" by (rule bridge_reachable_inv [OF assms(1)])
  have "False" if run: "run 0 = b" "\<And>i. bridge_step answers (run i) (run (Suc i))" for run
  proof -
    have "(bridge_step answers)\<^sup>*\<^sup>* b (run i)" for i
      by (induction i) (use run in \<open>auto intro: rtranclp.rtrancl_into_rtrancl\<close>)
    then have "bridge_work (run (Suc i)) < bridge_work (run i)" for i
      using ownerless_step_work [OF run(2)] ownerless_reaches [OF _ assms(2) inv] by blast
    then show False using wf_iff_no_infinite_down_chain [of "measure bridge_work"] by auto
  qed
  moreover have "bridge_drained q" if "(bridge_step answers)\<^sup>*\<^sup>* b q" "\<forall>q'. \<not> bridge_step answers q q'" for q
  proof (rule stuck_bridge_drained)
    show "mb_owners q = 0" "bridge_inv answers q" using ownerless_reaches [OF that(1) assms(2) inv] by auto
    show "mb_threads q \<noteq> []" using ownerless_reaches [OF that(1) assms(2) inv] reachable_threads [OF assms(1)] assms(3) by auto
  qed (use that(2) assms(4) in auto)
  ultimately show ?thesis by blast
qed

subsection \<open>A run\<close>

definition small_bridge :: BridgeConfig where "small_bridge = \<lparr>br_workers = 1, br_capacity = 1\<rparr>"

text \<open>One request dispatched to a bridge with one thread and one slot; a second one is refused.\<close>

lemma small_run:
  obtains b0 b1 where "bridge_spawn (\<lambda>_. Ok ()) small_bridge = (Ok b0, 0)"
    and "try_dispatch Fallback demo_request b0 = (Ok (), b1)" and "fst (try_dispatch Fallback demo_request b1) = Err DispatchFull"
    and "mb_owners b0 = 1" and "mb_owners b1 = 1" and "length (mb_callers b1) = 1" and "bc_end (mb_callers b1 ! 0) = CallerWaiting"
  by (rule that [of "fst (projr (fst (bridge_spawn (\<lambda>_. Ok ()) small_bridge)), ())"
        "snd (try_dispatch Fallback demo_request (projr (fst (bridge_spawn (\<lambda>_. Ok ()) small_bridge))))"])
     (simp_all add: bridge_spawn_def small_bridge_def try_dispatch_def)

theorem bridge_loses_nothing_witness:
  "\<exists>b0 b1 item. bridge_spawn (\<lambda>_. Ok ()) small_bridge = (Ok b0, 0) \<and> try_dispatch Fallback demo_request b0 = (Ok (), b1) \<and>
     filter (\<lambda>it. gw_response_tx it = 0) (in_flight b1) = [item]"
proof -
  obtain b0 b1 where r: "bridge_spawn (\<lambda>_. Ok ()) small_bridge = (Ok b0, 0)" "try_dispatch Fallback demo_request b0 = (Ok (), b1)"
    "mb_owners b0 = 1" "length (mb_callers b1) = 1" "bc_end (mb_callers b1 ! 0) = CallerWaiting" by (rule small_run)
  have "bridge_reachable (\<lambda>_ _ _. True) small_bridge b1"
    unfolding bridge_reachable_def using r Dispatch [OF _ r(2)] by (auto intro!: exI [of _ "\<lambda>_. Ok ()"] exI [of _ b0])
  from bridge_loses_nothing [OF this] r show ?thesis by (auto simp: less_Suc_eq)
qed

theorem ownerless_bridge_drains_witness:
  "\<exists>b0 b1. bridge_spawn (\<lambda>_. Ok ()) small_bridge = (Ok b0, 0) \<and> try_dispatch Fallback demo_request b0 = (Ok (), b1) \<and>
     (\<nexists>run. run 0 = snd (shutdown_join b1) \<and> (\<forall>i. bridge_step (\<lambda>_ _ _. True) (run i) (run (Suc i))))"
proof -
  obtain b0 b1 where r: "bridge_spawn (\<lambda>_. Ok ()) small_bridge = (Ok b0, 0)" "try_dispatch Fallback demo_request b0 = (Ok (), b1)"
    "mb_owners b0 = 1" "mb_owners b1 = 1" by (rule small_run)
  have "bridge_step (\<lambda>_ _ _. True) b0 b1" using Dispatch [OF _ r(2)] r(3) by simp
  moreover have "bridge_step (\<lambda>_ _ _. True) b1 (snd (shutdown_join b1))"
    using DropRef [of b1] r(4) by (simp add: shutdown_join_def)
  ultimately have "bridge_reachable (\<lambda>_ _ _. True) small_bridge (snd (shutdown_join b1))"
    unfolding bridge_reachable_def using r(1) by (meson converse_rtranclp_into_rtranclp r_into_rtranclp)
  from ownerless_bridge_drains [OF this] r show ?thesis by (auto simp: shutdown_join_def small_bridge_def)
qed

end
