(* ===== verification/Tpc.thy ===== *)
theory Tpc
  imports App Bridge
begin

section \<open>Serving threads and connections (\<open>src/tpc.rs\<close>, \<open>src/conn_driver.rs\<close>, the runs of \<open>src/app.rs\<close>)\<close>

text \<open>
  A thread-per-core server starts one thread for each worker, hands the worker over, and each thread accepts
  and serves until the server stops. What the operating system and the
  runtime do (whether a thread is spawned, how a thread's serving ended, which event a \<open>select\<close> sees next) is an input.

  The results: however the threads of a run start and end, each worker is accounted for exactly once; the services of a
  connection are the request pipeline's; the idle collector runs at a
  quiet tick exactly when there is something to collect; connections that an acceptor fans out are handed over in turn, in order and bounded.
\<close>

subsection \<open>One connection (\<open>conn_driver.rs\<close>)\<close>

datatype conn_io_kind = ConnectionReset | ConnectionAborted | BrokenPipe | UnexpectedEof | OtherIoKind

record hyper_flags =
  hf_incomplete_message :: bool
  hf_closed :: bool
  hf_canceled :: bool
  hf_body_write_aborted :: bool

text \<open>An error and its sources: at each link whether it is a \<open>hyper::Error\<close> and whether it is an \<open>io::Error\<close>.\<close>

record error_link =
  el_hyper :: "hyper_flags option"
  el_io :: "conn_io_kind option"

fun is_benign_disconnect :: "error_link list \<Rightarrow> bool" where
  "is_benign_disconnect [] = False"
| "is_benign_disconnect (e # sources) =
     ((case el_hyper e of
         Some h \<Rightarrow> hf_incomplete_message h \<or> hf_closed h \<or> hf_canceled h \<or> hf_body_write_aborted h
       | None \<Rightarrow> False) \<or>
      (case el_io e of
         Some kind \<Rightarrow> kind \<in> {ConnectionReset, ConnectionAborted, BrokenPipe, UnexpectedEof}
       | None \<Rightarrow> False) \<or>
      is_benign_disconnect sources)"

datatype conn_event = ConnDone "(unit, error_link list) result" | TokenCancelled

text \<open>
  \<open>drive_connection\<close>: how often \<open>graceful_shutdown\<close> is called, and whether the end is logged, once there is one. The
  stop token stays cancelled, and its branch is off once it was taken.
\<close>

fun drive_connection :: "bool \<Rightarrow> conn_event list \<Rightarrow> nat \<times> bool option" where
  "drive_connection graceful_sent [] = (0, None)"
| "drive_connection graceful_sent (ConnDone res # events) =
     (0, Some (case res of Inl e \<Rightarrow> \<not> is_benign_disconnect e | Inr _ \<Rightarrow> False))"
| "drive_connection graceful_sent (TokenCancelled # events) =
     (if graceful_sent then drive_connection graceful_sent events
      else (let (n, out) = drive_connection True events in (Suc n, out)))"

lemma graceful_at_most_once: "fst (drive_connection sent events) \<le> (if sent then 0 else 1)"
  by (induction sent events rule: drive_connection.induct) (auto split: prod.splits)

datatype Upgrades = UpgradeWebSocket | UpgradesOff

text \<open>The service of \<open>drive_conn\<close>, and those of the main-interpreter and the pool servers.\<close>

definition tpc_service ::
    "Upgrades \<Rightarrow> ('m, 'r, 'e, 'h) services \<Rightarrow> 's sem_api \<Rightarrow> 'h backend \<Rightarrow> ('r, 'py, 'h) Site \<Rightarrow> string \<Rightarrow> 'h Parts \<Rightarrow> arrival list \<Rightarrow>
     ('m, 's) Engine \<Rightarrow> ('h http_response \<times> ('m, 's) Engine) option" where
  "tpc_service upgrades sv S bk site remote_addr parts body en =
     (if upgrades = UpgradeWebSocket \<and> wants_websocket (sv_http sv) site parts
      then Some (handle_websocket sv bk site remote_addr parts en)
      else handle_request_tpc_inline sv S bk site remote_addr parts body en)"

definition main_service ::
    "('m, 'r, 'e, 'h) services \<Rightarrow> 'h backend \<Rightarrow> ('r, 'py, 'h) Site \<Rightarrow> string \<Rightarrow> 'h Parts \<Rightarrow> arrival list \<Rightarrow>
     ('m, 's) Engine \<Rightarrow> ('h http_response \<times> ('m, 's) Engine) option" where
  "main_service sv bk site client_ip parts body en =
     (if wants_websocket (sv_http sv) site parts then Some (handle_websocket sv bk site client_ip parts en)
      else handle_request sv bk site client_ip parts body en)"

definition pool_service ::
    "('m, 'r, 'e, 'h) services \<Rightarrow> 's sem_api \<Rightarrow> 'h backend \<Rightarrow> ('r, 'py, 'h) Site \<Rightarrow> string \<Rightarrow> 'h Parts \<Rightarrow> arrival list \<Rightarrow>
     ('m, 's) Engine \<Rightarrow> ('h http_response \<times> ('m, 's) Engine) option" where
  "pool_service sv S bk site client_ip parts body en =
     (if wants_websocket (sv_http sv) site parts then Some (handle_websocket sv bk site client_ip parts en)
      else handle_request_subinterp sv S bk site client_ip parts body en)"

lemma services_serve:
  "tpc_service upgrades sv S bk site ip parts body en \<in> set (serves sv S bk site ip parts body en)"
  "main_service sv bk site ip parts body en \<in> set (serves sv S bk site ip parts body en)"
  "pool_service sv S bk site ip parts body en \<in> set (serves sv S bk site ip parts body en)"
  by (simp_all add: serves_def tpc_service_def main_service_def pool_service_def)

subsection \<open>Threads and their failures (\<open>tpc.rs\<close>)\<close>

datatype ServeError =
    SpawnFailed string io_error
  | ListenerFailed ListenerError
  | RuntimeFailed string io_error
  | ThreadPanicked string string

type_synonym thread_end = "panic_payload + (unit, ServeError) result"

text \<open>\<open>serve_on_this_thread\<close>: \<open>runtime\<close> is whether the thread's runtime could be built.\<close>

definition serve_on_this_thread :: "string \<Rightarrow> (unit, io_error) result \<Rightarrow> (unit, ServeError) result \<Rightarrow> (unit, ServeError) result" where
  "serve_on_this_thread thread runtime served = and_then (map_err (RuntimeFailed thread) runtime) (\<lambda>_. served)"

text \<open>\<open>join_all\<close>: the result and the failures that are logged.\<close>

fun thread_failure :: "string \<Rightarrow> thread_end \<Rightarrow> ServeError option" where
  "thread_failure thread (Inr (Inr _)) = None"
| "thread_failure thread (Inr (Inl e)) = Some e"
| "thread_failure thread (Inl payload) = Some (ThreadPanicked thread (panic_message payload))"

fun join_threads :: "ServeError option \<Rightarrow> (string \<times> thread_end) list \<Rightarrow> (unit, ServeError) result \<times> ServeError list" where
  "join_threads first [] = (case first of None \<Rightarrow> Ok () | Some e \<Rightarrow> Err e, [])"
| "join_threads first ((thread, handle) # handles) =
     (case thread_failure thread handle of
        None \<Rightarrow> join_threads first handles
      | Some failure \<Rightarrow>
          (let (r, logged) = join_threads (Some (case first of None \<Rightarrow> failure | Some e \<Rightarrow> e)) handles in (r, failure # logged)))"

definition join_all :: "(string \<times> thread_end) list \<Rightarrow> (unit, ServeError) result \<times> ServeError list" where
  "join_all handles = join_threads None handles"

lemma join_threads_eq:
  "join_threads first handles =
     (let logged = List.map_filter (\<lambda>(thread, e). thread_failure thread e) handles
      in (case (case first of Some e \<Rightarrow> e # logged | None \<Rightarrow> logged) of [] \<Rightarrow> Ok () | e # _ \<Rightarrow> Err e, logged))"
  by (induction first handles rule: join_threads.induct)
     (auto simp: Let_def List.map_filter_simps split: option.splits list.splits prod.splits)

text \<open>How long, in seconds, the connections of a stopped loop get to finish.\<close>

definition DRAIN_TIMEOUT :: nat where "DRAIN_TIMEOUT = 5"

definition MULTI_THREAD_DRAIN_TIMEOUT :: nat where "MULTI_THREAD_DRAIN_TIMEOUT = 30"

subsection \<open>Handing workers to threads\<close>

text \<open>
  How the thread of a worker went: it was gone before it received the worker; or it served and ended,
  and then \<open>refs\<close> references to its context were left.
\<close>

datatype thread_fate = ThreadGone thread_end | ThreadServed thread_end (fate_refs: nat)

text \<open>
  What became of the workers of a run: ended by their own threads, ended by the thread that built them, dropped
  without an end, or still referenced by a task. The last two leak their interpreters.
\<close>

record 'w ended_workers =
  ew_own :: "'w list"
  ew_here :: "'w list"
  ew_dropped :: "'w list"
  ew_shared :: "'w list"
  ew_stop :: bool \<comment> \<open>the stop token was cancelled\<close>

definition none_ended :: "'w ended_workers" where
  "none_ended = \<lparr>ew_own = [], ew_here = [], ew_dropped = [], ew_shared = [], ew_stop = False\<rparr>"

text \<open>\<open>TpcContext::end\<close>, with the references that are left.\<close>

definition context_end :: "'w \<Rightarrow> nat \<Rightarrow> 'w ended_workers \<Rightarrow> 'w ended_workers" where
  "context_end w refs acc =
     (if refs = 1 then acc\<lparr>ew_own := ew_own acc @ [w]\<rparr> else acc\<lparr>ew_shared := ew_shared acc @ [w]\<rparr>)"

text \<open>The closure of a worker's thread and the hand-over; a panic unwinds past the end and drops the worker.\<close>

fun worker_thread :: "'w \<Rightarrow> thread_fate \<Rightarrow> 'w ended_workers \<Rightarrow> 'w ended_workers" where
  "worker_thread w (ThreadGone e) acc = acc\<lparr>ew_here := ew_here acc @ [w]\<rparr>"
| "worker_thread w (ThreadServed (Inl p) refs) acc = acc\<lparr>ew_dropped := ew_dropped acc @ [w]\<rparr>"
| "worker_thread w (ThreadServed (Inr served) refs) acc =
     (let acc = context_end w refs acc in if isl served then acc\<lparr>ew_stop := True\<rparr> else acc)"

fun fate_end :: "thread_fate \<Rightarrow> thread_end" where
  "fate_end (ThreadGone e) = e"
| "fate_end (ThreadServed e refs) = e"

definition thread_name :: "string \<Rightarrow> nat \<Rightarrow> string" where
  "thread_name name i = ''pyronova-'' @ name @ ''-'' @ show_nat i"

text \<open>
  The loop of \<open>spawn_worker_threads\<close>, with how its threads end. When a spawn fails, the threads that run are
  stopped and joined, and every worker not handed over is ended here, the failed thread's included.
\<close>

fun spawn_worker_threads ::
    "string \<Rightarrow> (nat \<Rightarrow> (unit, io_error) result) \<Rightarrow> (nat \<Rightarrow> thread_fate) \<Rightarrow> nat \<Rightarrow> (string \<times> thread_end) list \<Rightarrow> 'w ended_workers \<Rightarrow>
     ('w \<times> 'g) list \<Rightarrow> ((string \<times> thread_end) list, ServeError) result \<times> 'w ended_workers" where
  "spawn_worker_threads name spawn fate i handles acc [] = (Ok handles, acc)"
| "spawn_worker_threads name spawn fate i handles acc (handoff # rest) =
     (case spawn i of
        Inr _ \<Rightarrow> spawn_worker_threads name spawn fate (Suc i) (handles @ [(thread_name name i, fate_end (fate i))])
                    (worker_thread (fst handoff) (fate i) acc) rest
      | Inl source \<Rightarrow> (Err (SpawnFailed (thread_name name i) source),
                       acc\<lparr>ew_here := ew_here acc @ map fst (handoff # rest), ew_stop := True\<rparr>))"

text \<open>\<open>spawn_stop_watcher\<close> and \<open>watch_or_end\<close>: without its stop watcher a server does not start, and its workers end here.\<close>

definition spawn_stop_watcher :: "(unit, io_error) result \<Rightarrow> (unit, ServeError) result" where
  "spawn_stop_watcher watcher = map_err (SpawnFailed ''pyronova-stop'') watcher"

definition watch_or_end :: "(unit, io_error) result \<Rightarrow> 'w list \<Rightarrow> (unit, ServeError \<times> 'w ended_workers) result" where
  "watch_or_end watcher workers = map_err (\<lambda>e. (e, none_ended\<lparr>ew_here := workers\<rparr>)) (spawn_stop_watcher watcher)"

text \<open>
  \<open>run_per_thread_listener\<close>. Pairing workers with groups drops the workers that have none. The watcher is
  dropped at every way out, which cancels the stop token.
\<close>

definition run_per_thread_listener ::
    "(unit, io_error) result \<Rightarrow> (nat \<Rightarrow> (unit, io_error) result) \<Rightarrow> (nat \<Rightarrow> thread_fate) \<Rightarrow> 'g list \<Rightarrow> 'w list \<Rightarrow>
     (unit, ServeError) result \<times> 'w ended_workers" where
  "run_per_thread_listener watcher spawn fate groups workers =
     (case watch_or_end watcher workers of
        Inl (e, ended) \<Rightarrow> (Err e, ended)
      | Inr _ \<Rightarrow>
          (let (spawned, ended) = spawn_worker_threads ''tpc'' spawn fate 0 []
                 (none_ended\<lparr>ew_dropped := drop (length groups) workers\<rparr>) (zip workers groups)
           in (and_then spawned (\<lambda>handles. fst (join_all handles)), ended\<lparr>ew_stop := True\<rparr>)))"

text \<open>\<open>run_fanout\<close>: as many inboxes as workers, and one more thread, the acceptor.\<close>

definition run_fanout ::
    "(unit, io_error) result \<Rightarrow> (nat \<Rightarrow> (unit, io_error) result) \<Rightarrow> (nat \<Rightarrow> thread_fate) \<Rightarrow> (thread_end, io_error) result \<Rightarrow> 'w list \<Rightarrow>
     (unit, ServeError) result \<times> 'w ended_workers" where
  "run_fanout watcher spawn fate acceptor workers =
     (case watch_or_end watcher workers of
        Inl (e, ended) \<Rightarrow> (Err e, ended)
      | Inr _ \<Rightarrow>
          (let (spawned, ended) = spawn_worker_threads ''tpc'' spawn fate 0 [] none_ended (zip workers [0..<length workers])
           in (and_then spawned (\<lambda>handles.
                 case acceptor of
                   Inr e \<Rightarrow> fst (join_all (handles @ [(''pyronova-acceptor'', e)]))
                 | Inl source \<Rightarrow> Err (SpawnFailed ''pyronova-acceptor'' source)),
               ended\<lparr>ew_stop := True\<rparr>)))"

text \<open>\<open>run_tpc_gil\<close>: the same without workers; a thread whose serving fails stops the server.\<close>

fun spawn_gil_threads ::
    "(nat \<Rightarrow> (unit, io_error) result) \<Rightarrow> (nat \<Rightarrow> thread_end) \<Rightarrow> nat \<Rightarrow> (string \<times> thread_end) list \<Rightarrow> 'g list \<Rightarrow>
     ((string \<times> thread_end) list, ServeError) result" where
  "spawn_gil_threads spawn ends i handles [] = Ok handles"
| "spawn_gil_threads spawn ends i handles (g # groups) =
     (case spawn i of
        Inr _ \<Rightarrow> spawn_gil_threads spawn ends (Suc i) (handles @ [(thread_name ''tpc'' i, ends i)]) groups
      | Inl source \<Rightarrow> Err (SpawnFailed (thread_name ''tpc'' i) source))"

definition run_tpc_gil ::
    "(unit, io_error) result \<Rightarrow> (nat \<Rightarrow> (unit, io_error) result) \<Rightarrow> (nat \<Rightarrow> thread_end) \<Rightarrow> 'g list \<Rightarrow> (unit, ServeError) result" where
  "run_tpc_gil watcher spawn ends groups =
     and_then (spawn_stop_watcher watcher) (\<lambda>_.
     and_then (spawn_gil_threads spawn ends 0 [] groups) (\<lambda>handles. fst (join_all handles)))"

text \<open>A worker is lost only with a panic of its thread, or while its context is still referenced.\<close>

fun loses :: "thread_fate \<Rightarrow> bool" where
  "loses (ThreadGone e) = False"
| "loses (ThreadServed (Inl p) refs) = True"
| "loses (ThreadServed (Inr r) refs) = (refs \<noteq> 1)"

definition ew_lost :: "'w ended_workers \<Rightarrow> 'w multiset" where
  "ew_lost e = mset (ew_dropped e) + mset (ew_shared e)"

definition ew_all :: "'w ended_workers \<Rightarrow> 'w multiset" where
  "ew_all e = mset (ew_own e) + mset (ew_here e) + ew_lost e"

lemma ew_all_simps [simp]:
  "ew_all none_ended = {#}" "ew_lost none_ended = {#}"
  "ew_all (e\<lparr>ew_stop := b\<rparr>) = ew_all e" "ew_lost (e\<lparr>ew_stop := b\<rparr>) = ew_lost e"
  "ew_all (e\<lparr>ew_here := ew_here e @ ws\<rparr>) = ew_all e + mset ws" "ew_lost (e\<lparr>ew_here := ws\<rparr>) = ew_lost e"
  "ew_all (none_ended\<lparr>ew_here := ws\<rparr>) = mset ws" "ew_all (none_ended\<lparr>ew_dropped := ws\<rparr>) = mset ws"
  "ew_lost (none_ended\<lparr>ew_dropped := ws\<rparr>) = mset ws"
  by (simp_all add: ew_all_def ew_lost_def none_ended_def)

lemma worker_thread_counts [simp]:
  "ew_all (worker_thread w f acc) = add_mset w (ew_all acc)"
  "ew_lost (worker_thread w f acc) = ew_lost acc + (if loses f then {#w#} else {#})"
  by (cases "(w, f, acc)" rule: worker_thread.cases; simp add: ew_all_def ew_lost_def context_end_def Let_def)+

text \<open>Each worker is accounted for once, and those that are lost are those whose threads ran and lost them.\<close>

lemma spawn_worker_threads_ends:
  "spawn_worker_threads name spawn fate i handles acc handoffs = (r, ended) \<Longrightarrow>
     ew_all ended = ew_all acc + mset (map fst handoffs) \<and>
     ((\<forall>k. \<not> loses (fate k)) \<longrightarrow> ew_lost ended = ew_lost acc)"
proof (induction handoffs arbitrary: i handles acc)
  case (Cons h rest)
  show ?case
  proof (cases "spawn i")
    case (Inl source)
    with Cons.prems have "ended = (acc\<lparr>ew_here := ew_here acc @ map fst (h # rest)\<rparr>)\<lparr>ew_stop := True\<rparr>" by simp
    then show ?thesis by (simp only: ew_all_simps) simp
  next
    case (Inr u)
    with Cons.prems Cons.IH show ?thesis by fastforce
  qed
qed auto

lemma handed_over: "mset (map fst (zip workers groups)) + mset (drop (length groups) workers) = mset workers"
proof -
  have "map fst (zip workers groups) = take (length groups) workers" by (simp add: map_fst_zip_take min_def)
  then show ?thesis by (metis append_take_drop_id mset_append)
qed

lemma run_per_thread_listener_ends:
  assumes "run_per_thread_listener watcher spawn fate groups workers = (r, ended)"
  shows "ew_all ended = mset workers"
    and "\<forall>k. \<not> loses (fate k) \<Longrightarrow> length workers \<le> length groups \<Longrightarrow> ew_lost ended = {#}"
proof -
  obtain x e where s: "spawn_worker_threads ''tpc'' spawn fate 0 [] (none_ended\<lparr>ew_dropped := drop (length groups) workers\<rparr>)
      (zip workers groups) = (x, e)" by force
  note ends = spawn_worker_threads_ends [OF s]
  show "ew_all ended = mset workers"
    using assms ends handed_over [of workers groups] s
    by (auto simp: run_per_thread_listener_def watch_or_end_def spawn_stop_watcher_def map_err_def ac_simps split: sum.splits)
  show "ew_lost ended = {#}" if "\<forall>k. \<not> loses (fate k)" "length workers \<le> length groups"
    using assms ends s that
    by (auto simp: run_per_thread_listener_def watch_or_end_def spawn_stop_watcher_def map_err_def split: sum.splits)
qed

lemma run_fanout_ends:
  assumes "run_fanout watcher spawn fate acceptor workers = (r, ended)"
  shows "ew_all ended = mset workers" and "\<forall>k. \<not> loses (fate k) \<Longrightarrow> ew_lost ended = {#}"
proof -
  obtain x e where s: "spawn_worker_threads ''tpc'' spawn fate 0 [] none_ended (zip workers [0..<length workers]) = (x, e)" by force
  note ends = spawn_worker_threads_ends [OF s]
  show "ew_all ended = mset workers"
    using assms ends s handed_over [of workers "[0..<length workers]"]
    by (auto simp: run_fanout_def watch_or_end_def spawn_stop_watcher_def map_err_def split: sum.splits)
  show "ew_lost ended = {#}" if "\<forall>k. \<not> loses (fate k)"
    using assms ends s that
    by (auto simp: run_fanout_def watch_or_end_def spawn_stop_watcher_def map_err_def split: sum.splits)
qed

subsection \<open>The idle collector\<close>

record IdleGc =
  ig_served_at_last_tick :: u64

definition idle_gc_default :: IdleGc where
  "idle_gc_default = \<lparr>ig_served_at_last_tick = 0\<rparr>"

definition on_tick :: "u64 \<Rightarrow> u64 \<Rightarrow> IdleGc \<Rightarrow> bool \<times> IdleGc" where
  "on_tick served since idle =
     (let quiet = (served = ig_served_at_last_tick idle)
      in (quiet \<and> 0 < since, idle\<lparr>ig_served_at_last_tick := served\<rparr>))"

text \<open>One tick of the loop; the first component records whether the collector was called.\<close>

definition idle_gc_tick ::
    "('l, 'h, 'w) world cpython \<Rightarrow> ('py, 'h, 'c, 'l, 'w) runtime \<Rightarrow> IdleGc \<Rightarrow> ('py, 'l) Inline SubInterpreterWorker \<Rightarrow>
     ('l, 'h, 'w) world \<Rightarrow> (bool \<times> IdleGc \<times> ('py, 'l) Inline SubInterpreterWorker \<times> ('l, 'h, 'w) world) option" where
  "idle_gc_tick C R idle wk w =
     (let (is_due, idle) = on_tick (requests_served wk) (requests_since_collect wk) idle
      in if is_due then map_option (\<lambda>(wk, w). (True, idle, wk, w)) (collect_garbage_between_requests C R wk w)
         else Some (False, idle, wk, w))"

text \<open>
  What the tasks of a thread do with its worker while its accept loop runs in idle mode: requests, of any
  connection, and ticks between them. Each call is recorded with whether the collector ran in it; a request has just been
  counted, so nothing is left to collect after it exactly when it collected.
\<close>

datatype 'h loop_call = LoopRequest RouteId "'h PyronovaRequest" | LoopTick

datatype 'h loop_answer =
    Answered "('h ResponseData, HandlerError) result" (collected: bool)
  | Ticked (collected: bool)

fun loop_calls ::
    "('l, 'h, 'w) world cpython \<Rightarrow> ('py, 'h, 'c, 'l, 'w) runtime \<Rightarrow> 'h http_api \<Rightarrow> 'h interp \<Rightarrow> 'h loop_call list \<Rightarrow> IdleGc \<Rightarrow>
     ('py, 'l) Inline SubInterpreterWorker \<Rightarrow> ('l, 'h, 'w) world \<Rightarrow>
     ('h loop_answer list \<times> IdleGc \<times> ('py, 'l) Inline SubInterpreterWorker \<times> ('l, 'h, 'w) world) option" where
  "loop_calls C R H P [] idle wk w = Some ([], idle, wk, w)"
| "loop_calls C R H P (LoopRequest rid rq # cs) idle wk w =
     Option.bind (worker_serve C R H P rid rq wk w) (\<lambda>(r, wk, w).
       map_option (\<lambda>(as, st). (Answered r (requests_since_collect wk = 0) # as, st)) (loop_calls C R H P cs idle wk w))"
| "loop_calls C R H P (LoopTick # cs) idle wk w =
     Option.bind (idle_gc_tick C R idle wk w) (\<lambda>(did, idle, wk, w).
       map_option (\<lambda>(as, st). (Ticked did # as, st)) (loop_calls C R H P cs idle wk w))"

definition no_panics :: "'h loop_answer list \<Rightarrow> bool" where
  "no_panics as \<longleftrightarrow> (\<forall>r b p. Answered r b \<in> set as \<longrightarrow> r \<noteq> Err (Panic p))"

lemma no_panics_simps [simp]:
  "no_panics []"
  "no_panics (Answered r b # as) \<longleftrightarrow> (\<forall>p. r \<noteq> Err (Panic p)) \<and> no_panics as"
  "no_panics (Ticked b # as) \<longleftrightarrow> no_panics as"
  by (auto simp: no_panics_def)

text \<open>
  The specification counts the requests since the last tick and since the last collection, and says of each call whether it
  collects: a request when the second count reaches the failsafe, a tick when the first is zero and the second is not.
\<close>

fun idle_spec :: "nat \<Rightarrow> 'h loop_call list \<Rightarrow> nat \<times> nat \<Rightarrow> bool list \<times> nat \<times> nat" where
  "idle_spec failsafe [] st = ([], st)"
| "idle_spec failsafe (LoopRequest rid rq # cs) (tick, since) =
     (let collect = (0 < failsafe \<and> failsafe \<le> Suc since);
          (rest, st) = idle_spec failsafe cs (Suc tick, if collect then 0 else Suc since)
      in (collect # rest, st))"
| "idle_spec failsafe (LoopTick # cs) (tick, since) =
     (let collect = (tick = 0 \<and> 0 < since);
          (rest, st) = idle_spec failsafe cs (0, if collect then 0 else since)
      in (collect # rest, st))"

lemma collect_gc:
  assumes "collect_garbage_between_requests C R wk w = Some (wk', w')"
  shows "requests_served wk' = requests_served wk \<and> requests_since_collect wk' = 0 \<and>
     Worker_Serve.gc_threshold (il_gc (wk_role wk')) = Worker_Serve.gc_threshold (il_gc (wk_role wk))"
  using assms
  by (auto simp: collect_garbage_between_requests_def with_gil_def run_collect_def requests_served_def requests_since_collect_def
      since_collect_def Let_def Option.bind_eq_Some_conv split: prod.splits)

text \<open>The counters, read as numbers, while fewer than \<open>2\<^sup>6\<^sup>4\<close> requests ran.\<close>

definition idle_rel :: "IdleGc \<Rightarrow> ('py, 'l) Inline SubInterpreterWorker \<Rightarrow> nat \<times> nat \<Rightarrow> bool" where
  "idle_rel idle wk st \<longleftrightarrow>
     requests_served wk = ig_served_at_last_tick idle + of_nat (fst st) \<and> requests_since_collect wk = of_nat (snd st)"

lemma of_nat_u64_0: "n < 2 ^ 64 \<Longrightarrow> of_nat n = (0 :: u64) \<longleftrightarrow> n = 0"
  by (auto simp: word_of_nat_eq_0_iff dest: dvd_imp_le)

lemma idle_tick_rel:
  assumes "idle_gc_tick C R idle wk w = Some (did, idle', wk', w')" and "idle_rel idle wk (tick, since)"
    and "tick < 2 ^ 64" and "since < 2 ^ 64"
  shows "(did \<longleftrightarrow> tick = 0 \<and> 0 < since) \<and> idle_rel idle' wk' (0, if tick = 0 \<and> 0 < since then 0 else since) \<and>
     Worker_Serve.gc_threshold (il_gc (wk_role wk')) = Worker_Serve.gc_threshold (il_gc (wk_role wk))"
  using assms of_nat_u64_0 [OF assms(3)] of_nat_u64_0 [OF assms(4)]
  by (auto simp: idle_gc_tick_def on_tick_def idle_rel_def word_gt_0 split: if_splits dest: collect_gc)

lemma idle_request_rel:
  assumes "worker_serve C R H P rid rq wk w = Some (r, wk', w')" and "\<forall>p. r \<noteq> Err (Panic p)"
    and "idle_rel idle wk (tick, since)" and "Suc since < 2 ^ 64"
    and "failsafe = unat (Worker_Serve.gc_threshold (il_gc (wk_role wk)))"
  shows "(requests_since_collect wk' = 0 \<longleftrightarrow> 0 < failsafe \<and> failsafe \<le> Suc since) \<and>
     idle_rel idle wk' (Suc tick, if 0 < failsafe \<and> failsafe \<le> Suc since then 0 else Suc since) \<and>
     Worker_Serve.gc_threshold (il_gc (wk_role wk')) = Worker_Serve.gc_threshold (il_gc (wk_role wk))"
proof -
  let ?t = "Worker_Serve.gc_threshold (il_gc (wk_role wk))"
  have "unat (of_nat (Suc since) :: u64) = Suc since" using assms(4) by (simp add: unsigned_of_nat take_bit_nat_eq_self del: of_nat_Suc)
  then have "?t \<le> of_nat since + 1 \<longleftrightarrow> failsafe \<le> Suc since" "0 < ?t \<longleftrightarrow> 0 < failsafe"
    by (simp_all add: word_le_nat_alt word_less_nat_alt assms(5) add.commute)
  moreover have "of_nat since + 1 \<noteq> (0 :: u64)" using of_nat_u64_0 [OF assms(4)] by (simp add: add.commute)
  ultimately show ?thesis using worker_serve_gc [OF assms(1,2)] assms(3) by (auto simp: idle_rel_def)
qed

lemma loop_calls_rel:
  assumes "loop_calls C R H P calls idle wk w = Some (as, idle', wk', w')" and "no_panics as"
    and "idle_rel idle wk (tick, since)" and "tick + length calls < 2 ^ 64" and "since + length calls < 2 ^ 64"
    and "failsafe = unat (Worker_Serve.gc_threshold (il_gc (wk_role wk)))"
  shows "map collected as = fst (idle_spec failsafe calls (tick, since)) \<and>
     idle_rel idle' wk' (snd (idle_spec failsafe calls (tick, since)))"
  using assms
proof (induction calls arbitrary: idle wk w as tick since)
  case (Cons c calls)
  show ?case
  proof (cases c)
    case (LoopRequest rid rq)
    with Cons.prems(1) obtain r wk1 w1 as' where 1: "worker_serve C R H P rid rq wk w = Some (r, wk1, w1)"
      and rest: "loop_calls C R H P calls idle wk1 w1 = Some (as', idle', wk', w')"
      and as: "as = Answered r (requests_since_collect wk1 = 0) # as'"
      by (auto simp: Option.bind_eq_Some_conv)
    from idle_request_rel [OF 1 _ Cons.prems(3)] Cons.prems(2,5,6) as
    have rel: "requests_since_collect wk1 = 0 \<longleftrightarrow> 0 < failsafe \<and> failsafe \<le> Suc since"
      "idle_rel idle wk1 (Suc tick, if 0 < failsafe \<and> failsafe \<le> Suc since then 0 else Suc since)"
      "failsafe = unat (Worker_Serve.gc_threshold (il_gc (wk_role wk1)))" by auto
    from Cons.IH [OF rest _ rel(2) _ _ rel(3)] Cons.prems(2,4,5) as LoopRequest rel(1) show ?thesis
      by (simp add: Let_def split_beta)
  next
    case LoopTick
    with Cons.prems(1) obtain did idle1 wk1 w1 as' where 1: "idle_gc_tick C R idle wk w = Some (did, idle1, wk1, w1)"
      and rest: "loop_calls C R H P calls idle1 wk1 w1 = Some (as', idle', wk', w')" and as: "as = Ticked did # as'"
      by (auto simp: Option.bind_eq_Some_conv)
    from idle_tick_rel [OF 1 Cons.prems(3)] Cons.prems(4-6)
    have rel: "did \<longleftrightarrow> tick = 0 \<and> 0 < since" "idle_rel idle1 wk1 (0, if tick = 0 \<and> 0 < since then 0 else since)"
      "failsafe = unat (Worker_Serve.gc_threshold (il_gc (wk_role wk1)))" by auto
    from Cons.IH [OF rest _ rel(2) _ _ rel(3)] Cons.prems(2,4,5) as LoopTick rel(1) show ?thesis
      by (simp add: Let_def split_beta)
  qed
qed simp


text \<open>
  A tick with nothing to collect, a request, a tick that sees it, a quiet tick that collects, another one that does not, and another
  request; the failsafe is two.
\<close>

lemma threads_loop_request:
  assumes "cp_get threads_cpython w = None" and "threads_alive w (wk_tstate wk) = Some i"
    and "il_handlers (wk_role wk) \<noteq> []" and "il_before_hooks (wk_role wk) = []" and "il_after_hooks (wk_role wk) = []"
  obtains r wk' w' where "worker_serve threads_cpython threads_runtime line_headers demo_interp 0 demo_request wk w = Some (r, wk', w')"
    and "\<forall>p. r \<noteq> Err (Panic p)"
    and "cp_get threads_cpython w' = None" and "threads_alive w' (wk_tstate wk') = Some i"
    and "il_handlers (wk_role wk') \<noteq> []" and "il_before_hooks (wk_role wk') = []" and "il_after_hooks (wk_role wk') = []"
proof -
  obtain r wk1 w1 where 1: "worker_serve threads_cpython threads_runtime line_headers demo_interp 0 demo_request wk w = Some (r, wk1, w1)"
    "cp_get threads_cpython w1 = None" "wk_tstate wk1 = wk_tstate wk" "threads_alive w1 (wk_tstate wk) = Some i"
    by (rule served.worker_serve_safe [OF assms(1,2)]) blast
  obtain s x s2 where x: "serve_and_collect threads_runtime line_headers demo_interp 0 demo_request (wk_role wk) s = (x, wk_role wk1, s2)"
    "r = catch_panic x" by (rule worker_serve_result [OF 1(1)])
  from threads_serve [OF assms(3-5) x(1)] 1 x(2) show thesis by (intro that [of r wk1 w1]) auto
qed

lemma threads_loop:
  assumes "cp_get threads_cpython w = None" and "threads_alive w (wk_tstate wk) = Some i"
    and "il_handlers (wk_role wk) \<noteq> []" and "il_before_hooks (wk_role wk) = []" and "il_after_hooks (wk_role wk) = []"
    and "list_all (\<lambda>c. c = LoopTick \<or> c = LoopRequest 0 demo_request) calls"
  shows "\<exists>as idle' wk' w'. loop_calls threads_cpython threads_runtime line_headers demo_interp calls idle wk w = Some (as, idle', wk', w') \<and>
     no_panics as"
  using assms
proof (induction calls arbitrary: idle wk w)
  case (Cons c calls)
  show ?case
  proof (cases c)
    case (LoopRequest rid rq)
    obtain r wk1 w1 where 1: "worker_serve threads_cpython threads_runtime line_headers demo_interp 0 demo_request wk w = Some (r, wk1, w1)"
      "\<forall>p. r \<noteq> Err (Panic p)"
      "cp_get threads_cpython w1 = None" "threads_alive w1 (wk_tstate wk1) = Some i"
      "il_handlers (wk_role wk1) \<noteq> []" "il_before_hooks (wk_role wk1) = []" "il_after_hooks (wk_role wk1) = []"
      by (rule threads_loop_request [OF Cons.prems(1-5)])
    from Cons.IH [OF 1(3-7), of idle] Cons.prems(6) 1(1,2) LoopRequest show ?thesis by auto
  next
    case LoopTick
    show ?thesis
    proof (cases "fst (on_tick (requests_served wk) (requests_since_collect wk) idle)")
      case True
      obtain wk1 w1 where 1: "collect_garbage_between_requests threads_cpython threads_runtime wk w = Some (wk1, w1)"
        "cp_get threads_cpython w1 = None" "wk_tstate wk1 = wk_tstate wk" "threads_alive w1 (wk_tstate wk) = Some i"
        by (rule served.idle_collect_safe [OF Cons.prems(1,2)]) blast
      then have "il_handlers (wk_role wk1) = il_handlers (wk_role wk)" "il_before_hooks (wk_role wk1) = il_before_hooks (wk_role wk)"
        "il_after_hooks (wk_role wk1) = il_after_hooks (wk_role wk)"
        by (auto simp: collect_garbage_between_requests_def with_gil_def Let_def Option.bind_eq_Some_conv split: prod.splits)
      with Cons.IH [of w1 wk1] Cons.prems 1 True LoopTick show ?thesis
        by (fastforce simp: idle_gc_tick_def split: prod.splits)
    next
      case False
      with Cons.IH [of w wk] Cons.prems LoopTick show ?thesis by (fastforce simp: idle_gc_tick_def split: prod.splits)
    qed
  qed
qed simp


subsection \<open>Accept loops\<close>

text \<open>
  What \<open>select\<close> sees of a loop, in order. Its branches are polled with the stop first; ticks come in idle mode only.
\<close>

datatype 'a loop_event = LoopStop | LoopAccepted 'a | LoopTicked

text \<open>The connections that are served and the ticks taken, until the stop.\<close>

fun accept_until_stop :: "bool \<Rightarrow> 'a loop_event list \<Rightarrow> 'a list \<times> nat" where
  "accept_until_stop ticker [] = ([], 0)"
| "accept_until_stop ticker (LoopStop # events) = ([], 0)"
| "accept_until_stop ticker (LoopAccepted a # events) =
     (let (conns, ticks) = accept_until_stop ticker events in (a # conns, ticks))"
| "accept_until_stop ticker (LoopTicked # events) =
     (let (conns, ticks) = accept_until_stop ticker events in (conns, if ticker then Suc ticks else ticks))"

definition tpc_accept_loop_gil ::
    "(('k, 't) Listener \<Rightarrow> (unit, io_error) result) \<Rightarrow> ('k, 't) Listener list \<Rightarrow> 'a loop_event list \<Rightarrow> ('a list, ServeError) result" where
  "tpc_accept_loop_gil into_runtime grp events =
     map_ok (\<lambda>_. fst (accept_until_stop False events)) (map_err ListenerFailed (accept_source_new into_runtime grp))"

definition tpc_accept_loop_inline ::
    "(('k, 't) Listener \<Rightarrow> (unit, io_error) result) \<Rightarrow> ('k, 't) Listener list \<Rightarrow> GcConfig \<Rightarrow> 'a loop_event list \<Rightarrow>
     ('a list \<times> nat, ServeError) result" where
  "tpc_accept_loop_inline into_runtime grp gc events =
     map_ok (\<lambda>_. accept_until_stop (gc_mode gc = Idle) events) (map_err ListenerFailed (accept_source_new into_runtime grp))"

subsection \<open>Fanning out\<close>

definition WORKER_INBOX_CAP :: nat where "WORKER_INBOX_CAP = 1024"

record 'c fan =
  fa_next :: nat
  fa_inboxes :: "'c list list"
  fa_gone :: "bool list" \<comment> \<open>whose receiver was dropped\<close>
  fa_stopped :: bool

datatype 'c fan_event = FanAccept "('c, io_error) result" | FanReceive nat | FanDrop nat

datatype 'c fan_effect = Skipped | Sent nat 'c | Shed nat 'c | Closed nat 'c | Received nat 'c | NoEffect

text \<open>
  One turn of \<open>fanout_accept_loop\<close> with what \<open>into_std\<close> made of the connection: it is sent to the next worker, dropped
  when its inbox is full, and a closed inbox stops the server.
\<close>

definition fanout_accept :: "('c, io_error) result \<Rightarrow> 'c fan \<Rightarrow> 'c fan_effect \<times> 'c fan" where
  "fanout_accept accepted f =
     (case accepted of
        Inl e \<Rightarrow> (Skipped, f)
      | Inr stream \<Rightarrow>
          (let i = fa_next f; n = length (fa_inboxes f); turned = f\<lparr>fa_next := (i + 1) mod n\<rparr>
           in if fa_gone f ! i then (Closed i stream, f\<lparr>fa_stopped := True\<rparr>)
              else if WORKER_INBOX_CAP \<le> length (fa_inboxes f ! i) then (Shed i stream, turned)
              else (Sent i stream, turned\<lparr>fa_inboxes := (fa_inboxes f)[i := fa_inboxes f ! i @ [stream]]\<rparr>)))"

text \<open>The receives of \<open>fanout_worker_loop\<close>, and the end of a worker, whose inbox is dropped with it.\<close>

fun fanout_event :: "'c fan_event \<Rightarrow> 'c fan \<Rightarrow> 'c fan_effect \<times> 'c fan" where
  "fanout_event (FanAccept accepted) f = (if fa_stopped f then (NoEffect, f) else fanout_accept accepted f)"
| "fanout_event (FanReceive i) f =
     (if i < length (fa_inboxes f) \<and> \<not> fa_gone f ! i then
        (case fa_inboxes f ! i of [] \<Rightarrow> (NoEffect, f) | c # cs \<Rightarrow> (Received i c, f\<lparr>fa_inboxes := (fa_inboxes f)[i := cs]\<rparr>))
      else (NoEffect, f))"
| "fanout_event (FanDrop i) f = (NoEffect, f\<lparr>fa_gone := (fa_gone f)[i := True]\<rparr>)"

definition fan_new :: "nat \<Rightarrow> 'c fan" where
  "fan_new n = \<lparr>fa_next = 0, fa_inboxes = replicate n [], fa_gone = replicate n False, fa_stopped = False\<rparr>"

fun fanout_run :: "'c fan_event list \<Rightarrow> 'c fan \<Rightarrow> 'c fan_effect list \<times> 'c fan" where
  "fanout_run [] f = ([], f)"
| "fanout_run (e # es) f = (let (x, f) = fanout_event e f; (xs, f) = fanout_run es f in (x # xs, f))"

fun turn_of :: "'c fan_effect \<Rightarrow> nat list" where
  "turn_of (Sent i c) = [i]"
| "turn_of (Shed i c) = [i]"
| "turn_of _ = []"

fun sent_to :: "nat \<Rightarrow> 'c fan_effect \<Rightarrow> 'c list" where
  "sent_to i (Sent j c) = (if i = j then [c] else [])"
| "sent_to i _ = []"

fun received_by :: "nat \<Rightarrow> 'c fan_effect \<Rightarrow> 'c list" where
  "received_by i (Received j c) = (if i = j then [c] else [])"
| "received_by i _ = []"

definition fan_ok :: "nat \<Rightarrow> 'c fan \<Rightarrow> bool" where
  "fan_ok n f \<longleftrightarrow> length (fa_inboxes f) = n \<and> fa_next f < n \<and> list_all (\<lambda>q. length q \<le> WORKER_INBOX_CAP) (fa_inboxes f)"

lemma fan_ok_new: "0 < n \<Longrightarrow> fan_ok n (fan_new n)"
  by (simp add: fan_ok_def fan_new_def list_all_length)

lemma list_all_updated: "list_all P xs \<Longrightarrow> P x \<Longrightarrow> list_all P (xs[i := x])"
  by (auto simp: list_all_iff dest: subsetD [OF set_update_subset_insert])

lemma fanout_event_ok:
  assumes "fanout_event e f = (x, f')" and "fan_ok n f"
  shows "fan_ok n f' \<and> (\<forall>i < n. fa_inboxes f ! i @ sent_to i x = received_by i x @ fa_inboxes f' ! i) \<and>
     (case turn_of x of [] \<Rightarrow> fa_next f' = fa_next f | i # _ \<Rightarrow> turn_of x = [i] \<and> i = fa_next f \<and> fa_next f' = Suc i mod n)"
proof (cases e)
  case (FanAccept accepted)
  have "list_all (\<lambda>q. length q \<le> WORKER_INBOX_CAP) ((fa_inboxes f)[i := fa_inboxes f ! i @ [c]])"
    if "length (fa_inboxes f ! i) < WORKER_INBOX_CAP" for i c
    using assms(2) that by (intro list_all_updated) (auto simp: fan_ok_def)
  moreover have "fa_inboxes f \<noteq> []" using assms(2) by (auto simp: fan_ok_def)
  ultimately show ?thesis using assms FanAccept
    by (auto simp: fanout_accept_def fan_ok_def Let_def nth_list_update split: if_splits sum.splits)
next
  case (FanReceive i)
  have "list_all (\<lambda>q. length q \<le> WORKER_INBOX_CAP) ((fa_inboxes f)[i := cs])" if "fa_inboxes f ! i = c # cs" "i < n" for c cs
  proof (rule list_all_updated)
    show "list_all (\<lambda>q. length q \<le> WORKER_INBOX_CAP) (fa_inboxes f)" using assms(2) by (simp add: fan_ok_def)
    then have "length (fa_inboxes f ! i) \<le> WORKER_INBOX_CAP" using that(2) assms(2) by (auto simp: list_all_length fan_ok_def)
    then show "length cs \<le> WORKER_INBOX_CAP" using that(1) by simp
  qed
  with assms FanReceive show ?thesis
    by (auto simp: fan_ok_def nth_list_update split: if_splits list.splits)
next
  case (FanDrop i)
  with assms show ?thesis by (auto simp: fan_ok_def)
qed

lemma fanout_run_ok:
  assumes "fanout_run es f = (xs, f')" and "fan_ok n f"
  shows "fan_ok n f' \<and>
     (\<forall>i < n. fa_inboxes f ! i @ concat (map (sent_to i) xs) = concat (map (received_by i) xs) @ fa_inboxes f' ! i) \<and>
     (let turns = concat (map turn_of xs)
      in turns = map (\<lambda>k. (fa_next f + k) mod n) [0..<length turns] \<and> fa_next f' = (fa_next f + length turns) mod n)"
  using assms
proof (induction es arbitrary: f xs)
  case Nil
  then show ?case by (simp add: fan_ok_def)
next
  case (Cons e es)
  obtain x f1 where 1: "fanout_event e f = (x, f1)" by force
  with Cons.prems(1) obtain ys where rest: "fanout_run es f1 = (ys, f')" and xs: "xs = x # ys" by (auto split: prod.splits)
  note step = fanout_event_ok [OF 1 Cons.prems(2)]
  then have "fan_ok n f1" by blast
  note IH = Cons.IH [OF rest this]
  have order: "fa_inboxes f ! i @ concat (map (sent_to i) xs) = concat (map (received_by i) xs) @ fa_inboxes f' ! i" if "i < n" for i
  proof -
    have "fa_inboxes f ! i @ sent_to i x = received_by i x @ fa_inboxes f1 ! i" using step that by blast
    moreover have "fa_inboxes f1 ! i @ concat (map (sent_to i) ys) = concat (map (received_by i) ys) @ fa_inboxes f' ! i"
      using IH that by blast
    ultimately have "(fa_inboxes f ! i @ sent_to i x) @ concat (map (sent_to i) ys) =
        received_by i x @ concat (map (received_by i) ys) @ fa_inboxes f' ! i" by simp
    then show ?thesis by (simp add: xs)
  qed
  let ?t = "concat (map turn_of ys)"
  have turns: "?t = map (\<lambda>k. (fa_next f1 + k) mod n) [0..<length ?t]" and n': "fa_next f' = (fa_next f1 + length ?t) mod n"
    using IH unfolding Let_def by blast+
  show ?case
  proof (cases "turn_of x")
    case Nil
    with IH step order show ?thesis unfolding xs by simp
  next
    case (Cons i r)
    with step have x: "turn_of x = [fa_next f]" "fa_next f1 = Suc (fa_next f) mod n" by auto
    have "(fa_next f1 + k) mod n = (fa_next f + Suc k) mod n" for k by (simp add: x(2) mod_simps)
    with turns have "?t = map (\<lambda>k. (fa_next f + Suc k) mod n) [0..<length ?t]" by simp
    moreover have "fa_next f < n" using Cons.prems(2) by (simp add: fan_ok_def)
    ultimately have "concat (map turn_of xs) = map (\<lambda>k. (fa_next f + k) mod n) [0..<Suc (length ?t)]"
      by (simp add: xs x upt_conv_Cons comp_def flip: map_Suc_upt del: upt_Suc)
    moreover have "fa_next f' = (fa_next f + Suc (length ?t)) mod n" by (simp add: n' x(2) mod_simps)
    ultimately show ?thesis using IH order by (auto simp: xs x Let_def)
  qed
qed

text \<open>
  C34. The fan-out acceptor (\<open>fanout_accept_loop\<close>, \<open>fanout_worker_loop\<close>): whatever the connections and however the workers receive or
  end, connections are offered to the workers strictly in turn, a worker receives those sent to it in order, none twice and none it was not sent,
  and no inbox holds more than its cap, so at most \<open>n * 1024\<close> connections wait.
\<close>

theorem fanout_in_turn:
  assumes "0 < n" and "fanout_run events (fan_new n) = (effects, f)"
  shows "concat (map turn_of effects) = map (\<lambda>k. k mod n) [0..<length (concat (map turn_of effects))] \<and>
     (\<forall>i < n. concat (map (sent_to i) effects) = concat (map (received_by i) effects) @ fa_inboxes f ! i) \<and>
     (\<forall>i < n. length (fa_inboxes f ! i) \<le> WORKER_INBOX_CAP) \<and>
     length (concat (fa_inboxes f)) \<le> n * WORKER_INBOX_CAP"
proof -
  note ok = fanout_run_ok [OF assms(2) fan_ok_new [OF assms(1)]]
  then have each: "length (fa_inboxes f) = n" "\<forall>q \<in> set (fa_inboxes f). length q \<le> WORKER_INBOX_CAP"
    by (simp_all add: fan_ok_def list_all_iff)
  then have "length (concat (fa_inboxes f)) \<le> n * WORKER_INBOX_CAP"
    using sum_list_mono [of "fa_inboxes f" length "\<lambda>_. WORKER_INBOX_CAP"] by (simp add: length_concat sum_list_triv)
  moreover have "fa_next (fan_new n :: 'a fan) = 0" "\<And>i. i < n \<Longrightarrow> fa_inboxes (fan_new n :: 'a fan) ! i = []"
    by (simp_all add: fan_new_def)
  moreover have "\<forall>i < n. length (fa_inboxes f ! i) \<le> WORKER_INBOX_CAP" using each by simp
  ultimately show ?thesis using ok by (simp add: Let_def)
qed

theorem fanout_in_turn_witness:
  "\<exists>effects f. fanout_run [FanAccept (Ok 5), FanAccept (Ok 6), FanReceive 0, FanAccept (Ok (7 :: nat))] (fan_new 2) = (effects, f) \<and>
     effects = [Sent 0 5, Sent 1 6, Received 0 5, Sent 0 7] \<and> concat (map turn_of effects) = [0, 1, 0] \<and> fa_inboxes f = [[7], [6]]"
proof -
  let ?run = "fanout_run [FanAccept (Ok 5), FanAccept (Ok 6), FanReceive 0, FanAccept (Ok (7 :: nat))] (fan_new 2)"
  obtain effects f where run: "?run = (effects, f)" by force
  then have "effects = [Sent 0 5, Sent 1 6, Received 0 5, Sent 0 7] \<and> fa_inboxes f = [[7], [6]]"
    by (auto simp: fan_new_def fanout_accept_def WORKER_INBOX_CAP_def numeral_2_eq_2 Let_def)
  with fanout_in_turn [OF _ run] run show ?thesis by (auto simp: upt_rec)
qed

end
