(* ===== verification/Server_Run.thy ===== *)
theory Server_Run
  imports Tpc
begin

section \<open>Running a server (\<open>src/app.rs\<close>)\<close>

text \<open>
  \<open>ServerRun::serve\<close> and the runs it chooses among: what each builds (a worker pool, workers, the main-interpreter bridge), serves with,
  and ends. What is outside (the interpreter, threads, the runtime, signals) is the input \<open>run_host\<close>; the builds and
  ends of a run are its second result, in their order.

  The results: however a run goes, it ends what it built, in order, each worker exactly once; the workers of its
  pools that do not finish in time are kept for the app's caller; a server stops when it is told to.
\<close>

subsection \<open>The program and the workers\<close>

datatype ProgramError = NoMainFile PyErr | Unreadable string

definition app_program ::
    "(string, PyErr) result \<Rightarrow> (string \<Rightarrow> (string, string) result) \<Rightarrow> (string, PyErr) result list \<Rightarrow> AppSource \<Rightarrow> (WorkerProgram, ProgramError) result" where
  "app_program main_file contents sys_path app =
     and_then (case as_script_path app of Some path \<Rightarrow> Ok path | None \<Rightarrow> map_err NoMainFile main_file) (\<lambda>script_path.
       map_err Unreadable (program_read (contents script_path) sys_path script_path (as_isolated app)))"

datatype 'e RunError =
    ProgramFailed ProgramError
  | SplitFailed SplitError
  | PoolFailed "'e PoolError"
  | OffMain
  | WorkerFailed 'e
  | BridgeFailed BridgeSpawnError
  | ServeFailed ServeError
  | RuntimeUnbuilt string
  | LoopFailed ListenerError

text \<open>What a run meets outside. \<open>rh_pool_threads\<close> is how the pool's threads are found when they are joined.\<close>

record ('w, 'e) run_host =
  rh_on_main :: bool
  rh_main_file :: "(string, PyErr) result"
  rh_contents :: "string \<Rightarrow> (string, string) result"
  rh_sys_path :: "(string, PyErr) result list"
  rh_new_inline :: "WorkerSpec \<Rightarrow> nat \<Rightarrow> ('w, 'e) result"
  rh_new_async :: "WorkerSpec \<Rightarrow> nat \<Rightarrow> ('w, 'e) result"
  rh_spawn_pool :: "nat \<Rightarrow> (unit, string) result"
  rh_pool_threads :: "WorkerThread list"
  rh_spawn_bridge :: "nat \<Rightarrow> (unit, io_error) result"
  rh_watcher :: "(unit, io_error) result"
  rh_spawn :: "nat \<Rightarrow> (unit, io_error) result"
  rh_fate :: "nat \<Rightarrow> thread_fate"
  rh_acceptor :: "(thread_end, io_error) result"
  rh_runtime :: "(unit, string) result"
  rh_registered :: "SocketAddr \<Rightarrow> (unit, io_error) result"

datatype 'w run_event =
    PoolStarted "'w started"
  | PoolNotStarted "'w started"
  | PoolJoined "AbandonedWorker list"
  | WorkersBuilt "'w list"
  | WorkersEnded "'w ended_workers"
  | BridgeStarted nat
  | BridgeJoined ShutdownJoin

definition build_pool ::
    "('w, 'e) run_host \<Rightarrow> WorkerSplit \<Rightarrow> ('r, 'py, 'h) Site \<Rightarrow> u64 \<Rightarrow> WorkerProgram \<Rightarrow> AppSource \<Rightarrow>
     (unit, 'e PoolError) result \<times> 'w started" where
  "build_pool rh split site gc program app =
     (let spec = worker_spec program (route_signature_of (site_routes site)) site gc (as_shared_state app)
      in pool_start (rh_new_inline rh spec) (rh_new_async rh spec) (rh_spawn_pool rh) split)"

text \<open>The workers, or the error with the workers built before it, which are ended.\<close>

definition build_tpc_workers ::
    "('w, 'e) run_host \<Rightarrow> nat \<Rightarrow> ('r, 'py, 'h) Site \<Rightarrow> u64 \<Rightarrow> WorkerProgram \<Rightarrow> handle \<Rightarrow> ('w list, 'e RunError \<times> 'w list) result" where
  "build_tpc_workers rh n site gc program shared_state =
     (if \<not> rh_on_main rh then Err (OffMain, [])
      else (let spec = worker_spec program (route_signature_of (site_routes site)) site gc shared_state
            in map_err (map_prod WorkerFailed id) (build_from (rh_new_inline rh spec) [0..<n] [])))"

text \<open>\<open>join_pool\<close>: the workers still running go to the app's list.\<close>

definition join_pool :: "string list \<Rightarrow> WorkerThread list \<Rightarrow> AbandonedWorker list \<Rightarrow> AbandonedWorker list \<times> AbandonedWorker list" where
  "join_pool route_names threads kept =
     (let abandoned = join_within route_names threads in (abandoned, kept @ abandoned))"

subsection \<open>Stopping\<close>

datatype stop_event = Signalled | SignalUnavailable string | StopCancelled

text \<open>\<open>until_stopped\<close>: whether it has returned, with the token cancelled, after these events.\<close>

fun until_stopped :: "bool \<Rightarrow> stop_event list \<Rightarrow> bool" where
  "until_stopped signals [] = False"
| "until_stopped signals (StopCancelled # events) = True"
| "until_stopped signals (Signalled # events) = (signals \<or> until_stopped signals events)"
| "until_stopped signals (SignalUnavailable e # events) = until_stopped False events"

lemma until_stopped_cancelled: "StopCancelled \<in> set events \<Longrightarrow> until_stopped signals events"
  by (induction signals events rule: until_stopped.induct) auto

lemma until_stopped_iff:
  "until_stopped signals events \<longleftrightarrow>
     StopCancelled \<in> set events \<or>
     signals \<and> Signalled \<in> set (takeWhile (\<lambda>e. \<not> (\<exists>m. e = SignalUnavailable m)) events)"
  by (induction signals events rule: until_stopped.induct) auto

subsection \<open>The runs\<close>

definition route_names :: "('r, 'py, 'h) Site \<Rightarrow> string list" where
  "route_names site = map (\<lambda>(verb, path, gil). verb @ '' '' @ path) (sig_routes (route_signature_of (site_routes site)))"

text \<open>
  The multi-thread server: its runtime, its accept loops, and the stop. It returns once it is stopped.
\<close>

definition serve_multi_thread ::
    "('w, 'e) run_host \<Rightarrow> ('k, 't) Listener list list \<Rightarrow> (unit, 'e RunError) result" where
  "serve_multi_thread rh groups =
     and_then (map_err RuntimeUnbuilt (rh_runtime rh)) (\<lambda>_.
       map_ok (\<lambda>_. ()) (map_err LoopFailed (try_map (accept_source_new (\<lambda>l. rh_registered rh (ln_addr l))) groups)))"

definition run_gil :: "('w, 'e) run_host \<Rightarrow> ('r, 'py, 'h, 'k, 't) ServerRun \<Rightarrow> (unit, 'e RunError) result" where
  "run_gil rh run = serve_multi_thread rh (bl_groups (sr_listeners run))"

text \<open>Each run gives its result, what it built and ended, and the app's abandoned workers after it.\<close>

type_synonym ('w, 'e) run_result = "(unit, 'e RunError) result \<times> 'w run_event list \<times> AbandonedWorker list"

definition run_subinterp ::
    "('w, 'e) run_host \<Rightarrow> nat \<Rightarrow> ('r, 'py, 'h, 'k, 't) ServerRun \<Rightarrow> AbandonedWorker list \<Rightarrow> ('w, 'e) run_result" where
  "run_subinterp rh workers run kept =
     (let site = sr_site run; shape = route_shape_of (site_routes site)
      in case app_program (rh_main_file rh) (rh_contents rh) (rh_sys_path rh) (sr_app run) of
           Inl e \<Rightarrow> (Err (ProgramFailed e), [], kept)
         | Inr program \<Rightarrow>
             (case split_workers_for_routes workers (shape_gil shape) (shape_is_async shape) of
                Inl e \<Rightarrow> (Err (SplitFailed e), [], kept)
              | Inr split \<Rightarrow>
                  (case build_pool rh split site (of_nat (Config.gc_threshold (env_gc (sr_env run)))) program (sr_app run) of
                     (Inl e, st) \<Rightarrow> (Err (PoolFailed e), [PoolNotStarted st], kept)
                   | (Inr _, st) \<Rightarrow>
                       (let served = serve_multi_thread rh (bl_groups (sr_listeners run));
                            (abandoned, kept) = join_pool (route_names site) (rh_pool_threads rh) kept
                        in (served, [PoolStarted st, PoolJoined abandoned], kept)))))"

text \<open>\<open>end_async_pool\<close> of \<open>serve_tpc_workers\<close>.\<close>

definition end_async_pool ::
    "('w, 'e) run_host \<Rightarrow> string list \<Rightarrow> bool \<Rightarrow> AbandonedWorker list \<Rightarrow> 'w run_event list \<times> AbandonedWorker list" where
  "end_async_pool rh names threads kept =
     (if threads then (let (abandoned, kept) = join_pool names (rh_pool_threads rh) kept in ([PoolJoined abandoned], kept))
      else ([], kept))"

definition async_worker_count :: "nat \<Rightarrow> RouteShape \<Rightarrow> nat" where
  "async_worker_count threads shape =
     (let async_routes = async_count shape; sync_routes = length (shape_gil shape) - gil_count shape - async_routes
      in if 0 < async_routes then tpc_async_workers threads (0 < sync_routes) else 0)"

text \<open>
  Its second half, once the workers are built: the bridge, serving, and the ends. A context that is still referenced keeps its
  reference to the bridge.
\<close>

definition serve_built_workers ::
    "('w, 'e) run_host \<Rightarrow> ('r, 'py, 'h) Site \<Rightarrow> EnvConfig \<Rightarrow> bool \<Rightarrow> ('w list \<Rightarrow> (unit, ServeError) result \<times> 'w ended_workers) \<Rightarrow>
     'w list \<Rightarrow> AbandonedWorker list \<Rightarrow> ('w, 'e) run_result" where
  "serve_built_workers rh site env async_pool serving workers kept =
     (let names = route_names site;
          spawned = (if uses_main (site_routes site)
                     then map_ok Some (fst (bridge_spawn (rh_spawn_bridge rh) (env_bridge env) :: ('h MainInterpBridge, BridgeSpawnError) result \<times> nat))
                     else Ok None)
      in case spawned of
           Inl e \<Rightarrow>
             (let (joined, kept) = end_async_pool rh names async_pool kept
              in (Err (BridgeFailed e), WorkersEnded (none_ended\<lparr>ew_here := workers\<rparr>) # joined, kept))
         | Inr bridge \<Rightarrow>
             (let (served, ended) = serving workers;
                  (joined, kept) = end_async_pool rh names async_pool kept;
                  started = (case bridge of Some b \<Rightarrow> [BridgeStarted (length (mb_threads b))] | None \<Rightarrow> []);
                  bridge_joined = (case bridge of
                     Some b \<Rightarrow> [BridgeJoined (fst (shutdown_join (b\<lparr>mb_owners := Suc (length (ew_shared ended))\<rparr>)))] | None \<Rightarrow> [])
              in (map_err ServeFailed served, started @ WorkersEnded ended # joined @ bridge_joined, kept)))"

definition serve_tpc_workers ::
    "('w, 'e) run_host \<Rightarrow> nat \<Rightarrow> ('w list \<Rightarrow> (unit, ServeError) result \<times> 'w ended_workers) \<Rightarrow> ('r, 'py, 'h, 'k, 't) ServerRun \<Rightarrow>
     AbandonedWorker list \<Rightarrow> ('w, 'e) run_result" where
  "serve_tpc_workers rh threads serving run kept =
     (let site = sr_site run; env = sr_env run; app = sr_app run;
          trigger = of_nat (count_trigger (env_gc env));
          async_workers = async_worker_count threads (route_shape_of (site_routes site)); async_pool = 0 < async_workers
      in case app_program (rh_main_file rh) (rh_contents rh) (rh_sys_path rh) app of
           Inl e \<Rightarrow> (Err (ProgramFailed e), [], kept)
         | Inr program \<Rightarrow>
             (let (pool, pool_events) =
                (if async_pool
                 then (let (r, st) = build_pool rh \<lparr>sync_workers = 0, async_workers = async_workers\<rparr> site trigger program app
                       in (r, [if isl r then PoolNotStarted st else PoolStarted st]))
                 else (Ok (), []))
              in case pool of
                   Inl e \<Rightarrow> (Err (PoolFailed e), pool_events, kept)
                 | Inr _ \<Rightarrow>
                     (case build_tpc_workers rh threads site trigger program (as_shared_state app) of
                        Inl (e, built) \<Rightarrow>
                          (let (joined, kept) = end_async_pool rh (route_names site) async_pool kept
                           in (Err e, pool_events @ [WorkersBuilt built, WorkersEnded (none_ended\<lparr>ew_here := built\<rparr>)] @ joined, kept))
                      | Inr workers \<Rightarrow>
                          (let (r, events, kept) = serve_built_workers rh site env async_pool serving workers kept
                           in (r, pool_events @ WorkersBuilt workers # events, kept)))))"

text \<open>\<open>ServerRun::serve\<close>, for a server that was not stopped before it served (\<open>server_serve\<close>).\<close>

definition run_serve ::
    "('w, 'e) run_host \<Rightarrow> ('r, 'py, 'h, 'k, 't) ServerRun \<Rightarrow> AbandonedWorker list \<Rightarrow> ('w, 'e) run_result" where
  "run_serve rh run kept =
     (let groups = bl_groups (sr_listeners run)
      in case sr_topology run of
           TpcGil threads \<Rightarrow>
             (map_err ServeFailed (run_tpc_gil (rh_watcher rh) (rh_spawn rh) (\<lambda>i. fate_end (rh_fate rh i)) groups), [], kept)
         | TpcWorkers threads \<Rightarrow>
             serve_tpc_workers rh threads (run_per_thread_listener (rh_watcher rh) (rh_spawn rh) (rh_fate rh) groups) run kept
         | TpcFanout threads \<Rightarrow>
             serve_tpc_workers rh threads (run_fanout (rh_watcher rh) (rh_spawn rh) (rh_fate rh) (rh_acceptor rh)) run kept
         | MultiThreadGil io_threads loops \<Rightarrow> (run_gil rh run, [], kept)
         | Pool workers io_threads loops \<Rightarrow> run_subinterp rh workers run kept)"

subsection \<open>A run ends what it built\<close>

fun event_rank :: "'w run_event \<Rightarrow> nat" where
  "event_rank (PoolStarted st) = 0"
| "event_rank (PoolNotStarted st) = 0"
| "event_rank (WorkersBuilt ws) = 1"
| "event_rank (BridgeStarted n) = 2"
| "event_rank (WorkersEnded e) = 3"
| "event_rank (PoolJoined a) = 4"
| "event_rank (BridgeJoined j) = 5"

fun built_of :: "'w run_event \<Rightarrow> 'w multiset" where
  "built_of (WorkersBuilt ws) = mset ws"
| "built_of _ = {#}"

fun ended_of :: "'w run_event \<Rightarrow> 'w multiset" where
  "ended_of (WorkersEnded e) = ew_all e"
| "ended_of _ = {#}"

fun abandoned_of :: "'w run_event \<Rightarrow> AbandonedWorker list" where
  "abandoned_of (PoolJoined a) = a"
| "abandoned_of _ = []"

fun clean_event :: "'w run_event \<Rightarrow> bool" where
  "clean_event (WorkersEnded e) = (ew_lost e = {#})"
| "clean_event (BridgeJoined j) = (j = JoinsAll)"
| "clean_event (PoolNotStarted st) = (started_leaked st = [])"
| "clean_event _ = True"

text \<open>A pool that does not start leaves nothing running, and loses the worker whose own thread could not be spawned, and only that one.\<close>

fun leaked_by :: "(unit, 'e RunError) result \<Rightarrow> nat" where
  "leaked_by (Inl (PoolFailed (PoolSpawn i source))) = 1"
| "leaked_by _ = 0"

definition not_started_ok :: "(unit, 'e RunError) result \<Rightarrow> 'w run_event \<Rightarrow> bool" where
  "not_started_ok r e \<longleftrightarrow> (case e of PoolNotStarted st \<Rightarrow> started_running st = [] \<and> length (started_leaked st) = leaked_by r | _ \<Rightarrow> True)"

text \<open>Everything a run starts is ended, after it and in order.\<close>

definition ends_all :: "AbandonedWorker list \<Rightarrow> ('w, 'e) run_result \<Rightarrow> bool" where
  "ends_all kept res \<longleftrightarrow>
     (let events = fst (snd res)
      in sorted_wrt (<) (map event_rank events) \<and>
         sum_list (map ended_of events) = sum_list (map built_of events) \<and>
         ((\<exists>st. PoolStarted st \<in> set events) \<longleftrightarrow> (\<exists>a. PoolJoined a \<in> set events)) \<and>
         ((\<exists>n. BridgeStarted n \<in> set events) \<longleftrightarrow> (\<exists>j. BridgeJoined j \<in> set events)) \<and>
         list_all (not_started_ok (fst res)) events \<and>
         snd (snd res) = kept @ concat (map abandoned_of events))"

lemma build_from_length: "build_from mk is built = Ok ws \<Longrightarrow> length ws = length built + length is"
  by (induction mk "is" built rule: build_from.induct) (auto split: sum.splits)

lemma built_workers_length: "build_tpc_workers rh n site gc program shared_state = Ok ws \<Longrightarrow> length ws = n"
  by (auto simp: build_tpc_workers_def map_err_def Let_def split: if_splits sum.splits dest: build_from_length)

lemma build_pool_failed:
  assumes "build_pool rh split site gc program app = (Err e, st)"
  shows "not_started_ok (Err (PoolFailed e)) (PoolNotStarted st)" and "\<forall>i. \<not> isl (rh_spawn_pool rh i) \<Longrightarrow> started_leaked st = []"
  using assms failed_start unfolding build_pool_def Let_def
  by (auto simp: not_started_ok_def failed_start split: PoolError.splits)

lemma not_started_others [simp]:
  "not_started_ok r (PoolStarted st)" "not_started_ok r (PoolJoined a)" "not_started_ok r (WorkersBuilt ws)"
  "not_started_ok r (WorkersEnded e)" "not_started_ok r (BridgeStarted n)" "not_started_ok r (BridgeJoined j)"
  by (simp_all add: not_started_ok_def)

lemma clean_no_shared: "ew_lost e = {#} \<Longrightarrow> ew_shared e = []"
  by (simp add: ew_lost_def)

lemmas run_events = serve_built_workers_def end_async_pool_def join_pool_def Let_def map_ok_def map_err_def

text \<open>The second half of a thread-per-core run: \<open>serving\<close> accounts for the workers it is given.\<close>

definition serves_all :: "('w list \<Rightarrow> (unit, ServeError) result \<times> 'w ended_workers) \<Rightarrow> 'w list \<Rightarrow> bool" where
  "serves_all serving workers \<longleftrightarrow> ew_all (snd (serving workers)) = mset workers"

lemma serve_built_ends:
  assumes "serves_all serving workers"
    and "serve_built_workers rh site env async_pool serving workers kept = (r, events, kept')"
  shows "sorted_wrt (<) (1 # map event_rank events)"
    and "sum_list (map ended_of events) = mset workers" and "sum_list (map built_of events) = {#}"
    and "(\<exists>a. PoolJoined a \<in> set events) = async_pool" and "\<forall>st. PoolStarted st \<notin> set events"
    and "(\<exists>n. BridgeStarted n \<in> set events) \<longleftrightarrow> (\<exists>j. BridgeJoined j \<in> set events)"
    and "kept' = kept @ concat (map abandoned_of events)"
    and "ew_lost (snd (serving workers)) = {#} \<Longrightarrow> list_all clean_event events"
    and "list_all (not_started_ok r) events"
  using assms
  by (auto simp: run_events serves_all_def shutdown_join_def clean_no_shared split: sum.splits prod.splits if_splits option.splits)

lemma pool_events_ends:
  assumes "serves_all serving workers" and "serve_built_workers rh site env async_pool serving workers kept = (r, events, kept')"
  shows "ends_all kept (r, (if async_pool then [PoolStarted st] else []) @ WorkersBuilt workers # events, kept')"
proof -
  note ends = serve_built_ends [OF assms]
  have "list_all (\<lambda>n. 0 < n) (map event_rank events)" using ends(1) by (auto simp: list_all_iff)
  with ends show ?thesis by (auto simp: ends_all_def Let_def list_all_iff)
qed

lemma serve_tpc_workers_ends:
  assumes "\<And>workers. length workers = threads \<Longrightarrow> serves_all serving workers"
  shows "ends_all kept (serve_tpc_workers rh threads serving run kept)"
proof -
  have "ends_all kept (r, (if ap then [PoolStarted st] else []) @ WorkersBuilt workers # events, kept')"
    if "build_tpc_workers rh threads site gc program shared_state = Ok workers"
      "serve_built_workers rh site env ap serving workers kept = (r, events, kept')"
    for site :: "('r, 'py, 'h) Site" and gc program shared_state workers env ap r events kept' st
    using pool_events_ends [OF assms [OF built_workers_length [OF that(1)]] that(2)] .
  note served = this [of "sr_site run"]
  show ?thesis
    using served [where ap = True] served [where ap = False]
    by (auto simp: build_pool_failed serve_tpc_workers_def ends_all_def [of _ "(Err _, _)"] end_async_pool_def join_pool_def Let_def
        split: sum.splits prod.splits if_splits)
qed

lemma serve_tpc_workers_clean:
  assumes "\<forall>i. \<not> isl (rh_spawn_pool rh i)"
    and "\<And>workers. length workers = threads \<Longrightarrow> serves_all serving workers \<and> ew_lost (snd (serving workers)) = {#}"
  shows "list_all clean_event (fst (snd (serve_tpc_workers rh threads serving run kept)))"
proof -
  have "list_all clean_event events"
    if "build_tpc_workers rh threads site gc program shared_state = Ok workers"
      "serve_built_workers rh site env ap serving workers kept = (r, events, kept')"
    for site :: "('r, 'py, 'h) Site" and gc program shared_state workers env ap r events kept'
    using serve_built_ends(8) [OF _ that(2)] assms(2) [OF built_workers_length [OF that(1)]] by blast
  note served = this [of "sr_site run"]
  show ?thesis
    using served build_pool_failed(2) [OF _ assms(1)] by (auto simp: serve_tpc_workers_def end_async_pool_def join_pool_def Let_def split: sum.splits prod.splits if_splits)
qed

lemma run_subinterp_ends:
  "ends_all kept (run_subinterp rh workers run kept)"
  "\<forall>i. \<not> isl (rh_spawn_pool rh i) \<Longrightarrow> list_all clean_event (fst (snd (run_subinterp rh workers run kept)))"
  by (auto simp: run_subinterp_def ends_all_def join_pool_def build_pool_failed Let_def split: sum.splits prod.splits)

lemma per_thread_serves:
  "serves_all (run_per_thread_listener watcher spawn fate groups) workers"
  "\<forall>k. \<not> loses (fate k) \<Longrightarrow> length workers \<le> length groups \<Longrightarrow>
     ew_lost (snd (run_per_thread_listener watcher spawn fate groups workers)) = {#}"
  by (cases "run_per_thread_listener watcher spawn fate groups workers"; simp add: serves_all_def run_per_thread_listener_ends)+

lemma fanout_serves:
  "serves_all (run_fanout watcher spawn fate acceptor) workers"
  "\<forall>k. \<not> loses (fate k) \<Longrightarrow> ew_lost (snd (run_fanout watcher spawn fate acceptor workers)) = {#}"
  by (cases "run_fanout watcher spawn fate acceptor workers"; simp add: serves_all_def run_fanout_ends)+

text \<open>A started server has as many listener groups as its topology has accept loops.\<close>

lemma started_groups:
  assumes "sockets S opened" and "app_start S ho clone a st = (Ok server, st')" and "srv_run server = Some run"
  shows "length (bl_groups (sr_listeners run)) = accept_loops (sr_topology run)"
proof -
  obtain app metrics w where st: "st = (app, metrics, w)" by (cases st)
  obtain re where re: "resolve_start ho a = Ok re" using assms(2) st by (auto simp: app_start_def split: sum.splits)
  obtain x w1 where b: "listeners_bind S (ho_os ho) (ho_windows ho) (re_specs re) (accept_loops (re_topology re)) w = (x, w1)" by force
  with bind_all_or_nothing [OF assms(1) b] re assms(2,3) st show ?thesis
    by (auto simp: app_start_def Let_def split: sum.splits list.splits)
qed

text \<open>
  C20. A server that \<open>start\<close> returned ends what it builds (\<open>ServerRun::serve\<close> with every topology's run): whichever of its starts fails,
  however its threads end, its run first ends its workers, then joins the async pool, then the bridge, each exactly if it was started, and
  after it was; every worker it built for its own threads is accounted for once; the pool workers that do not finish in time, and no others, are
  added to the app's abandoned ones. A pool that does not start leaves no worker running, and loses one worker exactly when it fails for a thread
  that could not be spawned, that thread's own. Where every pool thread can be spawned, no thread of a worker panicked and no context
  is still referenced, no worker built is lost and the bridge's threads are all joined.
\<close>

theorem server_run_ends_what_it_built:
  assumes "sockets S opened" and "app_start S ho clone a st = (Ok server, st')" and "srv_run server = Some run"
    and "run_serve rh run kept = (r, events, kept')"
  shows "sorted_wrt (<) (map event_rank events) \<and>
     sum_list (map ended_of events) = sum_list (map built_of events) \<and>
     ((\<exists>st. PoolStarted st \<in> set events) \<longleftrightarrow> (\<exists>a. PoolJoined a \<in> set events)) \<and>
     ((\<exists>n. BridgeStarted n \<in> set events) \<longleftrightarrow> (\<exists>j. BridgeJoined j \<in> set events)) \<and>
     kept' = kept @ concat (map abandoned_of events) \<and>
     list_all (not_started_ok r) events \<and>
     ((\<forall>i. \<not> loses (rh_fate rh i)) \<and> (\<forall>i. \<not> isl (rh_spawn_pool rh i)) \<longrightarrow> list_all clean_event events)"
proof -
  note groups = started_groups [OF assms(1-3)]
  have "ends_all kept (run_serve rh run kept)"
    by (auto simp: run_serve_def ends_all_def [of _ "(_, [], _)"] run_subinterp_ends Let_def
        intro!: serve_tpc_workers_ends per_thread_serves fanout_serves split: Topology.splits)
  moreover have "list_all clean_event (fst (snd (run_serve rh run kept)))" 
    if "\<forall>i. \<not> loses (rh_fate rh i)" "\<forall>i. \<not> isl (rh_spawn_pool rh i)"
    using that groups
    by (auto simp: run_serve_def run_subinterp_ends Let_def
        intro!: serve_tpc_workers_clean per_thread_serves fanout_serves split: Topology.splits)
  ultimately show ?thesis using assms(4) by (simp add: ends_all_def Let_def)
qed

text \<open>A server of two workers; the thread of the second one can't be spawned.\<close>

definition demo_run_host :: "(nat, string) run_host" where
  "demo_run_host =
     \<lparr>rh_on_main = True, rh_main_file = Ok ''app.py'', rh_contents = (\<lambda>_. Ok []), rh_sys_path = [],
      rh_new_inline = (\<lambda>_ i. Ok i), rh_new_async = (\<lambda>_ i. Ok i), rh_spawn_pool = (\<lambda>_. Ok ()), rh_pool_threads = [],
      rh_spawn_bridge = (\<lambda>_. Ok ()), rh_watcher = Ok (), rh_spawn = (\<lambda>i. if i = 0 then Ok () else Err addr_in_use),
      rh_fate = (\<lambda>_. ThreadServed (Inr (Ok ())) 1), rh_acceptor = Err addr_in_use, rh_runtime = Ok (), rh_registered = (\<lambda>_. Ok ())\<rparr>"

definition demo_worker_args :: StartArgs where
  "demo_worker_args = (demo_args ''127.0.0.1'')\<lparr>arg_mode := Some (ModeName ''subinterp'')\<rparr>"

theorem server_run_ends_what_it_built_witness:
  "\<exists>server run app m w r events kept. app_start kernel_sockets demo_host (\<lambda>f. f) demo_worker_args
       (snd (demo_made [view_call]), False, 0, []) = (Ok server, app, m, w) \<and> srv_run server = Some run \<and>
     run_serve demo_run_host run [] = (r, events, kept) \<and> r = Err (ServeFailed (SpawnFailed ''pyronova-tpc-1'' addr_in_use)) \<and>
     WorkersBuilt [0, 1] \<in> set events \<and> list_all clean_event events"
proof -
  let ?start = "app_start kernel_sockets demo_host (\<lambda>f. f) demo_worker_args (snd (demo_made [view_call]), False, 0, [])"
  have ok: "resolve_start demo_host demo_worker_args =
      Ok \<lparr>re_specs = [\<lparr>ls_addr = \<lparr>sa_ip = V4 [127, 0, 0, 1], sa_port = 80\<rparr>, ls_tls = None\<rparr>], re_topology = TpcWorkers 2,
          re_env = the (res_ok (env_parse Linux (\<lambda>_. None)))\<rparr>"
    by (simp add: demo_worker_args_def resolve_simps res_ok_def)
  note demo_binds
  moreover have "ho_os demo_host = Linux" "ho_windows demo_host = False" by (simp_all add: demo_host_def)
  ultimately have "\<exists>server run app m w. ?start = (Ok server, app, m, w) \<and> srv_run server = Some run \<and> sr_topology run = TpcWorkers 2 \<and>
      sr_site run = snapshot (\<lambda>f. f) (seal_if_unsealed (snd (demo_made [view_call])))"
    by (auto simp: app_start_def ok Let_def)
  then obtain server run app m w where start: "?start = (Ok server, app, m, w)" "srv_run server = Some run" "sr_topology run = TpcWorkers 2"
    and site: "sr_site run = snapshot (\<lambda>f. f) (seal_if_unsealed (snd (demo_made [view_call])))" by blast
  have groups: "length (bl_groups (sr_listeners run)) = 2"
    using started_groups [OF kernel.sockets_axioms start(1,2)] start(3) by simp
  obtain r events kept where run: "run_serve demo_run_host run [] = (r, events, kept)" by (metis prod_cases3)
  have "list_all clean_event events"
    using server_run_ends_what_it_built [OF kernel.sockets_axioms start(1,2) run] by (simp add: demo_run_host_def)
  moreover obtain g1 g2 where gs: "bl_groups (sr_listeners run) = [g1, g2]"
    using groups by (auto simp: length_Suc_conv numeral_2_eq_2)
  have routes: "site_routes (sr_site run) = clone_ref (\<lambda>f. f) (app_routes (seal_if_unsealed (snd (demo_made [view_call]))))"
    by (simp add: site snapshot_def)
  have program: "\<exists>program. app_program (Ok ''app.py'') (\<lambda>_. Ok []) [] (sr_app run) = Ok program"
    by (cases "as_script_path (sr_app run)") (simp_all add: app_program_def program_read_def)
  have shape: "async_worker_count 2 (route_shape_of (site_routes (sr_site run))) = 0" "\<not> uses_main (site_routes (sr_site run))"
    by (simp_all add: routes demo_made_view clone_ref_def route_table_new_def threads_table_def route_shape_of_def async_worker_count_def
        async_count_def uses_main_def Let_def)
  have one: "show_nat (Suc 0) = ''1''" by code_simp
  have "r = Err (ServeFailed (SpawnFailed ''pyronova-tpc-1'' addr_in_use)) \<and> WorkersBuilt [0, 1] \<in> set events"
    using run program
    by (auto simp: run_serve_def start(3) gs serve_tpc_workers_def demo_run_host_def shape build_tpc_workers_def serve_built_workers_def
        end_async_pool_def run_per_thread_listener_def watch_or_end_def spawn_stop_watcher_def thread_name_def one upt_rec map_ok_def
        Let_def)
  ultimately show ?thesis using start run by blast
qed

end
