(* ===== verification/Spec2Isabelle.thy ===== *)
theory Spec2Isabelle
  imports Pg_Values Server_Run
begin

text \<open>
  \<^bold>\<open>The Pyronova engine.\<close> Pyronova is a Python web framework whose server is written in Rust (\<open>src/src/\<close>). Python
  code registers routes, hooks, static mounts and settings on an app; the engine accepts HTTP requests,
  matches them and runs the handler on the main interpreter, on a pool of sub-interpreter workers, or in
  the thread that accepted the connection. This development models the engine's own logic and proves
  the properties it relies on.

  \<^bold>\<open>Parts and theories.\<close> Paths are below \<open>src/src/\<close>.

  \<^item> \<open>Prelude\<close>: machine integers (\<open>u8\<close>, \<open>u32\<close>, \<open>u64\<close> as words), \<open>result\<close> as a sum, strings, ASCII and UTF-8 helpers,
    the list, option and word lemmas that are shared.
  \<^item> \<open>Crates\<close>: the interfaces of the third-party crates, each a record of operations with its documented laws
    as a locale: \<open>http_crate\<close> (header maps), \<open>route_matcher\<close> (matchit), \<open>dash_map\<close> (dashmap), \<open>semaphore\<close>
    (tokio). Each is interpreted on an executable implementation, so that its laws are satisfiable.
  \<^item> \<open>Config\<close>: \<open>config.rs\<close>, reading the environment and choosing the topology.
  \<^item> \<open>Request_Id\<close>: \<open>request_id.rs\<close>, minting ids on many threads with wrapping counters.
  \<^item> \<open>Errors\<close>: \<open>error.rs\<close>, the failures a request can end with, the count of refusals and the log line.
  \<^item> \<open>Response\<close>: \<open>response.rs\<close>, \<open>types/response.rs\<close>, \<open>handlers/error.rs\<close>, what a handler's value or a failure becomes.
  \<^item> \<open>Static_Files\<close>: \<open>static_fs.rs\<close>, mounts, the path a request names, opening it and the cache with its cap.
  \<^item> \<open>Router\<close>: \<open>router.rs\<close>, registration, lookup by method, \<open>HEAD\<close> and \<open>Allow\<close>, fast responses.
  \<^item> \<open>Body\<close>: \<open>body.rs\<close>, \<open>python/body_stream.rs\<close>, buffered and streamed bodies, limits, the admission gate.
  \<^item> \<open>Compression\<close>: \<open>compression.rs\<close>, negotiation and the pool of buffers.
  \<^item> \<open>Stream\<close>: \<open>python/stream.rs\<close>, bounded streams and server-sent events.
  \<^item> \<open>Request\<close>: \<open>request_head.rs\<close>, \<open>types/request.rs\<close>, what a handler can read of a request.
  \<^item> \<open>WebSocket\<close>: \<open>websocket.rs\<close>, slots, byte budgets, inbox, outbox, the upgrade.
  \<^item> \<open>Site\<close>: \<open>site.rs\<close> and the counters of \<open>monitor.rs\<close>: CORS, limits, the sampled access log.
  \<^item> \<open>Hook_Chain\<close>: \<open>python/hook_chain.rs\<close>, \<open>python/request_context.rs\<close>, \<open>handlers.rs\<close>, a request on the main interpreter.
  \<^item> \<open>Grpc\<close>: \<open>grpc.rs\<close>, the benchmark service.
  \<^item> \<open>Pipeline\<close>: \<open>handlers/pipeline.rs\<close>, \<open>gil.rs\<close>, \<open>subinterp.rs\<close>, \<open>tpc.rs\<close>, the serving paths composed of the above.
  \<^item> \<open>Pool\<close>: \<open>python/pool.rs\<close>, \<open>python/worker_api.rs\<close>, the pool of workers as a transition system.
  \<^item> \<open>Shared_State\<close>: \<open>state.rs\<close>, the key-value state of an app and who shares it.
  \<^item> \<open>Worker_Serve\<close>, \<open>Worker_Start\<close>: \<open>python/worker.rs\<close>, \<open>python/worker_app.rs\<close>, the life of one sub-interpreter.
  \<^item> \<open>Listeners\<close>: \<open>server/listener.rs\<close>, \<open>server/cpu.rs\<close>, binding the sockets of a run, accepting in turn, counting processors.
  \<^item> \<open>App\<close>: \<open>app.rs\<close>, the app object: registration, settings, the seal, the snapshot a server takes, \<open>start\<close>.
  \<^item> \<open>Bridge\<close>: \<open>bridge/main_bridge.rs\<close>, the main-interpreter threads as a transition system.
  \<^item> \<open>Tpc\<close>: \<open>tpc.rs\<close>, \<open>conn_driver.rs\<close>, serving threads and connections, the idle collector, fanning out.
  \<^item> \<open>Server_Run\<close>: \<open>app.rs\<close>, \<open>ServerRun::serve\<close>: what the run of each topology builds, serves with and ends.
  \<^item> \<open>Json\<close>: \<open>json.rs\<close>, which decoder a JSON text goes to.
  \<^item> \<open>Numeric\<close>, \<open>Pg_Values\<close>: \<open>db/numeric.rs\<close> and \<open>db/kind.rs\<close>, \<open>param.rs\<close>, \<open>cell.rs\<close>, \<open>error.rs\<close>, what goes to and
    comes from Postgres.

  \<^bold>\<open>How the parts interact.\<close> \<open>Pipeline\<close> is the centre. \<open>preprocess\<close> answers a gRPC call or a fast response, or looks the
  request up in the route table and else in the fallback and the static mounts; the paths \<open>handle_request\<close>,
  \<open>handle_request_subinterp\<close> and \<open>handle_request_tpc_inline\<close> read the body (\<open>Body\<close>), hand the request over and wait, build the response
  (\<open>Response\<close>, \<open>Compression\<close>, \<open>Stream\<close>) and end in \<open>finish\<close> (\<open>Site\<close>). What runs the handler is the record
  \<open>backend\<close>: its answers are what \<open>Hook_Chain\<close>, \<open>Pool\<close> and \<open>Worker_Serve\<close> describe from the other side. The
  hypothesis \<open>plain_worker\<close> the pipeline has of a worker is proved of the modelled one at the end of this theory. Around it
  stands the server: calls on an \<open>App\<close> make the site it serves, well-formed as the pipeline assumes it; \<open>start\<close> binds its
  \<open>Listeners\<close>; \<open>Server_Run\<close> builds \<open>Pool\<close>, workers (\<open>Worker_Start\<close>) and \<open>Bridge\<close>, and runs threads (\<open>Tpc\<close>) whose connections
  call the pipeline.

  \<^bold>\<open>State.\<close> A mutable struct is a record that operations return updated; a counter has its width (wrapping
  \<open>u64\<close> counters are words); \<open>usize\<close> lengths are naturals, with \<open>USIZE_MAX\<close> written out where the code
  compares against it. Atomics and concurrent maps are changed by single steps, and what several
  threads do is a list of steps in any order (\<open>Request_Id\<close>, \<open>Static_Files\<close>, \<open>WebSocket\<close>, \<open>Shared_State\<close>) or an
  inductive step relation (\<open>Pool\<close>, \<open>Bridge\<close>). Errors are values of a sum type; a panic is \<open>None\<close> or a value, where it is caught.

  \<^bold>\<open>Parameters.\<close> The interpreter is a parameter wherever it is called: \<open>python_runtime\<close> (\<open>Hook_Chain\<close>), \<open>cpython\<close>,
  \<open>worker_runtime\<close> and \<open>init_runtime\<close> (the workers), \<open>interp\<close> (\<open>Response\<close>). So are codecs (\<open>Compression\<close>,
  \<open>pg_wire\<close> of \<open>Pg_Values\<close>), the file system, the clock and what arrives on a socket. Locales state what is relied on:
  \<open>body_gate\<close> is the contract of the two ways a buffered read is admitted, and is interpreted on both;
  \<open>shared_map\<close> is the state object over any concurrent map; \<open>sockets\<close> is what a kernel promises of sockets it opens and closes,
  interpreted on a small kernel. How threads start and end and what a run meets outside are the fields of \<open>run_host\<close>.

  \<^bold>\<open>Termination.\<close> No definition uses fuel: loops recurse on the data they consume, or on a measure. The transition system of
  the pool need not stop while callers arrive; a closed one does, by a measure on queued and running work, and so does
  a bridge that nobody owns. Loops that wait for events run over a list of the events to come.

  \<^bold>\<open>What is shown.\<close>
  \<^item> Routing: no lookup leaves the table, registered routes are found, \<open>Allow\<close> is exact.
  \<^item> Confinement: static paths stay below their mount; responses to failures reveal nothing internal; server-sent
    events cannot be injected.
  \<^item> Resources: caches, buffer pools, slots, byte budgets and permits stay within bounds under every
    interleaving and are given back; a worker's interpreter is ended, the panics and failed spawns that lose one being stated where they can.
  \<^item> Requests: each is answered, finished and accounted for once; none is lost in the pool, which
    refines a table of calls and drains when it is closed.
  \<^item> Servers: an app's site is well-formed whatever was called on it, and fixed once it is sealed; starting opens all its sockets or none; a
    run ends what it built, in order, whatever fails; the idle collector and the acceptor keep to their specifications.
  \<^item> Handlers: hooks and handler run in order, the handler only after its before hooks, in one context, on the main
    interpreter and on workers; a worker serves the main interpreter's routes.
  \<^item> Data: streamed bodies equal buffered ones, query reads agree, \<open>NUMERIC\<close> and parameters read back (an aware time outside the years of UTC apart),
    gRPC sums are right, shared counters add up.

  \<^bold>\<open>Not modelled.\<close> \<open>db.rs\<close> (queries, cursors and transactions are sqlx futures on its own runtime; what goes in and comes out is
  modelled), \<open>logging.rs\<close>, \<open>tls.rs\<close>, \<open>run_context.rs\<close> (calls into other crates and the interpreter with no state of
  their own), \<open>bench.rs\<close> and \<open>leak_detect.rs\<close> (developer tools). In the modelled files: banners and log lines other than those of failed
  requests and the access log; thread pinning, QoS and \<open>TCP_QUICKACK\<close>, which only tune; the waiting time of a drain; the
  bench entry points and the getters of \<open>app.rs\<close>; \<open>Drop\<close> of values that hold no resource of the model. The HTTP protocol of
  a connection is hyper's.
\<close>

section \<open>The worker under the pipeline\<close>

text \<open>
  A backend whose inline worker is the modelled sub-interpreter worker, in whatever state each request finds
  it, never answers with a refusal: refusals are the engine's own and counted where they are made.
\<close>

lemma worker_backend_plain:
  assumes "worker_runtime C alive cleared R"
    and "\<And>rid rq. \<exists>wk w wk' w'. worker_serve C R H P rid rq wk w = Some (fst (bk_serve bk rid rq), wk', w')"
  shows "plain_worker bk"
  unfolding plain_worker_def
proof (intro allI impI)
  fix rid rq e
  assume "fst (bk_serve bk rid rq) = Err e"
  then show "\<not> is_refused e" using assms worker_never_refuses not_refused by metis
qed

end
